(* ===== verification/Prelude.thy ===== *)
theory Prelude
  imports Main "HOL-Library.Char_ord" "HOL-Library.List_Lexorder"
begin

text \<open>
  What the components share: the result of a fallible step, the rows of a table as a list, the
  decimal text of a number, JSON values, and the closure of a recursive query.

  \<^item> \<open>'e + 'a\<close> is the result of code that may throw: \<open>Inl e\<close> the error,
    \<open>Inr x\<close> the value. \<open>bindE\<close> runs the next step on a value and passes an error on,
    as an exception does.
  \<^item> A table is the list of its rows. \<open>find_row\<close> is a read by primary key, \<open>upd_row\<close> an
    \<open>update ... where id = k\<close> and \<open>del_row\<close> a delete.
  \<^item> \<open>reach\<close> is \<open>with recursive r as (seed union select ... join r)\<close>: the seed and everything
    an edge leads to from it, each row once, in rounds, as Postgres evaluates it.
  Text is compared by code unit, the order of JavaScript's \<open><\<close> and of the C collation.
\<close>

named_theorems row_simps \<open>reads after writes on a table's rows\<close>
named_theorems inv_intros \<open>an operation keeps an invariant\<close>

subsection \<open>Results\<close>

fun bindE :: "'e + 'a \<Rightarrow> ('a \<Rightarrow> 'e + 'b) \<Rightarrow> 'e + 'b" where
  "bindE (Inl e) f = Inl e"
| "bindE (Inr x) f = f x"

definition guardE :: "bool \<Rightarrow> 'e \<Rightarrow> 'e + unit" where
  "guardE c e = (if c then Inr () else Inl e)"

lemma bindE_Inr_iff [simp]: "bindE m f = Inr y \<longleftrightarrow> (\<exists>x. m = Inr x \<and> f x = Inr y)"
  by (cases m) auto

lemma guardE_Inr_iff [simp]: "guardE c e = Inr u \<longleftrightarrow> c"
  by (simp add: guardE_def)

lemma guardE_True [simp]: "guardE True e = Inr ()"
  and guardE_False [simp]: "guardE False e = Inl e"
  by (simp_all add: guardE_def)

lemma bindE_assoc: "bindE (bindE m f) g = bindE m (\<lambda>x. bindE (f x) g)"
  by (cases m) auto

definition isOk :: "'e + 'a \<Rightarrow> bool" where
  "isOk r = (case r of Inl _ \<Rightarrow> False | Inr _ \<Rightarrow> True)"

lemma isOk_simps [simp]: "isOk (Inr x)" "\<not> isOk (Inl e)"
  by (simp_all add: isOk_def)

lemma isOk_iff: "isOk r \<longleftrightarrow> (\<exists>x. r = Inr x)"
  by (cases r) auto

lemma isOk_bindE: "isOk (bindE m f) \<longleftrightarrow> (\<exists>x. m = Inr x \<and> isOk (f x))"
  by (cases m) auto

subsection \<open>Rows of a table\<close>

definition find_row :: "('r \<Rightarrow> 'k) \<Rightarrow> 'k \<Rightarrow> 'r list \<Rightarrow> 'r option" where
  "find_row key k rows = find (\<lambda>r. key r = k) rows"

definition upd_row :: "('r \<Rightarrow> 'k) \<Rightarrow> 'k \<Rightarrow> ('r \<Rightarrow> 'r) \<Rightarrow> 'r list \<Rightarrow> 'r list" where
  "upd_row key k f rows = map (\<lambda>r. if key r = k then f r else r) rows"

definition del_row :: "('r \<Rightarrow> 'k) \<Rightarrow> 'k \<Rightarrow> 'r list \<Rightarrow> 'r list" where
  "del_row key k rows = filter (\<lambda>r. key r \<noteq> k) rows"

lemma find_row_simps [simp]:
  "find_row key k [] = None"
  "find_row key k (r # rows) = (if key r = k then Some r else find_row key k rows)"
  by (simp_all add: find_row_def)

lemma upd_row_simps [simp]:
  "upd_row key k f [] = []"
  "upd_row key k f (r # rows) = (if key r = k then f r else r) # upd_row key k f rows"
  by (simp_all add: upd_row_def)

lemma find_row_Some: "find_row key k rows = Some r \<Longrightarrow> r \<in> set rows \<and> key r = k"
  by (induction rows) (auto split: if_splits)

lemma find_row_None [row_simps]: "find_row key k rows = None \<longleftrightarrow> k \<notin> key ` set rows"
  by (induction rows) auto

lemma find_row_unique:
  "distinct (map key rows) \<Longrightarrow> r \<in> set rows \<Longrightarrow> find_row key (key r) rows = Some r"
  by (induction rows) (auto simp: image_iff)

lemma distinct_key_eq:
  "distinct (map key rows) \<Longrightarrow> r \<in> set rows \<Longrightarrow> s \<in> set rows \<Longrightarrow> key r = key s \<Longrightarrow> r = s"
  by (induction rows) (auto simp: image_iff)

lemma find_row_append [row_simps]:
  "find_row key k (xs @ ys) = (case find_row key k xs of None \<Rightarrow> find_row key k ys | Some r \<Rightarrow> Some r)"
  by (induction xs) auto

lemma find_row_upd [row_simps]:
  assumes "\<And>r. key (f r) = key r"
  shows "find_row key k (upd_row key j f rows) =
    (if k = j then map_option f (find_row key k rows) else find_row key k rows)"
  using assms by (induction rows) auto

lemma find_row_del [row_simps]:
  "find_row key k (del_row key j rows) = (if k = j then None else find_row key k rows)"
  by (induction rows) (auto simp: del_row_def)

lemma map_key_upd [row_simps]: "(\<And>r. key (f r) = key r) \<Longrightarrow> map key (upd_row key j f rows) = map key rows"
  by (induction rows) auto

lemma map_upd_row: "(\<And>r. key r = j \<Longrightarrow> g (f r) = g r) \<Longrightarrow> map g (upd_row key j f rows) = map g rows"
  by (induction rows) auto

lemma length_upd_row [simp]: "length (upd_row key j f rows) = length rows"
  by (simp add: upd_row_def)

lemma set_upd_row: "set (upd_row key j f rows) = (\<lambda>r. if key r = j then f r else r) ` set rows"
  by (simp add: upd_row_def)

lemma set_del_row: "set (del_row key j rows) = {r \<in> set rows. key r \<noteq> j}"
  by (auto simp: del_row_def)

lemma distinct_del_row: "distinct (map key rows) \<Longrightarrow> distinct (map key (del_row key' j rows))"
  by (simp add: del_row_def distinct_map inj_on_def)

subsection \<open>A closure of the recursive queries\<close>

text \<open>One round of the recursive term: the rows the edges lead to from the working table.\<close>

definition succs :: "('a \<times> 'a) list \<Rightarrow> 'a list \<Rightarrow> 'a list" where
  "succs es work = map snd (filter (\<lambda>e. fst e \<in> set work) es)"

definition fresh_succs :: "('a \<times> 'a) list \<Rightarrow> 'a list \<Rightarrow> 'a list \<Rightarrow> 'a list" where
  "fresh_succs es seen work = remdups (filter (\<lambda>y. y \<notin> set seen) (succs es work))"

function reach_rounds :: "('a \<times> 'a) list \<Rightarrow> 'a list \<Rightarrow> 'a list \<Rightarrow> 'a list" where
  "reach_rounds es seen work =
     (let new = fresh_succs es seen work
      in if new = [] then seen else reach_rounds es (seen @ new) new)"
  by pat_completeness auto
termination
proof (relation "measure (\<lambda>(es, seen, work). card (snd ` set es - set seen))", goal_cases)
  case (2 es seen work new)
  have sub: "set new \<subseteq> snd ` set es - set seen"
    using 2 by (auto simp: fresh_succs_def succs_def)
  have "hd new \<in> set new" using 2 by simp
  then have "snd ` set es - set (seen @ new) \<subset> snd ` set es - set seen"
    using sub by auto
  then show ?case by (simp add: psubset_card_mono)
qed simp

declare reach_rounds.simps [simp del]

definition reach :: "('a \<times> 'a) list \<Rightarrow> 'a list \<Rightarrow> 'a list" where
  "reach es seed = reach_rounds es (remdups seed) (remdups seed)"

lemma set_fresh_succs: "set (fresh_succs es seen work) = set es `` set work - set seen"
  by (force simp: fresh_succs_def succs_def Image_def)

lemma reach_rounds_sound:
  "set seen \<subseteq> R \<Longrightarrow> set work \<subseteq> R \<Longrightarrow> set es `` R \<subseteq> R \<Longrightarrow> set (reach_rounds es seen work) \<subseteq> R"
proof (induction es seen work rule: reach_rounds.induct)
  case (1 es seen work)
  have new: "set (fresh_succs es seen work) \<subseteq> R"
    using "1.prems" by (auto simp: set_fresh_succs)
  show ?case
    using "1.IH"[OF refl] "1.prems" new by (simp add: reach_rounds.simps[of es seen work] Let_def)
qed

lemma reach_rounds_closed:
  "set work \<subseteq> set seen \<Longrightarrow> set es `` (set seen - set work) \<subseteq> set seen \<Longrightarrow>
   set seen \<subseteq> set (reach_rounds es seen work) \<and>
   set es `` set (reach_rounds es seen work) \<subseteq> set (reach_rounds es seen work)"
proof (induction es seen work rule: reach_rounds.induct)
  case (1 es seen work)
  let ?new = "fresh_succs es seen work"
  show ?case
  proof (cases "?new = []")
    case True
    then have "set es `` set work \<subseteq> set seen"
      using set_fresh_succs[of es seen work] by auto
    with "1.prems" have "set es `` set seen \<subseteq> set seen" by blast
    with True show ?thesis by (simp add: reach_rounds.simps[of es seen work] Let_def)
  next
    case False
    have "set es `` set seen \<subseteq> set (seen @ ?new)"
      using "1.prems"(2) by (auto simp: set_fresh_succs)
    then have "set es `` (set (seen @ ?new) - set ?new) \<subseteq> set (seen @ ?new)"
      by (simp add: Image_mono) blast
    with "1.IH"[OF refl False] False show ?thesis
      by (simp add: reach_rounds.simps[of es seen work] Let_def)
  qed
qed

theorem set_reach: "set (reach es seed) = (set es)\<^sup>* `` set seed"
proof
  have "set es `` ((set es)\<^sup>* `` set seed) \<subseteq> (set es)\<^sup>* `` set seed"
    by (auto intro: rtrancl_into_rtrancl)
  then show "set (reach es seed) \<subseteq> (set es)\<^sup>* `` set seed"
    unfolding reach_def by (intro reach_rounds_sound) auto
next
  have cl: "set seed \<subseteq> set (reach es seed) \<and> set es `` set (reach es seed) \<subseteq> set (reach es seed)"
    using reach_rounds_closed[of "remdups seed" "remdups seed" es] by (simp add: reach_def)
  then have "(set es)\<^sup>* `` set (reach es seed) \<subseteq> set (reach es seed)"
    by (simp add: Image_closed_trancl)
  with cl show "(set es)\<^sup>* `` set seed \<subseteq> set (reach es seed)" by blast
qed

corollary in_reach_iff: "y \<in> set (reach es seed) \<longleftrightarrow> (\<exists>x \<in> set seed. (x, y) \<in> (set es)\<^sup>*)"
  by (auto simp: set_reach)

subsection \<open>Relations that stay acyclic\<close>

lemma acyclic_insert_reach: "acyclic R \<Longrightarrow> (b, a) \<notin> R\<^sup>* \<Longrightarrow> acyclic (insert (a, b) R)"
  by (simp add: acyclic_insert)

lemma acyclic_sub: "acyclic R \<Longrightarrow> S \<subseteq> R \<Longrightarrow> acyclic S"
  by (rule acyclic_subset)

lemma rtrancl_sub: "(x, y) \<in> S\<^sup>* \<Longrightarrow> S \<subseteq> R \<Longrightarrow> (x, y) \<in> R\<^sup>*"
  using rtrancl_mono by blast

lemma trancl_sub: "(x, y) \<in> S\<^sup>+ \<Longrightarrow> S \<subseteq> R \<Longrightarrow> (x, y) \<in> R\<^sup>+"
  by (rule trancl_mono)

subsection \<open>Decimal text\<close>

definition digit :: "nat \<Rightarrow> char" where
  "digit n = char_of (48 + n)"

fun show_nat :: "nat \<Rightarrow> string" where
  "show_nat n = (if n < 10 then [digit n] else show_nat (n div 10) @ [digit (n mod 10)])"

declare show_nat.simps [simp del]

lemma show_nat_nonempty [simp]: "show_nat n \<noteq> []"
  by (subst show_nat.simps) simp

subsection \<open>JSON values\<close>

text \<open>A column of type \<open>jsonb\<close>: an object is the list of its members, each name once.\<close>

datatype json = JNull | JBool bool | JNum int | JStr string | JArr "json list" | JObj "(string \<times> json) list"

definition jopt :: "string option \<Rightarrow> json" where
  "jopt s = (case s of None \<Rightarrow> JNull | Some x \<Rightarrow> JStr x)"

subsection \<open>Lists joined for a message\<close>

fun joined :: "string \<Rightarrow> string list \<Rightarrow> string" where
  "joined sep [] = ''''"
| "joined sep [x] = x"
| "joined sep (x # y # xs) = x @ sep @ joined sep (y # xs)"

subsection \<open>Text that holds other text\<close>

text \<open>\<open>s.includes(sub)\<close>.\<close>

fun hasText :: "string \<Rightarrow> string \<Rightarrow> bool" where
  "hasText [] sub \<longleftrightarrow> sub = []"
| "hasText (c # cs) sub \<longleftrightarrow> take (length sub) (c # cs) = sub \<or> hasText cs sub"

lemma hasText_iff: "hasText s sub \<longleftrightarrow> (\<exists>xs ys. s = xs @ sub @ ys)"
proof (induction s)
  case (Cons c cs)
  have "take (length sub) (c # cs) = sub \<longleftrightarrow> (\<exists>ys. c # cs = sub @ ys)"
    by (metis append_eq_conv_conj append_take_drop_id)
  moreover have "(\<exists>xs ys. c # cs = xs @ sub @ ys) \<longleftrightarrow> (\<exists>ys. c # cs = sub @ ys) \<or> (\<exists>xs ys. cs = xs @ sub @ ys)"
    by (auto simp: Cons_eq_append_conv)
  ultimately show ?case using Cons by simp
qed simp

subsection \<open>Filtered maps\<close>

lemma map_filter_Nil: "List.map_filter f xs = [] \<longleftrightarrow> (\<forall>x \<in> set xs. f x = None)"
  by (induction xs) (auto simp: List.map_filter_simps split: option.splits)

lemma set_map_filter: "y \<in> set (List.map_filter f xs) \<longleftrightarrow> (\<exists>x \<in> set xs. f x = Some y)"
  by (induction xs) (auto simp: List.map_filter_simps split: option.splits)

end
