(* ===== verification/Model.thy ===== *)
theory Model
  imports Prelude
begin

text \<open>
  The rows of one project (src/taskgraph/types.ts and migrations/0001_core.ts), the engine's typed
  errors (errors.ts), and the end of a transaction: events buffered by the body and written last
  (events.ts).

  A \<open>db\<close> holds one project's rows. Every query of a project or actor handle carries
  \<open>project_id = ...\<close>, so the rows of other projects are never read or written and are left out; the
  column \<open>t_projectId\<close> of a task stays, since the caller's guards read it. The parameter
  \<open>'x\<close> is the caller's own tables in the same database, which the engine never touches.
  \<open>d_now\<close> is \<open>taskgraph.now()\<close> (and the column defaults \<open>now()\<close>) of the running transaction.

  A transaction is one step: its body maps the rows to an error, which rolls everything back, or to
  its result, the new rows and the events it emitted. The row locks and advisory locks of the code
  are what makes that reading right, and are not modelled themselves; rows other transactions hold
  matter only to the two \<open>skip locked\<close> queries, which take them as an argument.
\<close>

subsection \<open>Actors and rows (types.ts)\<close>

record actor =
  ac_id :: string
  ac_role :: string

datatype kind = Work | Container

datatype origin = PlanOrigin | Manual | System | Agent | Imported

fun kind_text :: "kind \<Rightarrow> string" where
  "kind_text Work = ''work''"
| "kind_text Container = ''container''"

fun origin_text :: "origin \<Rightarrow> string" where
  "origin_text PlanOrigin = ''plan''"
| "origin_text Manual = ''manual''"
| "origin_text System = ''system''"
| "origin_text Agent = ''agent''"
| "origin_text Imported = ''imported''"

record task =
  t_projectId :: string
  t_id :: string
  t_key :: "string option"
  t_planId :: "string option"
  t_parentId :: "string option"
  t_kind :: kind
  t_category :: "string option"
  t_title :: string
  t_description :: "string option"
  t_priority :: int
  t_state :: string
  t_origin :: origin
  t_spec :: json
  t_tags :: "string list"
  t_boosted :: bool
  t_holdUntil :: "int option"
  t_nextChild :: nat
  t_leaseAttemptId :: "string option"
  t_leaseExpiresAt :: "int option"
  t_createdAt :: int
  t_updatedAt :: int
  t_closedAt :: "int option"

record plan =
  p_id :: string
  p_title :: string
  p_meta :: json
  p_approvedAt :: "int option"
  p_approvedBy :: "string option"
  p_discardedAt :: "int option"
  p_discardedBy :: "string option"
  p_createdAt :: int

record attempt =
  a_id :: string
  a_taskId :: string
  a_worker :: string
  a_actor :: string
  a_startedAt :: int
  a_endedAt :: "int option"
  a_outcome :: "string option"

record new_event =
  n_kind :: string
  n_actor :: string
  n_actorRole :: string
  n_taskId :: "string option"
  n_planId :: "string option"
  n_attemptId :: "string option"
  n_fromState :: "string option"
  n_toState :: "string option"
  n_payload :: json
  n_requestId :: "string option"
  n_at :: "int option"

record event =
  e_id :: nat
  e_taskId :: "string option"
  e_planId :: "string option"
  e_attemptId :: "string option"
  e_kind :: string
  e_actor :: string
  e_actorRole :: string
  e_fromState :: "string option"
  e_toState :: "string option"
  e_payload :: json
  e_requestId :: "string option"
  e_at :: int

type_synonym dep = "string \<times> string"
type_synonym link = "string \<times> string \<times> string"

record 'x db =
  d_projectId :: string
  d_idPrefix :: string
  d_lifecycleName :: string
  d_lifecycleVersion :: nat
  d_tasks :: "task list"
  d_deps :: "dep list"
  d_links :: "link list"
  d_attempts :: "attempt list"
  d_plans :: "plan list"
  d_events :: "event list"
  d_nextEventId :: nat
  d_notified :: "nat list"
  d_now :: int
  d_caller :: 'x

subsection \<open>Errors (errors.ts)\<close>

datatype severity = ErrorSev | WarningSev

record finding =
  f_validator :: string
  f_severity :: severity
  f_taskId :: "string option"
  f_message :: string

record violation =
  v_rule :: string
  v_message :: string

text \<open>
  The engine's error classes, each with its own fields; callers branch on the code, and so does a
  model. \<open>InvalidInput\<close> is the \<open>InvalidRequest\<close> that \<open>parse\<close> throws, with the path of the
  offending field (zod words the rest). The last three are not engine errors: an \<open>Error\<close> thrown as
  it is, a \<open>TypeError\<close>, and an error with a code: one Postgres raises, by SQLSTATE and message,
  or a driver's.
\<close>

datatype tg_error =
    CycleError string string "string option"
  | NotFound string string
  | InvalidRequest string
  | InvalidInput string
  | NotPermitted string string "string option"
  | ValidationError "finding list"
  | MoveRefused string string string "string list" "string list"
  | LeaseLost string string
  | LeaseHeld string string
  | VersionMismatch string
  | SchemaBehind string
  | Unavailable string
  | LifecycleInvalid string "violation list"
  | Fatal string
  | TypeErr string
  | DbError string string

fun error_code :: "tg_error \<Rightarrow> string option" where
  "error_code (CycleError _ _ _) = Some ''CycleError''"
| "error_code (NotFound _ _) = Some ''NotFound''"
| "error_code (InvalidRequest _) = Some ''InvalidRequest''"
| "error_code (InvalidInput _) = Some ''InvalidRequest''"
| "error_code (NotPermitted _ _ _) = Some ''NotPermitted''"
| "error_code (ValidationError _) = Some ''ValidationError''"
| "error_code (MoveRefused _ _ _ _ _) = Some ''MoveRefused''"
| "error_code (LeaseLost _ _) = Some ''LeaseLost''"
| "error_code (LeaseHeld _ _) = Some ''LeaseHeld''"
| "error_code (VersionMismatch _) = Some ''VersionMismatch''"
| "error_code (SchemaBehind _) = Some ''SchemaBehind''"
| "error_code (Unavailable _) = Some ''Unavailable''"
| "error_code (LifecycleInvalid _ _) = Some ''LifecycleInvalid''"
| "error_code (Fatal _) = None"
| "error_code (TypeErr _) = None"
| "error_code (DbError _ _) = None"

text \<open>
  The message a \<open>ValidationError\<close> shows: the errors, or every finding when none is an error.
\<close>

definition validation_message :: "finding list \<Rightarrow> string" where
  "validation_message findings =
     (let errors = filter (\<lambda>f. f_severity f = ErrorSev) findings;
          shown = (if errors \<noteq> [] then errors else findings);
          text = joined ''; '' (map f_message shown)
      in ''validation failed: '' @ (if text = '''' then ''no findings'' else text))"

subsection \<open>Writing the events of a transaction (events.ts)\<close>

definition toEvent :: "nat \<Rightarrow> int \<Rightarrow> new_event \<Rightarrow> event" where
  "toEvent eid at e = \<lparr>
     e_id = eid, e_taskId = n_taskId e, e_planId = n_planId e, e_attemptId = n_attemptId e,
     e_kind = n_kind e, e_actor = n_actor e, e_actorRole = n_actorRole e,
     e_fromState = n_fromState e, e_toState = n_toState e, e_payload = n_payload e,
     e_requestId = n_requestId e, e_at = (case n_at e of Some x \<Rightarrow> x | None \<Rightarrow> at)\<rparr>"

text \<open>One row of the insert; the unique index on request ids refuses a repeated one (23505).\<close>

definition insertEvent :: "new_event \<Rightarrow> 'x db \<Rightarrow> tg_error + 'x db" where
  "insertEvent e db =
     (if n_requestId e \<noteq> None \<and> n_requestId e \<in> set (map e_requestId (d_events db))
      then Inl (DbError ''23505'' ''duplicate request id'')
      else Inr (db\<lparr>d_events := d_events db @ [toEvent (d_nextEventId db) (d_now db) e],
                  d_nextEventId := Suc (d_nextEventId db)\<rparr>))"

fun insertEvents :: "new_event list \<Rightarrow> 'x db \<Rightarrow> tg_error + 'x db" where
  "insertEvents [] db = Inr db"
| "insertEvents (e # es) db = bindE (insertEvent e db) (insertEvents es)"

definition writeEvents :: "new_event list \<Rightarrow> 'x db \<Rightarrow> tg_error + 'x db" where
  "writeEvents evs db =
     (if evs = [] then Inr db
      else bindE (insertEvents evs db) (\<lambda>db'.
             Inr (db'\<lparr>d_notified := d_notified db' @ [d_nextEventId db' - 1]\<rparr>)))"

type_synonym ('a, 'x) body = "'x db \<Rightarrow> tg_error + ('a \<times> 'x db \<times> new_event list)"

definition transaction :: "('a, 'x) body \<Rightarrow> 'x db \<Rightarrow> tg_error + ('a \<times> 'x db)" where
  "transaction body db =
     bindE (body db) (\<lambda>(r, db', evs). bindE (writeEvents evs db') (\<lambda>db''. Inr (r, db'')))"

text \<open>Writing events changes the event log, its sequence and the notifications only.\<close>

definition same_rows :: "'x db \<Rightarrow> 'x db \<Rightarrow> bool" where
  "same_rows a b \<longleftrightarrow> d_events_update (\<lambda>_. []) (d_nextEventId_update (\<lambda>_. 0) (d_notified_update (\<lambda>_. []) a))
     = d_events_update (\<lambda>_. []) (d_nextEventId_update (\<lambda>_. 0) (d_notified_update (\<lambda>_. []) b))"

lemma same_rows_refl [simp]: "same_rows a a"
  by (simp add: same_rows_def)

lemma same_rows_trans: "same_rows a b \<Longrightarrow> same_rows b c \<Longrightarrow> same_rows a c"
  by (simp add: same_rows_def)

lemma insertEvent_rows: "insertEvent e db = Inr db' \<Longrightarrow> same_rows db db'"
  by (auto simp: insertEvent_def same_rows_def split: if_splits)

lemma insertEvents_rows: "insertEvents es db = Inr db' \<Longrightarrow> same_rows db db'"
  by (induction es arbitrary: db) (auto intro: same_rows_trans dest: insertEvent_rows)

lemma writeEvents_rows: "writeEvents es db = Inr db' \<Longrightarrow> same_rows db db'"
  by (auto simp: writeEvents_def same_rows_def split: if_splits dest!: insertEvents_rows)

lemma same_rowsD:
  assumes "same_rows a b"
  shows "d_tasks b = d_tasks a" "d_deps b = d_deps a" "d_links b = d_links a"
    "d_attempts b = d_attempts a" "d_plans b = d_plans a" "d_now b = d_now a"
    "d_lifecycleName b = d_lifecycleName a" "d_lifecycleVersion b = d_lifecycleVersion a"
    "d_projectId b = d_projectId a" "d_idPrefix b = d_idPrefix a" "d_caller b = d_caller a"
  using assms by (cases a; cases b; simp add: same_rows_def)+

lemma transaction_Inr:
  "transaction body db = Inr (r, db'') \<Longrightarrow>
   \<exists>db' evs. body db = Inr (r, db', evs) \<and> writeEvents evs db' = Inr db'' \<and> same_rows db' db''"
  by (auto simp: transaction_def dest: writeEvents_rows)

text \<open>The log only grows, its ids rise, and a request id is on one event at most.\<close>

definition log_ok :: "'x db \<Rightarrow> bool" where
  "log_ok db \<longleftrightarrow> sorted_wrt (<) (map e_id (d_events db)) \<and>
     (\<forall>e \<in> set (d_events db). e_id e < d_nextEventId db) \<and>
     distinct (filter (\<lambda>r. r \<noteq> None) (map e_requestId (d_events db)))"

lemma insertEvent_log:
  assumes "insertEvent e db = Inr db'" "log_ok db"
  shows "log_ok db' \<and> (\<exists>new. d_events db' = d_events db @ new) \<and> d_nextEventId db' = Suc (d_nextEventId db)"
proof -
  have "d_events db' = d_events db @ [toEvent (d_nextEventId db) (d_now db) e]"
    and "d_nextEventId db' = Suc (d_nextEventId db)"
    and fresh: "n_requestId e \<noteq> None \<longrightarrow> n_requestId e \<notin> set (map e_requestId (d_events db))"
    using assms(1) by (auto simp: insertEvent_def split: if_splits)
  then show ?thesis
    using assms(2) by (auto simp: log_ok_def toEvent_def sorted_wrt_append less_Suc_eq)
qed

lemma insertEvents_log:
  "insertEvents es db = Inr db' \<Longrightarrow> log_ok db \<Longrightarrow>
   log_ok db' \<and> (\<exists>new. d_events db' = d_events db @ new) \<and> d_nextEventId db' = d_nextEventId db + length es"
proof (induction es arbitrary: db)
  case (Cons e es)
  then obtain db1 where 1: "insertEvent e db = Inr db1" "insertEvents es db1 = Inr db'" by auto
  with insertEvent_log[OF 1(1) Cons.prems(2)] Cons.IH[of db1] show ?case by force
qed simp

lemma writeEvents_log:
  assumes "writeEvents es db = Inr db'" "log_ok db"
  shows "log_ok db' \<and> (\<exists>new. d_events db' = d_events db @ new)"
proof (cases "es = []")
  case True
  then show ?thesis using assms by (simp add: writeEvents_def)
next
  case False
  then obtain db1 where 1: "insertEvents es db = Inr db1"
      and 2: "db' = db1\<lparr>d_notified := d_notified db1 @ [d_nextEventId db1 - 1]\<rparr>"
    using assms(1) by (auto simp: writeEvents_def)
  show ?thesis using insertEvents_log[OF 1 assms(2)] by (auto simp: 2 log_ok_def)
qed

subsection \<open>Reading and writing a task row\<close>

abbreviation find_task :: "string \<Rightarrow> 'x db \<Rightarrow> task option" where
  "find_task i db \<equiv> find_row t_id i (d_tasks db)"

text \<open>\<open>loadTask\<close>: a task by id, or NotFound. Locking the row changes nothing in one step.\<close>

definition loadTask :: "'x db \<Rightarrow> string \<Rightarrow> tg_error + task" where
  "loadTask db i = (case find_task i db of None \<Rightarrow> Inl (NotFound ''task'' i) | Some t \<Rightarrow> Inr t)"

definition taskByKey :: "'x db \<Rightarrow> string \<Rightarrow> task option" where
  "taskByKey db k = find (\<lambda>t. t_key t = Some k) (d_tasks db)"

definition upd_task :: "string \<Rightarrow> (task \<Rightarrow> task) \<Rightarrow> 'x db \<Rightarrow> 'x db" where
  "upd_task i f db = db\<lparr>d_tasks := upd_row t_id i f (d_tasks db)\<rparr>"

definition upd_attempt :: "string \<Rightarrow> (attempt \<Rightarrow> attempt) \<Rightarrow> 'x db \<Rightarrow> 'x db" where
  "upd_attempt i f db = db\<lparr>d_attempts := upd_row a_id i f (d_attempts db)\<rparr>"

text \<open>\<open>update attempts set ended_at = now(), outcome = o where id = i and ended_at is null\<close>.\<close>

definition endAttempt :: "string \<Rightarrow> string \<Rightarrow> 'x db \<Rightarrow> 'x db" where
  "endAttempt i outcome db = upd_attempt i
     (\<lambda>a. if a_endedAt a = None then a\<lparr>a_endedAt := Some (d_now db), a_outcome := Some outcome\<rparr> else a) db"

lemma loadTask_Inr_iff [simp]: "loadTask db i = Inr t \<longleftrightarrow> find_task i db = Some t"
  by (auto simp: loadTask_def split: option.splits)

lemma loadTask_mem: "loadTask db i = Inr t \<Longrightarrow> t \<in> set (d_tasks db) \<and> t_id t = i"
  unfolding loadTask_Inr_iff by (rule find_row_Some)

text \<open>The parent edges of the tasks, as \<open>join ... on up.parent_id\<close> walks them, and the way down.\<close>

definition parent_edges :: "'x db \<Rightarrow> (string \<times> string) list" where
  "parent_edges db = List.map_filter (\<lambda>t. map_option (Pair (t_id t)) (t_parentId t)) (d_tasks db)"

definition flipped :: "('a \<times> 'b) list \<Rightarrow> ('b \<times> 'a) list" where
  "flipped es = map (\<lambda>(x, y). (y, x)) es"

lemma set_flipped: "set (flipped es) = (set es)\<inverse>"
  by (force simp: flipped_def)

text \<open>The ids a task's recursive walk up its parents returns, itself first.\<close>

definition ups :: "'x db \<Rightarrow> string \<Rightarrow> string list" where
  "ups db i = reach (parent_edges db) [i]"

definition downs :: "'x db \<Rightarrow> string \<Rightarrow> string list" where
  "downs db i = reach (flipped (parent_edges db)) [i]"

definition parents :: "task list \<Rightarrow> (string \<times> string) set" where
  "parents ts = {(t_id t, p) | t p. t \<in> set ts \<and> t_parentId t = Some p}"

lemma set_parent_edges: "set (parent_edges db) = parents (d_tasks db)"
proof -
  have "set (List.map_filter (\<lambda>t. map_option (Pair (t_id t)) (t_parentId t)) ts) = parents ts" for ts
    by (induction ts) (auto simp: parents_def List.map_filter_simps split: option.splits)
  then show ?thesis by (simp add: parent_edges_def)
qed

lemma set_ups: "set (ups db i) = {p. (i, p) \<in> (parents (d_tasks db))\<^sup>*}"
  by (auto simp: ups_def set_reach set_parent_edges)

lemma set_downs: "set (downs db i) = {c. (c, i) \<in> (parents (d_tasks db))\<^sup>*}"
  by (auto simp: downs_def set_reach set_flipped set_parent_edges rtrancl_converse)

text \<open>An event with nothing but its kind and actor; the fields a call gives are set on it.\<close>

definition ev :: "actor \<Rightarrow> string \<Rightarrow> new_event" where
  "ev a k = \<lparr>n_kind = k, n_actor = ac_id a, n_actorRole = ac_role a, n_taskId = None, n_planId = None,
     n_attemptId = None, n_fromState = None, n_toState = None, n_payload = JObj [],
     n_requestId = None, n_at = None\<rparr>"

end
