(* ===== verification/Lifecycle.thy ===== *)
theory Lifecycle
  imports Model
begin

text \<open>
  The lifecycle a caller declares (src/taskgraph/lifecycle.ts), the registration rules, and the
  permissions for the calls that are not moves (permissions.ts).

  A JavaScript object with string keys is an association list that holds each key once
  (\<open>wf_objects\<close>); \<open>states[s]?.flag\<close> is \<open>stateFlag\<close>. A guard is its registered name, if it
  was made with \<open>defineGuard\<close>, and its verdict: \<open>None\<close> for \<open>true\<close>, \<open>Some why\<close> for a refusal.
  The validator library's wording of a shape issue is not modelled: an issue carries its path.
\<close>

record state_flags =
  sf_claimable :: bool
  sf_leased :: bool
  sf_satisfiesDeps :: bool
  sf_terminal :: bool

record 'x guard =
  g_name :: "string option"
  g_fn :: "task \<Rightarrow> actor \<Rightarrow> 'x db \<Rightarrow> string option"

record 'x move =
  m_name :: string
  m_from :: "string list"
  m_to :: string
  m_by :: "string list"
  m_guard :: "'x guard option"
  m_boost :: bool
  m_clearsBoost :: bool

datatype call = TasksCreate | TasksUpdate | TasksDelete | DepsAdd | DepsRemove
  | LinksAdd | NotesAdd | PlansCreate | PlansValidate | LifecyclesActivate

fun call_name :: "call \<Rightarrow> string" where
  "call_name TasksCreate = ''tasks.create''"
| "call_name TasksUpdate = ''tasks.update''"
| "call_name TasksDelete = ''tasks.delete''"
| "call_name DepsAdd = ''deps.add''"
| "call_name DepsRemove = ''deps.remove''"
| "call_name LinksAdd = ''links.add''"
| "call_name NotesAdd = ''notes.add''"
| "call_name PlansCreate = ''plans.create''"
| "call_name PlansValidate = ''plans.validate''"
| "call_name LifecyclesActivate = ''lifecycles.activate''"

datatype allowed = AnyState | InStates "string list"

record 'x lifecycle =
  l_name :: string
  l_version :: nat
  l_states :: "(string \<times> state_flags) list"
  l_createState :: string
  l_byRole :: "(string \<times> string) list option"
  l_moves :: "'x move list"
  l_permissions :: "(call \<times> (string \<times> allowed) list) list"
  l_onApprove :: string
  l_onClaim :: string
  l_onDiscard :: string
  l_onLeaseExpiry :: string
  l_onRepeatedExpiry :: "(nat \<times> string) option"
  l_migrate :: "(string \<times> string) list option"

definition SYSTEM_ROLE :: string where
  "SYSTEM_ROLE = ''system''"

definition defineGuard :: "string \<Rightarrow> (task \<Rightarrow> actor \<Rightarrow> 'x db \<Rightarrow> string option) \<Rightarrow> tg_error + 'x guard" where
  "defineGuard nm fn =
     (if nm = '''' then Inl (TypeErr ''a guard needs a name'')
      else Inr \<lparr>g_name = Some nm, g_fn = fn\<rparr>)"

subsection \<open>Reading a lifecycle\<close>

definition opt_list :: "'a list option \<Rightarrow> 'a list" where
  "opt_list x = (case x of None \<Rightarrow> [] | Some xs \<Rightarrow> xs)"

definition isState :: "'x lifecycle \<Rightarrow> string \<Rightarrow> bool" where
  "isState lc s \<longleftrightarrow> s \<in> set (map fst (l_states lc))"

definition stateFlag :: "(state_flags \<Rightarrow> bool) \<Rightarrow> 'x lifecycle \<Rightarrow> string \<Rightarrow> bool" where
  "stateFlag flag lc s = (case map_of (l_states lc) s of None \<Rightarrow> False | Some f \<Rightarrow> flag f)"

abbreviation isTerminal :: "'x lifecycle \<Rightarrow> string \<Rightarrow> bool" where
  "isTerminal \<equiv> stateFlag sf_terminal"

abbreviation isSatisfying :: "'x lifecycle \<Rightarrow> string \<Rightarrow> bool" where
  "isSatisfying \<equiv> stateFlag sf_satisfiesDeps"

definition flagged :: "(state_flags \<Rightarrow> bool) \<Rightarrow> 'x lifecycle \<Rightarrow> string list" where
  "flagged flag lc = map fst (filter (\<lambda>(s, f). flag f) (l_states lc))"

definition satisfyingStates :: "'x lifecycle \<Rightarrow> string list" where
  "satisfyingStates lc = flagged sf_satisfiesDeps lc"

definition terminalStates :: "'x lifecycle \<Rightarrow> string list" where
  "terminalStates lc = flagged sf_terminal lc"

definition first_flagged :: "(state_flags \<Rightarrow> bool) \<Rightarrow> 'x lifecycle \<Rightarrow> string option" where
  "first_flagged flag lc = (case flagged flag lc of [] \<Rightarrow> None | s # _ \<Rightarrow> Some s)"

definition claimableState :: "'x lifecycle \<Rightarrow> string option" where
  "claimableState lc = first_flagged sf_claimable lc"

definition leasedState :: "'x lifecycle \<Rightarrow> string option" where
  "leasedState lc = first_flagged sf_leased lc"

definition moveNamed :: "'x lifecycle \<Rightarrow> string \<Rightarrow> 'x move option" where
  "moveNamed lc nm = find (\<lambda>m. m_name m = nm) (l_moves lc)"

text \<open>The boosted column after a move: set by boost, cleared by clearsBoost, else kept.\<close>

definition boostAfter :: "'x move \<Rightarrow> bool \<Rightarrow> bool" where
  "boostAfter m b = (if m_boost m then True else if m_clearsBoost m then False else b)"

subsection \<open>Shape\<close>

definition issue :: "bool \<Rightarrow> string \<Rightarrow> string list" where
  "issue ok path = (if ok then [] else [path])"

definition move_issues :: "nat \<times> 'x move \<Rightarrow> string list" where
  "move_issues = (\<lambda>(i, m). let at = ''moves.'' @ show_nat i @ ''.'' in
     issue (m_name m \<noteq> '''') (at @ ''name'') @
     issue (m_from m \<noteq> [] \<and> [] \<notin> set (m_from m)) (at @ ''from'') @
     issue (m_to m \<noteq> '''') (at @ ''to'') @
     issue (m_by m \<noteq> [] \<and> [] \<notin> set (m_by m)) (at @ ''by''))"

definition permission_issues :: "call \<times> (string \<times> allowed) list \<Rightarrow> string list" where
  "permission_issues = (\<lambda>(c, roles). concat (map (\<lambda>(role, a).
     issue (role \<noteq> '''' \<and> (case a of AnyState \<Rightarrow> True | InStates ss \<Rightarrow> [] \<notin> set ss))
       (''permissions.'' @ call_name c @ ''.'' @ role)) roles))"

definition pairs_nonempty :: "(string \<times> string) list \<Rightarrow> bool" where
  "pairs_nonempty ps = list_all (\<lambda>(a, b). a \<noteq> '''' \<and> b \<noteq> '''') ps"

definition shapeIssues :: "'x lifecycle \<Rightarrow> string list" where
  "shapeIssues lc =
     issue (l_name lc \<noteq> '''') ''name'' @
     issue (l_version lc > 0) ''version'' @
     issue ([] \<notin> set (map fst (l_states lc))) ''states'' @
     issue (l_createState lc \<noteq> '''') ''create.state'' @
     issue (pairs_nonempty (opt_list (l_byRole lc))) ''create.byRole'' @
     concat (map move_issues (zip [0..<length (l_moves lc)] (l_moves lc))) @
     concat (map permission_issues (l_permissions lc)) @
     issue (l_onApprove lc \<noteq> '''') ''hooks.onApprove'' @
     issue (l_onClaim lc \<noteq> '''') ''hooks.onClaim'' @
     issue (l_onDiscard lc \<noteq> '''') ''hooks.onDiscard'' @
     issue (l_onLeaseExpiry lc \<noteq> '''') ''hooks.onLeaseExpiry'' @
     issue (case l_onRepeatedExpiry lc of None \<Rightarrow> True | Some (n, m) \<Rightarrow> n > 0 \<and> m \<noteq> '''') ''hooks.onRepeatedExpiry'' @
     issue (pairs_nonempty (opt_list (l_migrate lc))) ''migrate''"

subsection \<open>The registration rules\<close>

definition fails :: "bool \<Rightarrow> string \<Rightarrow> string \<Rightarrow> violation list" where
  "fails broken rule msg = (if broken then [\<lparr>v_rule = rule, v_message = msg\<rparr>] else [])"

definition unknownState :: "'x lifecycle \<Rightarrow> string \<Rightarrow> string \<Rightarrow> violation list" where
  "unknownState lc where s =
     fails (\<not> isState lc s) ''known-states'' (where @ '' names undeclared state '' @ s)"

definition flag_rules :: "'x lifecycle \<Rightarrow> violation list" where
  "flag_rules lc =
     fails (length (flagged sf_claimable lc) \<noteq> 1) ''one-claimable-state''
       (''exactly one state must be claimable, found '' @ show_nat (length (flagged sf_claimable lc))) @
     fails (length (flagged sf_leased lc) \<noteq> 1) ''one-leased-state''
       (''exactly one state must be leased, found '' @ show_nat (length (flagged sf_leased lc))) @
     fails (flagged sf_satisfiesDeps lc = []) ''deps-satisfiable''
       ''at least one state must satisfy dependencies'' @
     concat (map (\<lambda>(s, f).
       fails (sf_claimable f \<and> sf_leased f) ''flags-consistent''
         (''state '' @ s @ '' can't be both claimable and leased'') @
       fails (sf_terminal f \<and> (sf_claimable f \<or> sf_leased f)) ''flags-consistent''
         (''terminal state '' @ s @ '' can't be claimable or leased'')) (l_states lc))"

definition known_state_rules :: "'x lifecycle \<Rightarrow> violation list" where
  "known_state_rules lc =
     unknownState lc ''create.state'' (l_createState lc) @
     concat (map (\<lambda>(role, s). unknownState lc (''create.byRole.'' @ role) s) (opt_list (l_byRole lc))) @
     concat (map (\<lambda>m.
       concat (map (unknownState lc (''move '' @ m_name m)) (m_from m)) @
       unknownState lc (''move '' @ m_name m) (m_to m)) (l_moves lc)) @
     concat (map (\<lambda>(c, roles). concat (map (\<lambda>(role, a).
       case a of AnyState \<Rightarrow> []
       | InStates ss \<Rightarrow> concat (map (unknownState lc (''permissions.'' @ call_name c @ ''.'' @ role)) ss)) roles))
       (l_permissions lc)) @
     concat (map (\<lambda>(from, to).
       unknownState lc (''migrate.'' @ from) to @
       fails (isState lc from) ''migrate-map'' (''migrate names '' @ from @ '', which this version still has'') @
       fails (stateFlag sf_leased lc to) ''migrate-map''
         (''migrate sends '' @ from @ '' to the leased state '' @ to @ ''; a moved task holds no lease''))
       (opt_list (l_migrate lc)))"

text \<open>One pass over the moves: \<open>seen\<close> are the names before this one.\<close>

fun move_rules :: "'x lifecycle \<Rightarrow> string list \<Rightarrow> 'x move list \<Rightarrow> violation list" where
  "move_rules lc seen [] = []"
| "move_rules lc seen (m # ms) =
     fails (m_name m \<in> set seen) ''unique-move-names'' (''two moves are named '' @ m_name m) @
     concat (map (\<lambda>s. fails (isTerminal lc s) ''terminal-final''
       (''move '' @ m_name m @ '' leaves terminal state '' @ s)) (m_from m)) @
     fails (case m_guard m of None \<Rightarrow> False
            | Some g \<Rightarrow> (case g_name g of None \<Rightarrow> True | Some n \<Rightarrow> n = '''')) ''guards-named''
       (''move '' @ m_name m @ '' has a guard not made with defineGuard; the hash records guard names'') @
     move_rules lc (m_name m # seen) ms"

text \<open>\<open>moves.get(name)\<close>: the last move set under the name.\<close>

definition lastMoveNamed :: "'x lifecycle \<Rightarrow> string \<Rightarrow> 'x move option" where
  "lastMoveNamed lc nm = find (\<lambda>m. m_name m = nm) (rev (l_moves lc))"

definition with_hook :: "'x lifecycle \<Rightarrow> string \<Rightarrow> string \<Rightarrow> ('x move \<Rightarrow> violation list) \<Rightarrow> violation list" where
  "with_hook lc label nm rules = (case lastMoveNamed lc nm of
       None \<Rightarrow> fails True ''hook-moves-exist'' (label @ '' names move '' @ nm @ '', which isn't declared'')
     | Some m \<Rightarrow> rules m)"

text \<open>The one state with a flag, when it is unique: the checks that need it run only then.\<close>

definition unique_flagged :: "(state_flags \<Rightarrow> bool) \<Rightarrow> 'x lifecycle \<Rightarrow> string option" where
  "unique_flagged flag lc = (case flagged flag lc of [s] \<Rightarrow> Some s | _ \<Rightarrow> None)"

definition create_rules :: "'x lifecycle \<Rightarrow> violation list" where
  "create_rules lc =
     with_hook lc ''onApprove'' (l_onApprove lc) (\<lambda>approve.
       (case unique_flagged sf_claimable lc of None \<Rightarrow> []
        | Some c \<Rightarrow> fails (m_to approve \<noteq> c) ''approve-hook''
            (''onApprove move '' @ m_name approve @ '' must land in the claimable state'')) @
       fails (l_createState lc \<notin> set (m_from approve)) ''create-rules''
         (''create.state '' @ l_createState lc @ '' must be a state the onApprove move '' @ m_name approve @ '' starts from'')) @
     (case unique_flagged sf_claimable lc of None \<Rightarrow> []
      | Some c \<Rightarrow> concat (map (\<lambda>(role, s).
          fails (s \<noteq> l_createState lc \<and> s \<noteq> c) ''create-rules''
            (''create.byRole.'' @ role @ '' may name only create.state or the claimable state, not '' @ s))
          (opt_list (l_byRole lc)))) @
     (case unique_flagged sf_leased lc of None \<Rightarrow> []
      | Some l \<Rightarrow> fails (l_createState lc = l) ''create-rules''
          (''create.state can't be the leased state '' @ l))"

definition claim_rules :: "'x lifecycle \<Rightarrow> violation list" where
  "claim_rules lc =
     with_hook lc ''onClaim'' (l_onClaim lc) (\<lambda>claim.
       (case (unique_flagged sf_claimable lc, unique_flagged sf_leased lc) of
          (Some c, Some l) \<Rightarrow> fails (c \<notin> set (m_from claim) \<or> m_to claim \<noteq> l) ''claim-hook''
            (''onClaim move '' @ m_name claim @ '' must go from the claimable state to the leased one'')
        | _ \<Rightarrow> []) @
       fails (m_guard claim \<noteq> None) ''claim-hook''
         (''onClaim move '' @ m_name claim @ '' can't have a guard: the claim is one SKIP LOCKED update'')) @
     (case unique_flagged sf_leased lc of None \<Rightarrow> []
      | Some l \<Rightarrow> concat (map (\<lambda>m.
          fails (m_to m = l \<and> m_name m \<noteq> l_onClaim lc) ''leased-by-claim''
            (''move '' @ m_name m @ '' lands in the leased state '' @ l @ ''; only the onClaim move may''))
          (l_moves lc)))"

definition discard_rules :: "'x lifecycle \<Rightarrow> violation list" where
  "discard_rules lc =
     with_hook lc ''onDiscard'' (l_onDiscard lc) (\<lambda>discard.
       fails (\<not> isTerminal lc (m_to discard)) ''discard-hook''
         (''onDiscard move '' @ m_name discard @ '' must land in a terminal state'') @
       fails (l_createState lc \<notin> set (m_from discard)) ''discard-hook''
         (''onDiscard move '' @ m_name discard @ '' must start from create.state '' @ l_createState lc))"

definition expiry_rules :: "'x lifecycle \<Rightarrow> violation list" where
  "expiry_rules lc =
     concat (map (\<lambda>(label, nm). with_hook lc label nm (\<lambda>m.
       (case unique_flagged sf_leased lc of None \<Rightarrow> []
        | Some l \<Rightarrow> fails (l \<notin> set (m_from m)) ''expiry-hooks''
            (label @ '' move '' @ m_name m @ '' must start from the leased state'')) @
       fails (SYSTEM_ROLE \<notin> set (m_by m)) ''expiry-hooks''
         (label @ '' move '' @ m_name m @ '' must list '' @ SYSTEM_ROLE @ '' in by'') @
       fails (m_guard m \<noteq> None) ''expiry-hooks''
         (label @ '' move '' @ m_name m @ '' can't have a guard: the sweep applies it to many tasks in one statement'') @
       fails (isTerminal lc (m_to m)) ''expiry-hooks''
         (label @ '' move '' @ m_name m @ '' can't land in terminal state '' @ m_to m
           @ '': the sweep can't refuse a move over live children or dependents'')))
       ((''onLeaseExpiry'', l_onLeaseExpiry lc) #
        (case l_onRepeatedExpiry lc of None \<Rightarrow> [] | Some (_, nm) \<Rightarrow> [(''onRepeatedExpiry'', nm)])))"

definition lifecycleViolations :: "'x lifecycle \<Rightarrow> violation list" where
  "lifecycleViolations lc =
     (if shapeIssues lc \<noteq> []
      then map (\<lambda>path. \<lparr>v_rule = ''shape'', v_message = path\<rparr>) (shapeIssues lc)
      else flag_rules lc @ known_state_rules lc @ move_rules lc [] (l_moves lc)
        @ create_rules lc @ claim_rules lc @ discard_rules lc @ expiry_rules lc)"

definition defineLifecycle :: "'x lifecycle \<Rightarrow> tg_error + 'x lifecycle" where
  "defineLifecycle lc =
     (if lifecycleViolations lc \<noteq> []
      then Inl (LifecycleInvalid (l_name lc @ ''@'' @ show_nat (l_version lc)) (lifecycleViolations lc))
      else Inr lc)"

subsection \<open>What a registered lifecycle guarantees\<close>

definition wf_objects :: "'x lifecycle \<Rightarrow> bool" where
  "wf_objects lc \<longleftrightarrow> distinct (map fst (l_states lc))"

definition valid_lifecycle :: "'x lifecycle \<Rightarrow> bool" where
  "valid_lifecycle lc \<longleftrightarrow> wf_objects lc \<and> isOk (defineLifecycle lc)"

lemma fails_Nil [simp]: "fails b r m = [] \<longleftrightarrow> \<not> b"
  by (simp add: fails_def)

lemma valid_rules:
  assumes "valid_lifecycle lc"
  shows "shapeIssues lc = []" "flag_rules lc = []" "known_state_rules lc = []"
    "move_rules lc [] (l_moves lc) = []" "create_rules lc = []" "claim_rules lc = []"
    "discard_rules lc = []" "expiry_rules lc = []"
  using assms
  by (auto simp: valid_lifecycle_def defineLifecycle_def lifecycleViolations_def split: if_splits)

lemma flagged_iff:
  assumes "distinct (map fst (l_states lc))"
  shows "s \<in> set (flagged fl lc) \<longleftrightarrow> stateFlag fl lc s"
proof -
  have "s \<in> set (flagged fl lc) \<longleftrightarrow> (\<exists>f. (s, f) \<in> set (l_states lc) \<and> fl f)"
    by (force simp: flagged_def)
  also have "\<dots> \<longleftrightarrow> (\<exists>f. map_of (l_states lc) s = Some f \<and> fl f)"
    using assms by simp
  finally show ?thesis by (auto simp: stateFlag_def split: option.splits)
qed

lemma stateFlag_isState: "stateFlag fl lc s \<Longrightarrow> isState lc s"
  by (force simp: stateFlag_def isState_def split: option.splits dest: map_of_SomeD)

lemma unique_flag:
  assumes v: "valid_lifecycle lc" and fl: "fl = sf_claimable \<or> fl = sf_leased"
  obtains s where "flagged fl lc = [s]" "first_flagged fl lc = Some s" "unique_flagged fl lc = Some s"
    "\<And>x. stateFlag fl lc x \<longleftrightarrow> x = s"
proof -
  have "length (flagged fl lc) = 1"
    using valid_rules(2)[OF v] fl by (auto simp: flag_rules_def)
  then obtain s where s: "flagged fl lc = [s]" by (auto simp: length_Suc_conv)
  have "stateFlag fl lc x \<longleftrightarrow> x = s" for x
    using flagged_iff[of lc x fl] v s by (auto simp: valid_lifecycle_def wf_objects_def)
  with s show ?thesis by (intro that[of s]) (auto simp: first_flagged_def unique_flagged_def)
qed

lemma claimableState_iff: "valid_lifecycle lc \<Longrightarrow> claimableState lc = Some s \<longleftrightarrow> stateFlag sf_claimable lc s"
  by (erule unique_flag[of lc sf_claimable]) (auto simp: claimableState_def)

lemma leasedState_iff: "valid_lifecycle lc \<Longrightarrow> leasedState lc = Some s \<longleftrightarrow> stateFlag sf_leased lc s"
  by (erule unique_flag[of lc sf_leased]) (auto simp: leasedState_def)

lemma move_rules_Nil:
  "move_rules lc seen ms = [] \<longleftrightarrow>
   distinct (map m_name ms) \<and> set (map m_name ms) \<inter> set seen = {} \<and>
   (\<forall>m \<in> set ms. (\<forall>s \<in> set (m_from m). \<not> isTerminal lc s) \<and>
      (case m_guard m of None \<Rightarrow> True | Some g \<Rightarrow> (case g_name g of None \<Rightarrow> False | Some n \<Rightarrow> n \<noteq> '''')))"
  by (induction ms arbitrary: seen) (auto split: option.splits)

lemma valid_move_names: "valid_lifecycle lc \<Longrightarrow> distinct (map m_name (l_moves lc))"
  using valid_rules(4) by (fastforce simp: move_rules_Nil)

lemma moveNamed_SomeD: "moveNamed lc nm = Some m \<Longrightarrow> m \<in> set (l_moves lc) \<and> m_name m = nm"
  by (auto simp: moveNamed_def find_Some_iff)

lemma moveNamed_eq: "valid_lifecycle lc \<Longrightarrow> m \<in> set (l_moves lc) \<Longrightarrow> moveNamed lc (m_name m) = Some m"
  using find_row_unique[of m_name "l_moves lc" m] valid_move_names[of lc]
  by (simp add: moveNamed_def find_row_def)

lemma lastMoveNamed_eq: "valid_lifecycle lc \<Longrightarrow> lastMoveNamed lc nm = moveNamed lc nm"
proof -
  assume v: "valid_lifecycle lc"
  have "find (\<lambda>m. m_name m = nm) (rev ms) = find (\<lambda>m. m_name m = nm) ms" if "distinct (map m_name ms)" for ms :: "'a move list"
  proof (cases "find (\<lambda>m. m_name m = nm) ms")
    case None
    then have "find (\<lambda>m. m_name m = nm) (rev ms) = None" by (auto simp: find_None_iff)
    with None show ?thesis by simp
  next
    case (Some m)
    then have "m \<in> set ms" "m_name m = nm" by (auto simp: find_Some_iff)
    then show ?thesis
      using find_row_unique[of m_name "rev ms" m] that Some by (simp add: find_row_def rev_map[symmetric])
  qed
  from this[OF valid_move_names[OF v]] show ?thesis by (simp add: lastMoveNamed_def moveNamed_def)
qed

text \<open>The rules a transaction rests on, one fact each.\<close>

lemma move_from_live:
  "valid_lifecycle lc \<Longrightarrow> m \<in> set (l_moves lc) \<Longrightarrow> s \<in> set (m_from m) \<Longrightarrow> \<not> isTerminal lc s"
  using valid_rules(4) by (fastforce simp: move_rules_Nil)

lemma move_to_state: "valid_lifecycle lc \<Longrightarrow> m \<in> set (l_moves lc) \<Longrightarrow> isState lc (m_to m)"
  using valid_rules(3)[of lc] by (fastforce simp: known_state_rules_def unknownState_def)

lemma leased_only_by_claim:
  assumes v: "valid_lifecycle lc" and m: "m \<in> set (l_moves lc)" and l: "stateFlag sf_leased lc (m_to m)"
  shows "m_name m = l_onClaim lc"
proof -
  obtain s where s: "unique_flagged sf_leased lc = Some s" "\<And>x. stateFlag sf_leased lc x \<longleftrightarrow> x = s"
    using unique_flag[OF v, of sf_leased] by metis
  show ?thesis using valid_rules(6)[OF v] m l s by (auto simp: claim_rules_def)
qed

lemma create_state:
  assumes v: "valid_lifecycle lc"
  shows "isState lc (l_createState lc)" "\<not> stateFlag sf_leased lc (l_createState lc)"
    "\<not> isTerminal lc (l_createState lc)"
proof -
  show "isState lc (l_createState lc)"
    using valid_rules(3)[OF v] by (simp add: known_state_rules_def unknownState_def)
  obtain s where s: "unique_flagged sf_leased lc = Some s" "\<And>x. stateFlag sf_leased lc x \<longleftrightarrow> x = s"
    using unique_flag[OF v, of sf_leased] by metis
  show "\<not> stateFlag sf_leased lc (l_createState lc)"
    using valid_rules(5)[OF v] s by (auto simp: create_rules_def)
  obtain m where "moveNamed lc (l_onApprove lc) = Some m" "l_createState lc \<in> set (m_from m)"
    using valid_rules(5)[OF v] lastMoveNamed_eq[OF v]
    by (auto simp: create_rules_def with_hook_def split: option.splits)
  then show "\<not> isTerminal lc (l_createState lc)"
    using move_from_live[OF v] moveNamed_SomeD by blast
qed

lemma claimable_flags:
  assumes v: "valid_lifecycle lc" and c: "stateFlag sf_claimable lc s"
  shows "\<not> stateFlag sf_leased lc s" "\<not> isTerminal lc s"
proof -
  obtain f where f: "map_of (l_states lc) s = Some f" "sf_claimable f"
    using c by (auto simp: stateFlag_def split: option.splits)
  then have "(s, f) \<in> set (l_states lc)" by (auto dest: map_of_SomeD)
  then have "\<not> sf_leased f \<and> \<not> sf_terminal f"
    using valid_rules(2)[OF v] f(2) by (fastforce simp: flag_rules_def)
  with f show "\<not> stateFlag sf_leased lc s" "\<not> isTerminal lc s"
    by (auto simp: stateFlag_def)
qed

lemma leased_not_terminal:
  assumes v: "valid_lifecycle lc" and c: "stateFlag sf_leased lc s"
  shows "\<not> isTerminal lc s"
proof -
  obtain f where f: "map_of (l_states lc) s = Some f" "sf_leased f"
    using c by (auto simp: stateFlag_def split: option.splits)
  then have "(s, f) \<in> set (l_states lc)" by (auto dest: map_of_SomeD)
  then have "\<not> sf_terminal f"
    using valid_rules(2)[OF v] f(2) by (fastforce simp: flag_rules_def)
  with f show ?thesis by (auto simp: stateFlag_def)
qed

lemma byRole_state:
  assumes v: "valid_lifecycle lc" and r: "(role, s) \<in> set (opt_list (l_byRole lc))"
  shows "s = l_createState lc \<or> stateFlag sf_claimable lc s"
proof -
  obtain c where c: "unique_flagged sf_claimable lc = Some c" "\<And>x. stateFlag sf_claimable lc x \<longleftrightarrow> x = c"
    using unique_flag[OF v, of sf_claimable] by metis
  have "\<forall>(role, s) \<in> set (opt_list (l_byRole lc)). s = l_createState lc \<or> s = c"
    using valid_rules(5)[OF v] c(1) by (auto simp: create_rules_def)
  with r c(2) show ?thesis by blast
qed

lemma claim_move:
  assumes v: "valid_lifecycle lc"
  obtains m c l where "moveNamed lc (l_onClaim lc) = Some m" "m \<in> set (l_moves lc)"
    "claimableState lc = Some c" "leasedState lc = Some l" "c \<in> set (m_from m)" "m_to m = l" "m_guard m = None"
proof -
  obtain c where c: "unique_flagged sf_claimable lc = Some c" "first_flagged sf_claimable lc = Some c"
    using unique_flag[OF v, of sf_claimable] by metis
  obtain l where l: "unique_flagged sf_leased lc = Some l" "first_flagged sf_leased lc = Some l"
    using unique_flag[OF v, of sf_leased] by metis
  obtain m where m: "moveNamed lc (l_onClaim lc) = Some m"
      and r: "c \<in> set (m_from m)" "m_to m = l" "m_guard m = None"
    using valid_rules(6)[OF v] lastMoveNamed_eq[OF v] c l
    by (auto simp: claim_rules_def with_hook_def split: option.splits)
  show ?thesis
    using that[of m c l] m r c l moveNamed_SomeD[OF m] by (auto simp: claimableState_def leasedState_def)
qed

lemma approve_move:
  assumes v: "valid_lifecycle lc"
  obtains m c where "moveNamed lc (l_onApprove lc) = Some m" "m \<in> set (l_moves lc)"
    "claimableState lc = Some c" "m_to m = c" "l_createState lc \<in> set (m_from m)"
proof -
  obtain c where c: "unique_flagged sf_claimable lc = Some c" "first_flagged sf_claimable lc = Some c"
    using unique_flag[OF v, of sf_claimable] by metis
  obtain m where m: "moveNamed lc (l_onApprove lc) = Some m"
      and r: "m_to m = c" "l_createState lc \<in> set (m_from m)"
    using valid_rules(5)[OF v] lastMoveNamed_eq[OF v] c
    by (auto simp: create_rules_def with_hook_def split: option.splits)
  show ?thesis using that[of m c] m r c moveNamed_SomeD[OF m] by (auto simp: claimableState_def)
qed

lemma discard_move:
  assumes v: "valid_lifecycle lc"
  obtains m where "moveNamed lc (l_onDiscard lc) = Some m" "m \<in> set (l_moves lc)"
    "isTerminal lc (m_to m)" "l_createState lc \<in> set (m_from m)"
proof -
  obtain m where m: "moveNamed lc (l_onDiscard lc) = Some m"
      and r: "isTerminal lc (m_to m)" "l_createState lc \<in> set (m_from m)"
    using valid_rules(7)[OF v] lastMoveNamed_eq[OF v]
    by (auto simp: discard_rules_def with_hook_def split: option.splits)
  show ?thesis using that[of m] m r moveNamed_SomeD[OF m] by auto
qed

definition is_expiry_hook :: "'x lifecycle \<Rightarrow> string \<Rightarrow> bool" where
  "is_expiry_hook lc nm \<longleftrightarrow> nm = l_onLeaseExpiry lc \<or> (\<exists>n. l_onRepeatedExpiry lc = Some (n, nm))"

lemma expiry_move:
  assumes v: "valid_lifecycle lc" and h: "is_expiry_hook lc nm"
  obtains m l where "moveNamed lc nm = Some m" "m \<in> set (l_moves lc)" "m_guard m = None"
    "leasedState lc = Some l" "l \<in> set (m_from m)" "\<not> isTerminal lc (m_to m)"
proof -
  obtain l where l: "unique_flagged sf_leased lc = Some l" "first_flagged sf_leased lc = Some l"
    using unique_flag[OF v, of sf_leased] by metis
  have "\<exists>m. moveNamed lc nm = Some m \<and> m_guard m = None \<and> l \<in> set (m_from m) \<and> \<not> isTerminal lc (m_to m)"
    using valid_rules(8)[OF v] lastMoveNamed_eq[OF v] l h
    by (auto simp: expiry_rules_def with_hook_def is_expiry_hook_def split: option.splits) blast
  then obtain m where m: "moveNamed lc nm = Some m"
      and r: "m_guard m = None" "l \<in> set (m_from m)" "\<not> isTerminal lc (m_to m)" by blast
  show ?thesis using that[of m l] m r l moveNamed_SomeD[OF m] by (auto simp: leasedState_def)
qed

subsection \<open>Permissions (permissions.ts)\<close>

definition checkPermission :: "'x lifecycle \<Rightarrow> call \<Rightarrow> string \<Rightarrow> string option \<Rightarrow> tg_error + unit" where
  "checkPermission lc c role st =
     (case Option.bind (map_of (l_permissions lc) c) (\<lambda>roles. map_of roles role) of
        Some AnyState \<Rightarrow> Inr ()
      | Some (InStates ss) \<Rightarrow>
          (case st of Some s \<Rightarrow> if s \<in> set ss then Inr () else Inl (NotPermitted (call_name c) role st)
           | None \<Rightarrow> Inl (NotPermitted (call_name c) role st))
      | None \<Rightarrow> Inl (NotPermitted (call_name c) role st))"

text \<open>\<open>ActorHandle.assertVersion\<close>: the project's active lifecycle must be this process's.\<close>

definition assertVersion :: "'l lifecycle \<Rightarrow> 'x db \<Rightarrow> tg_error + unit" where
  "assertVersion lc db =
     (if d_lifecycleName db \<noteq> l_name lc \<or> d_lifecycleVersion db \<noteq> l_version lc
      then Inl (VersionMismatch (''project '' @ d_projectId db @ '' is on lifecycle '' @ d_lifecycleName db @ ''@''
        @ show_nat (d_lifecycleVersion db) @ ''; this process runs '' @ l_name lc @ ''@'' @ show_nat (l_version lc)))
      else Inr ())"

definition check :: "'x lifecycle \<Rightarrow> actor \<Rightarrow> call \<Rightarrow> string option \<Rightarrow> 'x db \<Rightarrow> tg_error + unit" where
  "check lc a c st db = bindE (assertVersion lc db) (\<lambda>_. checkPermission lc c (ac_role a) st)"

end
