(* ===== verification/Graph.thy ===== *)
theory Graph
  imports Lifecycle "HOL-Library.Product_Lexorder"
begin

text \<open>
  The reads the transactions share (src/taskgraph/containers.ts and ready.ts) and the invariant of a
  project's rows, \<open>wf\<close>: the rules \<open>checkGraph\<close> (bundle.ts) states of a bundle "an engine path
  could have produced", the row checks and foreign keys of 0001_core.ts.

  The second half says, for each way a transaction changes the rows (a row update that keeps the
  id and parent, a new row, a deleted row, a reparent, a new edge, dropped edges), under which
  conditions it keeps each part of the invariant. The operations' own theories only have to
  show that the code's guards are those conditions.
\<close>

subsection \<open>Containers and dependents (containers.ts)\<close>

definition is_live :: "'x lifecycle \<Rightarrow> task \<Rightarrow> bool" where
  "is_live lc t \<longleftrightarrow> t_state t \<notin> set (terminalStates lc)"

definition childrenOf :: "'x db \<Rightarrow> string \<Rightarrow> task list" where
  "childrenOf db i = filter (\<lambda>t. t_parentId t = Some i) (d_tasks db)"

definition liveChildren :: "'x lifecycle \<Rightarrow> 'x db \<Rightarrow> string \<Rightarrow> string list" where
  "liveChildren lc db i = sort (map t_id (filter (is_live lc) (childrenOf db i)))"

definition liveDependents :: "'x lifecycle \<Rightarrow> 'x db \<Rightarrow> string \<Rightarrow> string list" where
  "liveDependents lc db i = sort (concat (map (\<lambda>(a, b).
     if b = i then map t_id (filter (\<lambda>t. t_id t = a \<and> is_live lc t) (d_tasks db)) else []) (d_deps db)))"

definition containerSettled :: "'x lifecycle \<Rightarrow> 'x db \<Rightarrow> string \<Rightarrow> bool" where
  "containerSettled lc db i \<longleftrightarrow>
     list_ex (\<lambda>t. t_id t = i \<and> t_kind t = Container) (d_tasks db) \<and>
     childrenOf db i \<noteq> [] \<and>
     \<not> list_ex (is_live lc) (childrenOf db i)"

definition created_key :: "task \<Rightarrow> int \<times> string" where
  "created_key t = (t_createdAt t, t_id t)"

definition settledContainers :: "'x lifecycle \<Rightarrow> 'x db \<Rightarrow> task list" where
  "settledContainers lc db = sort_key created_key (filter (\<lambda>t.
     t_kind t = Container \<and> Some (t_state t) = claimableState lc \<and>
     childrenOf db (t_id t) \<noteq> [] \<and> \<not> list_ex (is_live lc) (childrenOf db (t_id t))) (d_tasks db))"

definition assertParentOpen :: "'x lifecycle \<Rightarrow> task \<Rightarrow> string \<Rightarrow> tg_error + unit" where
  "assertParentOpen lc p child =
     (if isTerminal lc (t_state p)
      then Inl (InvalidRequest (''task '' @ t_id p @ '' is '' @ t_state p @ ''; '' @ child @ '' can't be put under it''))
      else Inr ())"

text \<open>
  \<open>lockWithParent\<close>: the task, after its parent's row and then its own are locked. The code starts
  over, three times at most, when the task moved to another parent in between; in one step it cannot.
\<close>

definition lockWithParent :: "'x db \<Rightarrow> string \<Rightarrow> tg_error + task" where
  "lockWithParent db i = bindE (loadTask db i) (\<lambda>seen.
     bindE (case t_parentId seen of None \<Rightarrow> Inr () | Some p \<Rightarrow> bindE (loadTask db p) (\<lambda>_. Inr ()))
       (\<lambda>_. loadTask db i))"

subsection \<open>Ready work (ready.ts)\<close>

text \<open>Whether the task waits on work in a state that doesn't satisfy it.\<close>

definition waits :: "'x lifecycle \<Rightarrow> 'x db \<Rightarrow> string \<Rightarrow> bool" where
  "waits lc db who \<longleftrightarrow> list_ex (\<lambda>(a, b). a = who \<and>
     list_ex (\<lambda>dep. t_id dep = b \<and> t_state dep \<notin> set (satisfyingStates lc)) (d_tasks db)) (d_deps db)"

definition ancestors :: "'x db \<Rightarrow> task \<Rightarrow> string list" where
  "ancestors db t = (case t_parentId t of None \<Rightarrow> [] | Some p \<Rightarrow> ups db p)"

definition held_up :: "'x lifecycle \<Rightarrow> 'x db \<Rightarrow> task \<Rightarrow> bool" where
  "held_up lc db t \<longleftrightarrow> list_ex (\<lambda>u. t_id u \<in> set (ancestors db t) \<and>
     (Some (t_state u) \<noteq> claimableState lc \<or> waits lc db (t_id u))) (d_tasks db)"

definition readyWhere :: "'x lifecycle \<Rightarrow> 'x db \<Rightarrow> task \<Rightarrow> bool" where
  "readyWhere lc db t \<longleftrightarrow>
     Some (t_state t) = claimableState lc \<and> t_kind t = Work \<and>
     (case t_holdUntil t of None \<Rightarrow> True | Some h \<Rightarrow> h \<le> d_now db) \<and>
     \<not> waits lc db (t_id t) \<and> \<not> held_up lc db t"

text \<open>Claim order: boosted first, then priority, then age, then id.\<close>

definition CLAIM_ORDER :: "task \<Rightarrow> bool \<times> int \<times> int \<times> string" where
  "CLAIM_ORDER t = (\<not> t_boosted t, t_priority t, t_createdAt t, t_id t)"

subsection \<open>The invariant of a project's rows\<close>

definition ids :: "task list \<Rightarrow> string set" where
  "ids ts = t_id ` set ts"

definition forest_ok :: "task list \<Rightarrow> bool" where
  "forest_ok ts \<longleftrightarrow> distinct (map t_id ts) \<and> snd ` parents ts \<subseteq> ids ts \<and> acyclic (parents ts)"

definition deps_ok :: "task list \<Rightarrow> dep set \<Rightarrow> bool" where
  "deps_ok ts ds \<longleftrightarrow> ds \<subseteq> ids ts \<times> ids ts \<and> acyclic ds \<and>
     (\<forall>(a, b) \<in> ds. (a, b) \<notin> (parents ts)\<^sup>+ \<and> (b, a) \<notin> (parents ts)\<^sup>+)"

definition states_ok :: "'x lifecycle \<Rightarrow> task list \<Rightarrow> bool" where
  "states_ok lc ts \<longleftrightarrow> (\<forall>t \<in> set ts. isState lc (t_state t) \<and>
     (stateFlag sf_leased lc (t_state t) \<longleftrightarrow> t_leaseAttemptId t \<noteq> None) \<and>
     (t_leaseAttemptId t = None \<longleftrightarrow> t_leaseExpiresAt t = None))"

text \<open>A closed task has no live child.\<close>

definition closed_ok :: "'x lifecycle \<Rightarrow> task list \<Rightarrow> bool" where
  "closed_ok lc ts \<longleftrightarrow> (\<forall>t \<in> set ts. \<forall>u \<in> set ts.
     t_parentId t = Some (t_id u) \<longrightarrow> isTerminal lc (t_state u) \<longrightarrow> isTerminal lc (t_state t))"

text \<open>No live task waits on work that ended without satisfying it.\<close>

definition waits_ok :: "'x lifecycle \<Rightarrow> task list \<Rightarrow> dep set \<Rightarrow> bool" where
  "waits_ok lc ts ds \<longleftrightarrow> (\<forall>t \<in> set ts. \<forall>u \<in> set ts.
     (t_id t, t_id u) \<in> ds \<longrightarrow> \<not> isTerminal lc (t_state t) \<longrightarrow> isTerminal lc (t_state u) \<longrightarrow>
     isSatisfying lc (t_state u))"

definition open_attempts :: "attempt list \<Rightarrow> string \<Rightarrow> string list" where
  "open_attempts ats i = map a_id (filter (\<lambda>a. a_taskId a = i \<and> a_endedAt a = None) ats)"

definition lease_list :: "task \<Rightarrow> string list" where
  "lease_list t = (case t_leaseAttemptId t of None \<Rightarrow> [] | Some x \<Rightarrow> [x])"

text \<open>A task's lease is its one open attempt.\<close>

definition attempts_ok :: "task list \<Rightarrow> attempt list \<Rightarrow> bool" where
  "attempts_ok ts ats \<longleftrightarrow> distinct (map a_id ats) \<and> a_taskId ` set ats \<subseteq> ids ts \<and>
     (\<forall>t \<in> set ts. open_attempts ats (t_id t) = lease_list t)"

definition row_ok :: "plan list \<Rightarrow> task \<Rightarrow> bool" where
  "row_ok ps t \<longleftrightarrow> (t_origin t = PlanOrigin \<longleftrightarrow> t_planId t \<noteq> None) \<and>
     (case t_planId t of None \<Rightarrow> True | Some p \<Rightarrow> p \<in> p_id ` set ps) \<and>
     length (t_title t) \<le> 500 \<and> 0 \<le> t_priority t \<and> t_priority t \<le> 4"

definition rows_ok :: "plan list \<Rightarrow> task list \<Rightarrow> bool" where
  "rows_ok ps ts \<longleftrightarrow> (\<forall>t \<in> set ts. row_ok ps t) \<and> distinct (map p_id ps) \<and>
     distinct (filter (\<lambda>k. k \<noteq> None) (map t_key ts)) \<and>
     (\<forall>p \<in> set ps. p_approvedAt p = None \<or> p_discardedAt p = None)"

definition wf :: "'l lifecycle \<Rightarrow> 'x db \<Rightarrow> bool" where
  "wf lc db \<longleftrightarrow> forest_ok (d_tasks db) \<and> deps_ok (d_tasks db) (set (d_deps db)) \<and>
     states_ok lc (d_tasks db) \<and> closed_ok lc (d_tasks db) \<and>
     waits_ok lc (d_tasks db) (set (d_deps db)) \<and> attempts_ok (d_tasks db) (d_attempts db) \<and>
     rows_ok (d_plans db) (d_tasks db) \<and> distinct (d_deps db)"

lemma wfD:
  assumes "wf lc db"
  shows "forest_ok (d_tasks db)" "deps_ok (d_tasks db) (set (d_deps db))" "states_ok lc (d_tasks db)"
    "closed_ok lc (d_tasks db)" "waits_ok lc (d_tasks db) (set (d_deps db))"
    "attempts_ok (d_tasks db) (d_attempts db)" "rows_ok (d_plans db) (d_tasks db)" "distinct (d_deps db)"
  using assms by (auto simp: wf_def)

lemma wf_same_rows: "same_rows a b \<Longrightarrow> wf lc a \<Longrightarrow> wf lc b"
  by (simp add: wf_def same_rowsD[of a b])

lemma wf_transaction:
  "transaction body db = Inr (r, db') \<Longrightarrow>
   (\<And>r db1 evs. body db = Inr (r, db1, evs) \<Longrightarrow> wf lc db1) \<Longrightarrow> wf lc db'"
  by (blast dest: transaction_Inr intro: wf_same_rows)

text \<open>A table starts empty, so a new project satisfies it.\<close>

lemma wf_empty:
  "d_tasks db = [] \<Longrightarrow> d_deps db = [] \<Longrightarrow> d_attempts db = [] \<Longrightarrow> d_plans db = [] \<Longrightarrow> wf lc db"
  by (simp add: wf_def forest_ok_def parents_def deps_ok_def states_ok_def closed_ok_def waits_ok_def
      attempts_ok_def rows_ok_def acyclic_def)

subsection \<open>Reading the invariant\<close>

lemma terminalStates_iff: "valid_lifecycle lc \<Longrightarrow> s \<in> set (terminalStates lc) \<longleftrightarrow> isTerminal lc s"
  by (simp add: terminalStates_def flagged_iff valid_lifecycle_def wf_objects_def)

lemma satisfyingStates_iff: "valid_lifecycle lc \<Longrightarrow> s \<in> set (satisfyingStates lc) \<longleftrightarrow> isSatisfying lc s"
  by (simp add: satisfyingStates_def flagged_iff valid_lifecycle_def wf_objects_def)

lemma is_live_iff: "valid_lifecycle lc \<Longrightarrow> is_live lc t \<longleftrightarrow> \<not> isTerminal lc (t_state t)"
  by (simp add: is_live_def terminalStates_iff)

lemma set_liveChildren:
  "valid_lifecycle lc \<Longrightarrow> set (liveChildren lc db i) =
     {t_id t | t. t \<in> set (d_tasks db) \<and> t_parentId t = Some i \<and> \<not> isTerminal lc (t_state t)}"
  by (auto simp: liveChildren_def childrenOf_def is_live_iff)

lemma set_liveDependents:
  "valid_lifecycle lc \<Longrightarrow> set (liveDependents lc db i) =
     {t_id t | t. t \<in> set (d_tasks db) \<and> (t_id t, i) \<in> set (d_deps db) \<and> \<not> isTerminal lc (t_state t)}"
  by (force simp: liveDependents_def is_live_iff split: if_splits)

lemma liveChildren_Nil:
  "valid_lifecycle lc \<Longrightarrow> liveChildren lc db i = [] \<longleftrightarrow>
     (\<forall>t \<in> set (d_tasks db). t_parentId t = Some i \<longrightarrow> isTerminal lc (t_state t))"
proof -
  assume v: "valid_lifecycle lc"
  have "liveChildren lc db i = [] \<longleftrightarrow> set (liveChildren lc db i) = {}" by simp
  then show ?thesis unfolding set_liveChildren[OF v] by auto
qed

lemma parents_unique: "distinct (map t_id ts) \<Longrightarrow> (i, p) \<in> parents ts \<Longrightarrow> (i, q) \<in> parents ts \<Longrightarrow> p = q"
  by (auto simp: parents_def) (metis distinct_key_eq option.inject)

lemma parents_iff:
  "distinct (map t_id ts) \<Longrightarrow> t \<in> set ts \<Longrightarrow> (t_id t, p) \<in> parents ts \<longleftrightarrow> t_parentId t = Some p"
  by (auto simp: parents_def) (metis distinct_key_eq)

lemma parents_fst: "fst ` parents ts \<subseteq> ids ts"
  by (auto simp: parents_def ids_def)

subsection \<open>A row update that keeps ids and parents\<close>

lemma parents_alt: "parents ts = {(i, p). (i, Some p) \<in> set (map (\<lambda>t. (t_id t, t_parentId t)) ts)}"
  by (auto simp: parents_def)

lemma ids_alt: "ids ts = set (map t_id ts)"
  by (simp add: ids_def)

lemma parents_upd: "(\<And>t. t_id (f t) = t_id t \<and> t_parentId (f t) = t_parentId t) \<Longrightarrow> parents (upd_row t_id i f ts) = parents ts"
  by (simp add: parents_alt map_upd_row del: set_map)

lemma ids_upd: "(\<And>t. t_id (f t) = t_id t) \<Longrightarrow> ids (upd_row t_id i f ts) = ids ts"
  by (simp add: ids_alt map_key_upd del: set_map)

definition keeps_place :: "(task \<Rightarrow> task) \<Rightarrow> bool" where
  "keeps_place f \<longleftrightarrow> (\<forall>t. t_id (f t) = t_id t \<and> t_parentId (f t) = t_parentId t)"

lemma forest_upd: "keeps_place f \<Longrightarrow> forest_ok ts \<Longrightarrow> forest_ok (upd_row t_id i f ts)"
  by (simp add: forest_ok_def keeps_place_def parents_upd ids_upd map_key_upd)

lemma deps_upd: "keeps_place f \<Longrightarrow> deps_ok ts ds \<Longrightarrow> deps_ok (upd_row t_id i f ts) ds"
  by (simp add: deps_ok_def keeps_place_def parents_upd ids_upd)

lemma deps_drop: "deps_ok ts ds \<Longrightarrow> es \<subseteq> ds \<Longrightarrow> deps_ok ts es"
  by (auto simp: deps_ok_def intro: acyclic_subset)

lemma waits_drop: "waits_ok lc ts ds \<Longrightarrow> es \<subseteq> ds \<Longrightarrow> waits_ok lc ts es"
  by (auto simp: waits_ok_def)

lemma rows_upd:
  assumes "rows_ok ps ts"
    and "\<And>t. t \<in> set ts \<Longrightarrow> t_id t = i \<Longrightarrow> row_ok ps t \<Longrightarrow> row_ok ps (f t)"
    and "\<And>t. t_key (f t) = t_key t"
  shows "rows_ok ps (upd_row t_id i f ts)"
  using assms by (auto simp: rows_ok_def set_upd_row map_upd_row)

lemma upd_row_mem:
  "u \<in> set (upd_row t_id i f ts) \<Longrightarrow>
   \<exists>t \<in> set ts. (t_id t = i \<and> u = f t) \<or> (t_id t \<noteq> i \<and> u = t)"
  by (auto simp: set_upd_row)

text \<open>
  A change of state: from a live state, and into a terminal one only when no child is live (and, for
  one that doesn't satisfy dependencies, when no live task waits).
\<close>

lemma closed_upd:
  assumes k: "keeps_place f" and c: "closed_ok lc ts"
    and live: "\<And>t. t \<in> set ts \<Longrightarrow> t_id t = i \<Longrightarrow> isTerminal lc (t_state t) \<Longrightarrow> isTerminal lc (t_state (f t))"
    and ch: "\<And>t u. t \<in> set ts \<Longrightarrow> t_id t = i \<Longrightarrow> isTerminal lc (t_state (f t)) \<Longrightarrow> u \<in> set ts \<Longrightarrow>
       t_parentId u = Some i \<Longrightarrow> isTerminal lc (t_state u)"
  shows "closed_ok lc (upd_row t_id i f ts)"
  unfolding closed_ok_def
proof (intro ballI impI)
  fix t' u'
  assume "t' \<in> set (upd_row t_id i f ts)" "u' \<in> set (upd_row t_id i f ts)"
    and p: "t_parentId t' = Some (t_id u')" and tm: "isTerminal lc (t_state u')"
  then obtain t u where t: "t \<in> set ts" "(t_id t = i \<and> t' = f t) \<or> (t_id t \<noteq> i \<and> t' = t)"
      and u: "u \<in> set ts" "(t_id u = i \<and> u' = f u) \<or> (t_id u \<noteq> i \<and> u' = u)"
    using upd_row_mem by meson
  have pu: "t_parentId t = Some (t_id u)" using p t u k by (auto simp: keeps_place_def)
  have "isTerminal lc (t_state t)"
  proof (cases "t_id u = i")
    case True
    then show ?thesis using ch[of u t] u t(1) tm pu by auto
  next
    case False
    then have "isTerminal lc (t_state u)" using u tm by auto
    then show ?thesis using c t(1) u(1) pu by (auto simp: closed_ok_def)
  qed
  then show "isTerminal lc (t_state t')" using t live by auto
qed

lemma waits_upd:
  assumes k: "keeps_place f" and w: "waits_ok lc ts ds"
    and live: "\<And>t. t \<in> set ts \<Longrightarrow> t_id t = i \<Longrightarrow> isTerminal lc (t_state t) \<Longrightarrow> isTerminal lc (t_state (f t))"
    and dp: "\<And>t u. t \<in> set ts \<Longrightarrow> t_id t = i \<Longrightarrow> isTerminal lc (t_state (f t)) \<Longrightarrow>
       \<not> isSatisfying lc (t_state (f t)) \<Longrightarrow> u \<in> set ts \<Longrightarrow> (t_id u, i) \<in> ds \<Longrightarrow> isTerminal lc (t_state u)"
  shows "waits_ok lc (upd_row t_id i f ts) ds"
  unfolding waits_ok_def
proof (intro ballI impI)
  fix t' u'
  assume "t' \<in> set (upd_row t_id i f ts)" "u' \<in> set (upd_row t_id i f ts)"
    and e: "(t_id t', t_id u') \<in> ds" and nt: "\<not> isTerminal lc (t_state t')" and tm: "isTerminal lc (t_state u')"
  then obtain t u where t: "t \<in> set ts" "(t_id t = i \<and> t' = f t) \<or> (t_id t \<noteq> i \<and> t' = t)"
      and u: "u \<in> set ts" "(t_id u = i \<and> u' = f u) \<or> (t_id u \<noteq> i \<and> u' = u)"
    using upd_row_mem by meson
  have e': "(t_id t, t_id u) \<in> ds" using e t u k by (auto simp: keeps_place_def)
  have nt': "\<not> isTerminal lc (t_state t)" using nt t live by auto
  show "isSatisfying lc (t_state u')"
  proof (cases "t_id u = i")
    case True
    then show ?thesis using dp[of u t] u t(1) tm e' nt' by auto
  next
    case False
    then show ?thesis using w u t(1) e' nt' tm by (auto simp: waits_ok_def)
  qed
qed

lemma states_upd:
  assumes "states_ok lc ts"
    and "\<And>t. t \<in> set ts \<Longrightarrow> t_id t = i \<Longrightarrow> isState lc (t_state (f t)) \<and>
      (stateFlag sf_leased lc (t_state (f t)) \<longleftrightarrow> t_leaseAttemptId (f t) \<noteq> None) \<and>
      (t_leaseAttemptId (f t) = None \<longleftrightarrow> t_leaseExpiresAt (f t) = None)"
  shows "states_ok lc (upd_row t_id i f ts)"
  unfolding states_ok_def using assms(1) assms(2) upd_row_mem[of _ i f ts]
  by (metis (no_types, lifting) states_ok_def)

subsection \<open>Attempts and leases\<close>

lemma attempts_upd:
  assumes "attempts_ok ts ats" and "keeps_place f"
    and "\<And>t. t \<in> set ts \<Longrightarrow> t_id t = i \<Longrightarrow> lease_list (f t) = lease_list t"
  shows "attempts_ok (upd_row t_id i f ts) ats"
proof -
  have "open_attempts ats (t_id u) = lease_list u" if u: "u \<in> set (upd_row t_id i f ts)" for u
  proof -
    obtain t where t: "t \<in> set ts" "(t_id t = i \<and> u = f t) \<or> (t_id t \<noteq> i \<and> u = t)"
      using upd_row_mem[OF u] by blast
    then show ?thesis using assms by (auto simp: attempts_ok_def keeps_place_def)
  qed
  then show ?thesis using assms by (auto simp: attempts_ok_def keeps_place_def ids_upd)
qed

text \<open>Ending the attempt that holds a task's lease, and taking the lease off the row.\<close>

definition end_row :: "int \<Rightarrow> string \<Rightarrow> attempt \<Rightarrow> attempt" where
  "end_row now outcome a =
     (if a_endedAt a = None then a\<lparr>a_endedAt := Some now, a_outcome := Some outcome\<rparr> else a)"

lemma endAttempt_eq: "endAttempt x o' db = db\<lparr>d_attempts := upd_row a_id x (end_row (d_now db) o') (d_attempts db)\<rparr>"
  by (simp add: endAttempt_def upd_attempt_def end_row_def[abs_def])

lemma end_row_keeps [simp]: "a_id (end_row n o' a) = a_id a" "a_taskId (end_row n o' a) = a_taskId a"
  "a_endedAt (end_row n o' a) \<noteq> None"
  by (auto simp: end_row_def)

lemma open_attempts_end:
  "open_attempts (upd_row a_id x (end_row n o') ats) i = filter (\<lambda>y. y \<noteq> x) (open_attempts ats i)"
  by (induction ats) (auto simp: open_attempts_def end_row_def)

lemma attempts_unlease:
  assumes a: "attempts_ok ts ats" and d: "distinct (map t_id ts)" and k: "keeps_place f"
    and t: "t \<in> set ts" "t_id t = i" "t_leaseAttemptId t = Some x"
    and f: "t_leaseAttemptId (f t) = None"
  shows "attempts_ok (upd_row t_id i f ts) (upd_row a_id x (end_row n o') ats)"
proof -
  have own: "open_attempts ats i = [x]" using a t by (auto simp: attempts_ok_def lease_list_def)
  have other: "x \<notin> set (open_attempts ats j)" if "j \<noteq> i" for j
  proof
    assume "x \<in> set (open_attempts ats j)"
    moreover have "x \<in> set (open_attempts ats i)" using own by simp
    ultimately obtain b c where "b \<in> set ats" "c \<in> set ats" "a_id b = a_id c" "a_taskId b = j" "a_taskId c = i"
      by (auto simp: open_attempts_def)
    with a that show False by (auto simp: attempts_ok_def dest: distinct_key_eq)
  qed
  have "open_attempts (upd_row a_id x (end_row n o') ats) (t_id u) = lease_list u"
    if u: "u \<in> set (upd_row t_id i f ts)" for u
  proof -
    obtain s where s: "s \<in> set ts" "(t_id s = i \<and> u = f s) \<or> (t_id s \<noteq> i \<and> u = s)"
      using upd_row_mem[OF u] by blast
    show ?thesis
    proof (cases "t_id s = i")
      case True
      then have "s = t" using d s(1) t by (auto dest: distinct_key_eq)
      then show ?thesis using s True own f k t by (auto simp: open_attempts_end lease_list_def keeps_place_def)
    next
      case False
      then have "u = s" using s(2) by auto
      moreover have "filter (\<lambda>y. y \<noteq> x) (open_attempts ats (t_id s)) = open_attempts ats (t_id s)"
        using other[OF False] by (auto simp: filter_id_conv)
      ultimately show ?thesis using a s(1) by (auto simp: open_attempts_end attempts_ok_def)
    qed
  qed
  moreover have "a_taskId ` set (upd_row a_id x (end_row n o') ats) = a_taskId ` set ats"
    by (simp add: map_upd_row flip: set_map)
  ultimately show ?thesis
    using a k by (auto simp: attempts_ok_def map_key_upd ids_upd keeps_place_def)
qed

text \<open>A new attempt, and its id as the row's lease.\<close>

lemma attempts_lease:
  assumes a: "attempts_ok ts ats" and d: "distinct (map t_id ts)" and k: "keeps_place f"
    and t: "t \<in> set ts" "t_id t = i" "t_leaseAttemptId t = None"
    and f: "t_leaseAttemptId (f t) = Some (a_id b)"
    and b: "a_taskId b = i" "a_endedAt b = None" "a_id b \<notin> a_id ` set ats"
  shows "attempts_ok (upd_row t_id i f ts) (ats @ [b])"
proof -
  have "open_attempts (ats @ [b]) (t_id u) = lease_list u" if u: "u \<in> set (upd_row t_id i f ts)" for u
  proof -
    obtain s where s: "s \<in> set ts" "(t_id s = i \<and> u = f s) \<or> (t_id s \<noteq> i \<and> u = s)"
      using upd_row_mem[OF u] by blast
    show ?thesis
    proof (cases "t_id s = i")
      case True
      then have "s = t" using d s(1) t by (auto dest: distinct_key_eq)
      moreover have "open_attempts ats i = []" using a t by (auto simp: attempts_ok_def lease_list_def)
      ultimately show ?thesis
        using s True f k b by (auto simp: open_attempts_def lease_list_def keeps_place_def)
    next
      case False
      then show ?thesis using s a b by (auto simp: open_attempts_def attempts_ok_def)
    qed
  qed
  moreover have "i \<in> ids ts" using t by (auto simp: ids_def)
  ultimately show ?thesis using a k b by (auto simp: attempts_ok_def ids_upd keeps_place_def)
qed

subsection \<open>A new row\<close>

lemma parents_append: "parents (ts @ [t]) = (case t_parentId t of None \<Rightarrow> parents ts | Some p \<Rightarrow> insert (t_id t, p) (parents ts))"
  by (auto simp: parents_def split: option.splits)

lemma parents_range: "forest_ok ts \<Longrightarrow> (x, y) \<in> parents ts \<Longrightarrow> x \<in> ids ts \<and> y \<in> ids ts"
  using image_eqI[of x fst "(x, y)" "parents ts"] image_eqI[of y snd "(x, y)" "parents ts"] parents_fst[of ts]
  by (auto simp: forest_ok_def)

lemma parents_star_fresh: "forest_ok ts \<Longrightarrow> i \<notin> ids ts \<Longrightarrow> (a, i) \<in> (parents ts)\<^sup>* \<Longrightarrow> a = i"
  by (erule rtranclE) (auto dest: parents_range)

lemma ids_append: "ids (ts @ [t]) = insert (t_id t) (ids ts)"
  by (simp add: ids_def)

lemma forest_append:
  assumes f: "forest_ok ts" and i: "t_id t \<notin> ids ts" and p: "\<And>p. t_parentId t = Some p \<Longrightarrow> p \<in> ids ts"
  shows "forest_ok (ts @ [t])"
proof -
  have d: "distinct (map t_id (ts @ [t]))"
    using f i by (simp add: forest_ok_def ids_def)
  show ?thesis
  proof (cases "t_parentId t")
    case None
    then show ?thesis using f d by (auto simp: forest_ok_def parents_append ids_append)
  next
    case (Some q)
    then have "q \<in> ids ts" by (rule p)
    moreover from this i have "(q, t_id t) \<notin> (parents ts)\<^sup>*"
      using parents_star_fresh[OF f i] by metis
    ultimately show ?thesis
      using f d Some by (auto simp: forest_ok_def parents_append ids_append)
  qed
qed

lemma parents_append_trancl:
  assumes f: "forest_ok ts" and i: "t_id t \<notin> ids ts"
    and xy: "(x, y) \<in> (parents (ts @ [t]))\<^sup>+" and x: "x \<in> ids ts"
  shows "(x, y) \<in> (parents ts)\<^sup>+"
proof (cases "t_parentId t")
  case None
  then show ?thesis using xy by (simp add: parents_append)
next
  case (Some q)
  have "(x, t_id t) \<notin> (parents ts)\<^sup>*" using parents_star_fresh[OF f i] x i by metis
  then show ?thesis using xy Some by (simp add: parents_append trancl_insert)
qed

lemma deps_append:
  assumes f: "forest_ok ts" and i: "t_id t \<notin> ids ts" and d: "deps_ok ts ds"
  shows "deps_ok (ts @ [t]) ds"
proof -
  have m: "a \<in> ids ts \<and> b \<in> ids ts" if "(a, b) \<in> ds" for a b using d that by (auto simp: deps_ok_def)
  have "(a, b) \<notin> (parents (ts @ [t]))\<^sup>+ \<and> (b, a) \<notin> (parents (ts @ [t]))\<^sup>+" if "(a, b) \<in> ds" for a b
    using parents_append_trancl[OF f i] m[OF that] d that by (auto simp: deps_ok_def)
  moreover have "ds \<subseteq> ids (ts @ [t]) \<times> ids (ts @ [t])" using m by (auto simp: ids_append)
  ultimately show ?thesis using d by (auto simp: deps_ok_def)
qed

lemma states_append: "states_ok lc (ts @ [t]) \<longleftrightarrow> states_ok lc ts \<and> states_ok lc [t]"
  by (auto simp: states_ok_def)

lemma closed_append:
  assumes f: "forest_ok ts" and i: "t_id t \<notin> ids ts" and c: "closed_ok lc ts"
    and p: "\<And>u. u \<in> set ts \<Longrightarrow> t_parentId t = Some (t_id u) \<Longrightarrow> \<not> isTerminal lc (t_state u)"
    and n: "\<not> isTerminal lc (t_state t)"
  shows "closed_ok lc (ts @ [t])"
proof -
  have "t_parentId u \<noteq> Some (t_id t)" if "u \<in> set ts" for u
    using that f i parents_range[OF f, of "t_id u" "t_id t"] by (auto simp: parents_def)
  then show ?thesis using c p n by (auto simp: closed_ok_def)
qed

lemma waits_append:
  "deps_ok ts ds \<Longrightarrow> t_id t \<notin> ids ts \<Longrightarrow> waits_ok lc ts ds \<Longrightarrow> waits_ok lc (ts @ [t]) ds"
  by (auto simp: waits_ok_def deps_ok_def)

lemma attempts_append:
  assumes a: "attempts_ok ts ats" and i: "t_id t \<notin> ids ts" and l: "t_leaseAttemptId t = None"
  shows "attempts_ok (ts @ [t]) ats"
proof -
  have "open_attempts ats (t_id t) = []"
    using a i by (auto simp: attempts_ok_def open_attempts_def filter_empty_conv)
  then show ?thesis using a l by (auto simp: attempts_ok_def ids_def lease_list_def)
qed

lemma rows_append:
  assumes "rows_ok ps ts" "row_ok ps t" "t_key t \<noteq> None \<Longrightarrow> t_key t \<notin> t_key ` set ts"
  shows "rows_ok ps (ts @ [t])"
  using assms by (auto simp: rows_ok_def)

subsection \<open>A deleted row\<close>

lemma parents_del: "parents (del_row t_id i ts) = {(x, y) \<in> parents ts. x \<noteq> i}"
  by (auto simp: parents_def set_del_row)

lemma ids_del: "ids (del_row t_id i ts) = ids ts - {i}"
  by (auto simp: ids_def set_del_row)

lemma forest_del:
  assumes f: "forest_ok ts" and c: "\<And>t. t \<in> set ts \<Longrightarrow> t_parentId t \<noteq> Some i"
  shows "forest_ok (del_row t_id i ts)"
proof -
  have "acyclic (parents (del_row t_id i ts))"
    using f by (auto simp: forest_ok_def parents_del intro: acyclic_subset)
  moreover have "(x, i) \<notin> parents ts" for x using c by (auto simp: parents_def)
  ultimately show ?thesis
    using f by (fastforce simp: forest_ok_def parents_del ids_del intro: distinct_del_row)
qed

lemma deps_del:
  assumes "deps_ok ts ds"
  shows "deps_ok (del_row t_id i ts) {(a, b) \<in> ds. a \<noteq> i \<and> b \<noteq> i}"
proof -
  have "(x, y) \<in> (parents (del_row t_id i ts))\<^sup>+ \<Longrightarrow> (x, y) \<in> (parents ts)\<^sup>+" for x y
    by (rule trancl_sub) (auto simp: parents_del)
  moreover have "acyclic {(a, b) \<in> ds. a \<noteq> i \<and> b \<noteq> i}"
    using assms by (auto simp: deps_ok_def intro: acyclic_subset)
  ultimately show ?thesis using assms by (auto simp: deps_ok_def ids_del)
qed

lemma states_del: "states_ok lc ts \<Longrightarrow> states_ok lc (del_row t_id i ts)"
  by (auto simp: states_ok_def set_del_row)

lemma closed_del: "closed_ok lc ts \<Longrightarrow> closed_ok lc (del_row t_id i ts)"
  by (auto simp: closed_ok_def set_del_row)

lemma waits_del: "waits_ok lc ts ds \<Longrightarrow> waits_ok lc (del_row t_id i ts) ds"
  by (auto simp: waits_ok_def set_del_row)

lemma attempts_del:
  "attempts_ok ts ats \<Longrightarrow> i \<notin> a_taskId ` set ats \<Longrightarrow> attempts_ok (del_row t_id i ts) ats"
  by (auto simp: attempts_ok_def ids_del set_del_row)

lemma distinct_filter_map_del:
  "distinct (filter P (map g ts)) \<Longrightarrow> distinct (filter P (map g (del_row key i ts)))"
  by (induction ts) (auto simp: del_row_def)

lemma rows_del: "rows_ok ps ts \<Longrightarrow> rows_ok ps (del_row t_id i ts)"
  by (auto simp: rows_ok_def set_del_row intro: distinct_filter_map_del)

subsection \<open>A reparent\<close>

definition set_parent :: "string \<Rightarrow> string option \<Rightarrow> task list \<Rightarrow> task list" where
  "set_parent i p ts = upd_row t_id i (\<lambda>t. t\<lparr>t_parentId := p\<rparr>) ts"

definition cut :: "string \<Rightarrow> task list \<Rightarrow> (string \<times> string) set" where
  "cut i ts = {(x, y) \<in> parents ts. x \<noteq> i}"

lemma parents_Cons: "parents (t # ts) = {(t_id t, q) | q. t_parentId t = Some q} \<union> parents ts"
  by (auto simp: parents_def)

lemma ids_Cons: "ids (t # ts) = insert (t_id t) (ids ts)"
  by (simp add: ids_def)

lemma parents_set_parent_iff:
  "(x, y) \<in> parents (set_parent i p ts) \<longleftrightarrow> (x \<noteq> i \<and> (x, y) \<in> parents ts) \<or> (x = i \<and> i \<in> ids ts \<and> p = Some y)"
proof (induction ts)
  case (Cons t ts)
  then show ?case unfolding set_parent_def by (auto simp: parents_Cons ids_Cons)
qed (simp add: set_parent_def parents_def ids_def)

lemma parents_set_parent:
  "parents (set_parent i p ts) =
     (case p of Some q \<Rightarrow> if i \<in> ids ts then insert (i, q) (cut i ts) else cut i ts | None \<Rightarrow> cut i ts)"
proof -
  have "e \<in> parents (set_parent i p ts) \<longleftrightarrow>
      e \<in> (case p of Some q \<Rightarrow> if i \<in> ids ts then insert (i, q) (cut i ts) else cut i ts | None \<Rightarrow> cut i ts)" for e
    by (cases e) (auto simp: parents_set_parent_iff cut_def split: option.splits)
  then show ?thesis by blast
qed

lemma set_parent_simps [simp]: "map t_id (set_parent i p ts) = map t_id ts" "ids (set_parent i p ts) = ids ts"
  by (simp_all add: set_parent_def map_key_upd ids_upd)

lemma forest_set_parent:
  assumes f: "forest_ok ts"
    and p: "\<And>q. p = Some q \<Longrightarrow> q \<in> ids ts \<and> (q, i) \<notin> (parents ts)\<^sup>*"
  shows "forest_ok (set_parent i p ts)"
proof -
  have sub: "cut i ts \<subseteq> parents ts" by (auto simp: cut_def)
  have ac: "acyclic (cut i ts)" using f sub by (auto simp: forest_ok_def intro: acyclic_subset)
  have "acyclic (parents (set_parent i p ts))"
    using p ac rtrancl_sub[OF _ sub] by (auto simp: parents_set_parent acyclic_insert split: option.splits)
  moreover have "snd ` parents (set_parent i p ts) \<subseteq> ids ts"
    using p f sub by (auto simp: parents_set_parent forest_ok_def split: option.splits)
  ultimately show ?thesis using f by (simp add: forest_ok_def)
qed

lemma set_parent_trancl:
  assumes "(x, y) \<in> (parents (set_parent i p ts))\<^sup>+"
  shows "(x, y) \<in> (parents ts)\<^sup>+ \<or> (\<exists>q. p = Some q \<and> (x, i) \<in> (parents ts)\<^sup>* \<and> (q, y) \<in> (parents ts)\<^sup>*)"
proof -
  have sub: "cut i ts \<subseteq> parents ts" by (auto simp: cut_def)
  show ?thesis
  proof (cases "p = None \<or> i \<notin> ids ts")
    case True
    then have "(x, y) \<in> (cut i ts)\<^sup>+" using assms by (auto simp: parents_set_parent split: option.splits)
    then show ?thesis using trancl_sub[OF _ sub] by blast
  next
    case False
    then obtain q where q: "p = Some q" "parents (set_parent i p ts) = insert (i, q) (cut i ts)"
      by (auto simp: parents_set_parent)
    then have "(x, y) \<in> (cut i ts)\<^sup>+ \<or> (x, i) \<in> (cut i ts)\<^sup>* \<and> (q, y) \<in> (cut i ts)\<^sup>*"
      using assms by (simp add: trancl_insert)
    then show ?thesis using q(1) trancl_sub[OF _ sub] rtrancl_sub[OF _ sub] by blast
  qed
qed

lemma deps_set_parent:
  assumes d: "deps_ok ts ds"
    and j: "\<And>q a b. p = Some q \<Longrightarrow> (a, b) \<in> ds \<Longrightarrow>
      \<not> ((a, i) \<in> (parents ts)\<^sup>* \<and> (q, b) \<in> (parents ts)\<^sup>*) \<and> \<not> ((b, i) \<in> (parents ts)\<^sup>* \<and> (q, a) \<in> (parents ts)\<^sup>*)"
  shows "deps_ok (set_parent i p ts) ds"
proof -
  have "(a, b) \<notin> (parents (set_parent i p ts))\<^sup>+ \<and> (b, a) \<notin> (parents (set_parent i p ts))\<^sup>+" if "(a, b) \<in> ds" for a b
    using set_parent_trancl[of a b i p ts] set_parent_trancl[of b a i p ts] j[OF _ that] d that
    by (auto simp: deps_ok_def)
  then show ?thesis using d by (auto simp: deps_ok_def)
qed

lemma closed_set_parent:
  assumes c: "closed_ok lc ts" and d: "distinct (map t_id ts)"
    and p: "\<And>t u. p = Some (t_id u) \<Longrightarrow> t \<in> set ts \<Longrightarrow> t_id t = i \<Longrightarrow> u \<in> set ts \<Longrightarrow>
       isTerminal lc (t_state u) \<Longrightarrow> isTerminal lc (t_state t)"
  shows "closed_ok lc (set_parent i p ts)"
  unfolding closed_ok_def
proof (intro ballI impI)
  fix t' u'
  assume m: "t' \<in> set (set_parent i p ts)" "u' \<in> set (set_parent i p ts)"
    and pu: "t_parentId t' = Some (t_id u')" and tm: "isTerminal lc (t_state u')"
  obtain t where t: "t \<in> set ts" "(t_id t = i \<and> t' = t\<lparr>t_parentId := p\<rparr>) \<or> (t_id t \<noteq> i \<and> t' = t)"
    using upd_row_mem m(1) unfolding set_parent_def by meson
  obtain u where u: "u \<in> set ts" "t_id u' = t_id u" "t_state u' = t_state u"
    using upd_row_mem m(2) unfolding set_parent_def by fastforce
  show "isTerminal lc (t_state t')"
    using t u pu tm c p[of u t] by (auto simp: closed_ok_def)
qed

subsection \<open>A new edge\<close>

lemma deps_insert:
  assumes d: "deps_ok ts ds" and e: "a \<in> ids ts" "b \<in> ids ts" "(b, a) \<notin> ds\<^sup>*"
    and n: "(a, b) \<notin> (parents ts)\<^sup>+" "(b, a) \<notin> (parents ts)\<^sup>+"
  shows "deps_ok ts (insert (a, b) ds)"
  using assms by (auto simp: deps_ok_def acyclic_insert)

lemma waits_insert:
  assumes "waits_ok lc ts ds"
    and "\<And>u. u \<in> set ts \<Longrightarrow> t_id u = b \<Longrightarrow> isTerminal lc (t_state u) \<Longrightarrow> isSatisfying lc (t_state u)"
  shows "waits_ok lc ts (insert (a, b) ds)"
  using assms by (auto simp: waits_ok_def)

end
