(* ===== verification/Ids.thy ===== *)
theory Ids
  imports Graph
begin

text \<open>
  Task and plan ids (src/taskgraph/ids.ts): a prefix and random base-36 characters, one more each time
  a quarter of the space at the current length is used; a child is its parent's id, a dot and the
  parent's counter. The random source is a sequence \<open>rand\<close>, read from a position on;
  \<open>randomInt(36)\<close> returns a number below 36, which is a hypothesis where it matters.
\<close>

definition ALPHABET :: string where
  "ALPHABET = ''0123456789abcdefghijklmnopqrstuvwxyz''"

definition MIN_LENGTH :: nat where
  "MIN_LENGTH = 3"

definition MAX_DRAWS :: nat where
  "MAX_DRAWS = 20"

definition short :: "nat \<Rightarrow> (nat \<Rightarrow> nat) \<Rightarrow> nat \<Rightarrow> string" where
  "short len rand k = map (\<lambda>i. ALPHABET ! rand (k + i)) [0..<len]"

text \<open>The part after the head of the top-level ids under it: a child id has a dot there.\<close>

definition shorts_under :: "string \<Rightarrow> string list \<Rightarrow> string list" where
  "shorts_under head rows = filter (\<lambda>s. CHR ''.'' \<notin> set s)
     (map (drop (length head)) (filter (\<lambda>i. take (length head) i = head) rows))"

definition used :: "string list \<Rightarrow> nat \<Rightarrow> nat" where
  "used shorts len = length (filter (\<lambda>s. length s = len) shorts)"

lemma used_le: "used shorts len \<le> length shorts"
  by (simp add: used_def)

lemma pow_Suc_gt: "(36::nat) ^ n < 36 ^ Suc n"
  by simp

function length_from :: "string list \<Rightarrow> nat \<Rightarrow> nat" where
  "length_from shorts len =
     (if used shorts len * 4 \<ge> 36 ^ len then length_from shorts (Suc len) else len)"
  by pat_completeness auto
termination
proof (relation "measure (\<lambda>(shorts, len). 4 * length shorts + 1 - 36 ^ len)", goal_cases)
  case (2 shorts len)
  then have "(36::nat) ^ len \<le> 4 * length shorts" using used_le[of shorts len] by linarith
  then have "4 * length shorts + 1 - 36 ^ Suc len < 4 * length shorts + 1 - 36 ^ len"
    by (intro diff_less_mono2 pow_Suc_gt) simp
  then show ?case by simp
qed simp

declare length_from.simps [simp del]

definition shortLength :: "string \<Rightarrow> string list \<Rightarrow> nat" where
  "shortLength head rows = length_from (shorts_under head rows) MIN_LENGTH"

text \<open>
  \<open>tryInsert\<close> inserts the row a new id names, or returns \<open>None\<close> when the id is taken.
\<close>

fun draws :: "nat \<Rightarrow> nat \<Rightarrow> string \<Rightarrow> (string \<Rightarrow> 'r option) \<Rightarrow> (nat \<Rightarrow> nat) \<Rightarrow> nat \<Rightarrow> tg_error + 'r" where
  "draws 0 len head tryInsert rand k = Inl (Fatal (''taskgraph: no free id under '' @ head))"
| "draws (Suc n) len head tryInsert rand k =
     (case tryInsert (head @ short len rand k) of
        Some r \<Rightarrow> Inr r
      | None \<Rightarrow> draws n len head tryInsert rand (k + len))"

definition draw :: "string list \<Rightarrow> string \<Rightarrow> (string \<Rightarrow> 'r option) \<Rightarrow> (nat \<Rightarrow> nat) \<Rightarrow> tg_error + 'r" where
  "draw rows head tryInsert rand = draws MAX_DRAWS (shortLength head rows) head tryInsert rand 0"

definition newTaskId :: "'x db \<Rightarrow> (string \<Rightarrow> 'r option) \<Rightarrow> (nat \<Rightarrow> nat) \<Rightarrow> tg_error + 'r" where
  "newTaskId db tryInsert rand = draw (map t_id (d_tasks db)) (d_idPrefix db @ ''-'') tryInsert rand"

definition newPlanId :: "'x db \<Rightarrow> (string \<Rightarrow> 'r option) \<Rightarrow> (nat \<Rightarrow> nat) \<Rightarrow> tg_error + 'r" where
  "newPlanId db tryInsert rand = draw (map p_id (d_plans db)) (d_idPrefix db @ ''-plan-'') tryInsert rand"

definition nextChildId :: "'x db \<Rightarrow> string \<Rightarrow> tg_error + (string \<times> 'x db)" where
  "nextChildId db parent =
     (case find_task parent db of
        None \<Rightarrow> Inl (NotFound ''task'' parent)
      | Some p \<Rightarrow> Inr (parent @ ''.'' @ show_nat (t_nextChild p),
                      upd_task parent (\<lambda>t. t\<lparr>t_nextChild := t_nextChild t + 1\<rparr>) db))"

lemma draws_Inr:
  "draws n len head tryInsert rand k = Inr r \<Longrightarrow>
   \<exists>j. k \<le> j \<and> j \<le> k + (n - 1) * len \<and> tryInsert (head @ short len rand j) = Some r"
proof (induction n arbitrary: k)
  case (Suc n)
  show ?case
  proof (cases "tryInsert (head @ short len rand k)")
    case (Some r')
    with Suc.prems show ?thesis by auto
  next
    case None
    with Suc.prems have d: "draws n len head tryInsert rand (k + len) = Inr r" by simp
    then obtain m where m: "n = Suc m" by (cases n) auto
    from Suc.IH[OF d] obtain j where "k + len \<le> j" "j \<le> k + len + (n - 1) * len"
      "tryInsert (head @ short len rand j) = Some r" by blast
    then show ?thesis by (intro exI[of _ j]) (auto simp: m)
  qed
qed simp

lemma newTaskId_Inr:
  "newTaskId db tryInsert rand = Inr r \<Longrightarrow> \<exists>i. tryInsert i = Some r"
  unfolding newTaskId_def draw_def by (blast dest: draws_Inr)

lemma newPlanId_Inr:
  "newPlanId db tryInsert rand = Inr r \<Longrightarrow> \<exists>i. tryInsert i = Some r"
  unfolding newPlanId_def draw_def by (blast dest: draws_Inr)

lemma length_from_spec:
  "len \<le> length_from shorts len \<and> used shorts (length_from shorts len) * 4 < 36 ^ length_from shorts len \<and>
   (\<forall>l. len \<le> l \<and> l < length_from shorts len \<longrightarrow> 36 ^ l \<le> used shorts l * 4)"
proof (induction shorts len rule: length_from.induct)
  case (1 shorts len)
  show ?case
  proof (cases "36 ^ len \<le> used shorts len * 4")
    case True
    then have eq: "length_from shorts len = length_from shorts (Suc len)"
      by (subst length_from.simps) simp
    note IH = "1.IH"[OF True]
    have "36 ^ l \<le> used shorts l * 4" if "len \<le> l" "l < length_from shorts (Suc len)" for l
      using that IH True by (cases "l = len") auto
    then show ?thesis using IH unfolding eq by auto
  next
    case False
    then have "length_from shorts len = len" by (subst length_from.simps) simp
    then show ?thesis using False by auto
  qed
qed

lemma short_chars:
  assumes "\<And>i. rand i < 36"
  shows "length (short len rand k) = len \<and> set (short len rand k) \<subseteq> set ALPHABET"
proof -
  have "length ALPHABET = 36" by (simp add: ALPHABET_def)
  then show ?thesis using assms by (auto simp: short_def)
qed

text \<open>
  A fresh id is drawn at the first length, from three on, whose space is less than a quarter used
  by the top-level ids under the head: so the search for a length always ends, no shorter length
  from three on was free enough, and a drawn id has that length and only base-36 characters, no dot,
  so it can never be read as a child's id.
\<close>

lemma drawn_ids:
  assumes "\<And>i. rand i < 36"
  shows "3 \<le> shortLength head rows \<and>
    used (shorts_under head rows) (shortLength head rows) * 4 < 36 ^ shortLength head rows \<and>
    (\<forall>l. 3 \<le> l \<and> l < shortLength head rows \<longrightarrow> 36 ^ l \<le> used (shorts_under head rows) l * 4) \<and>
    (draw rows head tryInsert rand = Inr r \<longrightarrow>
      (\<exists>s. tryInsert (head @ s) = Some r \<and> length s = shortLength head rows \<and> CHR ''.'' \<notin> set s))"
proof -
  have "\<exists>s. tryInsert (head @ s) = Some r \<and> length s = shortLength head rows \<and> CHR ''.'' \<notin> set s"
    if d: "draw rows head tryInsert rand = Inr r"
  proof -
    obtain j where j: "tryInsert (head @ short (shortLength head rows) rand j) = Some r"
      using d unfolding draw_def by (blast dest: draws_Inr)
    have "CHR ''.'' \<notin> set ALPHABET" by (simp add: ALPHABET_def)
    with j short_chars[of rand "shortLength head rows" j] assms show ?thesis
      by (intro exI[of _ "short (shortLength head rows) rand j"]) auto
  qed
  then show ?thesis
    using length_from_spec[of MIN_LENGTH "shorts_under head rows"]
    by (auto simp: shortLength_def MIN_LENGTH_def)
qed

lemma drawn_ids_witness:
  "shortLength ''web-'' [''web-a1x'', ''web-a1x.1''] = 3 \<and>
   (\<exists>s. (if ''web-'' @ s = ''web-a1x'' then None else Some (''web-'' @ s)) = Some ''web-000''
     \<and> length s = 3 \<and> CHR ''.'' \<notin> set s)"
proof -
  have l: "shortLength ''web-'' [''web-a1x'', ''web-a1x.1''] = 3"
    by (simp add: shortLength_def shorts_under_def MIN_LENGTH_def length_from.simps used_def)
  have "draw [''web-a1x'', ''web-a1x.1''] ''web-''
      (\<lambda>i. if i = ''web-a1x'' then None else Some i) (\<lambda>_. 0) = Inr ''web-000''"
    by (simp add: draw_def l MAX_DRAWS_def short_def ALPHABET_def eval_nat_numeral)
  with drawn_ids[of "\<lambda>_. 0" "''web-''" "[''web-a1x'', ''web-a1x.1'']"
      "\<lambda>i. if i = ''web-a1x'' then None else Some i" "''web-000''"] l
  show ?thesis by simp
qed

end
