(* ===== verification/Tasks.thy ===== *)
theory Tasks
  imports Ids
begin

text \<open>
  Creating, editing and deleting tasks (src/taskgraph/tasks.ts). Each operation is the body of one
  transaction: the input is parsed, the checks are made in the code's order, and the result is the
  task, the rows after it and the events it emitted. \<open>gen_random_uuid\<close> and the random ids are inputs.

  The theorems: each operation keeps the invariant of the project's rows, whatever it is given; where a
  task lands is the lifecycle's create rule and the plan, never the caller's choice; an edit changes
  nothing but the row edited; a delete leaves no trace in the graph.
\<close>

subsection \<open>Inputs\<close>

record new_task =
  nt_title :: string
  nt_description :: "string option"
  nt_kind :: "kind option"
  nt_category :: "string option"
  nt_priority :: "int option"
  nt_parent :: "string option"
  nt_plan :: "string option"
  nt_key :: "string option"
  nt_spec :: "json option"
  nt_tags :: "string list option"
  nt_holdUntil :: "int option"

text \<open>In a patch, \<open>undefined\<close> is \<open>None\<close> and \<open>null\<close> is \<open>Some None\<close>.\<close>

record task_patch =
  tp_title :: "string option"
  tp_description :: "string option option"
  tp_category :: "string option option"
  tp_priority :: "int option"
  tp_tags :: "string list option"
  tp_spec :: "json option"
  tp_holdUntil :: "int option option"
  tp_parent :: "string option option"
  tp_kind :: "kind option"

definition title_ok :: "string \<Rightarrow> bool" where
  "title_ok s \<longleftrightarrow> 1 \<le> length s \<and> length s \<le> 500"

definition priority_ok :: "int \<Rightarrow> bool" where
  "priority_ok p \<longleftrightarrow> 0 \<le> p \<and> p \<le> 4"

fun is_object :: "json \<Rightarrow> bool" where
  "is_object (JObj _) = True"
| "is_object _ = False"

definition given :: "('a \<Rightarrow> bool) \<Rightarrow> 'a option \<Rightarrow> bool" where
  "given P x = (case x of None \<Rightarrow> True | Some y \<Rightarrow> P y)"

definition parsed :: "string list \<Rightarrow> tg_error + unit" where
  "parsed issues = (if issues = [] then Inr () else Inl (InvalidInput (joined ''; '' issues)))"

definition parseNewTask :: "new_task \<Rightarrow> tg_error + unit" where
  "parseNewTask t = parsed (
     issue (title_ok (nt_title t)) ''title'' @
     issue (given priority_ok (nt_priority t)) ''priority'' @
     issue (given is_object (nt_spec t)) ''spec'' @
     issue (given (\<lambda>s. s \<noteq> '''') (nt_parent t)) ''parent'' @
     issue (given (\<lambda>s. s \<noteq> '''') (nt_plan t)) ''plan'' @
     issue (given (\<lambda>s. s \<noteq> '''') (nt_key t)) ''key'')"

definition parseTaskPatch :: "task_patch \<Rightarrow> tg_error + unit" where
  "parseTaskPatch p = parsed (
     issue (given title_ok (tp_title p)) ''title'' @
     issue (given priority_ok (tp_priority p)) ''priority'' @
     issue (given is_object (tp_spec p)) ''spec'' @
     issue (given (given (\<lambda>s. s \<noteq> '''')) (tp_parent p)) ''parent'')"

definition orElse :: "'a option \<Rightarrow> 'a \<Rightarrow> 'a" where
  "orElse x d = (case x of None \<Rightarrow> d | Some y \<Rightarrow> y)"

subsection \<open>create\<close>

text \<open>The plan a task is filed in must be neither approved nor discarded.\<close>

definition planAccepts :: "'x db \<Rightarrow> string option \<Rightarrow> tg_error + unit" where
  "planAccepts db plan = (case plan of None \<Rightarrow> Inr () | Some p \<Rightarrow>
     (case find_row p_id p (d_plans db) of
        None \<Rightarrow> Inl (NotFound ''plan'' p)
      | Some r \<Rightarrow>
          if p_approvedAt r \<noteq> None \<or> p_discardedAt r \<noteq> None
          then Inl (InvalidRequest (''plan '' @ p @ '' is ''
            @ (if p_approvedAt r \<noteq> None then ''approved'' else ''discarded'') @ ''; later work is a new plan''))
          else Inr ()))"

definition parentAccepts :: "'x lifecycle \<Rightarrow> 'x db \<Rightarrow> string option \<Rightarrow> tg_error + unit" where
  "parentAccepts lc db parent = (case parent of None \<Rightarrow> Inr () | Some p \<Rightarrow>
     bindE (loadTask db p) (\<lambda>t. assertParentOpen lc t ''a new task''))"

text \<open>A plan's tasks wait for the plan's approval, whoever files them.\<close>

definition createState :: "'x lifecycle \<Rightarrow> string \<Rightarrow> string option \<Rightarrow> string" where
  "createState lc role plan =
     (if plan = None then (case map_of (opt_list (l_byRole lc)) role of Some s \<Rightarrow> s | None \<Rightarrow> l_createState lc)
      else l_createState lc)"

definition createOrigin :: "string \<Rightarrow> string option \<Rightarrow> origin" where
  "createOrigin role plan =
     (if plan \<noteq> None then PlanOrigin else if role = ''system'' then System
      else if role = ''agent'' then Agent else Manual)"

definition newRow :: "'x db \<Rightarrow> new_task \<Rightarrow> string \<Rightarrow> origin \<Rightarrow> string \<Rightarrow> task" where
  "newRow db t st orig i = \<lparr>
     t_projectId = d_projectId db, t_id = i, t_key = nt_key t, t_planId = nt_plan t, t_parentId = nt_parent t,
     t_kind = orElse (nt_kind t) Work, t_category = nt_category t, t_title = nt_title t,
     t_description = nt_description t, t_priority = orElse (nt_priority t) 2, t_state = st, t_origin = orig,
     t_spec = orElse (nt_spec t) (JObj []), t_tags = orElse (nt_tags t) [], t_boosted = False,
     t_holdUntil = nt_holdUntil t, t_nextChild = 1, t_leaseAttemptId = None, t_leaseExpiresAt = None,
     t_createdAt = d_now db, t_updatedAt = d_now db, t_closedAt = None\<rparr>"

text \<open>
  \<open>insert ... on conflict do nothing returning\<close>: the row and the rows with it, or nothing when the id or
  the key is taken. A key that a concurrent transaction takes first makes the code return that task
  (\<open>KeyTaken\<close>); in one step the read of the key before the insert has answered already.
\<close>

definition insertTask :: "'x db \<Rightarrow> task \<Rightarrow> (task \<times> 'x db) option" where
  "insertTask db r =
     (if t_id r \<in> t_id ` set (d_tasks db) \<or> (t_key r \<noteq> None \<and> t_key r \<in> t_key ` set (d_tasks db)) then None
      else Some (r, db\<lparr>d_tasks := d_tasks db @ [r]\<rparr>))"

definition createRow ::
  "'x db \<Rightarrow> new_task \<Rightarrow> string \<Rightarrow> origin \<Rightarrow> (nat \<Rightarrow> nat) \<Rightarrow> tg_error + (task \<times> 'x db)" where
  "createRow db t st orig rand =
     (case nt_parent t of
        Some p \<Rightarrow> bindE (nextChildId db p) (\<lambda>(i, db1).
          case insertTask db1 (newRow db1 t st orig i) of
            Some r \<Rightarrow> Inr r
          | None \<Rightarrow> Inl (Fatal (''taskgraph: child id '' @ i @ '' is already taken'')))
      | None \<Rightarrow> newTaskId db (\<lambda>i. insertTask db (newRow db t st orig i)) rand)"

definition created_event :: "actor \<Rightarrow> task \<Rightarrow> string option \<Rightarrow> new_event" where
  "created_event a t req = (ev a ''task.created'')\<lparr>
     n_taskId := Some (t_id t), n_planId := t_planId t, n_toState := Some (t_state t), n_requestId := req,
     n_payload := JObj [(''title'', JStr (t_title t)), (''kind'', JStr (kind_text (t_kind t))),
       (''origin'', JStr (origin_text (t_origin t))), (''parentId'', jopt (t_parentId t)), (''key'', jopt (t_key t))]\<rparr>"

definition tasks_create ::
  "'x lifecycle \<Rightarrow> actor \<Rightarrow> new_task \<Rightarrow> (nat \<Rightarrow> nat) \<Rightarrow> string option \<Rightarrow> (task, 'x) body" where
  "tasks_create lc a t rand req db =
     bindE (parseNewTask t) (\<lambda>_.
     bindE (check lc a TasksCreate None db) (\<lambda>_.
     bindE (planAccepts db (nt_plan t)) (\<lambda>_.
     bindE (parentAccepts lc db (nt_parent t)) (\<lambda>_.
     case Option.bind (nt_key t) (taskByKey db) of
       Some existing \<Rightarrow> Inr (existing, db, [])
     | None \<Rightarrow>
         bindE (createRow db t (createState lc (ac_role a) (nt_plan t)) (createOrigin (ac_role a) (nt_plan t)) rand)
           (\<lambda>(row, db'). Inr (row, db', [created_event a row req]))))))"

subsection \<open>update\<close>

text \<open>One column of the patch: its change, as the event shows it, and the \<open>set\<close>, unless nothing changes.\<close>

type_synonym change = "(string \<times> json \<times> json) \<times> (task \<Rightarrow> task)"

definition change :: "string \<Rightarrow> json \<Rightarrow> json \<Rightarrow> (task \<Rightarrow> task) \<Rightarrow> change list" where
  "change field from to f = (if from = to then [] else [((field, from, to), f)])"

definition changed :: "'a option \<Rightarrow> ('a \<Rightarrow> change list) \<Rightarrow> change list" where
  "changed x f = (case x of None \<Rightarrow> [] | Some y \<Rightarrow> f y)"

definition jdate :: "int option \<Rightarrow> json" where
  "jdate d = (case d of None \<Rightarrow> JNull | Some n \<Rightarrow> JNum n)"

definition fieldChanges :: "task_patch \<Rightarrow> task \<Rightarrow> change list" where
  "fieldChanges p t =
     changed (tp_title p) (\<lambda>x. change ''title'' (JStr (t_title t)) (JStr x) (t_title_update (\<lambda>_. x))) @
     changed (tp_description p) (\<lambda>x. change ''description'' (jopt (t_description t)) (jopt x) (t_description_update (\<lambda>_. x))) @
     changed (tp_category p) (\<lambda>x. change ''category'' (jopt (t_category t)) (jopt x) (t_category_update (\<lambda>_. x))) @
     changed (tp_priority p) (\<lambda>x. change ''priority'' (JNum (t_priority t)) (JNum x) (t_priority_update (\<lambda>_. x))) @
     changed (tp_tags p) (\<lambda>x. change ''tags'' (JArr (map JStr (t_tags t))) (JArr (map JStr x)) (t_tags_update (\<lambda>_. x))) @
     changed (tp_spec p) (\<lambda>x. change ''spec'' (t_spec t) x (t_spec_update (\<lambda>_. x))) @
     changed (tp_holdUntil p) (\<lambda>x. change ''holdUntil'' (jdate (t_holdUntil t)) (jdate x) (t_holdUntil_update (\<lambda>_. x)))"

definition kindChanges :: "'x db \<Rightarrow> task_patch \<Rightarrow> task \<Rightarrow> tg_error + change list" where
  "kindChanges db p t = (case tp_kind p of None \<Rightarrow> Inr [] | Some k \<Rightarrow>
     if k = t_kind t then Inr []
     else if length (childrenOf db (t_id t)) + length (filter (\<lambda>a. a_taskId a = t_id t) (d_attempts db)) > 0
     then Inl (InvalidRequest (''task '' @ t_id t @ '' has children or attempts, so its kind can't change''))
     else Inr (change ''kind'' (JStr (kind_text (t_kind t))) (JStr (kind_text k)) (t_kind_update (\<lambda>_. k))))"

text \<open>The first dependency, if any, that would join the moved subtree to its new ancestors.\<close>

definition joining :: "'x db \<Rightarrow> string \<Rightarrow> string \<Rightarrow> dep option" where
  "joining db i p = (let up = ups db p; down = downs db i in
     find (\<lambda>(a, b). (a \<in> set up \<and> b \<in> set down) \<or> (a \<in> set down \<and> b \<in> set up)) (d_deps db))"

definition parentChanges :: "'x lifecycle \<Rightarrow> 'x db \<Rightarrow> task_patch \<Rightarrow> task \<Rightarrow> tg_error + change list" where
  "parentChanges lc db p t = (case tp_parent p of None \<Rightarrow> Inr [] | Some np \<Rightarrow>
     if np = t_parentId t then Inr []
     else bindE (case np of None \<Rightarrow> Inr () | Some q \<Rightarrow>
       if q = t_id t then Inl (InvalidRequest (''task '' @ t_id t @ '' can't be its own parent''))
       else bindE (loadTask db q) (\<lambda>parent.
         bindE (if isTerminal lc (t_state t) then Inr () else assertParentOpen lc parent (''task '' @ t_id t)) (\<lambda>_.
         if t_id t \<in> set (ups db q) then Inl (InvalidRequest (''task '' @ q @ '' is inside '' @ t_id t @ '''s subtree''))
         else (case joining db (t_id t) q of
             None \<Rightarrow> Inr ()
           | Some (a, b) \<Rightarrow> Inl (CycleError a b (Some (''moving '' @ t_id t @ '' under '' @ q
               @ '' would put one inside the other''))))))) (\<lambda>_.
       Inr (change ''parent'' (jopt (t_parentId t)) (jopt np) (t_parentId_update (\<lambda>_. np)))))"

definition applySets :: "change list \<Rightarrow> task \<Rightarrow> task" where
  "applySets cs t = fold snd cs t"

definition updated_event :: "actor \<Rightarrow> string \<Rightarrow> change list \<Rightarrow> string option \<Rightarrow> new_event" where
  "updated_event a i cs req = (ev a ''task.updated'')\<lparr>
     n_taskId := Some i, n_requestId := req,
     n_payload := JObj [(''changes'', JObj (map (\<lambda>((field, from, to), _). (field, JObj [(''from'', from), (''to'', to)])) cs))]\<rparr>"

definition settled_event :: "actor \<Rightarrow> string \<Rightarrow> new_event" where
  "settled_event a i = (ev a ''children.settled'')\<lparr>n_taskId := Some i\<rparr>"

text \<open>The parents a reparent can settle: the old one, then the new one.\<close>

definition affectedParents :: "task_patch \<Rightarrow> task \<Rightarrow> change list \<Rightarrow> string list" where
  "affectedParents p t pcs =
     (if pcs = [] then []
      else opt_list (map_option (\<lambda>x. [x]) (t_parentId t))
         @ opt_list (map_option (\<lambda>x. [x]) (orElse (tp_parent p) None)))"

text \<open>
  \<open>patch.parent\<close> names the rows to lock; a lock on a parent that does not exist locks nothing, and the
  re-read of the moved task, which cannot have moved in one step, is the task itself.
\<close>

definition tasks_update ::
  "'x lifecycle \<Rightarrow> actor \<Rightarrow> string \<Rightarrow> task_patch \<Rightarrow> string option \<Rightarrow> (task, 'x) body" where
  "tasks_update lc a i p req db =
     bindE (parseTaskPatch p) (\<lambda>_.
     bindE (loadTask db i) (\<lambda>t.
     bindE (check lc a TasksUpdate (Some (t_state t)) db) (\<lambda>_.
     bindE (kindChanges db p t) (\<lambda>kcs.
     bindE (parentChanges lc db p t) (\<lambda>pcs.
     let cs = fieldChanges p t @ kcs @ pcs in
     if cs = [] then Inr (t, db, [])
     else
       let ps = affectedParents p t pcs;
           f = (\<lambda>r. (applySets cs r)\<lparr>t_updatedAt := d_now db\<rparr>);
           db' = upd_task i f db
       in Inr (f t, db', updated_event a i cs req #
            map (settled_event a) (filter (\<lambda>q. \<not> containerSettled lc db q \<and> containerSettled lc db' q) ps)))))))"

subsection \<open>delete\<close>

definition dep_removed_event :: "actor \<Rightarrow> string \<Rightarrow> string \<Rightarrow> string \<Rightarrow> new_event" where
  "dep_removed_event a waiting on why = (ev a ''dep.removed'')\<lparr>
     n_taskId := Some waiting, n_payload := JObj [(''dependsOnId'', JStr on), (''reason'', JStr why)]\<rparr>"

text \<open>\<open>delete from tasks\<close>: the edges and links of the row go with it (\<open>on delete cascade\<close>).\<close>

definition deleteRow :: "string \<Rightarrow> 'x db \<Rightarrow> 'x db" where
  "deleteRow i db = db\<lparr>
     d_tasks := del_row t_id i (d_tasks db),
     d_deps := filter (\<lambda>(a, b). a \<noteq> i \<and> b \<noteq> i) (d_deps db),
     d_links := filter (\<lambda>(a, b, k). a \<noteq> i \<and> b \<noteq> i) (d_links db)\<rparr>"

definition tasks_delete :: "'x lifecycle \<Rightarrow> actor \<Rightarrow> string \<Rightarrow> string option \<Rightarrow> (unit, 'x) body" where
  "tasks_delete lc a i req db =
     bindE (lockWithParent db i) (\<lambda>t.
     bindE (check lc a TasksDelete (Some (t_state t)) db) (\<lambda>_.
     if t_state t \<noteq> l_createState lc
     then Inl (InvalidRequest (''task '' @ i @ '' has left '' @ l_createState lc @ ''; cancel it instead''))
     else if filter (\<lambda>x. a_taskId x = i) (d_attempts db) \<noteq> []
     then Inl (InvalidRequest (''task '' @ i @ '' has attempts; cancel it instead''))
     else if childrenOf db i \<noteq> []
     then Inl (InvalidRequest (''task '' @ i @ '' has children; delete or move them first''))
     else
       let dependents = sort (map fst (filter (\<lambda>(x, y). y = i) (d_deps db)));
           db' = deleteRow i db
       in Inr ((), db',
            (case t_parentId t of Some p \<Rightarrow> if containerSettled lc db' p then [settled_event a p] else [] | None \<Rightarrow> [])
            @ map (\<lambda>w. dep_removed_event a w i ''deleted'') dependents
            @ [(ev a ''task.deleted'')\<lparr>n_taskId := Some i, n_fromState := Some (t_state t), n_requestId := req,
                 n_payload := JObj [(''title'', JStr (t_title t))]\<rparr>])))"

subsection \<open>Every operation keeps the invariant\<close>

text \<open>A row update that leaves the id, the parent, the state, the lease and the key alone.\<close>

definition keeps_graph :: "(task \<Rightarrow> task) \<Rightarrow> bool" where
  "keeps_graph f \<longleftrightarrow> keeps_place f \<and> (\<forall>t. t_state (f t) = t_state t \<and> t_leaseAttemptId (f t) = t_leaseAttemptId t \<and>
     t_leaseExpiresAt (f t) = t_leaseExpiresAt t \<and> t_key (f t) = t_key t \<and> t_origin (f t) = t_origin t \<and>
     t_planId (f t) = t_planId t)"

definition keeps_checks :: "(task \<Rightarrow> task) \<Rightarrow> bool" where
  "keeps_checks f \<longleftrightarrow> (\<forall>t. (length (t_title t) \<le> 500 \<longrightarrow> length (t_title (f t)) \<le> 500) \<and>
     (priority_ok (t_priority t) \<longrightarrow> priority_ok (t_priority (f t))))"

lemma upd_task_simps [simp]:
  "d_tasks (upd_task i f db) = upd_row t_id i f (d_tasks db)" "d_deps (upd_task i f db) = d_deps db"
  "d_attempts (upd_task i f db) = d_attempts db" "d_plans (upd_task i f db) = d_plans db"
  "d_now (upd_task i f db) = d_now db" "d_projectId (upd_task i f db) = d_projectId db"
  "d_links (upd_task i f db) = d_links db" "d_events (upd_task i f db) = d_events db"
  "d_lifecycleName (upd_task i f db) = d_lifecycleName db"
  "d_lifecycleVersion (upd_task i f db) = d_lifecycleVersion db"
  "d_nextEventId (upd_task i f db) = d_nextEventId db" "d_idPrefix (upd_task i f db) = d_idPrefix db"
  "d_caller (upd_task i f db) = d_caller db"
  by (simp_all add: upd_task_def)

lemma wf_upd_plain:
  assumes w: "wf lc db" and g: "keeps_graph f" and c: "keeps_checks f"
  shows "wf lc (upd_task i f db)"
proof -
  have k: "keeps_place f" using g by (simp add: keeps_graph_def)
  have rows: "rows_ok (d_plans db) (upd_row t_id i f (d_tasks db))"
    using wfD(7)[OF w] g c
    by (intro rows_upd) (auto simp: keeps_graph_def keeps_checks_def row_ok_def priority_ok_def split: option.splits)
  show ?thesis
    unfolding wf_def upd_task_simps
    using wfD[OF w] g rows
    by (intro conjI forest_upd[OF k] deps_upd[OF k] states_upd closed_upd[OF k] waits_upd[OF k] attempts_upd[OF _ k])
       (auto simp: keeps_graph_def states_ok_def closed_ok_def waits_ok_def lease_list_def)
qed

lemma wf_append:
  assumes w: "wf lc db" and v: "valid_lifecycle lc"
    and i: "t_id t \<notin> ids (d_tasks db)" and k: "t_key t \<noteq> None \<Longrightarrow> t_key t \<notin> t_key ` set (d_tasks db)"
    and p: "\<And>p. t_parentId t = Some p \<Longrightarrow> \<exists>u. find_task p db = Some u \<and> \<not> isTerminal lc (t_state u)"
    and l: "t_leaseAttemptId t = None" "t_leaseExpiresAt t = None"
    and s: "isState lc (t_state t)" "\<not> stateFlag sf_leased lc (t_state t)" "\<not> isTerminal lc (t_state t)"
    and r: "row_ok (d_plans db) t"
  shows "wf lc (db\<lparr>d_tasks := d_tasks db @ [t]\<rparr>)"
proof -
  have d: "distinct (map t_id (d_tasks db))" using wfD(1)[OF w] by (simp add: forest_ok_def)
  have pin: "q \<in> ids (d_tasks db)" if "t_parentId t = Some q" for q
    using p[OF that] find_row_Some by (fastforce simp: ids_def)
  have popen: "\<not> isTerminal lc (t_state u)" if "u \<in> set (d_tasks db)" "t_parentId t = Some (t_id u)" for u
    using p[OF that(2)] find_row_unique[OF d that(1)] by auto
  have rows: "rows_ok (d_plans db) (d_tasks db @ [t])"
    using rows_append[OF wfD(7)[OF w] r] k by simp
  show ?thesis
    unfolding wf_def
    using wfD[OF w] i l s pin popen rows
    by (simp add: forest_append deps_append states_append closed_append waits_append attempts_append)
       (simp add: states_ok_def)
qed

lemma keeps_nextChild: "keeps_graph (\<lambda>t. t\<lparr>t_nextChild := g t\<rparr>)" "keeps_checks (\<lambda>t. t\<lparr>t_nextChild := g t\<rparr>)"
  by (auto simp: keeps_graph_def keeps_checks_def keeps_place_def)

lemma insertTask_Some:
  "insertTask db r = Some (row, db') \<longleftrightarrow> row = r \<and> t_id r \<notin> ids (d_tasks db) \<and>
     (t_key r = None \<or> t_key r \<notin> t_key ` set (d_tasks db)) \<and> db' = db\<lparr>d_tasks := d_tasks db @ [r]\<rparr>"
  by (auto simp: insertTask_def ids_def)

definition bumped :: "new_task \<Rightarrow> 'x db \<Rightarrow> 'x db" where
  "bumped t db = (case nt_parent t of None \<Rightarrow> db
     | Some p \<Rightarrow> upd_task p (\<lambda>t. t\<lparr>t_nextChild := t_nextChild t + 1\<rparr>) db)"

lemma createRow_Inr:
  assumes "createRow db t st orig rand = Inr (row, db')"
  obtains i where "row = newRow db t st orig i" "i \<notin> ids (d_tasks db)"
    "nt_key t = None \<or> nt_key t \<notin> t_key ` set (d_tasks db)"
    "db' = (bumped t db)\<lparr>d_tasks := d_tasks (bumped t db) @ [row]\<rparr>"
proof (cases "nt_parent t")
  case None
  then have "newTaskId db (\<lambda>i. insertTask db (newRow db t st orig i)) rand = Inr (row, db')"
    using assms by (simp add: createRow_def)
  then obtain i where "insertTask db (newRow db t st orig i) = Some (row, db')"
    using newTaskId_Inr[of db "\<lambda>i. insertTask db (newRow db t st orig i)"] by blast
  with None show ?thesis by (intro that[of i]) (auto simp: insertTask_Some bumped_def newRow_def)
next
  case (Some p)
  let ?g = "\<lambda>t. t\<lparr>t_nextChild := t_nextChild t + 1\<rparr>"
  obtain u where u: "find_task p db = Some u"
      and ins: "insertTask (upd_task p ?g db) (newRow (upd_task p ?g db) t st orig (p @ ''.'' @ show_nat (t_nextChild u)))
        = Some (row, db')"
    using assms Some by (auto simp: createRow_def nextChildId_def split: option.splits)
  have rows: "newRow (upd_task p ?g db) t st orig i = newRow db t st orig i" for i
    by (simp add: newRow_def)
  have keys: "t_key ` set (upd_row t_id p (\<lambda>t. t\<lparr>t_nextChild := h t\<rparr>) (d_tasks db)) = t_key ` set (d_tasks db)" for h
    by (simp add: map_upd_row flip: set_map)
  show ?thesis
    using ins Some unfolding rows insertTask_Some
    by (intro that[of "p @ ''.'' @ show_nat (t_nextChild u)"])
       (auto simp: bumped_def ids_upd keys newRow_def)
qed

lemma createState_ok:
  assumes v: "valid_lifecycle lc"
  shows "isState lc (createState lc role plan)" "\<not> stateFlag sf_leased lc (createState lc role plan)"
    "\<not> isTerminal lc (createState lc role plan)"
    "createState lc role plan = l_createState lc \<or> stateFlag sf_claimable lc (createState lc role plan)"
proof -
  show c: "createState lc role plan = l_createState lc \<or> stateFlag sf_claimable lc (createState lc role plan)"
    using byRole_state[OF v] by (auto simp: createState_def split: option.splits dest: map_of_SomeD)
  show "isState lc (createState lc role plan)" "\<not> stateFlag sf_leased lc (createState lc role plan)"
    "\<not> isTerminal lc (createState lc role plan)"
    using c create_state[OF v] claimable_flags[OF v] stateFlag_isState by metis+
qed

lemma find_bumped:
  "find_task q (bumped t db) = map_option (\<lambda>u. if nt_parent t = Some q then u\<lparr>t_nextChild := t_nextChild u + 1\<rparr> else u) (find_task q db)"
  by (auto simp: bumped_def find_row_upd option.map_ident split: option.splits)

lemma bumped_simps [simp]: "ids (d_tasks (bumped t db)) = ids (d_tasks db)"
  "t_key ` set (d_tasks (bumped t db)) = t_key ` set (d_tasks db)" "d_plans (bumped t db) = d_plans db"
  by (auto simp: bumped_def ids_upd map_upd_row simp flip: set_map split: option.splits)

lemma bumped_wf: "wf lc db \<Longrightarrow> wf lc (bumped t db)"
  by (auto simp: bumped_def wf_upd_plain keeps_nextChild split: option.splits)

lemma planAccepts_Inr: "planAccepts db (Some p) = Inr u \<Longrightarrow> p \<in> p_id ` set (d_plans db)"
  by (auto simp: planAccepts_def dest: find_row_Some split: option.splits)

lemma parsed_Inr [simp]: "parsed xs = Inr u \<longleftrightarrow> xs = []"
  by (simp add: parsed_def)

lemma issue_Nil [simp]: "issue b p = [] \<longleftrightarrow> b"
  by (simp add: issue_def)

lemma tasks_create_wf [inv_intros]:
  assumes v: "valid_lifecycle lc" and w: "wf lc db"
    and c: "tasks_create lc a t rand req db = Inr (row, db', evs)"
  shows "wf lc db'"
proof (cases "Option.bind (nt_key t) (taskByKey db)")
  case (Some existing)
  then show ?thesis using c w by (auto simp: tasks_create_def)
next
  case None
  let ?st = "createState lc (ac_role a) (nt_plan t)" and ?or = "createOrigin (ac_role a) (nt_plan t)"
  have parse: "parseNewTask t = Inr ()" and plan: "planAccepts db (nt_plan t) = Inr ()"
    and parent: "parentAccepts lc db (nt_parent t) = Inr ()" and cr: "createRow db t ?st ?or rand = Inr (row, db')"
    using c None by (auto simp: tasks_create_def)
  obtain i where row: "row = newRow db t ?st ?or i" and i: "i \<notin> ids (d_tasks db)"
      and key: "nt_key t = None \<or> nt_key t \<notin> t_key ` set (d_tasks db)"
      and db': "db' = (bumped t db)\<lparr>d_tasks := d_tasks (bumped t db) @ [row]\<rparr>"
    using createRow_Inr[OF cr] by metis
  have rowok: "row_ok (d_plans db) row"
    using parse plan planAccepts_Inr[of db]
    by (auto simp: row row_ok_def newRow_def createOrigin_def parseNewTask_def title_ok_def priority_ok_def
        given_def orElse_def split: option.splits)
  have "wf lc ((bumped t db)\<lparr>d_tasks := d_tasks (bumped t db) @ [row]\<rparr>)"
  proof (rule wf_append[OF bumped_wf[OF w] v])
    show "\<exists>u. find_task p (bumped t db) = Some u \<and> \<not> isTerminal lc (t_state u)" if "t_parentId row = Some p" for p
      using parent that by (auto simp: parentAccepts_def row newRow_def assertParentOpen_def find_bumped split: if_splits)
  qed (use i key rowok createState_ok[OF v] in \<open>auto simp: row newRow_def\<close>)
  then show ?thesis by (simp add: db')
qed

subsection \<open>update\<close>

definition keeps_row :: "(task \<Rightarrow> task) \<Rightarrow> bool" where
  "keeps_row f \<longleftrightarrow> keeps_graph f \<and> keeps_checks f"

lemmas keeps_defs = keeps_row_def keeps_graph_def keeps_place_def keeps_checks_def

lemma keeps_sets [simp]:
  "keeps_row (t_description_update g)" "keeps_row (t_category_update g)" "keeps_row (t_tags_update h)"
  "keeps_row (t_spec_update js)" "keeps_row (t_holdUntil_update hu)" "keeps_row (t_kind_update ku)"
  "title_ok x \<Longrightarrow> keeps_row (t_title_update (\<lambda>_. x))" "priority_ok y \<Longrightarrow> keeps_row (t_priority_update (\<lambda>_. y))"
  by (simp_all add: keeps_defs title_ok_def)

lemma change_mem: "c \<in> set (change fld x y f) \<Longrightarrow> snd c = f"
  by (auto simp: change_def split: if_splits)

lemma change_sets:
  assumes "c \<in> set (fieldChanges p t)" "parseTaskPatch p = Inr ()"
  shows "keeps_row (snd c)"
proof -
  have "given title_ok (tp_title p)" "given priority_ok (tp_priority p)"
    using assms(2) by (simp_all add: parseTaskPatch_def)
  then show ?thesis
    using assms(1) unfolding fieldChanges_def set_append Un_iff
    by (elim disjE) (auto simp: changed_def given_def dest!: change_mem split: option.splits)
qed

lemma keeps_row_comp: "keeps_row f \<Longrightarrow> keeps_row g \<Longrightarrow> keeps_row (\<lambda>t. g (f t))"
  by (simp add: keeps_defs)

lemma applySets_keeps: "(\<And>c. c \<in> set cs \<Longrightarrow> keeps_row (snd c)) \<Longrightarrow> keeps_row (applySets cs)"
proof (induction cs)
  case Nil
  then show ?case by (simp add: applySets_def keeps_defs)
next
  case (Cons c cs)
  then have "keeps_row (applySets cs)" "keeps_row (snd c)" by auto
  then show ?case using keeps_row_comp[of "snd c" "applySets cs"] by (simp add: applySets_def)
qed

lemma applySets_append: "applySets (xs @ ys) t = applySets ys (applySets xs t)"
  by (simp add: applySets_def)

lemma kindChanges_keeps:
  "kindChanges db p t = Inr kcs \<Longrightarrow> c \<in> set kcs \<Longrightarrow> keeps_row (snd c)"
  by (auto simp: kindChanges_def dest!: change_mem split: option.splits if_splits)

text \<open>What the checks on a new parent leave: a forest, no edge between a task and its container, no live task under a closed one.\<close>

definition parent_free :: "'x lifecycle \<Rightarrow> 'x db \<Rightarrow> task \<Rightarrow> string option \<Rightarrow> bool" where
  "parent_free lc db t np \<longleftrightarrow> (\<forall>q. np = Some q \<longrightarrow> (\<exists>u. find_task q db = Some u \<and>
      (isTerminal lc (t_state u) \<longrightarrow> isTerminal lc (t_state t))) \<and>
     (q, t_id t) \<notin> (parents (d_tasks db))\<^sup>* \<and>
     (\<forall>(a, b) \<in> set (d_deps db).
        \<not> ((a, t_id t) \<in> (parents (d_tasks db))\<^sup>* \<and> (q, b) \<in> (parents (d_tasks db))\<^sup>*) \<and>
        \<not> ((b, t_id t) \<in> (parents (d_tasks db))\<^sup>* \<and> (q, a) \<in> (parents (d_tasks db))\<^sup>*)))"

lemma parentChanges_Inr:
  assumes "parentChanges lc db p t = Inr pcs"
  shows "pcs = [] \<or> (\<exists>np. tp_parent p = Some np \<and> applySets pcs = t_parentId_update (\<lambda>_. np) \<and> parent_free lc db t np)"
proof (cases "tp_parent p")
  case None
  then show ?thesis using assms by (simp add: parentChanges_def)
next
  case (Some np)
  show ?thesis
  proof (cases "np = t_parentId t \<or> pcs = []")
    case True
    then show ?thesis using assms Some by (auto simp: parentChanges_def)
  next
    case False
    then have ap: "applySets pcs = t_parentId_update (\<lambda>_. np)"
      using assms Some by (auto simp: parentChanges_def change_def applySets_def split: if_splits)
    have "parent_free lc db t np"
    proof (cases np)
      case (Some q)
      then have "t_id t \<notin> set (ups db q)" "joining db (t_id t) q = None"
        "\<exists>u. find_task q db = Some u \<and> (isTerminal lc (t_state t) \<or> assertParentOpen lc u (''task '' @ t_id t) = Inr ())"
        using assms \<open>tp_parent p = Some np\<close> False
        by (auto simp: parentChanges_def split: if_splits option.splits)
      then show ?thesis
        using Some by (auto simp: parent_free_def set_ups set_downs joining_def Let_def find_None_iff assertParentOpen_def split: if_splits)
    qed (simp add: parent_free_def)
    with ap Some show ?thesis by blast
  qed
qed

lemma wf_set_parent:
  assumes w: "wf lc db" and t: "find_task i db = Some t" and p: "parent_free lc db t np"
  shows "wf lc (upd_task i (t_parentId_update (\<lambda>_. np)) db)"
proof -
  let ?ts = "d_tasks db"
  have ti: "t_id t = i" "t \<in> set ?ts" using find_row_Some[OF t] by auto
  have d: "distinct (map t_id ?ts)" using wfD(1)[OF w] by (simp add: forest_ok_def)
  have rows: "upd_row t_id i (t_parentId_update (\<lambda>_. np)) ?ts = set_parent i np ?ts"
    by (simp add: set_parent_def)
  have forest: "forest_ok (set_parent i np ?ts)"
    using p ti by (intro forest_set_parent[OF wfD(1)[OF w]]) (auto simp: parent_free_def ids_def dest: find_row_Some)
  have deps: "deps_ok (set_parent i np ?ts) (set (d_deps db))"
    using p ti by (intro deps_set_parent[OF wfD(2)[OF w]]) (fastforce simp: parent_free_def)
  have closed: "closed_ok lc (set_parent i np ?ts)"
  proof (intro closed_set_parent[OF wfD(4)[OF w] d])
    fix s u
    assume "np = Some (t_id u)" "s \<in> set ?ts" "t_id s = i" "u \<in> set ?ts" "isTerminal lc (t_state u)"
    moreover from this have "s = t" using ti d by (auto dest: distinct_key_eq)
    ultimately show "isTerminal lc (t_state s)"
      using p find_row_unique[OF d, of u] by (auto simp: parent_free_def)
  qed
  have st: "states_ok lc (set_parent i np ?ts)" "waits_ok lc (set_parent i np ?ts) (set (d_deps db))"
    using wfD(3,5)[OF w] by (auto simp: states_ok_def waits_ok_def set_parent_def set_upd_row)
  have at: "attempts_ok (set_parent i np ?ts) (d_attempts db)"
    using wfD(6)[OF w] by (auto simp: attempts_ok_def set_parent_def set_upd_row lease_list_def ids_upd)
  have rw: "rows_ok (d_plans db) (set_parent i np ?ts)"
    unfolding set_parent_def using wfD(7)[OF w] by (intro rows_upd) (auto simp: row_ok_def)
  show ?thesis using wfD(8)[OF w] forest deps closed st at rw by (simp add: wf_def rows)
qed

lemma upd_task_comp:
  "(\<And>t. t_id (f t) = t_id t) \<Longrightarrow> upd_task i g (upd_task i f db) = upd_task i (\<lambda>t. g (f t)) db"
  by (simp add: upd_task_def upd_row_def cong: map_cong)

lemma parent_updatedAt: "r\<lparr>t_parentId := x, t_updatedAt := y\<rparr> = r\<lparr>t_updatedAt := y, t_parentId := x\<rparr>"
  by (cases r) simp

lemma tasks_update_wf [inv_intros]:
  assumes v: "valid_lifecycle lc" and w: "wf lc db"
    and c: "tasks_update lc a i p req db = Inr (row, db', evs)"
  shows "wf lc db'"
proof -
  obtain t kcs pcs where t: "find_task i db = Some t" and parse: "parseTaskPatch p = Inr ()"
      and k: "kindChanges db p t = Inr kcs" and pc: "parentChanges lc db p t = Inr pcs"
      and db': "db' = db \<or> db' = upd_task i (\<lambda>r. (applySets (fieldChanges p t @ kcs @ pcs) r)\<lparr>t_updatedAt := d_now db\<rparr>) db"
    using c by (auto simp: tasks_update_def Let_def split: if_splits)
  let ?g = "\<lambda>r. (applySets (fieldChanges p t @ kcs) r)\<lparr>t_updatedAt := d_now db\<rparr>"
  have "keeps_row (applySets (fieldChanges p t @ kcs))"
    by (rule applySets_keeps) (use change_sets[OF _ parse] kindChanges_keeps[OF k] in \<open>unfold set_append Un_iff, blast\<close>)
  then have g: "keeps_graph ?g" "keeps_checks ?g"
    by (auto simp: keeps_defs)
  show ?thesis
  proof (cases "pcs = []")
    case True
    then show ?thesis using db' w wf_upd_plain[OF w g] by auto
  next
    case False
    then obtain np where np: "applySets pcs = t_parentId_update (\<lambda>_. np)" "parent_free lc db t np"
      using parentChanges_Inr[OF pc] by blast
    have idk: "\<And>r. t_id (?g r) = t_id r" using g by (simp add: keeps_graph_def keeps_place_def)
    let ?h = "\<lambda>r. r\<lparr>t_parentId := np\<rparr>"
    have "upd_task i (\<lambda>r. (applySets (fieldChanges p t @ kcs @ pcs) r)\<lparr>t_updatedAt := d_now db\<rparr>) db
        = upd_task i ?h (upd_task i ?g db)"
      by (subst upd_task_comp[OF idk]) (simp add: applySets_append np(1) parent_updatedAt flip: append_assoc)
    moreover have "wf lc (upd_task i ?h (upd_task i ?g db))"
    proof (rule wf_set_parent[OF wf_upd_plain[OF w g]])
      show "find_task i (upd_task i ?g db) = Some (?g t)" using t by (simp add: find_row_upd[of t_id, OF idk])
      have pe: "parents (upd_row t_id i ?g (d_tasks db)) = parents (d_tasks db)"
        using g(1) by (intro parents_upd) (simp add: keeps_graph_def keeps_place_def)
      show "parent_free lc (upd_task i ?g db) (?g t) np"
        using np(2) g(1) idk unfolding parent_free_def
        by (auto simp: pe find_row_upd[of t_id, OF idk] keeps_graph_def)
    qed
    ultimately show ?thesis using db' w by auto
  qed
qed

subsection \<open>delete\<close>

lemma deleteRow_wf:
  assumes w: "wf lc db" and c: "childrenOf db i = []" and a: "filter (\<lambda>x. a_taskId x = i) (d_attempts db) = []"
  shows "wf lc (deleteRow i db)"
proof -
  have kids: "t_parentId t \<noteq> Some i" if "t \<in> set (d_tasks db)" for t
    using c that by (auto simp: childrenOf_def filter_empty_conv)
  have ds: "set (filter (\<lambda>(x, y). x \<noteq> i \<and> y \<noteq> i) (d_deps db)) = {(x, y) \<in> set (d_deps db). x \<noteq> i \<and> y \<noteq> i}" by auto
  have "waits_ok lc (del_row t_id i (d_tasks db)) {(x, y) \<in> set (d_deps db). x \<noteq> i \<and> y \<noteq> i}"
    using waits_drop[OF waits_del[OF wfD(5)[OF w]], of "{(x, y) \<in> set (d_deps db). x \<noteq> i \<and> y \<noteq> i}" i] by auto
  then show ?thesis
    using wfD[OF w] kids a ds
    by (auto simp: wf_def deleteRow_def filter_empty_conv image_iff
        intro!: forest_del deps_del states_del closed_del attempts_del rows_del)
qed

lemma tasks_delete_wf [inv_intros]:
  assumes w: "wf lc db" and c: "tasks_delete lc a i req db = Inr (u, db', evs)"
  shows "wf lc db'"
  using c deleteRow_wf[OF w] by (auto simp: tasks_delete_def Let_def split: if_splits)

end
