(* ===== verification/Deps.thy ===== *)
theory Deps
  imports Tasks
begin

text \<open>
  Edges between tasks (src/taskgraph/deps.ts): dependencies, which block, links, which don't, and notes.

  \<open>deps.add\<close> is judged exactly: it takes an edge if and only if the dependencies stay acyclic and neither
  task contains the other (\<open>deps_add_exact\<close>).
\<close>

subsection \<open>Dependencies\<close>

definition dep_event :: "actor \<Rightarrow> string \<Rightarrow> string \<Rightarrow> string \<Rightarrow> string option \<Rightarrow> new_event" where
  "dep_event a k i j req = (ev a k)\<lparr>
     n_taskId := Some i, n_requestId := req, n_payload := JObj [(''dependsOnId'', JStr j)]\<rparr>"

text \<open>One task is above the other: the walk up from both, by where it started.\<close>

definition nested :: "'x db \<Rightarrow> string \<Rightarrow> string \<Rightarrow> bool" where
  "nested db i j \<longleftrightarrow> j \<in> set (ups db i) \<or> i \<in> set (ups db j)"

definition deps_add :: "'x lifecycle \<Rightarrow> actor \<Rightarrow> string \<Rightarrow> string \<Rightarrow> string option \<Rightarrow> (unit, 'x) body" where
  "deps_add lc a i j req db =
     bindE (loadTask db i) (\<lambda>t.
     bindE (loadTask db j) (\<lambda>target.
     bindE (check lc a DepsAdd (Some (t_state t)) db) (\<lambda>_.
     if isTerminal lc (t_state target) \<and> \<not> isSatisfying lc (t_state target)
     then Inl (InvalidRequest (''task '' @ j @ '' is '' @ t_state target @ '' and will never satisfy a dependency''))
     else if i = j then Inl (CycleError i j None)
     else if i \<in> set (reach (d_deps db) [j]) then Inl (CycleError i j None)
     else if nested db i j
     then Inl (CycleError i j (Some ''one contains the other, and a container settles only after its children''))
     else if (i, j) \<in> set (d_deps db) then Inr ((), db, [])
     else Inr ((), db\<lparr>d_deps := d_deps db @ [(i, j)]\<rparr>, [dep_event a ''dep.added'' i j req]))))"

definition deps_remove :: "'x lifecycle \<Rightarrow> actor \<Rightarrow> string \<Rightarrow> string \<Rightarrow> string option \<Rightarrow> (unit, 'x) body" where
  "deps_remove lc a i j req db =
     bindE (loadTask db i) (\<lambda>t.
     bindE (check lc a DepsRemove (Some (t_state t)) db) (\<lambda>_.
     if (i, j) \<notin> set (d_deps db) then Inl (NotFound ''dependency'' (i @ '' -> '' @ j))
     else Inr ((), db\<lparr>d_deps := filter (\<lambda>e. e \<noteq> (i, j)) (d_deps db)\<rparr>, [dep_event a ''dep.removed'' i j req])))"

subsection \<open>Links and notes\<close>

definition links_add :: "'x lifecycle \<Rightarrow> actor \<Rightarrow> string \<Rightarrow> string \<Rightarrow> string \<Rightarrow> string option \<Rightarrow> (unit, 'x) body" where
  "links_add lc a x y k req db =
     (if k = '''' then Inl (InvalidRequest ''a link needs a kind'')
      else bindE (loadTask db x) (\<lambda>from.
        bindE (loadTask db y) (\<lambda>_.
        bindE (check lc a LinksAdd (Some (t_state from)) db) (\<lambda>_.
        if (x, y, k) \<in> set (d_links db) then Inr ((), db, [])
        else Inr ((), db\<lparr>d_links := d_links db @ [(x, y, k)]\<rparr>,
          [(ev a ''link.added'')\<lparr>n_taskId := Some x, n_requestId := req,
             n_payload := JObj [(''b'', JStr y), (''kind'', JStr k)]\<rparr>])))))"

definition notes_add :: "'x lifecycle \<Rightarrow> actor \<Rightarrow> string \<Rightarrow> string \<Rightarrow> string option \<Rightarrow> (unit, 'x) body" where
  "notes_add lc a i note req db =
     (if note = '''' then Inl (InvalidRequest ''a note needs text'')
      else bindE (loadTask db i) (\<lambda>t.
        bindE (check lc a NotesAdd (Some (t_state t)) db) (\<lambda>_.
        Inr ((), db, [(ev a ''note'')\<lparr>n_taskId := Some i, n_requestId := req,
          n_payload := JObj [(''text'', JStr note)]\<rparr>]))))"

subsection \<open>The invariant\<close>

lemma nested_iff:
  "i \<noteq> j \<Longrightarrow> nested db i j \<longleftrightarrow> (i, j) \<in> (parents (d_tasks db))\<^sup>+ \<or> (j, i) \<in> (parents (d_tasks db))\<^sup>+"
  by (auto simp: nested_def set_ups rtrancl_eq_or_trancl)

lemma in_deps_reach: "i \<in> set (reach (d_deps db) [j]) \<longleftrightarrow> (j, i) \<in> (set (d_deps db))\<^sup>*"
  by (simp add: in_reach_iff)

lemma find_task_ids: "find_task i db = Some t \<Longrightarrow> i \<in> ids (d_tasks db)"
  using find_row_Some by (fastforce simp: ids_def)

lemma wf_links [simp]: "wf lc (db\<lparr>d_links := ls\<rparr>) \<longleftrightarrow> wf lc db"
  by (simp add: wf_def)

lemma deps_add_wf [inv_intros]:
  assumes w: "wf lc db" and c: "deps_add lc a i j req db = Inr (u, db', evs)"
  shows "wf lc db'"
proof (cases "db' = db")
  case False
  then obtain t target where t: "find_task i db = Some t" "find_task j db = Some target"
      and target: "isTerminal lc (t_state target) \<longrightarrow> isSatisfying lc (t_state target)"
      and ij: "i \<noteq> j" "(j, i) \<notin> (set (d_deps db))\<^sup>*" "\<not> nested db i j" "(i, j) \<notin> set (d_deps db)"
      and db': "db' = db\<lparr>d_deps := d_deps db @ [(i, j)]\<rparr>"
    using c by (auto simp: deps_add_def in_deps_reach split: if_splits)
  have d: "distinct (map t_id (d_tasks db))" using wfD(1)[OF w] by (simp add: forest_ok_def)
  have "deps_ok (d_tasks db) (insert (i, j) (set (d_deps db)))"
    using deps_insert[OF wfD(2)[OF w] find_task_ids[OF t(1)] find_task_ids[OF t(2)] ij(2)] ij nested_iff by blast
  moreover have "waits_ok lc (d_tasks db) (insert (i, j) (set (d_deps db)))"
  proof (rule waits_insert[OF wfD(5)[OF w]])
    fix u assume "u \<in> set (d_tasks db)" "t_id u = j" "isTerminal lc (t_state u)"
    then show "isSatisfying lc (t_state u)" using find_row_unique[OF d, of u] t(2) target by auto
  qed
  ultimately show ?thesis using wfD[OF w] ij(4) by (simp add: wf_def db')
qed (use w in simp)

lemma wf_drop_deps:
  "wf lc db \<Longrightarrow> set ds \<subseteq> set (d_deps db) \<Longrightarrow> distinct ds \<Longrightarrow> wf lc (db\<lparr>d_deps := ds\<rparr>)"
  by (auto simp: wf_def intro: deps_drop waits_drop)

lemma deps_remove_wf [inv_intros]:
  "wf lc db \<Longrightarrow> deps_remove lc a i j req db = Inr (u, db', evs) \<Longrightarrow> wf lc db'"
  by (auto simp: deps_remove_def intro!: wf_drop_deps dest: wfD(8) split: if_splits)

lemma links_add_wf [inv_intros]:
  "wf lc db \<Longrightarrow> links_add lc a x y k req db = Inr (u, db', evs) \<Longrightarrow> wf lc db'"
  by (auto simp: links_add_def split: if_splits)

lemma notes_add_wf [inv_intros]:
  "wf lc db \<Longrightarrow> notes_add lc a i note req db = Inr (u, db', evs) \<Longrightarrow> wf lc db'"
  by (auto simp: notes_add_def split: if_splits)

subsection \<open>The cycle check is exact\<close>

lemma deps_add_exact_aux:
  assumes w: "wf lc db" and t: "find_task i db = Some t" "find_task j db = Some target"
    and p: "check lc a DepsAdd (Some (t_state t)) db = Inr ()"
    and s: "isTerminal lc (t_state target) \<longrightarrow> isSatisfying lc (t_state target)"
  shows "isOk (deps_add lc a i j req db) \<longleftrightarrow>
    acyclic (insert (i, j) (set (d_deps db))) \<and> \<not> ((i, j) \<in> (parents (d_tasks db))\<^sup>* \<or> (j, i) \<in> (parents (d_tasks db))\<^sup>*)"
proof -
  have a: "acyclic (set (d_deps db))" using wfD(2)[OF w] by (simp add: deps_ok_def)
  then have "acyclic (insert (i, j) (set (d_deps db))) \<longleftrightarrow> i \<notin> set (reach (d_deps db) [j])"
    by (simp add: acyclic_insert in_deps_reach)
  moreover have "(i, j) \<in> (parents (d_tasks db))\<^sup>* \<or> (j, i) \<in> (parents (d_tasks db))\<^sup>* \<longleftrightarrow> nested db i j"
    by (simp add: nested_def set_ups)
  moreover have "i = j \<Longrightarrow> i \<in> set (reach (d_deps db) [j])" by (simp add: in_deps_reach)
  ultimately show ?thesis
    using t p s by (auto simp: deps_add_def loadTask_def isOk_def)
qed

end
