(* ===== verification/Moves.thy ===== *)
theory Moves
  imports Deps
begin

text \<open>
  Lifecycle moves (src/taskgraph/moves.ts): the checks in the code's order, the edges dropped, the
  attempt ended, the row updated, and the events. \<open>fence\<close> is the attempt id a claimed move
  carries; moving without one ends whatever attempt holds the task.

  \<open>wf_leave\<close> is the one argument for every row that changes state without taking a lease: the
  moves here, the sweep, approval and discard.
\<close>

subsection \<open>move\<close>

record move_options =
  mo_reason :: "string option"
  mo_payload :: "(string \<times> json) list"
  mo_requestId :: "string option"
  mo_dropDeps :: bool

text \<open>\<open>{ ...members, [name]: v }\<close>: a member that is there keeps its place.\<close>

definition put_member :: "string \<Rightarrow> json \<Rightarrow> (string \<times> json) list \<Rightarrow> (string \<times> json) list" where
  "put_member k v ms =
     (if k \<in> set (map fst ms) then map (\<lambda>(x, y). if x = k then (x, v) else (x, y)) ms else ms @ [(k, v)])"

definition move_payload :: "move_options \<Rightarrow> json" where
  "move_payload opts = JObj (case mo_reason opts of
       Some r \<Rightarrow> if r = '''' then mo_payload opts else put_member ''reason'' (JStr r) (mo_payload opts)
     | None \<Rightarrow> mo_payload opts)"

text \<open>The row after the move's \<open>update\<close>.\<close>

definition moved_row :: "'x lifecycle \<Rightarrow> 'x move \<Rightarrow> int \<Rightarrow> task \<Rightarrow> task" where
  "moved_row lc m now t = t\<lparr>
     t_state := m_to m, t_boosted := boostAfter m (t_boosted t),
     t_leaseAttemptId := None, t_leaseExpiresAt := None,
     t_closedAt := (if isTerminal lc (m_to m) then Some now else t_closedAt t),
     t_updatedAt := now\<rparr>"

definition dropEdges :: "string \<Rightarrow> string list \<Rightarrow> 'x db \<Rightarrow> 'x db" where
  "dropEdges i ws db = db\<lparr>d_deps := filter (\<lambda>(x, y). \<not> (y = i \<and> x \<in> set ws)) (d_deps db)\<rparr>"

text \<open>Any move out of the leased state ends the attempt holding it.\<close>

definition heldAttempt :: "'x lifecycle \<Rightarrow> task \<Rightarrow> string option" where
  "heldAttempt lc t = (if Some (t_state t) = leasedState lc then t_leaseAttemptId t else None)"

definition endHeld :: "string option \<Rightarrow> string \<Rightarrow> 'x db \<Rightarrow> 'x db" where
  "endHeld att outcome db = (case att of None \<Rightarrow> db | Some x \<Rightarrow> endAttempt x outcome db)"

definition movable :: "'x lifecycle \<Rightarrow> string \<Rightarrow> tg_error + 'x move" where
  "movable lc nm = (case moveNamed lc nm of
       None \<Rightarrow> Inl (InvalidRequest (''lifecycle '' @ l_name lc @ ''@'' @ show_nat (l_version lc) @ '' has no move '' @ nm))
     | Some m \<Rightarrow>
         if nm = l_onClaim lc then Inl (InvalidRequest (nm @ '' is the claim move; take work with claim()''))
         else Inr m)"

definition strands :: "'x lifecycle \<Rightarrow> 'x move \<Rightarrow> bool" where
  "strands lc m \<longleftrightarrow> isTerminal lc (m_to m) \<and> \<not> isSatisfying lc (m_to m)"

text \<open>The refusals, in order; what is left is the list of live tasks whose edges the move drops.\<close>

definition moveRefusals ::
  "'x lifecycle \<Rightarrow> actor \<Rightarrow> 'x move \<Rightarrow> move_options \<Rightarrow> string option \<Rightarrow> task \<Rightarrow> 'x db \<Rightarrow> tg_error + string list" where
  "moveRefusals lc a m opts fence t db =
     bindE (case fence of None \<Rightarrow> Inr ()
            | Some x \<Rightarrow> guardE (t_leaseAttemptId t = Some x) (LeaseLost (t_id t) x)) (\<lambda>_.
     bindE (guardE (ac_role a \<in> set (m_by m)) (MoveRefused (t_id t) (t_state t) ''NotPermitted'' [] [])) (\<lambda>_.
     bindE (guardE (t_state t \<in> set (m_from m)) (MoveRefused (t_id t) (t_state t) ''WrongState'' [] [])) (\<lambda>_.
     bindE (let live = liveChildren lc db (t_id t) in
            guardE (isTerminal lc (m_to m) \<longrightarrow> live = []) (MoveRefused (t_id t) (t_state t) ''ChildrenLive'' [] live)) (\<lambda>_.
     let waiting = (if strands lc m then liveDependents lc db (t_id t) else []) in
     bindE (guardE (waiting = [] \<or> mo_dropDeps opts) (MoveRefused (t_id t) (t_state t) ''DependentsLive'' waiting [])) (\<lambda>_.
     bindE (case m_guard m of None \<Rightarrow> Inr ()
            | Some g \<Rightarrow> (case g_fn g t a db of None \<Rightarrow> Inr ()
                         | Some why \<Rightarrow> Inl (MoveRefused (t_id t) (t_state t) why [] []))) (\<lambda>_.
     Inr waiting))))))"

definition move_event :: "actor \<Rightarrow> string \<Rightarrow> task \<Rightarrow> string \<Rightarrow> json \<Rightarrow> string option \<Rightarrow> new_event" where
  "move_event a nm t to payload req = (ev a (''move:'' @ nm))\<lparr>
     n_taskId := Some (t_id t), n_fromState := Some (t_state t), n_toState := Some to,
     n_payload := payload, n_requestId := req\<rparr>"

definition move ::
  "'x lifecycle \<Rightarrow> actor \<Rightarrow> string \<Rightarrow> string \<Rightarrow> move_options \<Rightarrow> string option \<Rightarrow> (task, 'x) body" where
  "move lc a i nm opts fence db =
     bindE (movable lc nm) (\<lambda>m.
     bindE (assertVersion lc db) (\<lambda>_.
     bindE (if isTerminal lc (m_to m) then lockWithParent db i else loadTask db i) (\<lambda>t.
     bindE (moveRefusals lc a m opts fence t db) (\<lambda>dropped.
     let att = heldAttempt lc t;
         db' = upd_task i (moved_row lc m (d_now db)) (endHeld att nm (dropEdges i dropped db)) in
     Inr (moved_row lc m (d_now db) t, db',
       (move_event a nm t (m_to m) (move_payload opts) (mo_requestId opts))\<lparr>n_attemptId := att\<rparr> #
       map (\<lambda>w. dep_removed_event a w i ''dropped'') dropped @
       (case t_parentId t of
          Some p \<Rightarrow> if isTerminal lc (m_to m) \<and> containerSettled lc db' p then [settled_event a p] else []
        | None \<Rightarrow> []))))))"

subsection \<open>A row that changes state and holds no lease afterwards\<close>

definition leaves :: "(task \<Rightarrow> task) \<Rightarrow> bool" where
  "leaves f \<longleftrightarrow> keeps_place f \<and> (\<forall>t. t_key (f t) = t_key t \<and> t_origin (f t) = t_origin t \<and>
     t_planId (f t) = t_planId t \<and> t_title (f t) = t_title t \<and> t_priority (f t) = t_priority t \<and>
     t_leaseAttemptId (f t) = None \<and> t_leaseExpiresAt (f t) = None)"

lemma leaves_moved_row: "leaves (moved_row lc m now)"
  by (simp add: leaves_def keeps_place_def moved_row_def)

lemma wf_leave:
  assumes v: "valid_lifecycle lc" and w: "wf lc db" and t: "find_task i db = Some t" and f: "leaves f"
    and st: "isState lc (t_state (f t))" "\<not> stateFlag sf_leased lc (t_state (f t))"
    and live: "isTerminal lc (t_state t) \<Longrightarrow> isTerminal lc (t_state (f t))"
    and ch: "isTerminal lc (t_state (f t)) \<Longrightarrow> liveChildren lc db i = []"
    and dp: "\<And>x. isTerminal lc (t_state (f t)) \<Longrightarrow> \<not> isSatisfying lc (t_state (f t)) \<Longrightarrow>
       (x, i) \<in> set ds \<Longrightarrow> x \<notin> set (liveDependents lc db i)"
    and ds: "set ds \<subseteq> set (d_deps db)" "distinct ds"
    and db': "d_tasks db' = upd_row t_id i f (d_tasks db)" "d_deps db' = ds" "d_plans db' = d_plans db"
      "d_attempts db' = (case t_leaseAttemptId t of None \<Rightarrow> d_attempts db
         | Some x \<Rightarrow> upd_row a_id x (end_row n o') (d_attempts db))"
  shows "wf lc db'"
proof -
  have d: "distinct (map t_id (d_tasks db))" using wfD(1)[OF w] by (simp add: forest_ok_def)
  have ti: "t \<in> set (d_tasks db)" "t_id t = i" using find_row_Some[OF t] by auto
  have only: "s = t" if "s \<in> set (d_tasks db)" "t_id s = i" for s
    using distinct_key_eq[OF d that(1) ti(1)] that ti by simp
  have k: "keeps_place f" and lease: "t_leaseAttemptId (f s) = None" "t_leaseExpiresAt (f s) = None" for s
    using f by (auto simp: leaves_def)
  have "closed_ok lc (d_tasks db')"
    unfolding db' using closed_upd[OF k wfD(4)[OF w]] live only ch liveChildren_Nil[OF v] by metis
  moreover have "waits_ok lc (d_tasks db') (set (d_deps db'))"
    unfolding db'
  proof (rule waits_upd[OF k waits_drop[OF wfD(5)[OF w] ds(1)]])
    fix s u
    assume s: "s \<in> set (d_tasks db)" "t_id s = i" "isTerminal lc (t_state (f s))" "\<not> isSatisfying lc (t_state (f s))"
      and u: "u \<in> set (d_tasks db)" "(t_id u, i) \<in> set ds"
    then have "t_id u \<notin> set (liveDependents lc db i)" using dp only by metis
    then show "isTerminal lc (t_state u)" using u ds(1) by (auto simp: set_liveDependents[OF v])
  qed (use live only in metis)
  moreover have "states_ok lc (d_tasks db')"
    unfolding db' using wfD(3)[OF w] by (rule states_upd) (use st lease only in auto)
  moreover have "attempts_ok (d_tasks db') (d_attempts db')"
  proof (cases "t_leaseAttemptId t")
    case None
    then show ?thesis
      unfolding db' using only lease by (auto simp: lease_list_def intro!: attempts_upd[OF wfD(6)[OF w] k])
  next
    case (Some x)
    then show ?thesis unfolding db' using attempts_unlease[OF wfD(6)[OF w] d k ti Some lease(1)] by simp
  qed
  moreover have "rows_ok (d_plans db') (d_tasks db')"
    unfolding db' using wfD(7)[OF w] by (rule rows_upd) (use f in \<open>auto simp: leaves_def row_ok_def split: option.splits\<close>)
  ultimately show ?thesis
    using forest_upd[OF k wfD(1)[OF w]] deps_upd[OF k deps_drop[OF wfD(2)[OF w] ds(1)]] ds(2)
    by (simp add: wf_def db')
qed

lemma endHeld_simps [simp]:
  "d_tasks (endHeld att nm db) = d_tasks db" "d_deps (endHeld att nm db) = d_deps db"
  "d_plans (endHeld att nm db) = d_plans db" "d_now (endHeld att nm db) = d_now db"
  "d_attempts (endHeld att nm db) = (case att of None \<Rightarrow> d_attempts db
     | Some x \<Rightarrow> upd_row a_id x (end_row (d_now db) nm) (d_attempts db))"
  by (simp_all add: endHeld_def endAttempt_eq split: option.splits)

lemma dropEdges_simps [simp]:
  "d_tasks (dropEdges i ws db) = d_tasks db" "d_plans (dropEdges i ws db) = d_plans db"
  "d_attempts (dropEdges i ws db) = d_attempts db" "d_now (dropEdges i ws db) = d_now db"
  "d_deps (dropEdges i ws db) = filter (\<lambda>(x, y). \<not> (y = i \<and> x \<in> set ws)) (d_deps db)"
  by (simp_all add: dropEdges_def)

lemma movable_Inr: "movable lc nm = Inr m \<Longrightarrow> moveNamed lc nm = Some m \<and> nm \<noteq> l_onClaim lc"
  by (auto simp: movable_def split: option.splits if_splits)

lemma lockWithParent_Inr: "lockWithParent db i = Inr t \<Longrightarrow> find_task i db = Some t"
  by (auto simp: lockWithParent_def)

lemma moveRefusals_Inr:
  assumes "moveRefusals lc a m opts fence t db = Inr dropped"
  shows "ac_role a \<in> set (m_by m)" "t_state t \<in> set (m_from m)"
    "isTerminal lc (m_to m) \<Longrightarrow> liveChildren lc db (t_id t) = []"
    "dropped = (if strands lc m then liveDependents lc db (t_id t) else [])"
    "dropped = [] \<or> mo_dropDeps opts"
    "fence = Some x \<Longrightarrow> t_leaseAttemptId t = Some x"
    "m_guard m = Some g \<Longrightarrow> g_fn g t a db = None"
  using assms by (auto simp: moveRefusals_def Let_def split: if_splits option.splits)

lemma move_Inr:
  assumes "move lc a i nm opts fence db = Inr (row, db', evs)"
  obtains m t dropped where "moveNamed lc nm = Some m" "nm \<noteq> l_onClaim lc" "find_task i db = Some t"
    "moveRefusals lc a m opts fence t db = Inr dropped" "row = moved_row lc m (d_now db) t"
    "db' = upd_task i (moved_row lc m (d_now db)) (endHeld (heldAttempt lc t) nm (dropEdges i dropped db))"
  using assms movable_Inr lockWithParent_Inr
  by (auto simp: move_def Let_def split: if_splits) blast+

lemma heldAttempt_wf:
  assumes v: "valid_lifecycle lc" and w: "wf lc db" and t: "find_task i db = Some t"
  shows "heldAttempt lc t = t_leaseAttemptId t"
  using wfD(3)[OF w] find_row_Some[OF t] leasedState_iff[OF v, of "t_state t"]
  by (auto simp: heldAttempt_def states_ok_def)

lemma move_to_unleased:
  "valid_lifecycle lc \<Longrightarrow> moveNamed lc nm = Some m \<Longrightarrow> nm \<noteq> l_onClaim lc \<Longrightarrow> \<not> stateFlag sf_leased lc (m_to m)"
  using leased_only_by_claim moveNamed_SomeD by metis

lemma move_wf [inv_intros]:
  assumes v: "valid_lifecycle lc" and w: "wf lc db" and c: "move lc a i nm opts fence db = Inr (row, db', evs)"
  shows "wf lc db'"
proof -
  obtain m t dropped where m: "moveNamed lc nm = Some m" "nm \<noteq> l_onClaim lc" and t: "find_task i db = Some t"
      and r: "moveRefusals lc a m opts fence t db = Inr dropped"
      and db': "db' = upd_task i (moved_row lc m (d_now db)) (endHeld (heldAttempt lc t) nm (dropEdges i dropped db))"
    using move_Inr[OF c] by metis
  have mm: "m \<in> set (l_moves lc)" using moveNamed_SomeD[OF m(1)] by simp
  have ti: "t_id t = i" using find_row_Some[OF t] by simp
  have live: "\<not> isTerminal lc (t_state t)" using move_from_live[OF v mm moveRefusals_Inr(2)[OF r]] .
  show ?thesis
  proof (rule wf_leave[OF v w t leaves_moved_row[of lc m "d_now db"], where ds = "d_deps (dropEdges i dropped db)"])
    show "x \<notin> set (liveDependents lc db i)"
      if "isTerminal lc (t_state (moved_row lc m (d_now db) t))" "\<not> isSatisfying lc (t_state (moved_row lc m (d_now db) t))"
        "(x, i) \<in> set (d_deps (dropEdges i dropped db))" for x
      using that moveRefusals_Inr(4)[OF r] ti by (auto simp: strands_def moved_row_def)
    show "isTerminal lc (t_state (moved_row lc m (d_now db) t)) \<Longrightarrow> liveChildren lc db i = []"
      using moveRefusals_Inr(3)[OF r] ti by (simp add: moved_row_def)
    show "d_attempts db' = (case t_leaseAttemptId t of None \<Rightarrow> d_attempts db
         | Some x \<Rightarrow> upd_row a_id x (end_row (d_now db) nm) (d_attempts db))"
      by (simp add: db' heldAttempt_wf[OF v w t] split: option.split)
  qed (use live move_to_state[OF v mm] move_to_unleased[OF v m] wfD(8)[OF w] in \<open>auto simp: moved_row_def db'\<close>)
qed

subsection \<open>When a move succeeds, and what it returns\<close>

lemma lockWithParent_loadTask:
  assumes w: "wf lc db" shows "lockWithParent db i = loadTask db i"
proof (cases "find_task i db")
  case (Some t)
  have "\<exists>u. find_task p db = Some u" if "t_parentId t = Some p" for p
  proof -
    have "p \<in> snd ` parents (d_tasks db)" using find_row_Some[OF Some] that by (force simp: parents_def)
    then have "p \<in> t_id ` set (d_tasks db)" using wfD(1)[OF w] by (auto simp: forest_ok_def ids_def)
    then show ?thesis using find_row_None[of t_id p "d_tasks db"] by (cases "find_task p db") auto
  qed
  then show ?thesis using Some by (auto simp: lockWithParent_def loadTask_def split: option.splits)
qed (simp add: lockWithParent_def loadTask_def)

lemma moveRefusals_isOk:
  "isOk (moveRefusals lc a m opts fence t db) \<longleftrightarrow>
    (\<forall>x. fence = Some x \<longrightarrow> t_leaseAttemptId t = Some x) \<and> ac_role a \<in> set (m_by m) \<and> t_state t \<in> set (m_from m) \<and>
    (isTerminal lc (m_to m) \<longrightarrow> liveChildren lc db (t_id t) = []) \<and>
    (isTerminal lc (m_to m) \<and> \<not> isSatisfying lc (m_to m) \<longrightarrow> mo_dropDeps opts \<or> liveDependents lc db (t_id t) = []) \<and>
    (\<forall>g. m_guard m = Some g \<longrightarrow> g_fn g t a db = None)"
  by (auto simp: isOk_iff moveRefusals_def Let_def strands_def split: option.splits)

lemma move_isOk:
  assumes w: "wf lc db"
  shows "isOk (move lc a i nm opts fence db) \<longleftrightarrow>
     (\<exists>m t. moveNamed lc nm = Some m \<and> nm \<noteq> l_onClaim lc \<and> assertVersion lc db = Inr () \<and> find_task i db = Some t \<and>
       (\<forall>x. fence = Some x \<longrightarrow> t_leaseAttemptId t = Some x) \<and> ac_role a \<in> set (m_by m) \<and> t_state t \<in> set (m_from m) \<and>
       (isTerminal lc (m_to m) \<longrightarrow> liveChildren lc db i = []) \<and>
       (isTerminal lc (m_to m) \<and> \<not> isSatisfying lc (m_to m) \<longrightarrow> mo_dropDeps opts \<or> liveDependents lc db i = []) \<and>
       (\<forall>g. m_guard m = Some g \<longrightarrow> g_fn g t a db = None))"
proof -
  have "isOk (move lc a i nm opts fence db) \<longleftrightarrow>
     (\<exists>m t. moveNamed lc nm = Some m \<and> nm \<noteq> l_onClaim lc \<and> assertVersion lc db = Inr () \<and> find_task i db = Some t \<and>
       isOk (moveRefusals lc a m opts fence t db))"
    unfolding move_def lockWithParent_loadTask[OF w]
    by (auto simp: isOk_bindE movable_def Let_def isOk_iff[of "moveRefusals _ _ _ _ _ _ _"] split: option.splits)
  then show ?thesis
    by (rule trans, intro ex_cong1 conj_cong refl) (simp add: moveRefusals_isOk find_row_Some[of t_id i "d_tasks db"])
qed

lemma move_result:
  assumes "move lc a i nm opts fence db = Inr (row, db', evs)"
  shows "\<exists>m. moveNamed lc nm = Some m \<and> find_task i db' = Some row \<and> t_state row = m_to m \<and> t_leaseAttemptId row = None"
proof (rule move_Inr[OF assms])
  fix m t dropped
  assume m: "moveNamed lc nm = Some m" and t: "find_task i db = Some t" and row: "row = moved_row lc m (d_now db) t"
    and db': "db' = upd_task i (moved_row lc m (d_now db)) (endHeld (heldAttempt lc t) nm (dropEdges i dropped db))"
  have "find_task i db' = Some row" using t by (simp add: db' row find_row_upd moved_row_def)
  then show ?thesis using m by (auto simp: row moved_row_def)
qed

end
