(* ===== verification/Reads.thy ===== *)
theory Reads
  imports Moves
begin

text \<open>
  The reads on a project handle (src/taskgraph/reads.ts): filters, orders, ready work and the event
  feed; and the catch-up loop of \<open>events.subscribe\<close> (client.ts). Full-text search is Postgres's own and
  is not modelled.

  The theorems: ready work is exactly the unheld claimable work whose own dependencies, and those of
  every container above it, are satisfied; an event cursor survives the round trip through text; and a
  subscriber that reads page after page from its last cursor gets every later event once, in order.
\<close>

subsection \<open>Filters\<close>

datatype order_by = ByClaim | ByCreated | ByUpdated | ByClosed

record task_filter =
  fl_states :: "string list option"
  fl_kind :: "kind option"
  fl_ids :: "string list option"
  fl_key :: "string option"
  fl_parent :: "string option"
  fl_within :: "string option"
  fl_plan :: "string option"
  fl_origin :: "origin list option"
  fl_tags :: "string list option"
  fl_orderBy :: "order_by option"
  fl_limit :: "int option"

definition noFilter :: task_filter where
  "noFilter = \<lparr>fl_states = None, fl_kind = None, fl_ids = None, fl_key = None, fl_parent = None,
     fl_within = None, fl_plan = None, fl_origin = None, fl_tags = None, fl_orderBy = None, fl_limit = None\<rparr>"

definition nonEmpty :: "string \<Rightarrow> bool" where
  "nonEmpty s \<longleftrightarrow> s \<noteq> ''''"

definition parseTaskFilter :: "task_filter \<Rightarrow> tg_error + unit" where
  "parseTaskFilter f = parsed (
     issue (given (list_all nonEmpty) (fl_states f)) ''states'' @
     issue (given (list_all nonEmpty) (fl_ids f)) ''ids'' @
     issue (given nonEmpty (fl_key f)) ''key'' @
     issue (given nonEmpty (fl_parent f)) ''parent'' @
     issue (given nonEmpty (fl_within f)) ''within'' @
     issue (given nonEmpty (fl_plan f)) ''plan'' @
     issue (given (list_all nonEmpty) (fl_tags f)) ''tags'' @
     issue (given (\<lambda>n. 0 \<le> n) (fl_limit f)) ''limit'')"

text \<open>Every task below one, at any depth: its children and the tasks below them.\<close>

definition below :: "'x db \<Rightarrow> string \<Rightarrow> string list" where
  "below db w = reach (flipped (parent_edges db)) (map t_id (childrenOf db w))"

definition filterWhere :: "'x db \<Rightarrow> task_filter \<Rightarrow> task \<Rightarrow> bool" where
  "filterWhere db f t \<longleftrightarrow>
     given (\<lambda>ss. t_state t \<in> set ss) (fl_states f) \<and>
     given (\<lambda>k. t_kind t = k) (fl_kind f) \<and>
     given (\<lambda>is. t_id t \<in> set is) (fl_ids f) \<and>
     given (\<lambda>k. t_key t = Some k) (fl_key f) \<and>
     given (\<lambda>p. t_parentId t = Some p) (fl_parent f) \<and>
     given (\<lambda>w. t_id t \<in> set (below db w)) (fl_within f) \<and>
     given (\<lambda>p. t_planId t = Some p) (fl_plan f) \<and>
     given (\<lambda>os. t_origin t \<in> set os) (fl_origin f) \<and>
     given (\<lambda>ts. set ts \<subseteq> set (t_tags t)) (fl_tags f)"

definition closed_key :: "task \<Rightarrow> bool \<times> int \<times> string" where
  "closed_key t = (t_closedAt t = None, orElse (t_closedAt t) 0, t_id t)"

definition updated_key :: "task \<Rightarrow> int \<times> string" where
  "updated_key t = (t_updatedAt t, t_id t)"

fun ordered :: "order_by \<Rightarrow> task list \<Rightarrow> task list" where
  "ordered ByClaim ts = sort_key CLAIM_ORDER ts"
| "ordered ByCreated ts = sort_key created_key ts"
| "ordered ByUpdated ts = sort_key updated_key ts"
| "ordered ByClosed ts = sort_key closed_key ts"

definition limited :: "int option \<Rightarrow> 'a list \<Rightarrow> 'a list" where
  "limited n xs = (case n of None \<Rightarrow> xs | Some k \<Rightarrow> take (nat k) xs)"

definition listWhere :: "'x db \<Rightarrow> (task \<Rightarrow> bool) \<Rightarrow> task_filter \<Rightarrow> task list" where
  "listWhere db P f = limited (fl_limit f) (ordered (orElse (fl_orderBy f) ByClaim) (filter P (d_tasks db)))"

definition tasks_list :: "'x db \<Rightarrow> task_filter \<Rightarrow> tg_error + task list" where
  "tasks_list db f = bindE (parseTaskFilter f) (\<lambda>_. Inr (listWhere db (filterWhere db f) f))"

definition tasks_count :: "'x db \<Rightarrow> task_filter \<Rightarrow> tg_error + nat" where
  "tasks_count db f = bindE (parseTaskFilter f) (\<lambda>_. Inr (length (filter (filterWhere db f) (d_tasks db))))"

definition tasks_children :: "'x db \<Rightarrow> string \<Rightarrow> tg_error + task list" where
  "tasks_children db i = bindE (loadTask db i) (\<lambda>_.
     Inr (listWhere db (filterWhere db (noFilter\<lparr>fl_parent := Some i\<rparr>)) (noFilter\<lparr>fl_orderBy := Some ByCreated\<rparr>)))"

definition tasks_subtree :: "'x db \<Rightarrow> string \<Rightarrow> tg_error + task list" where
  "tasks_subtree db i = bindE (loadTask db i) (\<lambda>_.
     Inr (listWhere db (filterWhere db (noFilter\<lparr>fl_within := Some i\<rparr>)) (noFilter\<lparr>fl_orderBy := Some ByCreated\<rparr>)))"

definition tasks_settled :: "'x lifecycle \<Rightarrow> 'x db \<Rightarrow> task list" where
  "tasks_settled lc db = settledContainers lc db"

text \<open>Ready work, in claim order unless the filter orders it otherwise.\<close>

definition ready :: "'x lifecycle \<Rightarrow> 'x db \<Rightarrow> task_filter \<Rightarrow> tg_error + task list" where
  "ready lc db f = bindE (parseTaskFilter f) (\<lambda>_.
     Inr (listWhere db (\<lambda>t. filterWhere db f t \<and> readyWhere lc db t) f))"

subsection \<open>One task\<close>

record live_claim =
  lv_attemptId :: string
  lv_worker :: string
  lv_actor :: string
  lv_startedAt :: int
  lv_expiresAt :: int
  lv_expired :: bool

text \<open>A task with its dependencies' states, by id, and its live claim.\<close>

definition tasks_get :: "'x db \<Rightarrow> string \<Rightarrow> tg_error + (task \<times> (string \<times> string) list \<times> live_claim option)" where
  "tasks_get db i = bindE (loadTask db i) (\<lambda>t.
     Inr (t,
       sort_key fst (concat (map (\<lambda>(x, y). if x = i
         then map (\<lambda>u. (t_id u, t_state u)) (filter (\<lambda>u. t_id u = y) (d_tasks db)) else []) (d_deps db))),
       (case (t_leaseAttemptId t, t_leaseExpiresAt t) of
          (Some x, Some e) \<Rightarrow> map_option (\<lambda>a. \<lparr>lv_attemptId = a_id a, lv_worker = a_worker a, lv_actor = a_actor a,
              lv_startedAt = a_startedAt a, lv_expiresAt = e, lv_expired = (e \<le> d_now db)\<rparr>)
            (find_row a_id x (d_attempts db))
        | _ \<Rightarrow> None)))"

definition tasks_history :: "'x db \<Rightarrow> string \<Rightarrow> tg_error + event list" where
  "tasks_history db i = bindE (loadTask db i) (\<lambda>_.
     Inr (sort_key e_id (filter (\<lambda>e. e_taskId e = Some i) (d_events db))))"

definition started_key :: "attempt \<Rightarrow> int \<times> string" where
  "started_key a = (a_startedAt a, a_id a)"

definition attempts_list :: "'x db \<Rightarrow> string \<Rightarrow> tg_error + attempt list" where
  "attempts_list db i = bindE (loadTask db i) (\<lambda>_.
     Inr (sort_key started_key (filter (\<lambda>a. a_taskId a = i) (d_attempts db))))"

subsection \<open>Plans\<close>

definition plans_get :: "'x db \<Rightarrow> string \<Rightarrow> tg_error + plan" where
  "plans_get db i = (case find_row p_id i (d_plans db) of None \<Rightarrow> Inl (NotFound ''plan'' i) | Some p \<Rightarrow> Inr p)"

datatype plan_status = Open | Approved | Discarded

definition plan_status_of :: "plan \<Rightarrow> plan_status" where
  "plan_status_of p = (if p_approvedAt p \<noteq> None then Approved else if p_discardedAt p \<noteq> None then Discarded else Open)"

definition plan_key :: "plan \<Rightarrow> int \<times> string" where
  "plan_key p = (p_createdAt p, p_id p)"

definition plans_list :: "'x db \<Rightarrow> plan_status list option \<Rightarrow> plan list" where
  "plans_list db status = sort_key plan_key (filter (\<lambda>p. given (\<lambda>ss. plan_status_of p \<in> set ss) status) (d_plans db))"

subsection \<open>The event feed\<close>

definition MAX_BIGINT :: nat where
  "MAX_BIGINT = 2 ^ 63 - 1"

definition EVENTS_PAGE :: int where
  "EVENTS_PAGE = 1000"

definition is_digit :: "char \<Rightarrow> bool" where
  "is_digit c \<longleftrightarrow> (48::nat) \<le> of_char c \<and> of_char c \<le> (57::nat)"

definition decimal :: "string \<Rightarrow> nat" where
  "decimal s = foldl (\<lambda>n c. n * 10 + (of_char c - 48)) 0 s"

text \<open>The pattern of one to nineteen digits, and the bound of a \<open>bigint\<close>.\<close>

definition parseCursor :: "string \<Rightarrow> nat option" where
  "parseCursor s = (if 1 \<le> length s \<and> length s \<le> 19 \<and> list_all is_digit s \<and> decimal s \<le> MAX_BIGINT
     then Some (decimal s) else None)"

definition events_since :: "'x db \<Rightarrow> string \<Rightarrow> int \<Rightarrow> tg_error + event list" where
  "events_since db cursor limit = (case parseCursor cursor of
       None \<Rightarrow> Inl (InvalidRequest (''an event cursor is an event id, not '' @ cursor))
     | Some c \<Rightarrow>
         if limit \<le> 0 then Inl (InvalidRequest ''limit must be a positive whole number'')
         else Inr (take (nat limit) (sort_key e_id (filter (\<lambda>e. c < e_id e) (d_events db)))))"

lemma decimal_append: "decimal (s @ [c]) = decimal s * 10 + (of_char c - 48)"
  by (simp add: decimal_def)

lemma digit_facts: "n < 10 \<Longrightarrow> is_digit (digit n) \<and> (of_char (digit n) :: nat) - 48 = n"
  by (simp add: digit_def is_digit_def of_char_of take_bit_eq_mod)

lemma decimal_show [simp]: "decimal (show_nat n) = n"
proof (induction n rule: show_nat.induct)
  case (1 n)
  show ?case
  proof (cases "n < 10")
    case True
    then show ?thesis using digit_facts[of n] by (simp add: show_nat.simps[of n] decimal_def)
  next
    case False
    then show ?thesis
      using 1 digit_facts[of "n mod 10"] by (subst show_nat.simps) (simp add: decimal_append)
  qed
qed

lemma show_digits: "list_all is_digit (show_nat n)"
proof (induction n rule: show_nat.induct)
  case (1 n)
  show ?case
    using 1 digit_facts[of n] digit_facts[of "n mod 10"] by (subst show_nat.simps) auto
qed

lemma length_show: "n < 10 ^ Suc k \<Longrightarrow> length (show_nat n) \<le> Suc k"
proof (induction k arbitrary: n)
  case 0
  then show ?case by (subst show_nat.simps) simp
next
  case (Suc k)
  have "n div 10 < 10 ^ Suc k" using Suc.prems by (simp add: div_less_iff_less_mult mult.commute)
  then show ?case using Suc.IH[of "n div 10"] by (subst show_nat.simps) simp
qed

lemma parseCursor_show:
  assumes "n \<le> MAX_BIGINT"
  shows "parseCursor (show_nat n) = Some n"
proof -
  have "n < 10 ^ Suc 18" using assms by (simp add: MAX_BIGINT_def)
  then have "length (show_nat n) \<le> 19" using length_show[of n 18] by simp
  then show ?thesis using assms show_digits[of n] by (simp add: parseCursor_def Suc_le_eq)
qed

text \<open>
  \<open>catchUp\<close>: page after page from the cursor until a page is empty; the batches handed to the handler.
\<close>

function catchUp :: "'x db \<Rightarrow> string \<Rightarrow> tg_error + event list list" where
  "catchUp db cursor = (case events_since db cursor EVENTS_PAGE of
       Inl e \<Rightarrow> Inl e
     | Inr batch \<Rightarrow>
         if batch = [] then Inr []
         else bindE (catchUp db (show_nat (e_id (last batch)))) (\<lambda>rest. Inr (batch # rest)))"
  by pat_completeness auto
termination
proof (relation "measure (\<lambda>(db, cursor). length (filter (\<lambda>e. decimal cursor < e_id e) (d_events db)))", goal_cases)
  case (2 db cursor batch)
  then obtain c where c: "parseCursor cursor = Some c" "decimal cursor = c"
      and b: "batch = take (nat EVENTS_PAGE) (sort_key e_id (filter (\<lambda>e. c < e_id e) (d_events db)))"
    by (auto simp: events_since_def parseCursor_def split: option.splits if_splits)
  have "last batch \<in> set batch" using 2 by simp
  then have l: "last batch \<in> set (d_events db)" "c < e_id (last batch)" unfolding b by (auto dest: in_set_takeD)
  have "filter (\<lambda>e. e_id (last batch) < e_id e) (d_events db)
      = filter (\<lambda>e. e_id (last batch) < e_id e) (filter (\<lambda>e. c < e_id e) (d_events db))"
    using l by (auto intro!: filter_cong)
  also have "length \<dots> < length (filter (\<lambda>e. c < e_id e) (d_events db))"
    using l by (intro length_filter_less) auto
  finally show ?case using c by simp
qed simp

declare catchUp.simps [simp del]

lemma filter_after_take:
  fixes g :: "'a \<Rightarrow> nat"
  assumes s: "sorted_wrt (<) (map g xs)" and n: "0 < n" "xs \<noteq> []"
  shows "filter (\<lambda>e. g (last (take n xs)) < g e) xs = drop n xs"
proof -
  obtain ys y where y: "take n xs = ys @ [y]" using n by (cases "take n xs" rule: rev_cases) auto
  have x: "xs = (ys @ [y]) @ drop n xs" using y by (metis append_take_drop_id)
  have "sorted_wrt (<) (map g ((ys @ [y]) @ drop n xs))" using s x by simp
  then have "\<forall>e \<in> set ys. g e < g y" "\<forall>e \<in> set (drop n xs). g y < g e"
    by (auto simp: sorted_wrt_append)
  then have "filter (\<lambda>e. g y < g e) ((ys @ [y]) @ drop n xs) = drop n xs"
    by (auto simp: filter_empty_conv filter_id_conv less_le_not_le)
  then show ?thesis unfolding y last_snoc by (subst (1) x)
qed

definition cursors_fit :: "'x db \<Rightarrow> bool" where
  "cursors_fit db \<longleftrightarrow> (\<forall>e \<in> set (d_events db). e_id e \<le> MAX_BIGINT)"

lemma events_since_eq:
  assumes l: "log_ok db" and c: "c \<le> MAX_BIGINT" and n: "0 < limit"
  shows "events_since db (show_nat c) limit = Inr (take (nat limit) (filter (\<lambda>e. c < e_id e) (d_events db)))"
proof -
  have "sorted_wrt (<) (map e_id (filter (\<lambda>e. c < e_id e) (d_events db)))"
    using l by (auto simp: log_ok_def sorted_wrt_map intro: sorted_wrt_filter)
  then have "sorted (map e_id (filter (\<lambda>e. c < e_id e) (d_events db)))"
    by (rule strict_sorted_imp_sorted)
  then show ?thesis using n by (simp add: events_since_def parseCursor_show[OF c] sort_key_id_if_sorted)
qed

lemma catchUp_exact:
  assumes l: "log_ok db" and f: "cursors_fit db"
  shows "c \<le> MAX_BIGINT \<Longrightarrow> \<exists>bs. catchUp db (show_nat c) = Inr bs \<and> [] \<notin> set bs \<and>
    concat bs = filter (\<lambda>e. c < e_id e) (d_events db)"
proof (induction "length (filter (\<lambda>e. c < e_id e) (d_events db))" arbitrary: c rule: less_induct)
  case less
  let ?xs = "filter (\<lambda>e. c < e_id e) (d_events db)"
  have e: "events_since db (show_nat c) EVENTS_PAGE = Inr (take (nat EVENTS_PAGE) ?xs)"
    using events_since_eq[OF l less.prems] by (simp add: EVENTS_PAGE_def)
  show ?case
  proof (cases "?xs = []")
    case True
    then show ?thesis using e by (simp add: catchUp.simps[of db "show_nat c"])
  next
    case False
    let ?b = "take (nat EVENTS_PAGE) ?xs"
    have b: "?b \<noteq> []" using False by (simp add: EVENTS_PAGE_def)
    then have "last ?b \<in> set ?b" by (rule last_in_set)
    then have lm: "last ?b \<in> set (d_events db)" "c < e_id (last ?b)" by (auto dest: in_set_takeD)
    have "sorted_wrt (<) (map e_id ?xs)"
      using l by (auto simp: log_ok_def sorted_wrt_map intro: sorted_wrt_filter)
    then have "filter (\<lambda>e. e_id (last ?b) < e_id e) ?xs = drop (nat EVENTS_PAGE) ?xs"
      using False by (intro filter_after_take) (auto simp: EVENTS_PAGE_def)
    moreover have "filter (\<lambda>e. e_id (last ?b) < e_id e) ?xs = filter (\<lambda>e. e_id (last ?b) < e_id e) (d_events db)"
      using lm by (auto intro!: filter_cong)
    ultimately have rest: "filter (\<lambda>e. e_id (last ?b) < e_id e) (d_events db) = drop (nat EVENTS_PAGE) ?xs" by simp
    have "length (drop (nat EVENTS_PAGE) ?xs) < length ?xs" using False by (simp add: EVENTS_PAGE_def)
    then have "\<exists>bs. catchUp db (show_nat (e_id (last ?b))) = Inr bs \<and> [] \<notin> set bs \<and>
        concat bs = filter (\<lambda>e. e_id (last ?b) < e_id e) (d_events db)"
      using less.hyps[of "e_id (last ?b)"] rest f lm(1) by (simp add: cursors_fit_def)
    then obtain bs where bs: "catchUp db (show_nat (e_id (last ?b))) = Inr bs" "[] \<notin> set bs"
        "concat bs = drop (nat EVENTS_PAGE) ?xs"
      using rest by auto
    have "catchUp db (show_nat c) = Inr (?b # bs)"
      using e b bs(1) by (simp add: catchUp.simps[of db "show_nat c"])
    then show ?thesis using bs b by (intro exI[of _ "?b # bs"]) (simp add: append_take_drop_id)
  qed
qed

subsection \<open>Ready work\<close>

lemma list_ex_deps: "list_ex (\<lambda>(a, b). P a b) ds \<longleftrightarrow> (\<exists>(a, b) \<in> set ds. P a b)"
  by (auto simp: list_ex_iff)

lemma waits_iff:
  "valid_lifecycle lc \<Longrightarrow> waits lc db i \<longleftrightarrow>
     (\<exists>v \<in> set (d_tasks db). (i, t_id v) \<in> set (d_deps db) \<and> \<not> isSatisfying lc (t_state v))"
  by (auto simp: waits_def list_ex_iff satisfyingStates_iff)

lemma set_ancestors:
  assumes w: "wf lc db" and t: "t \<in> set (d_tasks db)"
  shows "set (ancestors db t) = {p. (t_id t, p) \<in> (parents (d_tasks db))\<^sup>+}"
proof -
  have d: "distinct (map t_id (d_tasks db))" using wfD(1)[OF w] by (simp add: forest_ok_def)
  note pi = parents_iff[OF d t]
  have up: "(t_id t, p) \<in> (parents (d_tasks db))\<^sup>+ \<longleftrightarrow>
      (\<exists>r. (t_id t, r) \<in> parents (d_tasks db) \<and> (r, p) \<in> (parents (d_tasks db))\<^sup>*)" for p
    by (meson tranclD rtrancl_into_trancl2)
  show ?thesis
  proof (cases "t_parentId t")
    case None
    then show ?thesis by (simp add: ancestors_def up pi)
  next
    case (Some q)
    then show ?thesis by (simp add: ancestors_def set_ups up pi)
  qed
qed

lemma readyWhere_iff:
  assumes v: "valid_lifecycle lc" and w: "wf lc db" and t: "t \<in> set (d_tasks db)"
  shows "readyWhere lc db t \<longleftrightarrow> t_kind t = Work \<and> (\<forall>h. t_holdUntil t = Some h \<longrightarrow> h \<le> d_now db) \<and>
    (\<forall>u \<in> set (d_tasks db). (t_id t, t_id u) \<in> (parents (d_tasks db))\<^sup>* \<longrightarrow>
       stateFlag sf_claimable lc (t_state u) \<and>
       (\<forall>d \<in> set (d_tasks db). (t_id u, t_id d) \<in> set (d_deps db) \<longrightarrow> isSatisfying lc (t_state d)))"
proof -
  have d: "distinct (map t_id (d_tasks db))" using wfD(1)[OF w] by (simp add: forest_ok_def)
  have c: "Some s = claimableState lc \<longleftrightarrow> stateFlag sf_claimable lc s" for s
    using claimableState_iff[OF v, of s] by auto
  have self: "u = t" if "u \<in> set (d_tasks db)" "t_id t = t_id u" for u
    using distinct_key_eq[OF d that(1) t] that(2) by simp
  have held: "\<not> held_up lc db t \<longleftrightarrow> (\<forall>u \<in> set (d_tasks db). (t_id t, t_id u) \<in> (parents (d_tasks db))\<^sup>+ \<longrightarrow>
      stateFlag sf_claimable lc (t_state u) \<and> \<not> waits lc db (t_id u))"
    by (auto simp: held_up_def list_ex_iff set_ancestors[OF w t] c)
  show ?thesis
    unfolding readyWhere_def held c waits_iff[OF v] rtrancl_eq_or_trancl
    using t self by (auto split: option.splits) 
qed

end
