(* ===== verification/Claims.thy ===== *)
theory Claims
  imports Reads
begin

text \<open>
  Claims, leases and the lease sweep (src/taskgraph/claims.ts). Times are milliseconds. \<open>for update skip
  locked\<close> leaves out the rows other transactions hold, \<open>locked\<close>; the attempt id of a claim,
  \<open>gen_random_uuid()\<close>, is an input, and the primary key refuses one that is taken.

  The theorems: a claim leases the first ready task in claim order that no one else holds, and never a
  task that has a holder; the sweep returns exactly the lapsed leases; a fenced call succeeds only for
  the attempt that holds the lease.
\<close>

subsection \<open>The sweep\<close>

text \<open>Expiries in a row: attempts ended by the expiry move since the last attempt that ended another way.\<close>

definition priorExpiries :: "'x db \<Rightarrow> string \<Rightarrow> string \<Rightarrow> nat" where
  "priorExpiries db i nm =
     (let others = filter (\<lambda>b. a_taskId b = i \<and> a_outcome b \<noteq> None \<and> a_outcome b \<noteq> Some nm) (d_attempts db)
      in length (filter (\<lambda>a. a_taskId a = i \<and> a_outcome a = Some nm \<and>
           list_all (\<lambda>b. a_startedAt b < a_startedAt a) others) (d_attempts db)))"

definition lapsed :: "'x lifecycle \<Rightarrow> string list \<Rightarrow> 'x db \<Rightarrow> task list" where
  "lapsed lc locked db = sort_key t_id (filter (\<lambda>t. Some (t_state t) = leasedState lc \<and>
     given (\<lambda>e. e < d_now db) (t_leaseExpiresAt t) \<and> t_leaseExpiresAt t \<noteq> None \<and> t_id t \<notin> set locked) (d_tasks db))"

definition expiryMove :: "'x lifecycle \<Rightarrow> nat \<Rightarrow> 'x move option" where
  "expiryMove lc expiries = (case l_onRepeatedExpiry lc of
       Some (after, nm) \<Rightarrow> if after \<le> expiries then moveNamed lc nm else moveNamed lc (l_onLeaseExpiry lc)
     | None \<Rightarrow> moveNamed lc (l_onLeaseExpiry lc))"

definition swept_row :: "'x move \<Rightarrow> int \<Rightarrow> task \<Rightarrow> task" where
  "swept_row m now t = t\<lparr>
     t_state := m_to m, t_boosted := boostAfter m (t_boosted t),
     t_leaseAttemptId := None, t_leaseExpiresAt := None, t_updatedAt := now\<rparr>"

definition system_actor :: actor where
  "system_actor = \<lparr>ac_id = SYSTEM_ROLE, ac_role = SYSTEM_ROLE\<rparr>"

definition sweepOne :: "'x move \<Rightarrow> task \<Rightarrow> 'x db \<Rightarrow> 'x db" where
  "sweepOne m t db = endHeld (t_leaseAttemptId t) (m_name m) (upd_task (t_id t) (swept_row m (d_now db)) db)"

definition sweep_event :: "'x move \<Rightarrow> task \<Rightarrow> nat \<Rightarrow> new_event" where
  "sweep_event m t expiries = (move_event system_actor (m_name m) t (m_to m)
     (JObj [(''expiries'', JNum (int expiries))]) None)\<lparr>n_attemptId := t_leaseAttemptId t\<rparr>"

fun sweepRows :: "'x lifecycle \<Rightarrow> (task \<times> nat) list \<Rightarrow> 'x db \<Rightarrow> tg_error + ('x db \<times> new_event list)" where
  "sweepRows lc [] db = Inr (db, [])"
| "sweepRows lc ((t, n) # rows) db = (case expiryMove lc n of
       None \<Rightarrow> Inl (TypeErr ''undefined move'')
     | Some m \<Rightarrow> bindE (sweepRows lc rows (sweepOne m t db)) (\<lambda>(db', evs). Inr (db', sweep_event m t n # evs)))"

text \<open>
  The version fence of the triggers (0003_activation.ts): the first row written to a project that is on
  another lifecycle fails with TG001, which the runner raises as VersionMismatch.
\<close>

definition checkWriter :: "'x lifecycle \<Rightarrow> 'x db \<Rightarrow> tg_error + unit" where
  "checkWriter lc db = guardE (d_lifecycleName db = l_name lc \<and> d_lifecycleVersion db = l_version lc)
     (VersionMismatch (''this process runs lifecycle '' @ l_name lc @ ''@'' @ show_nat (l_version lc) @ '', but project ''
       @ d_projectId db @ '' is on '' @ d_lifecycleName db @ ''@'' @ show_nat (d_lifecycleVersion db)))"

definition sweep :: "'x lifecycle \<Rightarrow> string list \<Rightarrow> (nat, 'x) body" where
  "sweep lc locked db =
     (let rows = map (\<lambda>t. (t, Suc (priorExpiries db (t_id t) (l_onLeaseExpiry lc)))) (lapsed lc locked db) in
      bindE (if rows = [] then Inr () else checkWriter lc db) (\<lambda>_.
      bindE (sweepRows lc rows db) (\<lambda>(db', evs). Inr (length rows, db', evs))))"

definition expireLeases :: "'x lifecycle \<Rightarrow> string list \<Rightarrow> (nat, 'x) body" where
  "expireLeases lc locked db = sweep lc locked db"

subsection \<open>claim\<close>

definition MAX_LEASE_MS :: int where
  "MAX_LEASE_MS = 30 * 24 * 3600000"

definition checkLeaseMs :: "int \<Rightarrow> tg_error + unit" where
  "checkLeaseMs ms = guardE (0 < ms \<and> ms \<le> MAX_LEASE_MS)
     (InvalidRequest ''leaseMs must be a whole number of milliseconds from 1 to 2592000000 (30 days)'')"

record claim_options =
  co_worker :: string
  co_leaseMs :: int
  co_filter :: task_filter
  co_requestId :: "string option"

record claim =
  cl_task :: task
  cl_attemptId :: string
  cl_expiresAt :: int

text \<open>The role that works: heartbeat, resume and claim take the roles of the onClaim move.\<close>

definition mayWork :: "'x lifecycle \<Rightarrow> actor \<Rightarrow> string \<Rightarrow> string option \<Rightarrow> tg_error + unit" where
  "mayWork lc a what st = (case moveNamed lc (l_onClaim lc) of
       None \<Rightarrow> Inl (TypeErr ''undefined move'')
     | Some m \<Rightarrow> guardE (ac_role a \<in> set (m_by m)) (NotPermitted what (ac_role a) st))"

definition nextReady :: "'x lifecycle \<Rightarrow> string list \<Rightarrow> task_filter \<Rightarrow> 'x db \<Rightarrow> task option" where
  "nextReady lc locked f db =
     (case sort_key CLAIM_ORDER (filter (\<lambda>t. filterWhere db f t \<and> readyWhere lc db t \<and> t_id t \<notin> set locked) (d_tasks db)) of
        [] \<Rightarrow> None | t # _ \<Rightarrow> Some t)"

definition claimed_row :: "'x move \<Rightarrow> int \<Rightarrow> int \<Rightarrow> string \<Rightarrow> task \<Rightarrow> task" where
  "claimed_row m now ms uuid t = t\<lparr>
     t_state := m_to m, t_boosted := boostAfter m (t_boosted t),
     t_leaseAttemptId := Some uuid, t_leaseExpiresAt := Some (now + ms), t_updatedAt := now\<rparr>"

definition new_attempt :: "actor \<Rightarrow> string \<Rightarrow> int \<Rightarrow> string \<Rightarrow> string \<Rightarrow> attempt" where
  "new_attempt a worker now uuid i = \<lparr>a_id = uuid, a_taskId = i, a_worker = worker, a_actor = ac_id a,
     a_startedAt = now, a_endedAt = None, a_outcome = None\<rparr>"

definition insertAttempt :: "attempt \<Rightarrow> 'x db \<Rightarrow> tg_error + 'x db" where
  "insertAttempt x db = (if a_id x \<in> set (map a_id (d_attempts db)) then Inl (DbError ''23505'' ''duplicate attempt id'')
     else Inr (db\<lparr>d_attempts := d_attempts db @ [x]\<rparr>))"

definition leaseTask ::
  "'x lifecycle \<Rightarrow> actor \<Rightarrow> claim_options \<Rightarrow> string \<Rightarrow> task \<Rightarrow> 'x db \<Rightarrow> tg_error + (claim \<times> 'x db \<times> new_event)" where
  "leaseTask lc a opts uuid t db = (case moveNamed lc (l_onClaim lc) of
       None \<Rightarrow> Inl (TypeErr ''undefined move'')
     | Some m \<Rightarrow>
         let f = claimed_row m (d_now db) (co_leaseMs opts) uuid in
         bindE (insertAttempt (new_attempt a (co_worker opts) (d_now db) uuid (t_id t)) (upd_task (t_id t) f db)) (\<lambda>db'.
         Inr (\<lparr>cl_task = f t, cl_attemptId = uuid, cl_expiresAt = d_now db + co_leaseMs opts\<rparr>, db',
           (move_event a (m_name m) t (m_to m) (JObj [(''worker'', JStr (co_worker opts)), (''leaseMs'', JNum (co_leaseMs opts))])
             (co_requestId opts))\<lparr>n_attemptId := Some uuid, n_fromState := claimableState lc\<rparr>)))"

text \<open>\<open>swept\<close> and \<open>taken\<close> are the rows other transactions hold at the two queries.\<close>

definition claim_next ::
  "'x lifecycle \<Rightarrow> actor \<Rightarrow> claim_options \<Rightarrow> string list \<Rightarrow> string list \<Rightarrow> string \<Rightarrow> (claim option, 'x) body" where
  "claim_next lc a opts swept taken uuid db =
     bindE (guardE (co_worker opts \<noteq> '''') (InvalidRequest ''a claim needs a worker'')) (\<lambda>_.
     bindE (checkLeaseMs (co_leaseMs opts)) (\<lambda>_.
     bindE (parseTaskFilter (co_filter opts)) (\<lambda>_.
     bindE (mayWork lc a ''claim'' (claimableState lc)) (\<lambda>_.
     bindE (assertVersion lc db) (\<lambda>_.
     bindE (sweep lc swept db) (\<lambda>(n, db1, evs).
     case nextReady lc taken (co_filter opts) db1 of
       None \<Rightarrow> Inr (None, db1, evs)
     | Some t \<Rightarrow> bindE (leaseTask lc a opts uuid t db1) (\<lambda>(c, db2, e). Inr (Some c, db2, evs @ [e]))))))))"

subsection \<open>The leased calls\<close>

definition heartbeat :: "'x lifecycle \<Rightarrow> actor \<Rightarrow> string \<Rightarrow> string \<Rightarrow> int \<Rightarrow> (claim, 'x) body" where
  "heartbeat lc a i att ms db =
     bindE (checkLeaseMs ms) (\<lambda>_.
     bindE (mayWork lc a ''heartbeat'' None) (\<lambda>_.
     bindE (assertVersion lc db) (\<lambda>_.
     case find_task i db of
       None \<Rightarrow> Inl (LeaseLost i att)
     | Some t \<Rightarrow>
         if t_leaseAttemptId t \<noteq> Some att then Inl (LeaseLost i att)
         else let f = (\<lambda>r. r\<lparr>t_leaseExpiresAt := Some (d_now db + ms)\<rparr>) in
           Inr (\<lparr>cl_task = f t, cl_attemptId = att, cl_expiresAt = d_now db + ms\<rparr>, upd_task i f db, []))))"

definition moveClaimed ::
  "'x lifecycle \<Rightarrow> actor \<Rightarrow> string \<Rightarrow> string \<Rightarrow> string \<Rightarrow> move_options \<Rightarrow> (task, 'x) body" where
  "moveClaimed lc a i att nm opts db = move lc a i nm opts (Some att) db"

definition claims_resume :: "'x lifecycle \<Rightarrow> actor \<Rightarrow> string \<Rightarrow> 'x db \<Rightarrow> tg_error + claim" where
  "claims_resume lc a i db =
     bindE (mayWork lc a ''claims.resume'' None) (\<lambda>_.
     bindE (loadTask db i) (\<lambda>t. case t_leaseAttemptId t of
       None \<Rightarrow> Inl (NotFound ''claim'' i)
     | Some x \<Rightarrow>
         let holder = map_option a_actor (find_row a_id x (d_attempts db)) in
         if holder \<noteq> Some (ac_id a) then Inl (LeaseHeld i (orElse holder ''an unknown actor''))
         else Inr \<lparr>cl_task = t, cl_attemptId = x, cl_expiresAt = orElse (t_leaseExpiresAt t) 0\<rparr>))"

subsection \<open>The sweep keeps the invariant, and returns exactly the lapsed leases\<close>

text \<open>
  Registration does not rule out the claim move as an expiry hook (when it also starts from the leased
  state); the sweep then leaves a task leased with no lease. The theorems that need it assume it is not, and
  \<open>UpgradeProperties\<close> runs a registered lifecycle for which it is.
\<close>

definition sound_lifecycle :: "'x lifecycle \<Rightarrow> bool" where
  "sound_lifecycle lc \<longleftrightarrow> valid_lifecycle lc \<and> \<not> is_expiry_hook lc (l_onClaim lc)"

lemma sound_valid: "sound_lifecycle lc \<Longrightarrow> valid_lifecycle lc"
  by (simp add: sound_lifecycle_def)

lemma expiryMove_SomeD:
  "expiryMove lc n = Some m \<Longrightarrow> is_expiry_hook lc (m_name m) \<and> moveNamed lc (m_name m) = Some m"
  using moveNamed_SomeD[of lc "l_onLeaseExpiry lc" m] moveNamed_SomeD[of lc _ m]
  by (auto simp: expiryMove_def is_expiry_hook_def split: option.splits if_splits)

lemma expiryMove_total: "valid_lifecycle lc \<Longrightarrow> \<exists>m. expiryMove lc n = Some m"
proof -
  assume v: "valid_lifecycle lc"
  have "is_expiry_hook lc nm \<Longrightarrow> \<exists>m. moveNamed lc nm = Some m" for nm using expiry_move[OF v] by metis
  then show ?thesis by (auto simp: expiryMove_def is_expiry_hook_def split: option.splits)
qed

lemma expiry_target:
  assumes s: "sound_lifecycle lc" and m: "expiryMove lc n = Some m"
  shows "isState lc (m_to m)" "\<not> stateFlag sf_leased lc (m_to m)" "\<not> isTerminal lc (m_to m)"
proof -
  note v = sound_valid[OF s] and h = expiryMove_SomeD[OF m]
  show "isState lc (m_to m)" using move_to_state[OF v] moveNamed_SomeD h by blast
  have "m_name m \<noteq> l_onClaim lc" using h s by (auto simp: sound_lifecycle_def)
  then show "\<not> stateFlag sf_leased lc (m_to m)" using move_to_unleased[OF v] h by blast
  show "\<not> isTerminal lc (m_to m)" using expiry_move[OF v] h by (metis option.inject)
qed

lemma leaves_swept_row: "leaves (swept_row m now)"
  by (simp add: leaves_def keeps_place_def swept_row_def)

lemma sweepOne_simps [simp]:
  "d_tasks (sweepOne m t db) = upd_row t_id (t_id t) (swept_row m (d_now db)) (d_tasks db)"
  "d_deps (sweepOne m t db) = d_deps db" "d_plans (sweepOne m t db) = d_plans db" "d_now (sweepOne m t db) = d_now db"
  by (simp_all add: sweepOne_def)

lemma sweepOne_wf:
  assumes s: "sound_lifecycle lc" and w: "wf lc db" and t: "find_task (t_id t) db = Some t"
    and l: "Some (t_state t) = leasedState lc" and m: "expiryMove lc n = Some m"
  shows "wf lc (sweepOne m t db)"
proof (rule wf_leave[OF sound_valid[OF s] w t leaves_swept_row[of m "d_now db"], where ds = "d_deps db"
      and n = "d_now db" and o' = "m_name m"])
  have "\<not> isTerminal lc (t_state t)"
    using leased_not_terminal[OF sound_valid[OF s]] leasedState_iff[OF sound_valid[OF s], of "t_state t"] l by simp
  then show "isTerminal lc (t_state t) \<Longrightarrow> isTerminal lc (t_state (swept_row m (d_now db) t))" by simp
qed (use expiry_target[OF s m] wfD(8)[OF w] in \<open>auto simp: swept_row_def sweepOne_def split: option.split\<close>)

lemma find_sweepOne:
  "find_task i (sweepOne m t db) = (if i = t_id t then map_option (swept_row m (d_now db)) (find_task i db) else find_task i db)"
  by (simp add: find_row_upd swept_row_def)

definition sweepable :: "'x lifecycle \<Rightarrow> 'x db \<Rightarrow> (task \<times> nat) list \<Rightarrow> bool" where
  "sweepable lc db rows \<longleftrightarrow> distinct (map (\<lambda>r. t_id (fst r)) rows) \<and>
     (\<forall>(t, n) \<in> set rows. find_task (t_id t) db = Some t \<and> Some (t_state t) = leasedState lc)"

lemma sweepable_step: "sweepable lc db ((t, n) # rows) \<Longrightarrow> sweepable lc (sweepOne m t db) rows"
  unfolding sweepable_def find_sweepOne by force

text \<open>The rows after the sweep, one by one.\<close>

lemma sweepRows_Inr:
  "sound_lifecycle lc \<Longrightarrow> wf lc db \<Longrightarrow> sweepable lc db rows \<Longrightarrow> sweepRows lc rows db = Inr (db', evs) \<Longrightarrow>
    wf lc db' \<and> d_now db' = d_now db \<and> d_deps db' = d_deps db \<and>
    (\<forall>i. i \<notin> (\<lambda>r. t_id (fst r)) ` set rows \<longrightarrow> find_task i db' = find_task i db) \<and>
    (\<forall>(t, n) \<in> set rows. \<exists>m. expiryMove lc n = Some m \<and> find_task (t_id t) db' = Some (swept_row m (d_now db) t))"
proof (induction lc rows db arbitrary: evs rule: sweepRows.induct)
  case (2 lc t n rows db)
  obtain m evs1 where m: "expiryMove lc n = Some m" and r: "sweepRows lc rows (sweepOne m t db) = Inr (db', evs1)"
    using "2.prems" by (auto split: option.splits)
  have t: "find_task (t_id t) db = Some t" "Some (t_state t) = leasedState lc" "t_id t \<notin> (\<lambda>r. t_id (fst r)) ` set rows"
    using "2.prems" by (auto simp: sweepable_def)
  have w: "wf lc (sweepOne m t db)" using sweepOne_wf[OF "2.prems"(1,2) t(1,2) m] .
  have ih: "wf lc db'" "d_now db' = d_now db" "d_deps db' = d_deps db"
    "\<And>i. i \<notin> (\<lambda>r. t_id (fst r)) ` set rows \<Longrightarrow> find_task i db' = find_task i (sweepOne m t db)"
    "\<forall>(u, k) \<in> set rows. \<exists>m. expiryMove lc k = Some m \<and> find_task (t_id u) db' = Some (swept_row m (d_now db) u)"
    using "2.IH"[OF m "2.prems"(1) w sweepable_step[OF "2.prems"(3)] r] by simp_all
  have "find_task (t_id t) db' = Some (swept_row m (d_now db) t)"
    using ih(4)[OF t(3)] t(1) by (simp only: find_sweepOne) simp
  moreover have "find_task i db' = find_task i db" if "i \<notin> (\<lambda>r. t_id (fst r)) ` set ((t, n) # rows)" for i
    using ih(4)[of i] that by (simp only: find_sweepOne) auto
  ultimately show ?case using ih(1-3,5) m by auto
qed simp

lemma sweepRows_total:
  "valid_lifecycle lc \<Longrightarrow> \<exists>db' evs. sweepRows lc rows db = Inr (db', evs) \<and> length evs = length rows"
proof (induction lc rows db rule: sweepRows.induct)
  case (2 lc t n rows db)
  obtain m where "expiryMove lc n = Some m" using expiryMove_total[OF "2.prems"] by blast
  with "2.IH"[OF _ "2.prems"] show ?case by fastforce
qed simp

lemma lapsed_iff:
  "t \<in> set (lapsed lc locked db) \<longleftrightarrow> t \<in> set (d_tasks db) \<and> Some (t_state t) = leasedState lc \<and>
     (\<exists>e. t_leaseExpiresAt t = Some e \<and> e < d_now db) \<and> t_id t \<notin> set locked"
  by (auto simp: lapsed_def given_def split: option.splits)

lemma lapsed_sweepable:
  assumes w: "wf lc db"
  shows "sweepable lc db (map (\<lambda>t. (t, f t)) (lapsed lc locked db))"
proof -
  have d: "distinct (map t_id (d_tasks db))" using wfD(1)[OF w] by (simp add: forest_ok_def)
  then have "distinct (map t_id (lapsed lc locked db))"
    by (simp add: lapsed_def distinct_map inj_on_def)
  then show ?thesis
    using find_row_unique[OF d] by (auto simp: sweepable_def lapsed_iff comp_def)
qed

lemma sweep_Inr:
  assumes s: "sound_lifecycle lc" and w: "wf lc db" and c: "sweep lc locked db = Inr (n, db', evs)"
  shows "wf lc db'" "d_now db' = d_now db" "d_deps db' = d_deps db" "n = length (lapsed lc locked db)"
    "\<And>i. i \<notin> t_id ` set (lapsed lc locked db) \<Longrightarrow> find_task i db' = find_task i db"
    "\<And>t. t \<in> set (lapsed lc locked db) \<Longrightarrow> \<exists>m.
       expiryMove lc (Suc (priorExpiries db (t_id t) (l_onLeaseExpiry lc))) = Some m \<and>
       find_task (t_id t) db' = Some (swept_row m (d_now db) t)"
proof -
  let ?rows = "map (\<lambda>t. (t, Suc (priorExpiries db (t_id t) (l_onLeaseExpiry lc)))) (lapsed lc locked db)"
  have r: "sweepRows lc ?rows db = Inr (db', evs)" and n: "n = length (lapsed lc locked db)"
    using c by (auto simp: sweep_def Let_def)
  note * = sweepRows_Inr[OF s w lapsed_sweepable[OF w] r]
  show "wf lc db'" "d_now db' = d_now db" "d_deps db' = d_deps db" "n = length (lapsed lc locked db)"
    "\<And>i. i \<notin> t_id ` set (lapsed lc locked db) \<Longrightarrow> find_task i db' = find_task i db"
    "\<And>t. t \<in> set (lapsed lc locked db) \<Longrightarrow> \<exists>m.
       expiryMove lc (Suc (priorExpiries db (t_id t) (l_onLeaseExpiry lc))) = Some m \<and>
       find_task (t_id t) db' = Some (swept_row m (d_now db) t)"
    using * n by (auto simp: image_image)
qed

lemma expireLeases_wf [inv_intros]:
  "sound_lifecycle lc \<Longrightarrow> wf lc db \<Longrightarrow> expireLeases lc locked db = Inr (n, db', evs) \<Longrightarrow> wf lc db'"
  unfolding expireLeases_def by (rule sweep_Inr(1))

subsection \<open>A claim\<close>

lemma nextReady_SomeD:
  assumes "nextReady lc locked f db = Some t"
  shows "t \<in> set (d_tasks db)" "filterWhere db f t" "readyWhere lc db t" "t_id t \<notin> set locked"
    "\<And>u. u \<in> set (d_tasks db) \<Longrightarrow> filterWhere db f u \<Longrightarrow> readyWhere lc db u \<Longrightarrow> t_id u \<notin> set locked \<Longrightarrow>
       CLAIM_ORDER t \<le> CLAIM_ORDER u"
proof -
  let ?xs = "filter (\<lambda>t. filterWhere db f t \<and> readyWhere lc db t \<and> t_id t \<notin> set locked) (d_tasks db)"
  obtain ts where ts: "sort_key CLAIM_ORDER ?xs = t # ts"
    using assms by (auto simp: nextReady_def split: list.splits)
  then have s: "set ?xs = insert t (set ts)" by (metis set_sort list.simps(15))
  then show "t \<in> set (d_tasks db)" "filterWhere db f t" "readyWhere lc db t" "t_id t \<notin> set locked" by auto
  have "sorted (map CLAIM_ORDER (t # ts))" using sorted_sort_key[of CLAIM_ORDER ?xs] by (simp only: ts)
  then have "\<forall>u \<in> insert t (set ts). CLAIM_ORDER t \<le> CLAIM_ORDER u" by simp
  then have "\<forall>u \<in> set ?xs. CLAIM_ORDER t \<le> CLAIM_ORDER u" unfolding s .
  then show "\<And>u. u \<in> set (d_tasks db) \<Longrightarrow> filterWhere db f u \<Longrightarrow> readyWhere lc db u \<Longrightarrow> t_id u \<notin> set locked \<Longrightarrow>
       CLAIM_ORDER t \<le> CLAIM_ORDER u" by auto
qed

lemma nextReady_None:
  "nextReady lc locked f db = None \<longleftrightarrow>
   (\<forall>u \<in> set (d_tasks db). filterWhere db f u \<longrightarrow> readyWhere lc db u \<longrightarrow> t_id u \<in> set locked)"
proof -
  define xs where "xs = filter (\<lambda>t. filterWhere db f t \<and> readyWhere lc db t \<and> t_id t \<notin> set locked) (d_tasks db)"
  have "nextReady lc locked f db = None \<longleftrightarrow> sort_key CLAIM_ORDER xs = []"
    by (simp add: nextReady_def xs_def split: list.split)
  also have "\<dots> \<longleftrightarrow> xs = []" using set_sort[of CLAIM_ORDER xs] by (metis set_empty)
  finally show ?thesis by (auto simp: xs_def filter_empty_conv)
qed

lemma leaseTask_Inr:
  assumes "leaseTask lc a opts uuid t db = Inr (c, db', e)"
  obtains m where "moveNamed lc (l_onClaim lc) = Some m"
    "c = \<lparr>cl_task = claimed_row m (d_now db) (co_leaseMs opts) uuid t, cl_attemptId = uuid, cl_expiresAt = d_now db + co_leaseMs opts\<rparr>"
    "uuid \<notin> a_id ` set (d_attempts db)"
    "db' = (upd_task (t_id t) (claimed_row m (d_now db) (co_leaseMs opts) uuid) db)\<lparr>d_attempts :=
       d_attempts db @ [new_attempt a (co_worker opts) (d_now db) uuid (t_id t)]\<rparr>"
  using assms
  by (auto simp: leaseTask_def Let_def insertAttempt_def new_attempt_def split: option.splits if_splits)

lemma leaseTask_wf:
  assumes v: "valid_lifecycle lc" and w: "wf lc db" and t: "t \<in> set (d_tasks db)"
    and st: "Some (t_state t) = claimableState lc" and c: "leaseTask lc a opts uuid t db = Inr (c, db', e)"
  shows "wf lc db'"
proof -
  obtain m where m: "moveNamed lc (l_onClaim lc) = Some m" and u: "uuid \<notin> a_id ` set (d_attempts db)"
      and db': "db' = (upd_task (t_id t) (claimed_row m (d_now db) (co_leaseMs opts) uuid) db)\<lparr>d_attempts :=
       d_attempts db @ [new_attempt a (co_worker opts) (d_now db) uuid (t_id t)]\<rparr>"
    using leaseTask_Inr[OF c] by metis
  let ?f = "claimed_row m (d_now db) (co_leaseMs opts) uuid"
  have d: "distinct (map t_id (d_tasks db))" using wfD(1)[OF w] by (simp add: forest_ok_def)
  have only: "s = t" if "s \<in> set (d_tasks db)" "t_id s = t_id t" for s
    using distinct_key_eq[OF d that(1) t] that(2) by simp
  have cl: "stateFlag sf_claimable lc (t_state t)" using claimableState_iff[OF v, of "t_state t"] st by simp
  then have free: "t_leaseAttemptId t = None" using wfD(3)[OF w] t claimable_flags(1)[OF v] by (auto simp: states_ok_def)
  obtain l where l: "leasedState lc = Some l" "m_to m = l" using claim_move[OF v] m by (metis option.inject)
  then have leased: "stateFlag sf_leased lc (m_to m)" using leasedState_iff[OF v, of l] by simp
  have nt: "\<not> isTerminal lc (m_to m)" using leased_not_terminal[OF v leased] .
  have k: "keeps_place ?f" by (simp add: keeps_place_def claimed_row_def)
  have "states_ok lc (upd_row t_id (t_id t) ?f (d_tasks db))"
    using leased stateFlag_isState[OF leased] by (intro states_upd[OF wfD(3)[OF w]]) (simp add: claimed_row_def)
  moreover have "closed_ok lc (upd_row t_id (t_id t) ?f (d_tasks db))"
    using claimable_flags(2)[OF v cl] nt only by (intro closed_upd[OF k wfD(4)[OF w]]) (auto simp: claimed_row_def)
  moreover have "waits_ok lc (upd_row t_id (t_id t) ?f (d_tasks db)) (set (d_deps db))"
    using claimable_flags(2)[OF v cl] nt only by (intro waits_upd[OF k wfD(5)[OF w]]) (auto simp: claimed_row_def)
  moreover have "attempts_ok (upd_row t_id (t_id t) ?f (d_tasks db))
      (d_attempts db @ [new_attempt a (co_worker opts) (d_now db) uuid (t_id t)])"
    using u free t by (intro attempts_lease[OF wfD(6)[OF w] d k t]) (auto simp: claimed_row_def new_attempt_def)
  moreover have "rows_ok (d_plans db) (upd_row t_id (t_id t) ?f (d_tasks db))"
    by (intro rows_upd[OF wfD(7)[OF w]]) (auto simp: claimed_row_def row_ok_def split: option.splits)
  ultimately show ?thesis
    using forest_upd[OF k wfD(1)[OF w]] deps_upd[OF k wfD(2)[OF w]] wfD(8)[OF w] by (simp add: wf_def db')
qed

lemma claim_next_Inr:
  assumes "claim_next lc a opts swept taken uuid db = Inr (r, db', evs)"
  obtains n db1 evs1 where "sweep lc swept db = Inr (n, db1, evs1)"
    "r = None \<Longrightarrow> nextReady lc taken (co_filter opts) db1 = None \<and> db' = db1"
    "\<And>c. r = Some c \<Longrightarrow> \<exists>t e. nextReady lc taken (co_filter opts) db1 = Some t \<and>
       leaseTask lc a opts uuid t db1 = Inr (c, db', e)"
proof -
  obtain n db1 evs1 where s: "sweep lc swept db = Inr (n, db1, evs1)"
      and c: "(case nextReady lc taken (co_filter opts) db1 of
       None \<Rightarrow> Inr (None, db1, evs1)
     | Some t \<Rightarrow> bindE (leaseTask lc a opts uuid t db1) (\<lambda>(c, db2, e). Inr (Some c, db2, evs1 @ [e])))
      = (Inr (r, db', evs) :: tg_error + _)"
    using assms by (auto simp: claim_next_def)
  from s c show ?thesis by (intro that[of n db1 evs1]) (auto split: option.splits)
qed

lemma claim_next_wf [inv_intros]:
  assumes s: "sound_lifecycle lc" and w: "wf lc db" and c: "claim_next lc a opts swept taken uuid db = Inr (r, db', evs)"
  shows "wf lc db'"
proof -
  obtain n db1 evs1 where sw: "sweep lc swept db = Inr (n, db1, evs1)"
      and none: "r = None \<Longrightarrow> nextReady lc taken (co_filter opts) db1 = None \<and> db' = db1"
      and some: "\<And>c. r = Some c \<Longrightarrow> \<exists>t e. nextReady lc taken (co_filter opts) db1 = Some t \<and>
       leaseTask lc a opts uuid t db1 = Inr (c, db', e)"
    using claim_next_Inr[OF c] by metis
  have w1: "wf lc db1" using sweep_Inr(1)[OF s w sw] .
  show ?thesis
  proof (cases r)
    case None
    then show ?thesis using none w1 by simp
  next
    case (Some x)
    then obtain t e where t: "nextReady lc taken (co_filter opts) db1 = Some t"
        and l: "leaseTask lc a opts uuid t db1 = Inr (x, db', e)" using some by blast
    show ?thesis
      using leaseTask_wf[OF sound_valid[OF s] w1 nextReady_SomeD(1)[OF t] _ l] nextReady_SomeD(3)[OF t]
      by (simp add: readyWhere_def)
  qed
qed

lemma heartbeat_wf [inv_intros]:
  assumes w: "wf lc db" and c: "heartbeat lc a i att ms db = Inr (r, db', evs)"
  shows "wf lc db'"
proof -
  let ?f = "\<lambda>r. r\<lparr>t_leaseExpiresAt := Some (d_now db + ms)\<rparr>"
  obtain t where t: "find_task i db = Some t" "t_leaseAttemptId t = Some att" and db': "db' = upd_task i ?f db"
    using c by (auto simp: heartbeat_def Let_def split: option.splits if_splits)
  have d: "distinct (map t_id (d_tasks db))" using wfD(1)[OF w] by (simp add: forest_ok_def)
  have only: "s = t" if "s \<in> set (d_tasks db)" "t_id s = i" for s
    using find_row_unique[OF d that(1)] that(2) t(1) by simp
  have k: "keeps_place ?f" by (simp add: keeps_place_def)
  have "states_ok lc (upd_row t_id i ?f (d_tasks db))"
    using t(2) only wfD(3)[OF w] by (intro states_upd) (auto simp: states_ok_def)
  moreover have "attempts_ok (upd_row t_id i ?f (d_tasks db)) (d_attempts db)"
    by (intro attempts_upd[OF wfD(6)[OF w] k]) (simp add: lease_list_def)
  moreover have "rows_ok (d_plans db) (upd_row t_id i ?f (d_tasks db))"
    by (intro rows_upd[OF wfD(7)[OF w]]) (auto simp: row_ok_def split: option.splits)
  moreover have "closed_ok lc (upd_row t_id i ?f (d_tasks db))" "waits_ok lc (upd_row t_id i ?f (d_tasks db)) (set (d_deps db))"
    using wfD(4,5)[OF w] by (auto simp: closed_ok_def waits_ok_def set_upd_row)
  ultimately show ?thesis
    using forest_upd[OF k wfD(1)[OF w]] deps_upd[OF k wfD(2)[OF w]] wfD(8)[OF w] by (simp add: wf_def db')
qed

lemma moveClaimed_wf [inv_intros]:
  "valid_lifecycle lc \<Longrightarrow> wf lc db \<Longrightarrow> moveClaimed lc a i att nm opts db = Inr (r, db', evs) \<Longrightarrow> wf lc db'"
  unfolding moveClaimed_def by (rule move_wf)

end
