(* ===== verification/Upgrade.thy ===== *)
theory Upgrade
  imports Claims
begin

text \<open>
  Lifecycle versions (src/src/taskgraph/upgrade.ts and the stored form of src/src/taskgraph/lifecycle.ts): how a lifecycle is
  registered, what activating a version would change (\<open>diff\<close>), and the activation, in one transaction.

  The table of registered lifecycles is a map from name and version to the stored form and its hash. A stored lifecycle is
  a lifecycle whose guards are names only. Two stored parts are compared in a normal form, in which neither the keys of an
  object nor the entries of a list have an order.
\<close>

subsection \<open>The stored form and registration (lifecycle.ts)\<close>

definition stored_guard :: "'x guard option \<Rightarrow> unit guard option" where
  "stored_guard g = (case Option.bind g g_name of None \<Rightarrow> None
     | Some nm \<Rightarrow> Some \<lparr>g_name = Some nm, g_fn = (\<lambda>_ _ _. None)\<rparr>)"

definition stored_move :: "'x move \<Rightarrow> unit move" where
  "stored_move m = \<lparr>m_name = m_name m, m_from = m_from m, m_to = m_to m, m_by = m_by m, m_guard = stored_guard (m_guard m),
     m_boost = m_boost m, m_clearsBoost = m_clearsBoost m\<rparr>"

definition serializeLifecycle :: "'x lifecycle \<Rightarrow> unit lifecycle" where
  "serializeLifecycle lc = \<lparr>l_name = l_name lc, l_version = l_version lc, l_states = l_states lc, l_createState = l_createState lc,
     l_byRole = l_byRole lc, l_moves = map stored_move (l_moves lc), l_permissions = l_permissions lc,
     l_onApprove = l_onApprove lc, l_onClaim = l_onClaim lc, l_onDiscard = l_onDiscard lc, l_onLeaseExpiry = l_onLeaseExpiry lc,
     l_onRepeatedExpiry = l_onRepeatedExpiry lc, l_migrate = l_migrate lc\<rparr>"

definition by_key :: "('k :: linorder \<times> 'v) list \<Rightarrow> ('k \<times> 'v) list" where
  "by_key xs = sort_key fst xs"

fun normal_allowed :: "allowed \<Rightarrow> allowed" where
  "normal_allowed AnyState = AnyState"
| "normal_allowed (InStates ss) = InStates (sort ss)"

definition normal_roles :: "(string \<times> allowed) list \<Rightarrow> (string \<times> allowed) list" where
  "normal_roles rs = by_key (map (\<lambda>(r, a). (r, normal_allowed a)) rs)"

definition normal_move :: "unit move \<Rightarrow> unit move" where
  "normal_move m = m\<lparr>m_from := sort (m_from m), m_by := sort (m_by m)\<rparr>"

text \<open>What the hash covers: the stored form, without the order of moves and of the states and roles they list.\<close>

definition normal_form :: "'x lifecycle \<Rightarrow> unit lifecycle" where
  "normal_form lc = (let s = serializeLifecycle lc in s\<lparr>
     l_states := by_key (l_states s), l_byRole := map_option by_key (l_byRole s), l_migrate := map_option by_key (l_migrate s),
     l_moves := sort_key m_name (map normal_move (l_moves s)),
     l_permissions := sort_key (\<lambda>(c, _). call_name c) (map (\<lambda>(c, rs). (c, normal_roles rs)) (l_permissions s))\<rparr>)"

type_synonym 'h lifecycle_table = "(string \<times> nat) \<Rightarrow> (unit lifecycle \<times> 'h) option"

text \<open>\<open>h\<close> is sha256 of the normal form's JSON.\<close>

definition registerLifecycle :: "(unit lifecycle \<Rightarrow> 'h) \<Rightarrow> 'h lifecycle_table \<Rightarrow> 'x lifecycle \<Rightarrow> tg_error + 'h lifecycle_table" where
  "registerLifecycle h tbl lc = bindE (defineLifecycle lc) (\<lambda>_.
     case tbl (l_name lc, l_version lc) of
       None \<Rightarrow> Inr (tbl((l_name lc, l_version lc) \<mapsto> (serializeLifecycle lc, h (normal_form lc))))
     | Some (_, stored) \<Rightarrow> if stored = h (normal_form lc) then Inr tbl
         else Inl (LifecycleInvalid (l_name lc @ ''@'' @ show_nat (l_version lc)) [\<lparr>v_rule = ''version-bumped'',
           v_message = ''version '' @ show_nat (l_version lc) @ '' is already registered with a different definition; bump the version''\<rparr>]))"

definition storedLifecycle :: "'h lifecycle_table \<Rightarrow> string \<Rightarrow> nat \<Rightarrow> tg_error + unit lifecycle" where
  "storedLifecycle tbl nm v = (case tbl (nm, v) of
       None \<Rightarrow> Inl (NotFound ''lifecycle'' (nm @ ''@'' @ show_nat v)) | Some (d, _) \<Rightarrow> Inr d)"

subsection \<open>The diff\<close>

record task_change =
  tc_id :: string
  tc_from :: string
  tc_to :: string

record held_lease =
  hl_taskId :: string
  hl_attemptId :: string
  hl_worker :: string
  hl_expiresAt :: "int option"
  hl_live :: bool

record lifecycle_diff =
  df_name :: string
  df_from :: nat
  df_to :: nat
  df_states :: "string list \<times> string list"
  df_moves :: "string list \<times> string list"
  df_roles :: "(string \<times> string list \<times> string list) list"
  df_guards :: "(string \<times> string option \<times> string option) list"
  df_tasks :: "task_change list"
  df_unmapped :: "(string \<times> string list) list"
  df_leases :: "held_lease list"
  df_flags :: "(string \<times> state_flags \<times> state_flags) list"
  df_changedMoves :: "string list"
  df_hooks :: "string list"
  df_permissions :: "string list"
  df_create :: bool
  df_broken :: "string list"

text \<open>What activation needs beside the diff: the move that ends a lease, every task change, the containers it settles.\<close>

record upgrade_plan = lifecycle_diff +
  up_expiry :: "unit move"
  up_changes :: "task_change list"
  up_settles :: "string list"

definition minus_sorted :: "string list \<Rightarrow> string list \<Rightarrow> string list" where
  "minus_sorted a b = sort (filter (\<lambda>x. x \<notin> set b) a)"

definition added_removed :: "string list \<Rightarrow> string list \<Rightarrow> string list \<times> string list" where
  "added_removed new old = (minus_sorted new old, minus_sorted old new)"

definition flags_of :: "unit lifecycle \<Rightarrow> string \<Rightarrow> state_flags" where
  "flags_of lc s = (case map_of (l_states lc) s of Some f \<Rightarrow> f
     | None \<Rightarrow> \<lparr>sf_claimable = False, sf_leased = False, sf_satisfiesDeps = False, sf_terminal = False\<rparr>)"

definition move_names :: "unit lifecycle \<Rightarrow> string list" where
  "move_names lc = map m_name (l_moves lc)"

definition kept_moves :: "unit lifecycle \<Rightarrow> unit lifecycle \<Rightarrow> string list" where
  "kept_moves old new = sort (filter (\<lambda>n. n \<in> set (move_names old)) (move_names new))"

definition move_pairs :: "unit lifecycle \<Rightarrow> unit lifecycle \<Rightarrow> (string \<times> unit move \<times> unit move) list" where
  "move_pairs old new = List.map_filter (\<lambda>n. case (moveNamed old n, moveNamed new n) of
     (Some a, Some b) \<Rightarrow> Some (n, a, b) | _ \<Rightarrow> None) (kept_moves old new)"

definition guard_name :: "unit move \<Rightarrow> string option" where
  "guard_name m = Option.bind (m_guard m) g_name"

definition move_shape :: "unit move \<Rightarrow> string list \<times> string \<times> bool \<times> bool" where
  "move_shape m = (sort (m_from m), m_to m, m_boost m, m_clearsBoost m)"

definition hook_values :: "unit lifecycle \<Rightarrow> (string \<times> (nat \<times> string)) list" where
  "hook_values lc = [(''onApprove'', 0, l_onApprove lc), (''onClaim'', 0, l_onClaim lc), (''onDiscard'', 0, l_onDiscard lc),
     (''onLeaseExpiry'', 0, l_onLeaseExpiry lc)] @ (case l_onRepeatedExpiry lc of None \<Rightarrow> [] | Some r \<Rightarrow> [(''onRepeatedExpiry'', r)])"

definition changed_keys :: "(string \<times> 'v) list \<Rightarrow> (string \<times> 'v) list \<Rightarrow> string list" where
  "changed_keys a b = filter (\<lambda>k. map_of a k \<noteq> map_of b k) (sort (remdups (map fst a @ map fst b)))"

definition permission_values :: "unit lifecycle \<Rightarrow> (string \<times> (string \<times> allowed) list) list" where
  "permission_values lc = map (\<lambda>(c, rs). (call_name c, normal_roles rs)) (l_permissions lc)"

subsection \<open>What becomes of the tasks\<close>

text \<open>Where a task stands once its lease has been ended as expiry would end it.\<close>

definition rests_at :: "unit move \<Rightarrow> task \<Rightarrow> string" where
  "rests_at expiry t = (if t_leaseAttemptId t \<noteq> None then m_to expiry else t_state t)"

text \<open>An empty target is no target: the code tests \<open>if (target)\<close>.\<close>

definition mapped :: "(string \<times> string) list \<Rightarrow> string \<Rightarrow> string option" where
  "mapped mp s = (case map_of mp s of Some x \<Rightarrow> if x = '''' then None else Some x | None \<Rightarrow> None)"

definition task_moved :: "unit lifecycle \<Rightarrow> (string \<times> string) list \<Rightarrow> unit move \<Rightarrow> task \<Rightarrow> task_change option" where
  "task_moved new mp expiry t = (let s = rests_at expiry t in
     if isState new s then None else map_option (\<lambda>x. \<lparr>tc_id = t_id t, tc_from = t_state t, tc_to = x\<rparr>) (mapped mp s))"

definition task_changed :: "unit lifecycle \<Rightarrow> (string \<times> string) list \<Rightarrow> unit move \<Rightarrow> task \<Rightarrow> task_change option" where
  "task_changed new mp expiry t = (let s = rests_at expiry t in
     if isState new s then (if s \<noteq> t_state t then Some \<lparr>tc_id = t_id t, tc_from = t_state t, tc_to = s\<rparr> else None)
     else task_moved new mp expiry t)"

definition task_stuck :: "unit lifecycle \<Rightarrow> (string \<times> string) list \<Rightarrow> unit move \<Rightarrow> task \<Rightarrow> bool" where
  "task_stuck new mp expiry t \<longleftrightarrow> \<not> isState new (rests_at expiry t) \<and> mapped mp (rests_at expiry t) = None"

text \<open>The states left over, in the order the tasks come, each with its tasks.\<close>

definition unmapped_states :: "unit lifecycle \<Rightarrow> (string \<times> string) list \<Rightarrow> unit move \<Rightarrow> task list \<Rightarrow> (string \<times> string list) list" where
  "unmapped_states new mp expiry ts = (let stuck = filter (task_stuck new mp expiry) ts in
     map (\<lambda>s. (s, map t_id (filter (\<lambda>t. rests_at expiry t = s) stuck))) (rev (remdups (rev (map (rests_at expiry) stuck)))))"

definition state_after :: "task_change list \<Rightarrow> task list \<Rightarrow> string \<Rightarrow> string" where
  "state_after cs ts i = (case find (\<lambda>c. tc_id c = i) cs of Some c \<Rightarrow> tc_to c
     | None \<Rightarrow> (case find_row t_id i ts of Some t \<Rightarrow> t_state t | None \<Rightarrow> ''''))"

definition broken_task :: "unit lifecycle \<Rightarrow> (string \<Rightarrow> string) \<Rightarrow> task \<Rightarrow> string list" where
  "broken_task new after t = (let s = after (t_id t) in
     (if stateFlag sf_leased new s then [''task '' @ t_id t @ '' would be '' @ s @ '', the leased state, without a lease''] else []) @
     (case t_parentId t of None \<Rightarrow> [] | Some p \<Rightarrow>
        if p \<noteq> '''' \<and> isTerminal new (after p) \<and> \<not> isTerminal new s
        then [''task '' @ p @ '' would be '' @ after p @ '' with a live child, '' @ t_id t] else []))"

definition broken_dep :: "unit lifecycle \<Rightarrow> (string \<Rightarrow> string) \<Rightarrow> dep \<Rightarrow> string list" where
  "broken_dep new after d = (let target = after (snd d) in
     if \<not> isTerminal new (after (fst d)) \<and> isTerminal new target \<and> \<not> isSatisfying new target
     then [''task '' @ fst d @ '' waits on '' @ snd d @ '', which would be '' @ target] else [])"

definition settles_now :: "unit lifecycle \<Rightarrow> unit lifecycle \<Rightarrow> (string \<Rightarrow> string) \<Rightarrow> task list \<Rightarrow> task \<Rightarrow> bool" where
  "settles_now old new after ts t \<longleftrightarrow> (let kids = filter (\<lambda>k. t_parentId k = Some (t_id t)) ts in
     t_kind t = Container \<and> kids \<noteq> [] \<and> list_all (\<lambda>k. isTerminal new (after (t_id k))) kids \<and>
     \<not> list_all (\<lambda>k. isTerminal old (t_state k)) kids)"

definition held_leases :: "'x db \<Rightarrow> task list \<Rightarrow> held_lease list" where
  "held_leases db ts = List.map_filter (\<lambda>t. case t_leaseAttemptId t of None \<Rightarrow> None
     | Some x \<Rightarrow> Some \<lparr>hl_taskId = t_id t, hl_attemptId = x,
         hl_worker = (case find_row a_id x (d_attempts db) of Some a \<Rightarrow> a_worker a | None \<Rightarrow> ''''),
         hl_expiresAt = t_leaseExpiresAt t, hl_live = (case t_leaseExpiresAt t of Some e \<Rightarrow> d_now db < e | None \<Rightarrow> False)\<rparr>) ts"

text \<open>Everything activation would do, from the stored versions and the rows.\<close>

definition plan_between :: "unit lifecycle \<Rightarrow> unit lifecycle \<Rightarrow> unit move \<Rightarrow> nat \<Rightarrow> 'x db \<Rightarrow> upgrade_plan" where
  "plan_between old new expiry version db = (
     let ts = sort_key t_id (d_tasks db); current = d_lifecycleVersion db;
       mp = (if current < version then (case l_migrate new of Some m \<Rightarrow> m | None \<Rightarrow> []) else []);
       changes = List.map_filter (task_changed new mp expiry) ts;
       unmapped = unmapped_states new mp expiry ts;
       after = state_after changes ts;
       known = (unmapped = []);
       oldStates = map fst (l_states old); newStates = map fst (l_states new);
       pairs = move_pairs old new in
     \<lparr>df_name = d_lifecycleName db, df_from = current, df_to = version,
       df_states = added_removed newStates oldStates, df_moves = added_removed (move_names new) (move_names old),
       df_roles = List.map_filter (\<lambda>(n, a, b). let ar = added_removed (m_by b) (m_by a) in
         if fst ar \<noteq> [] \<or> snd ar \<noteq> [] then Some (n, ar) else None) pairs,
       df_guards = List.map_filter (\<lambda>(n, a, b). if guard_name a \<noteq> guard_name b then Some (n, guard_name a, guard_name b) else None) pairs,
       df_tasks = List.map_filter (task_moved new mp expiry) ts, df_unmapped = unmapped, df_leases = held_leases db ts,
       df_flags = map (\<lambda>s. (s, flags_of old s, flags_of new s)) (filter (\<lambda>s. flags_of old s \<noteq> flags_of new s)
         (sort (filter (\<lambda>s. s \<in> set oldStates) newStates))),
       df_changedMoves = map fst (filter (\<lambda>(n, a, b). move_shape a \<noteq> move_shape b) pairs),
       df_hooks = changed_keys (hook_values old) (hook_values new),
       df_permissions = changed_keys (permission_values old) (permission_values new),
       df_create = (l_createState old \<noteq> l_createState new \<or> map_option by_key (l_byRole old) \<noteq> map_option by_key (l_byRole new)),
       df_broken = (if known then concat (map (broken_task new after) ts) @ concat (map (broken_dep new after) (sort (d_deps db))) else []),
       up_expiry = expiry, up_changes = changes,
       up_settles = (if known then map t_id (filter (settles_now old new after ts) ts) else [])\<rparr>)"

definition plan_upgrade :: "'h lifecycle_table \<Rightarrow> nat \<Rightarrow> 'x db \<Rightarrow> tg_error + upgrade_plan" where
  "plan_upgrade tbl version db =
     bindE (storedLifecycle tbl (d_lifecycleName db) (d_lifecycleVersion db)) (\<lambda>old.
     bindE (storedLifecycle tbl (d_lifecycleName db) version) (\<lambda>new.
     case moveNamed old (l_onLeaseExpiry old) of None \<Rightarrow> Inl (TypeErr ''undefined move'')
     | Some expiry \<Rightarrow> Inr (plan_between old new expiry version db)))"

definition diff :: "'h lifecycle_table \<Rightarrow> nat \<Rightarrow> 'x db \<Rightarrow> tg_error + lifecycle_diff" where
  "diff tbl version db = bindE (plan_upgrade tbl version db) (\<lambda>p. Inr (lifecycle_diff.truncate p))"

subsection \<open>Activation\<close>

definition activated_row :: "'x lifecycle \<Rightarrow> unit move \<Rightarrow> int \<Rightarrow> task_change \<Rightarrow> task \<Rightarrow> task" where
  "activated_row lc expiry now c t = t\<lparr>t_state := tc_to c, t_leaseAttemptId := None, t_leaseExpiresAt := None,
     t_boosted := (if t_leaseAttemptId t = None then t_boosted t else boostAfter expiry (t_boosted t)),
     t_closedAt := (if isTerminal lc (tc_to c) then Some (orElse (t_closedAt t) now) else None), t_updatedAt := now\<rparr>"

definition upgraded_event :: "actor \<Rightarrow> held_lease list \<Rightarrow> task_change \<Rightarrow> new_event" where
  "upgraded_event a ls c = (ev a ''lifecycle.upgraded'')\<lparr>n_taskId := Some (tc_id c),
     n_attemptId := map_option hl_attemptId (find (\<lambda>l. hl_taskId l = tc_id c) ls),
     n_fromState := Some (tc_from c), n_toState := Some (tc_to c)\<rparr>"

definition activated_event :: "'x lifecycle \<Rightarrow> actor \<Rightarrow> upgrade_plan \<Rightarrow> bool \<Rightarrow> string option \<Rightarrow> new_event" where
  "activated_event lc a p force req = (ev a ''lifecycle.upgraded'')\<lparr>n_payload := JObj [(''name'', JStr (l_name lc)),
     (''from'', JNum (int (df_from p))), (''to'', JNum (int (df_to p))), (''force'', JBool force),
     (''moved'', JNum (int (length (up_changes p)))),
     (''leasesEnded'', JArr (map (\<lambda>l. JObj [(''taskId'', JStr (hl_taskId l)), (''worker'', JStr (hl_worker l))]) (df_leases p)))],
     n_requestId := req\<rparr>"

definition upgrade_refusals :: "'x lifecycle \<Rightarrow> string \<Rightarrow> nat \<Rightarrow> bool \<Rightarrow> upgrade_plan \<Rightarrow> tg_error + unit" where
  "upgrade_refusals lc pid version force p = (let live = filter hl_live (df_leases p); at = l_name lc @ ''@'' @ show_nat version in
     bindE (guardE (df_from p \<noteq> version) (InvalidRequest (''project '' @ pid @ '' is already on '' @ at))) (\<lambda>_.
     bindE (guardE (live = [] \<or> force) (InvalidRequest (''live leases on '' @
       joined '', '' (map (\<lambda>l. hl_taskId l @ '' (worker '' @ hl_worker l @ '')'') live) @ ''; wait for them, or force''))) (\<lambda>_.
     bindE (guardE (df_unmapped p = []) (InvalidRequest (at @ '' has no state '' @
       joined '', '' (map (\<lambda>(s, is). s @ '' (tasks '' @ joined '', '' is @ '')'') (df_unmapped p)) @ '', and no migrate entry for it''))) (\<lambda>_.
     guardE (df_broken p = []) (InvalidRequest (''activating '' @ show_nat version @ '' would break the graph: '' @ joined ''; '' (df_broken p)))))))"

text \<open>The writes: the project's version, the ended attempts, then the changed tasks.\<close>

definition end_leases :: "string \<Rightarrow> held_lease list \<Rightarrow> 'x db \<Rightarrow> 'x db" where
  "end_leases outcome ls db = fold (\<lambda>l. endAttempt (hl_attemptId l) outcome) ls db"

definition change_tasks :: "'x lifecycle \<Rightarrow> unit move \<Rightarrow> task_change list \<Rightarrow> 'x db \<Rightarrow> 'x db" where
  "change_tasks lc expiry cs db = fold (\<lambda>c. upd_task (tc_id c) (activated_row lc expiry (d_now db) c)) cs db"

text \<open>The version fence reads the version the project row now holds; the task trigger, that version's states.\<close>

definition activate :: "'x lifecycle \<Rightarrow> 'h lifecycle_table \<Rightarrow> actor \<Rightarrow> nat \<Rightarrow> bool \<Rightarrow> string option \<Rightarrow> (unit, 'x) body" where
  "activate lc tbl a version force req db =
     bindE (guardE (version = l_version lc) (InvalidRequest (''this process runs '' @ l_name lc @ ''@'' @ show_nat (l_version lc) @
       ''; activate '' @ show_nat version @ '' from a process that runs it''))) (\<lambda>_.
     bindE (checkPermission lc LifecyclesActivate (ac_role a) None) (\<lambda>_.
     bindE (plan_upgrade tbl version db) (\<lambda>p.
     bindE (upgrade_refusals lc (d_projectId db) version force p) (\<lambda>_.
     let db1 = db\<lparr>d_lifecycleVersion := version\<rparr> in
     bindE (checkWriter lc db1) (\<lambda>_.
     bindE (storedLifecycle tbl (d_lifecycleName db) version) (\<lambda>new.
     bindE (guardE (list_all (\<lambda>c. isState new (tc_to c)) (up_changes p)) (DbError ''TG002'' ''not a state of the lifecycle'')) (\<lambda>_.
     Inr ((), change_tasks lc (up_expiry p) (up_changes p) (end_leases (m_name (up_expiry p)) (df_leases p) db1),
       map (upgraded_event a (df_leases p)) (up_changes p) @ map (settled_event a) (up_settles p) @ [activated_event lc a p force req]))))))))"

end
