(* ===== verification/Validators.thy ===== *)
theory Validators
  imports Claims
begin

text \<open>
  The validators of a plan (src/taskgraph/validators.ts): the four built-ins, then the caller's own, whose
  verdicts are functions of the snapshot, their config and the rows they read. A validator that throws is
  an error finding, unless the transaction itself failed.

  The depth-first search of \<open>findCycle\<close> keeps the open nodes in \<open>path\<close> and the finished ones in
  \<open>finished\<close>; the depth is bounded by \<open>fuel\<close>, and \<open>findCycle_iff\<close> shows the bound
  \<open>findCycle\<close> uses is enough: it returns nothing exactly on an acyclic plan, and a path it returns
  is a cycle.
\<close>

subsection \<open>One dependency cycle\<close>

definition outs :: "dep list \<Rightarrow> string \<Rightarrow> string list" where
  "outs ds n = map snd (filter (\<lambda>d. fst d = n) ds)"

fun visit :: "dep list \<Rightarrow> nat \<Rightarrow> string list \<Rightarrow> string list \<Rightarrow> string list \<Rightarrow> string list + string list" where
  "visit ds fuel [] path finished = Inr finished"
| "visit ds fuel (m # ms) path finished =
     (if m \<in> set path then Inl (dropWhile (\<lambda>x. x \<noteq> m) path @ [m])
      else if m \<in> set finished then visit ds fuel ms path finished
      else case fuel of
          0 \<Rightarrow> Inr finished
        | Suc k \<Rightarrow> bindE (visit ds k (outs ds m) (path @ [m]) finished) (\<lambda>dn. visit ds fuel ms path (m # dn)))"

definition findCycle :: "dep list \<Rightarrow> string list option" where
  "findCycle ds = (case visit ds (2 * length ds) (sort (remdups (map fst ds))) [] [] of
     Inl cycle \<Rightarrow> Some cycle | Inr _ \<Rightarrow> None)"

text \<open>A list of nodes along the edges.\<close>

fun walk :: "dep set \<Rightarrow> string list \<Rightarrow> bool" where
  "walk R (x # y # xs) \<longleftrightarrow> (x, y) \<in> R \<and> walk R (y # xs)"
| "walk R xs \<longleftrightarrow> True"

lemma walk_snoc: "walk R (xs @ [x]) \<Longrightarrow> (x, y) \<in> R \<Longrightarrow> walk R (xs @ [x, y])"
  by (induction R xs rule: walk.induct) auto

lemma walk_drop: "walk R (xs @ ys) \<Longrightarrow> walk R ys"
  by (induction xs) (auto elim: walk.elims)

lemma walk_trancl: "walk R (x # xs) \<Longrightarrow> xs \<noteq> [] \<Longrightarrow> (x, last xs) \<in> R\<^sup>+"
proof (induction xs arbitrary: x)
  case (Cons y ys)
  then show ?case by (cases "ys = []") (auto intro: trancl_into_trancl2)
qed simp

definition is_cycle :: "dep set \<Rightarrow> string list \<Rightarrow> bool" where
  "is_cycle R c \<longleftrightarrow> length c \<ge> 2 \<and> hd c = last c \<and> walk R c"

lemma outs_iff: "y \<in> set (outs ds x) \<longleftrightarrow> (x, y) \<in> set ds"
  by (force simp: outs_def)

lemma visit_sound:
  "visit ds fuel ms path finished = Inl c \<Longrightarrow> walk (set ds) path \<Longrightarrow>
   (path \<noteq> [] \<Longrightarrow> \<forall>m \<in> set ms. (last path, m) \<in> set ds) \<Longrightarrow> is_cycle (set ds) c"
proof (induction ds fuel ms path finished rule: visit.induct)
  case (2 ds fuel m ms path finished)
  show ?case
  proof (cases "m \<in> set path")
    case True
    then obtain xs ys where p: "path = xs @ m # ys" and x: "m \<notin> set xs" by (meson split_list_first)
    have "dropWhile (\<lambda>x. x \<noteq> m) xs = []" using x by auto
    then have c: "c = m # ys @ [m]" using p "2.prems"(1) by (simp add: dropWhile_append3)
    have "walk (set ds) (m # ys)" using "2.prems"(2) walk_drop p by blast
    moreover have "(last (m # ys), m) \<in> set ds" using "2.prems"(3) p by auto
    ultimately have "walk (set ds) (m # ys @ [m])"
      using walk_snoc[of "set ds" "butlast (m # ys)" "last (m # ys)" m] by (metis append_butlast_last_id append.assoc append_Cons append_Nil list.distinct(1))
    then show ?thesis by (simp add: is_cycle_def c)
  next
    case np: False
    show ?thesis
    proof (cases "m \<in> set finished")
      case True
      then show ?thesis using np "2.IH"(1) "2.prems" by simp
    next
      case False
      then obtain k where k: "fuel = Suc k" using np "2.prems"(1) by (cases fuel) auto
      show ?thesis
      proof (cases "visit ds k (outs ds m) (path @ [m]) finished")
        case (Inl c')
        have "walk (set ds) (path @ [m])"
          using "2.prems"(2,3) walk_snoc[of "set ds" "butlast path" "last path" m]
          by (cases "path" rule: rev_cases) auto
        moreover have "c' = c" using Inl "2.prems"(1) np False k by simp
        ultimately show ?thesis
          using Inl "2.IH"(2)[OF np False k] by (simp add: outs_iff)
      next
        case (Inr dn)
        then show ?thesis using "2.IH"(3)[OF np False k] "2.prems" np False k by simp
      qed
    qed
  qed
qed simp

text \<open>The finished nodes are closed under the edges and have no cycle among them.\<close>

definition settled :: "dep set \<Rightarrow> string set \<Rightarrow> bool" where
  "settled R F \<longleftrightarrow> R `` F \<subseteq> F \<and> acyclic {(x, y) \<in> R. x \<in> F}"

lemma settled_stays:
  assumes "(x, y) \<in> {(x, y) \<in> R. x \<in> insert m F}\<^sup>+" "x \<in> F" "settled R F"
  shows "y \<in> F \<and> (x, y) \<in> {(x, y) \<in> R. x \<in> F}\<^sup>+"
  using assms(1)
proof (induction rule: trancl_induct)
  case (base y)
  then show ?case using assms(2,3) by (auto simp: settled_def)
next
  case (step y z)
  then have "(y, z) \<in> {(x, y) \<in> R. x \<in> F}" "z \<in> F" using assms(3) by (auto simp: settled_def)
  then show ?case using step by (blast intro: trancl_into_trancl)
qed

lemma settled_insert:
  assumes s: "settled R F" and m: "m \<notin> F" "R `` {m} \<subseteq> F"
  shows "settled R (insert m F)"
proof -
  have "(x, x) \<notin> {(x, y) \<in> R. x \<in> insert m F}\<^sup>+" for x
  proof
    assume c: "(x, x) \<in> {(x, y) \<in> R. x \<in> insert m F}\<^sup>+"
    show False
    proof (cases "x \<in> F")
      case True
      then show False using settled_stays[OF c True s] s by (auto simp: settled_def acyclic_def)
    next
      case False
      obtain y where y: "(x, y) \<in> {(x, y) \<in> R. x \<in> insert m F}" "(y, x) \<in> {(x, y) \<in> R. x \<in> insert m F}\<^sup>*"
        using tranclD[OF c] by blast
      then have "x = m" "y \<in> F" using False m by auto
      then have "(y, x) \<in> {(x, y) \<in> R. x \<in> insert m F}\<^sup>+" using y False by (auto simp: rtrancl_eq_or_trancl)
      then show False using settled_stays[OF _ \<open>y \<in> F\<close> s] False by blast
    qed
  qed
  then show ?thesis using s m by (auto simp: settled_def acyclic_def)
qed

lemma visit_complete:
  assumes V: "finite V" "snd ` set ds \<subseteq> V"
  shows "visit ds fuel ms path finished = Inr done' \<Longrightarrow> card (V - set path - set finished) \<le> fuel \<Longrightarrow>
    set ms \<subseteq> V \<Longrightarrow> settled (set ds) (set finished) \<Longrightarrow> set finished \<inter> set path = {} \<Longrightarrow>
    set finished \<subseteq> set done' \<and> set ms \<subseteq> set done' \<and> settled (set ds) (set done') \<and> set done' \<inter> set path = {}"
  using V
proof (induction ds fuel ms path finished arbitrary: done' rule: visit.induct)
  case (2 ds fuel m ms path finished)
  have mp: "m \<notin> set path" using "2.prems"(1) by (auto split: if_splits)
  show ?case
  proof (cases "m \<in> set finished")
    case True
    have "set finished \<subseteq> set done' \<and> set ms \<subseteq> set done' \<and> settled (set ds) (set done') \<and> set done' \<inter> set path = {}"
      by (rule "2.IH"(1)[OF mp True]) (use "2.prems" mp True in auto)
    then show ?thesis using True by auto
  next
    case False
    have "m \<in> V - set path - set finished" using "2.prems"(3) mp False by auto
    then have "0 < card (V - set path - set finished)" using "2.prems"(6) by (auto simp: card_gt_0_iff)
    then obtain k where k: "fuel = Suc k" using "2.prems"(2) by (cases fuel) auto
    obtain d where d: "visit ds k (outs ds m) (path @ [m]) finished = Inr d" and r: "visit ds fuel ms path (m # d) = Inr done'"
      using "2.prems"(1) mp False k by auto
    have "V - set (path @ [m]) - set finished = (V - set path - set finished) - {m}" by auto
    then have c1: "card (V - set (path @ [m]) - set finished) \<le> k"
      using \<open>m \<in> V - set path - set finished\<close> "2.prems"(2,6) k by simp
    have o: "set (outs ds m) \<subseteq> V" using "2.prems"(7) by (force simp: outs_iff)
    have 1: "set finished \<subseteq> set d \<and> set (outs ds m) \<subseteq> set d \<and> settled (set ds) (set d) \<and> set d \<inter> set (path @ [m]) = {}"
      by (rule "2.IH"(2)[OF mp False k d c1 o]) (use "2.prems" False in auto)
    have "set ds `` {m} \<subseteq> set d" using 1 by (auto simp flip: outs_iff)
    then have s: "settled (set ds) (set (m # d))"
      using settled_insert[of "set ds" "set d" m] 1 by (auto simp: outs_iff Image_singleton)
    have c2: "card (V - set path - set (m # d)) \<le> fuel"
      using "2.prems"(2,6) 1 by (intro order_trans[OF card_mono "2.prems"(2)]) auto
    have 2: "set (m # d) \<subseteq> set done' \<and> set ms \<subseteq> set done' \<and> settled (set ds) (set done') \<and> set done' \<inter> set path = {}"
      by (rule "2.IH"(3)[OF mp False k r c2]) (use "2.prems" s 1 mp in auto)
    then show ?thesis using 1 by auto
  qed
qed simp

lemma is_cycle_trancl: "is_cycle R c \<Longrightarrow> \<not> acyclic R"
proof -
  assume c: "is_cycle R c"
  then obtain x y xs where xs: "c = x # y # xs" by (cases c; cases "tl c") (auto simp: is_cycle_def)
  then have "x = last (y # xs)" "walk R (x # y # xs)" using c by (auto simp: is_cycle_def)
  then have "(x, x) \<in> R\<^sup>+" using walk_trancl[of R x "y # xs"] by simp
  then show ?thesis by (auto simp: acyclic_def)
qed

text \<open>From every node that has an edge out, in whatever order.\<close>

lemma visit_roots:
  assumes rs: "set rs = fst ` set ds"
  shows "(\<exists>d. visit ds (2 * length ds) rs [] [] = Inr d) \<longleftrightarrow> acyclic (set ds)"
    and "visit ds (2 * length ds) rs [] [] = Inl c \<Longrightarrow> is_cycle (set ds) c"
proof -
  show sound: "visit ds (2 * length ds) rs [] [] = Inl c \<Longrightarrow> is_cycle (set ds) c" for c
    using visit_sound[of ds "2 * length ds" rs "[]" "[]" c] by simp
  let ?V = "fst ` set ds \<union> snd ` set ds"
  have "card ?V \<le> card (fst ` set ds) + card (snd ` set ds)" by (rule card_Un_le)
  also have "\<dots> \<le> 2 * length ds"
    using card_image_le[of "set ds" fst] card_image_le[of "set ds" snd] card_length[of ds] by simp
  finally have c: "card (?V - set [] - set []) \<le> 2 * length ds" by simp
  have complete: "acyclic (set ds)" if d: "visit ds (2 * length ds) rs [] [] = Inr d" for d
  proof -
    have "set rs \<subseteq> set d \<and> settled (set ds) (set d)"
      using visit_complete[OF _ _ d c] rs by (auto simp: settled_def acyclic_def)
    then have "{(x, y) \<in> set ds. x \<in> set d} = set ds" "acyclic {(x, y) \<in> set ds. x \<in> set d}"
      using rs by (force simp: settled_def)+
    then show ?thesis by simp
  qed
  show "(\<exists>d. visit ds (2 * length ds) rs [] [] = Inr d) \<longleftrightarrow> acyclic (set ds)"
    using complete sound is_cycle_trancl by (cases "visit ds (2 * length ds) rs [] []") auto
qed

lemma findCycle_SomeD: "findCycle ds = Some c \<Longrightarrow> is_cycle (set ds) c"
  using visit_roots(2)[of "sort (remdups (map fst ds))" ds c] by (simp add: findCycle_def split: sum.splits)

lemma findCycle_exact: "findCycle ds = None \<longleftrightarrow> acyclic (set ds)"
  using visit_roots(1)[of "sort (remdups (map fst ds))" ds] by (auto simp: findCycle_def split: sum.splits)

subsection \<open>Snapshots and findings\<close>

record snapshot =
  sn_plan :: "plan option"
  sn_tasks :: "task list"
  sn_deps :: "dep list"
  sn_links :: "link list"

definition error_finding :: "string \<Rightarrow> string \<Rightarrow> string option \<Rightarrow> finding" where
  "error_finding v msg i = \<lparr>f_validator = v, f_severity = ErrorSev,
     f_taskId = (case i of Some x \<Rightarrow> if x = '''' then None else Some x | None \<Rightarrow> None), f_message = msg\<rparr>"

definition has_error :: "finding list \<Rightarrow> bool" where
  "has_error fs \<longleftrightarrow> list_ex (\<lambda>f. f_severity f = ErrorSev) fs"

subsection \<open>The built-ins\<close>

definition noCycles :: "snapshot \<Rightarrow> finding list" where
  "noCycles s = (case findCycle (sn_deps s) of
       None \<Rightarrow> []
     | Some cycle \<Rightarrow> [error_finding ''engine.no-cycles'' (''dependencies form a cycle: '' @ joined '' -> '' cycle)
         (find (\<lambda>i. i \<in> set (map t_id (sn_tasks s))) cycle)])"

text \<open>The references of a snapshot: the id, where it is named, and how.\<close>

definition refs :: "snapshot \<Rightarrow> (string \<times> string \<times> string) list" where
  "refs s =
     concat (map (\<lambda>(x, y). [(y, x, ''depends on''), (x, y, ''is waited on by'')]) (sn_deps s)) @
     concat (map (\<lambda>(a, b, k). [(b, a, ''links ('' @ k @ '') to''), (a, b, ''is linked ('' @ k @ '') from'')]) (sn_links s)) @
     List.map_filter (\<lambda>t. case t_parentId t of Some p \<Rightarrow> if p = '''' then None else Some (p, t_id t, ''sits under'') | None \<Rightarrow> None)
       (sn_tasks s)"

text \<open>\<open>ctx.exists\<close> and \<open>ctx.withChildren\<close>, what the built-ins read from the project.\<close>

definition ctx_exists :: "'x db \<Rightarrow> string \<Rightarrow> bool" where
  "ctx_exists db i \<longleftrightarrow> i \<in> set (map t_id (d_tasks db))"

definition ctx_withChildren :: "'x db \<Rightarrow> string \<Rightarrow> bool" where
  "ctx_withChildren db i \<longleftrightarrow> list_ex (\<lambda>t. t_parentId t = Some i) (d_tasks db)"

definition noMissingRefs :: "'x db \<Rightarrow> snapshot \<Rightarrow> finding list" where
  "noMissingRefs db s =
     (let inPlan = map t_id (sn_tasks s);
          outside = filter (\<lambda>(i, _, _). i \<notin> set inPlan) (refs s)
      in map (\<lambda>(i, from, how). error_finding ''engine.no-missing-refs''
           (''task '' @ from @ '' '' @ how @ '' '' @ i @ '', which doesn't exist'')
           (if from \<in> set inPlan then Some from else None))
         (filter (\<lambda>(i, _, _). \<not> ctx_exists db i) outside))"

definition containersHaveChildren :: "'x db \<Rightarrow> snapshot \<Rightarrow> finding list" where
  "containersHaveChildren db s =
     (let parents = List.map_filter t_parentId (sn_tasks s);
          lacking = map t_id (filter (\<lambda>t. t_kind t = Container \<and> t_id t \<notin> set parents) (sn_tasks s))
      in map (\<lambda>i. error_finding ''engine.containers-have-children'' (''container '' @ i @ '' has no children'') (Some i))
         (filter (\<lambda>i. \<not> ctx_withChildren db i) lacking))"

definition preApproval :: "'x lifecycle \<Rightarrow> snapshot \<Rightarrow> finding list" where
  "preApproval lc s = map (\<lambda>t. error_finding ''engine.pre-approval''
       (''task '' @ t_id t @ '' is '' @ t_state t @ '', not '' @ l_createState lc @ '': it has already left planning'') (Some (t_id t)))
     (filter (\<lambda>t. t_state t \<noteq> l_createState lc) (sn_tasks s))"

subsection \<open>Running them\<close>

datatype scope = PlanScope | TaskScope

text \<open>What a validator does: its findings, or the error it throws, as a code and a message.\<close>

record 'x validator =
  vl_name :: string
  vl_scope :: scope
  vl_validate :: "snapshot \<Rightarrow> json \<Rightarrow> 'x db \<Rightarrow> (string \<times> string) + finding list"

definition BUILTIN_VALIDATORS :: "'x lifecycle \<Rightarrow> 'x validator list" where
  "BUILTIN_VALIDATORS lc = [
     \<lparr>vl_name = ''engine.no-cycles'', vl_scope = PlanScope, vl_validate = (\<lambda>s cfg db. Inr (noCycles s))\<rparr>,
     \<lparr>vl_name = ''engine.no-missing-refs'', vl_scope = PlanScope, vl_validate = (\<lambda>s cfg db. Inr (noMissingRefs db s))\<rparr>,
     \<lparr>vl_name = ''engine.containers-have-children'', vl_scope = PlanScope,
        vl_validate = (\<lambda>s cfg db. Inr (containersHaveChildren db s))\<rparr>,
     \<lparr>vl_name = ''engine.pre-approval'', vl_scope = TaskScope, vl_validate = (\<lambda>s cfg db. Inr (preApproval lc s))\<rparr>]"

definition mustPropagate :: "string \<Rightarrow> bool" where
  "mustPropagate code \<longleftrightarrow> code = ''40001'' \<or> code = ''40P01'' \<or> take 2 code = ''08'' \<or> take 3 code = ''57P''
     \<or> take 7 code = ''CONNECT''"

fun runEach :: "snapshot \<Rightarrow> (string \<Rightarrow> json) \<Rightarrow> 'x db \<Rightarrow> 'x validator list \<Rightarrow> tg_error + finding list" where
  "runEach s cfg db [] = Inr []"
| "runEach s cfg db (v # vs) = (case vl_validate v s (cfg (vl_name v)) db of
       Inl (code, msg) \<Rightarrow>
         if mustPropagate code then Inl (DbError code msg)
         else bindE (runEach s cfg db vs) (\<lambda>rest.
           Inr (error_finding (vl_name v) (''validator '' @ vl_name v @ '' failed: '' @ msg) None # rest))
     | Inr fs \<Rightarrow> bindE (runEach s cfg db vs) (\<lambda>rest. Inr (fs @ rest)))"

definition runValidators ::
  "'x lifecycle \<Rightarrow> 'x validator list \<Rightarrow> (string \<Rightarrow> json) \<Rightarrow> scope option \<Rightarrow> snapshot \<Rightarrow> 'x db \<Rightarrow> tg_error + finding list" where
  "runValidators lc custom cfg only s db =
     runEach s cfg db (filter (\<lambda>v. only = None \<or> Some (vl_scope v) = only) (BUILTIN_VALIDATORS lc @ custom))"

subsection \<open>What passing means\<close>

lemma runEach_append:
  "runEach s cfg db (xs @ ys) = bindE (runEach s cfg db xs) (\<lambda>a. bindE (runEach s cfg db ys) (\<lambda>b. Inr (a @ b)))"
proof (induction xs)
  case Nil
  then show ?case by (cases "runEach s cfg db ys") auto
next
  case (Cons v vs)
  then show ?case
    by (cases "runEach s cfg db vs"; cases "runEach s cfg db ys") (auto split: sum.split prod.split)
qed

lemma has_error_append [simp]: "has_error (xs @ ys) \<longleftrightarrow> has_error xs \<or> has_error ys"
  by (simp add: has_error_def)

lemma has_error_map [simp]: "has_error (map (\<lambda>x. error_finding (f x) (g x) (h x)) xs) \<longleftrightarrow> xs \<noteq> []"
  by (induction xs) (auto simp: has_error_def error_finding_def)

lemma has_error_Nil [simp]: "\<not> has_error []"
  by (simp add: has_error_def)

lemma noCycles_ok: "has_error (noCycles s) \<longleftrightarrow> \<not> acyclic (set (sn_deps s))"
  using findCycle_exact[of "sn_deps s"] by (auto simp: noCycles_def has_error_def error_finding_def split: option.splits)

lemma preApproval_ok: "has_error (preApproval lc s) \<longleftrightarrow> (\<exists>t \<in> set (sn_tasks s). t_state t \<noteq> l_createState lc)"
  by (auto simp: preApproval_def filter_empty_conv)

lemma containersHaveChildren_ok:
  "has_error (containersHaveChildren db s) \<longleftrightarrow> (\<exists>t \<in> set (sn_tasks s). t_kind t = Container \<and>
     (\<forall>u \<in> set (sn_tasks s). t_parentId u \<noteq> Some (t_id t)) \<and> (\<forall>u \<in> set (d_tasks db). t_parentId u \<noteq> Some (t_id t)))"
proof -
  have "set (List.map_filter t_parentId ts) = {p. \<exists>u \<in> set ts. t_parentId u = Some p}" for ts
    by (induction ts) (auto simp: List.map_filter_simps split: option.splits)
  then show ?thesis
    by (auto simp: containersHaveChildren_def Let_def ctx_withChildren_def list_ex_iff filter_empty_conv)
qed

lemma runValidators_builtin:
  assumes "runValidators lc custom cfg None s db = Inr fs"
  shows "set (noCycles s @ noMissingRefs db s @ containersHaveChildren db s @ preApproval lc s) \<subseteq> set fs"
  using assms by (auto simp: runValidators_def runEach_append BUILTIN_VALIDATORS_def)

lemma runValidators_pre:
  assumes "runValidators lc custom cfg only s db = Inr fs" "only = None \<or> only = Some TaskScope"
  shows "set (preApproval lc s) \<subseteq> set fs"
  using assms by (auto simp: runValidators_def runEach_append BUILTIN_VALIDATORS_def)

lemma has_error_mono: "set xs \<subseteq> set ys \<Longrightarrow> has_error xs \<Longrightarrow> has_error ys"
  by (auto simp: has_error_def list_ex_iff)

end
