(* ===== verification/Plans.thy ===== *)
theory Plans
  imports Validators
begin

text \<open>
  Plans and approval (src/taskgraph/plans.ts): a plan is created, validated as a dry run, and approved or
  discarded as a unit; a task with no plan is approved alone.

  The ids of one project share their head, after which only a dot, digits and lower-case letters
  follow, which \<open>localeCompare\<close> orders as code units do.

  The theorems: approval opens every proposed task of a plan the built-in validators pass, and none
  otherwise; discard cancels them all or nothing; the order it takes them in puts a task after its children
  and the tasks waiting on it, whenever such an order exists.
\<close>

subsection \<open>The snapshot of a plan\<close>

definition planSnapshot :: "'x db \<Rightarrow> string \<Rightarrow> tg_error + snapshot" where
  "planSnapshot db pid = (case find_row p_id pid (d_plans db) of
       None \<Rightarrow> Inl (NotFound ''plan'' pid)
     | Some p \<Rightarrow>
         let tasks = sort_key created_key (filter (\<lambda>t. t_planId t = Some pid) (d_tasks db));
             is = map t_id tasks
         in Inr \<lparr>sn_plan = Some p, sn_tasks = tasks,
              sn_deps = sort (filter (\<lambda>(x, y). x \<in> set is \<or> y \<in> set is) (d_deps db)),
              sn_links = sort (filter (\<lambda>(x, y, k). x \<in> set is \<or> y \<in> set is) (d_links db))\<rparr>)"

subsection \<open>A move inside the caller's transaction\<close>

definition tx_row :: "'x lifecycle \<Rightarrow> 'x move \<Rightarrow> int \<Rightarrow> task \<Rightarrow> task" where
  "tx_row lc m now t = t\<lparr>
     t_state := m_to m, t_boosted := boostAfter m (t_boosted t),
     t_closedAt := (if isTerminal lc (m_to m) then Some now else t_closedAt t), t_updatedAt := now\<rparr>"

definition moveInTx ::
  "'x lifecycle \<Rightarrow> actor \<Rightarrow> task \<Rightarrow> 'x move \<Rightarrow> json \<Rightarrow> string option \<Rightarrow> (task, 'x) body" where
  "moveInTx lc a t m payload req db =
     bindE (let live = liveChildren lc db (t_id t) in
            guardE (isTerminal lc (m_to m) \<and> \<not> isTerminal lc (t_state t) \<longrightarrow> live = [])
              (MoveRefused (t_id t) (t_state t) ''ChildrenLive'' [] live)) (\<lambda>_.
     bindE (case m_guard m of None \<Rightarrow> Inr ()
            | Some g \<Rightarrow> (case g_fn g t a db of None \<Rightarrow> Inr ()
                         | Some why \<Rightarrow> Inl (MoveRefused (t_id t) (t_state t) why [] []))) (\<lambda>_.
     Inr (tx_row lc m (d_now db) t, upd_task (t_id t) (tx_row lc m (d_now db)) db,
       [(move_event a (m_name m) t (m_to m) payload req)\<lparr>n_planId := t_planId t\<rparr>])))"

subsection \<open>The order of a discard\<close>

text \<open>What must be cancelled before a task: its children and the tasks waiting on it, in the set.\<close>

definition cancelBefore :: "task list \<Rightarrow> dep list \<Rightarrow> string \<Rightarrow> string list" where
  "cancelBefore ts ds i =
     map t_id (filter (\<lambda>t. t_parentId t = Some i) ts) @
     map fst (filter (\<lambda>(x, y). y = i \<and> x \<in> set (map t_id ts)) ds)"

fun cancelVisit ::
  "(string \<Rightarrow> string list) \<Rightarrow> nat \<Rightarrow> string list \<Rightarrow> string list \<times> string list \<Rightarrow> string list \<times> string list" where
  "cancelVisit pre fuel [] st = st"
| "cancelVisit pre fuel (m # ms) (seen, out) =
     (if m \<in> set seen then cancelVisit pre fuel ms (seen, out)
      else case fuel of
          0 \<Rightarrow> (seen, out)
        | Suc k \<Rightarrow> (case cancelVisit pre k (sort (pre m)) (m # seen, out) of
            (seen1, out1) \<Rightarrow> cancelVisit pre fuel ms (seen1, out1 @ [m])))"

definition cancelOrder :: "task list \<Rightarrow> dep list \<Rightarrow> string list" where
  "cancelOrder ts ds = snd (cancelVisit (cancelBefore ts ds) (length ts) (sort (map t_id ts)) ([], []))"

subsection \<open>create\<close>

record approval_options =
  ao_via :: string
  ao_requestId :: "string option"

definition insertPlan :: "'x db \<Rightarrow> plan \<Rightarrow> (plan \<times> 'x db) option" where
  "insertPlan db p = (if p_id p \<in> set (map p_id (d_plans db)) then None
     else Some (p, db\<lparr>d_plans := d_plans db @ [p]\<rparr>))"

definition plans_create ::
  "'x lifecycle \<Rightarrow> actor \<Rightarrow> string \<Rightarrow> json option \<Rightarrow> (nat \<Rightarrow> nat) \<Rightarrow> string option \<Rightarrow> (plan, 'x) body" where
  "plans_create lc a title meta rand req db =
     bindE (guardE (title \<noteq> '''') (InvalidRequest ''a plan needs a title'')) (\<lambda>_.
     bindE (check lc a PlansCreate None db) (\<lambda>_.
     bindE (newPlanId db (\<lambda>i. insertPlan db
        \<lparr>p_id = i, p_title = title, p_meta = orElse meta (JObj []), p_approvedAt = None, p_approvedBy = None,
         p_discardedAt = None, p_discardedBy = None, p_createdAt = d_now db\<rparr>) rand) (\<lambda>(p, db').
     Inr (p, db', [(ev a ''plan.created'')\<lparr>n_planId := Some (p_id p), n_requestId := req,
       n_payload := JObj [(''title'', JStr (p_title p))]\<rparr>]))))"

subsection \<open>approve\<close>

definition mayMove :: "actor \<Rightarrow> string \<Rightarrow> 'x move \<Rightarrow> tg_error + unit" where
  "mayMove a what m = guardE (ac_role a \<in> set (m_by m)) (NotPermitted what (ac_role a) None)"

definition hookMove :: "'x lifecycle \<Rightarrow> string \<Rightarrow> tg_error + 'x move" where
  "hookMove lc nm = (case moveNamed lc nm of None \<Rightarrow> Inl (TypeErr ''undefined move'') | Some m \<Rightarrow> Inr m)"

text \<open>The plan while it is still open.\<close>

definition openPlan :: "'x db \<Rightarrow> string \<Rightarrow> tg_error + snapshot" where
  "openPlan db pid = bindE (planSnapshot db pid) (\<lambda>s. case sn_plan s of
       None \<Rightarrow> Inr s
     | Some p \<Rightarrow>
         if p_approvedAt p \<noteq> None \<or> p_discardedAt p \<noteq> None
         then Inl (InvalidRequest (''plan '' @ pid @ '' is already '' @ (if p_approvedAt p \<noteq> None then ''approved'' else ''discarded'')))
         else Inr s)"

definition needsVia :: "string \<Rightarrow> approval_options \<Rightarrow> tg_error + unit" where
  "needsVia what opts = guardE (ao_via opts \<noteq> '''') (InvalidRequest (what @ '' names the surface it came through (via)''))"

fun approveEach ::
  "'x lifecycle \<Rightarrow> actor \<Rightarrow> 'x move \<Rightarrow> json \<Rightarrow> task list \<Rightarrow> 'x db \<Rightarrow> tg_error + ('x db \<times> new_event list)" where
  "approveEach lc a m payload [] db = Inr (db, [])"
| "approveEach lc a m payload (t # ts) db =
     (if t_state t \<noteq> l_createState lc then approveEach lc a m payload ts db
      else bindE (loadTask db (t_id t)) (\<lambda>task.
        if t_state task \<in> set (m_from m)
        then bindE (moveInTx lc a task m payload None db) (\<lambda>(_, db1, evs1).
          bindE (approveEach lc a m payload ts db1) (\<lambda>(db2, evs2). Inr (db2, evs1 @ evs2)))
        else approveEach lc a m payload ts db))"

definition jfinding :: "finding \<Rightarrow> json" where
  "jfinding f = JObj ([(''validator'', JStr (f_validator f)),
     (''severity'', JStr (case f_severity f of ErrorSev \<Rightarrow> ''error'' | WarningSev \<Rightarrow> ''warning''))] @
     (case f_taskId f of None \<Rightarrow> [] | Some i \<Rightarrow> [(''taskId'', JStr i)]) @ [(''message'', JStr (f_message f))])"

definition upd_plan :: "string \<Rightarrow> (plan \<Rightarrow> plan) \<Rightarrow> 'x db \<Rightarrow> 'x db" where
  "upd_plan i f db = db\<lparr>d_plans := upd_row p_id i f (d_plans db)\<rparr>"

definition plan_event :: "actor \<Rightarrow> string \<Rightarrow> string \<Rightarrow> approval_options \<Rightarrow> json \<Rightarrow> new_event" where
  "plan_event a k pid opts payload = (ev a k)\<lparr>n_planId := Some pid, n_requestId := ao_requestId opts, n_payload := payload\<rparr>"

definition plans_approve ::
  "'x lifecycle \<Rightarrow> 'x validator list \<Rightarrow> (string \<Rightarrow> json) \<Rightarrow> actor \<Rightarrow> string \<Rightarrow> approval_options \<Rightarrow> (plan \<times> finding list, 'x) body" where
  "plans_approve lc vs cfg a pid opts db =
     bindE (needsVia ''an approval'' opts) (\<lambda>_.
     bindE (hookMove lc (l_onApprove lc)) (\<lambda>m.
     bindE (mayMove a ''plans.approve'' m) (\<lambda>_.
     bindE (assertVersion lc db) (\<lambda>_.
     bindE (openPlan db pid) (\<lambda>s.
     bindE (runValidators lc vs cfg None s db) (\<lambda>fs.
     if has_error fs then Inl (ValidationError fs)
     else bindE (approveEach lc a m (JObj [(''via'', JStr (ao_via opts)), (''planId'', JStr pid)]) (sn_tasks s) db) (\<lambda>(db1, evs).
       let f = (\<lambda>p. p\<lparr>p_approvedAt := Some (d_now db), p_approvedBy := Some (ac_id a)\<rparr>);
           db2 = upd_plan pid f db1
       in case find_row p_id pid (d_plans db2) of
            None \<Rightarrow> Inl (NotFound ''plan'' pid)
          | Some p \<Rightarrow> Inr ((p, fs), db2, evs @ [plan_event a ''plan.approved'' pid opts (JObj [(''via'', JStr (ao_via opts)),
              (''findings'', JArr (map jfinding fs)), (''tasks'', JNum (int (length (sn_tasks s))))])]))))))))"

subsection \<open>discard\<close>

text \<open>A task left behind that waits on, or sits under, one being cancelled: its id, on what, its state, and which of the two.\<close>

type_synonym waiting_row = "string \<times> string \<times> string \<times> bool"

definition waitingRows :: "string list \<Rightarrow> 'x db \<Rightarrow> waiting_row list" where
  "waitingRows is db =
     concat (map (\<lambda>(x, y). if y \<in> set is
       then map (\<lambda>t. (x, y, t_state t, False)) (filter (\<lambda>t. t_id t = x) (d_tasks db)) else []) (d_deps db)) @
     List.map_filter (\<lambda>t. case t_parentId t of
         Some p \<Rightarrow> if p \<in> set is then Some (t_id t, p, t_state t, True) else None | None \<Rightarrow> None) (d_tasks db)"

definition leftBehind :: "'x lifecycle \<Rightarrow> string list \<Rightarrow> waiting_row \<Rightarrow> bool" where
  "leftBehind lc is = (\<lambda>(x, y, st, isParent). x \<notin> set is \<and> \<not> isTerminal lc st)"

definition refuseLeft :: "'x lifecycle \<Rightarrow> task list \<Rightarrow> 'x db \<Rightarrow> tg_error + unit" where
  "refuseLeft lc going db =
     (let is = map t_id going; rows = waitingRows is db in
      case filter (leftBehind lc is) rows of
        [] \<Rightarrow> Inr ()
      | (x, y, st, isParent) # _ \<Rightarrow>
          let blockers = sort (map fst (filter (\<lambda>r. leftBehind lc is r \<and> fst (snd r) = y \<and> snd (snd (snd r)) = isParent) rows));
              state = (case find_row t_id y going of Some t \<Rightarrow> t_state t | None \<Rightarrow> '''')
          in Inl (if isParent then MoveRefused y state ''ChildrenLive'' [] blockers
                  else MoveRefused y state ''DependentsLive'' blockers []))"

fun discardEach ::
  "'x lifecycle \<Rightarrow> actor \<Rightarrow> 'x move \<Rightarrow> json \<Rightarrow> string list \<Rightarrow> 'x db \<Rightarrow> tg_error + (task list \<times> 'x db \<times> new_event list)" where
  "discardEach lc a m payload [] db = Inr ([], db, [])"
| "discardEach lc a m payload (i # is) db =
     bindE (loadTask db i) (\<lambda>task.
     bindE (moveInTx lc a task m payload None db) (\<lambda>(_, db1, evs1).
     bindE (discardEach lc a m payload is db1) (\<lambda>(ts, db2, evs2). Inr (task # ts, db2, evs1 @ evs2))))"

definition plans_discard ::
  "'x lifecycle \<Rightarrow> actor \<Rightarrow> string \<Rightarrow> approval_options \<Rightarrow> (plan, 'x) body" where
  "plans_discard lc a pid opts db =
     bindE (needsVia ''a discard'' opts) (\<lambda>_.
     bindE (hookMove lc (l_onDiscard lc)) (\<lambda>m.
     bindE (mayMove a ''plans.discard'' m) (\<lambda>_.
     bindE (assertVersion lc db) (\<lambda>_.
     bindE (openPlan db pid) (\<lambda>s.
     let going = filter (\<lambda>t. t_state t = l_createState lc \<and> t_state t \<in> set (m_from m)) (sn_tasks s);
         is = map t_id going in
     bindE (refuseLeft lc going db) (\<lambda>_.
     bindE (discardEach lc a m (JObj [(''via'', JStr (ao_via opts)), (''planId'', JStr pid)])
        (cancelOrder going (sn_deps s)) db) (\<lambda>(ts, db1, evs).
     let ps = sort (remdups (filter (\<lambda>p. p \<notin> set is) (List.map_filter t_parentId ts)));
         settled = filter (\<lambda>p. isTerminal lc (m_to m) \<and> containerSettled lc db1 p) ps;
         f = (\<lambda>p. p\<lparr>p_discardedAt := Some (d_now db), p_discardedBy := Some (ac_id a)\<rparr>);
         db2 = upd_plan pid f db1
     in case find_row p_id pid (d_plans db2) of
          None \<Rightarrow> Inl (NotFound ''plan'' pid)
        | Some p \<Rightarrow> Inr (p, db2, evs @ map (settled_event a) settled @
            [plan_event a ''plan.discarded'' pid opts (JObj [(''via'', JStr (ao_via opts)), (''cancelled'', JArr (map JStr is))])])))))))) "

subsection \<open>validate, and a lone task\<close>

record report =
  rp_planId :: string
  rp_ok :: bool
  rp_findings :: "finding list"

text \<open>The dry run: the transaction is always rolled back, so there is no state after it.\<close>

definition plans_validate ::
  "'x lifecycle \<Rightarrow> 'x validator list \<Rightarrow> (string \<Rightarrow> json) \<Rightarrow> actor \<Rightarrow> string \<Rightarrow> 'x db \<Rightarrow> tg_error + report" where
  "plans_validate lc vs cfg a pid db =
     bindE (check lc a PlansValidate None db) (\<lambda>_.
     bindE (planSnapshot db pid) (\<lambda>s.
     bindE (runValidators lc vs cfg None s db) (\<lambda>fs.
     Inr \<lparr>rp_planId = pid, rp_ok = (\<not> has_error fs), rp_findings = fs\<rparr>)))"

definition tasks_approve ::
  "'x lifecycle \<Rightarrow> 'x validator list \<Rightarrow> (string \<Rightarrow> json) \<Rightarrow> actor \<Rightarrow> string \<Rightarrow> approval_options \<Rightarrow> (task, 'x) body" where
  "tasks_approve lc vs cfg a i opts db =
     bindE (needsVia ''an approval'' opts) (\<lambda>_.
     bindE (hookMove lc (l_onApprove lc)) (\<lambda>m.
     bindE (mayMove a ''tasks.approve'' m) (\<lambda>_.
     bindE (assertVersion lc db) (\<lambda>_.
     bindE (loadTask db i) (\<lambda>t.
     case t_planId t of
       Some p \<Rightarrow> Inl (InvalidRequest (''task '' @ i @ '' is in plan '' @ p @ ''; approve the plan''))
     | None \<Rightarrow>
         if t_state t \<notin> set (m_from m) then Inl (MoveRefused i (t_state t) ''WrongState'' [] [])
         else bindE (runValidators lc vs cfg (Some TaskScope)
             \<lparr>sn_plan = None, sn_tasks = [t], sn_deps = [], sn_links = []\<rparr> db) (\<lambda>fs.
           if has_error fs then Inl (ValidationError fs)
           else moveInTx lc a t m (JObj [(''via'', JStr (ao_via opts))]) (ao_requestId opts) db))))))"

subsection \<open>The order of a discard is complete, and topological when it can be\<close>

lemma cancelVisit_seen:
  assumes V: "finite V" "\<And>i. i \<in> V \<Longrightarrow> set (pre i) \<subseteq> V"
  shows "cancelVisit pre fuel ms (seen, out) = (seen', out') \<Longrightarrow> set ms \<subseteq> V \<Longrightarrow>
    card (V - set seen) \<le> fuel \<Longrightarrow>
    \<exists>new. out' = out @ new \<and> distinct new \<and> set new \<inter> set seen = {} \<and> set seen' = set seen \<union> set new \<and>
      set ms \<subseteq> set seen' \<and> set new \<subseteq> V"
  using V
proof (induction pre fuel ms "(seen, out)" arbitrary: seen out seen' out' rule: cancelVisit.induct)
  case (2 pre fuel m ms seen out)
  show ?case
  proof (cases "m \<in> set seen")
    case True
    then show ?thesis using "2.hyps"(1)[OF True _ _ _ "2.prems"(4,5)] "2.prems" by auto
  next
    case False
    have mV: "m \<in> V" "m \<in> V - set seen" using "2.prems"(2) False by auto
    then have "0 < card (V - set seen)" using "2.prems"(4) by (auto simp: card_gt_0_iff)
    then obtain k where k: "fuel = Suc k" using "2.prems"(3) by (cases fuel) auto
    obtain seen1 out1 where c: "cancelVisit pre k (sort (pre m)) (m # seen, out) = (seen1, out1)" by fastforce
    have r: "cancelVisit pre fuel ms (seen1, out1 @ [m]) = (seen', out')"
      using "2.prems"(1) False k c by simp
    have "V - set (m # seen) = (V - set seen) - {m}" by auto
    then have c1: "card (V - set (m # seen)) \<le> k" using mV "2.prems"(3,4) k by simp
    have "set (sort (pre m)) \<subseteq> V" using "2.prems"(5) mV by simp
    from "2.hyps"(2)[OF False k c this c1 "2.prems"(4,5)] obtain new1 where
      n1: "out1 = out @ new1" "distinct new1" "set new1 \<inter> set (m # seen) = {}" "set seen1 = set (m # seen) \<union> set new1"
        "set new1 \<subseteq> V" by blast
    have c2: "card (V - set seen1) \<le> fuel"
      using n1(4) "2.prems"(4) by (intro order_trans[OF card_mono "2.prems"(3)]) auto
    have "set ms \<subseteq> V" using "2.prems"(2) by simp
    from "2.hyps"(3)[OF False k c[symmetric] r this c2 "2.prems"(4,5)] obtain new2 where
      n2: "out' = (out1 @ [m]) @ new2" "distinct new2" "set new2 \<inter> set seen1 = {}" "set seen' = set seen1 \<union> set new2"
        "set ms \<subseteq> set seen'" "set new2 \<subseteq> V" by blast
    show ?thesis
      using n1 n2 mV False by (intro exI[of _ "new1 @ m # new2"]) auto
  qed
qed simp

text \<open>Every task comes after the ones \<open>pre\<close> names.\<close>

definition placed :: "(string \<Rightarrow> string list) \<Rightarrow> string list \<Rightarrow> bool" where
  "placed pre out \<longleftrightarrow> (\<forall>xs i ys. out = xs @ i # ys \<longrightarrow> set (pre i) \<subseteq> set xs)"

lemma placed_snoc: "placed pre out \<Longrightarrow> set (pre m) \<subseteq> set out \<Longrightarrow> placed pre (out @ [m])"
  unfolding placed_def by (auto simp: append_eq_append_conv2 append_eq_Cons_conv Cons_eq_append_conv)

definition before_rel :: "(string \<Rightarrow> string list) \<Rightarrow> (string \<times> string) set" where
  "before_rel pre = {(b, i). b \<in> set (pre i)}"

lemma cancelVisit_placed:
  assumes V: "finite V" "\<And>i. i \<in> V \<Longrightarrow> set (pre i) \<subseteq> V" and a: "acyclic (before_rel pre)"
  shows "cancelVisit pre fuel ms (seen, out) = (seen', out') \<Longrightarrow> set ms \<subseteq> V \<Longrightarrow>
    card (V - set seen) \<le> fuel \<Longrightarrow> placed pre out \<Longrightarrow>
    (\<And>x y. x \<in> set seen - set out \<Longrightarrow> y \<in> set ms \<Longrightarrow> (y, x) \<in> (before_rel pre)\<^sup>+) \<Longrightarrow>
    placed pre out' \<and> set ms \<subseteq> set out'"
  using V a
proof (induction pre fuel ms "(seen, out)" arbitrary: seen out seen' out' rule: cancelVisit.induct)
  case (2 pre fuel m ms seen out)
  note irr = "2.prems"(8)[unfolded acyclic_def]
  show ?case
  proof (cases "m \<in> set seen")
    case True
    then have "m \<in> set out" using "2.prems"(5)[of m m] irr by auto
    moreover have rr: "cancelVisit pre fuel ms (seen, out) = (seen', out')" and mV: "set ms \<subseteq> V"
      using "2.prems"(1,2) True by auto
    moreover obtain new where "out' = out @ new"
      using cancelVisit_seen[OF "2.prems"(6,7) rr mV "2.prems"(3)] by blast
    ultimately show ?thesis
      using "2.hyps"(1)[OF True _ _ _ "2.prems"(4) _ "2.prems"(6-8)] "2.prems"(1,2,3,5) True by auto
  next
    case False
    have mV: "m \<in> V" "m \<in> V - set seen" using "2.prems"(2) False by auto
    then have "0 < card (V - set seen)" using "2.prems"(6) by (auto simp: card_gt_0_iff)
    then obtain k where k: "fuel = Suc k" using "2.prems"(3) by (cases fuel) auto
    obtain seen1 out1 where c: "cancelVisit pre k (sort (pre m)) (m # seen, out) = (seen1, out1)" by fastforce
    have r: "cancelVisit pre fuel ms (seen1, out1 @ [m]) = (seen', out')"
      using "2.prems"(1) False k c by simp
    have "V - set (m # seen) = (V - set seen) - {m}" by auto
    then have c1: "card (V - set (m # seen)) \<le> k" using mV "2.prems"(3,6) k by simp
    have bV: "set (sort (pre m)) \<subseteq> V" using "2.prems"(7) mV by simp
    obtain new1 where n1: "out1 = out @ new1" "set seen1 = set (m # seen) \<union> set new1" "set new1 \<inter> set (m # seen) = {}"
      using cancelVisit_seen[OF "2.prems"(6,7) c bV c1] by blast
    have open1: "(y, x) \<in> (before_rel pre)\<^sup>+" if "x \<in> set (m # seen) - set out" "y \<in> set (sort (pre m))" for x y
    proof -
      have ym: "(y, m) \<in> (before_rel pre)\<^sup>+" using that(2) by (auto simp: before_rel_def)
      show ?thesis
      proof (cases "x = m")
        case False
        then have "(m, x) \<in> (before_rel pre)\<^sup>+" using "2.prems"(5)[of x m] that(1) by auto
        with ym show ?thesis by (rule trancl_trans)
      qed (use ym in simp)
    qed
    have i1: "placed pre out1 \<and> set (sort (pre m)) \<subseteq> set out1"
      by (rule "2.hyps"(2)[OF False k c bV c1 "2.prems"(4) open1 "2.prems"(6-8)])
    have c2: "card (V - set seen1) \<le> fuel"
      using n1(2) "2.prems"(6) by (intro order_trans[OF card_mono "2.prems"(3)]) auto
    have msV: "set ms \<subseteq> V" using "2.prems"(2) by simp
    have p2: "placed pre (out1 @ [m])" using i1 placed_snoc[of pre out1 m] by simp
    have i2: "placed pre out' \<and> set ms \<subseteq> set out'"
      by (rule "2.hyps"(3)[OF False k c[symmetric] r msV c2 p2 _ "2.prems"(6-8)])
         (use "2.prems"(5) n1 in auto)
    obtain new2 where "out' = (out1 @ [m]) @ new2"
      using cancelVisit_seen[OF "2.prems"(6,7) r msV c2] by blast
    with i2 show ?thesis by auto
  qed
qed simp

lemma cancelBefore_in: "set (cancelBefore ts ds i) \<subseteq> set (map t_id ts)"
  by (auto simp: cancelBefore_def)

lemma cancelOrder_set:
  assumes "distinct (map t_id ts)"
  shows "set (cancelOrder ts ds) = set (map t_id ts)" "distinct (cancelOrder ts ds)"
proof -
  let ?V = "set (map t_id ts)"
  obtain seen out where c: "cancelVisit (cancelBefore ts ds) (length ts) (sort (map t_id ts)) ([], []) = (seen, out)"
    by fastforce
  have "card (?V - set []) \<le> length ts" using card_length[of "map t_id ts"] by simp
  from cancelVisit_seen[OF _ _ c _ this] obtain new where
    "out = new" "distinct new" "set seen = set new" "?V \<subseteq> set seen" "set new \<subseteq> ?V"
    using cancelBefore_in[of ts ds] by auto
  then show "set (cancelOrder ts ds) = ?V" "distinct (cancelOrder ts ds)" using c by (auto simp: cancelOrder_def)
qed

lemma cancelOrder_placed:
  assumes "acyclic (before_rel (cancelBefore ts ds))"
  shows "placed (cancelBefore ts ds) (cancelOrder ts ds)"
proof -
  let ?V = "set (map t_id ts)"
  obtain seen out where c: "cancelVisit (cancelBefore ts ds) (length ts) (sort (map t_id ts)) ([], []) = (seen, out)"
    by fastforce
  have "card (?V - set []) \<le> length ts" using card_length[of "map t_id ts"] by simp
  from cancelVisit_placed[OF _ _ assms c _ this]
  show ?thesis using cancelBefore_in[of ts ds] c by (auto simp: cancelOrder_def placed_def)
qed

subsection \<open>The invariant\<close>

lemma insertPlan_Some: "insertPlan db p = Some (q, db') \<longleftrightarrow>
    q = p \<and> p_id p \<notin> p_id ` set (d_plans db) \<and> db' = db\<lparr>d_plans := d_plans db @ [p]\<rparr>"
  by (auto simp: insertPlan_def)

lemma wf_plans:
  assumes w: "wf lc db" and s: "p_id ` set (d_plans db) \<subseteq> p_id ` set ps" and d: "distinct (map p_id ps)"
    and x: "\<And>p. p \<in> set ps \<Longrightarrow> p_approvedAt p = None \<or> p_discardedAt p = None"
  shows "wf lc (db\<lparr>d_plans := ps\<rparr>)"
proof -
  have "row_ok ps t" if "row_ok (d_plans db) t" for t
    using that s by (auto simp: row_ok_def split: option.splits)
  then have "rows_ok ps (d_tasks db)" using wfD(7)[OF w] d x by (simp add: rows_ok_def)
  then show ?thesis using wfD[OF w] by (simp add: wf_def)
qed

lemma plans_create_wf [inv_intros]:
  assumes w: "wf lc db" and c: "plans_create lc a title meta rand req db = Inr (p, db', evs)"
  shows "wf lc db'"
proof -
  obtain i where "insertPlan db
        \<lparr>p_id = i, p_title = title, p_meta = orElse meta (JObj []), p_approvedAt = None, p_approvedBy = None,
         p_discardedAt = None, p_discardedBy = None, p_createdAt = d_now db\<rparr> = Some (p, db')"
    using c newPlanId_Inr[of db "\<lambda>i. insertPlan db \<lparr>p_id = i, p_title = title, p_meta = orElse meta (JObj []), p_approvedAt = None,
      p_approvedBy = None, p_discardedAt = None, p_discardedBy = None, p_createdAt = d_now db\<rparr>" rand "(p, db')"]
    by (auto simp: plans_create_def)
  then have "p_id p \<notin> p_id ` set (d_plans db)" "p_approvedAt p = None" "db' = db\<lparr>d_plans := d_plans db @ [p]\<rparr>"
    by (auto simp: insertPlan_Some)
  then show ?thesis using wfD(7)[OF w] by (auto intro!: wf_plans[OF w] simp: rows_ok_def)
qed

lemma upd_plan_simps [simp]:
  "d_tasks (upd_plan i f db) = d_tasks db" "d_deps (upd_plan i f db) = d_deps db"
  "d_attempts (upd_plan i f db) = d_attempts db" "d_plans (upd_plan i f db) = upd_row p_id i f (d_plans db)"
  "d_now (upd_plan i f db) = d_now db"
  by (simp_all add: upd_plan_def)

lemma upd_plan_wf:
  assumes w: "wf lc db" and k: "\<And>p. p_id (f p) = p_id p"
    and x: "\<And>p. p \<in> set (d_plans db) \<Longrightarrow> p_id p = i \<Longrightarrow> p_approvedAt (f p) = None \<or> p_discardedAt (f p) = None"
  shows "wf lc (upd_plan i f db)"
  unfolding upd_plan_def
proof (rule wf_plans[OF w])
  show "p_id ` set (d_plans db) \<subseteq> p_id ` set (upd_row p_id i f (d_plans db))"
    using map_key_upd[of p_id f i "d_plans db", OF k] by (metis set_map subset_refl)
  show "distinct (map p_id (upd_row p_id i f (d_plans db)))"
    using wfD(7)[OF w] by (simp add: map_key_upd[of p_id, OF k] rows_ok_def)
  show "p_approvedAt p = None \<or> p_discardedAt p = None" if p: "p \<in> set (upd_row p_id i f (d_plans db))" for p
  proof -
    obtain q where "q \<in> set (d_plans db)" "p = (if p_id q = i then f q else q)" using p by (auto simp: set_upd_row)
    then show ?thesis using x[of q] wfD(7)[OF w] by (cases "p_id q = i") (auto simp: rows_ok_def)
  qed
qed

lemma openPlan_Inr:
  assumes "openPlan db pid = Inr s"
  obtains p where "find_row p_id pid (d_plans db) = Some p" "p_approvedAt p = None" "p_discardedAt p = None"
    "sn_tasks s = sort_key created_key (filter (\<lambda>t. t_planId t = Some pid) (d_tasks db))"
    "sn_deps s = sort (filter (\<lambda>(x, y). x \<in> set (map t_id (sn_tasks s)) \<or> y \<in> set (map t_id (sn_tasks s))) (d_deps db))"
  using assms by (auto simp: openPlan_def planSnapshot_def Let_def split: option.splits if_splits)

lemma hookMove_Inr [simp]: "hookMove lc nm = Inr m \<longleftrightarrow> moveNamed lc nm = Some m"
  by (auto simp: hookMove_def split: option.splits)

lemma mayMove_Inr [simp]: "mayMove a what m = Inr u \<longleftrightarrow> ac_role a \<in> set (m_by m)"
  by (simp add: mayMove_def)

text \<open>On a task that holds no lease, the update is a move's.\<close>

lemma upd_row_cong: "(\<And>r. r \<in> set rows \<Longrightarrow> key r = i \<Longrightarrow> f r = g r) \<Longrightarrow> upd_row key i f rows = upd_row key i g rows"
  by (simp add: upd_row_def)

lemma tx_row_unleased: "t_leaseAttemptId t = None \<Longrightarrow> t_leaseExpiresAt t = None \<Longrightarrow> tx_row lc m now t = moved_row lc m now t"
  by (cases t) (simp add: tx_row_def moved_row_def)

lemma moveInTx_Inr:
  "moveInTx lc a t m payload req db = Inr (row, db', evs) \<Longrightarrow>
   row = tx_row lc m (d_now db) t \<and> db' = upd_task (t_id t) (tx_row lc m (d_now db)) db \<and>
   (isTerminal lc (m_to m) \<longrightarrow> \<not> isTerminal lc (t_state t) \<longrightarrow> liveChildren lc db (t_id t) = [])"
  by (auto simp: moveInTx_def Let_def)

lemma upd_task_wf:
  assumes v: "valid_lifecycle lc" and w: "wf lc db" and t: "find_task i db = Some t"
    and u: "\<not> stateFlag sf_leased lc (t_state t)" and live: "\<not> isTerminal lc (t_state t)"
    and m: "isState lc (m_to m)" "\<not> stateFlag sf_leased lc (m_to m)"
    and ch: "isTerminal lc (m_to m) \<Longrightarrow> liveChildren lc db i = []"
    and dp: "isTerminal lc (m_to m) \<Longrightarrow> \<not> isSatisfying lc (m_to m) \<Longrightarrow> liveDependents lc db i = []"
  shows "wf lc (upd_task i (tx_row lc m now) db)"
proof -
  have d: "distinct (map t_id (d_tasks db))" using wfD(1)[OF w] by (simp add: forest_ok_def)
  have ti: "t \<in> set (d_tasks db)" "t_id t = i" using find_row_Some[OF t] by auto
  then have l: "t_leaseAttemptId t = None" "t_leaseExpiresAt t = None" using wfD(3)[OF w] u by (auto simp: states_ok_def)
  have only: "s = t" if "s \<in> set (d_tasks db)" "t_id s = i" for s using distinct_key_eq[OF d that(1) ti(1)] that ti by simp
  have "upd_row t_id i (tx_row lc m now) (d_tasks db) = upd_row t_id i (moved_row lc m now) (d_tasks db)"
    using only l by (intro upd_row_cong tx_row_unleased) auto
  then show ?thesis
    by (intro wf_leave[OF v w t leaves_moved_row[of lc m now], where ds = "d_deps db"])
       (use m ch dp live l wfD(8)[OF w] in \<open>auto simp: moved_row_def\<close>)
qed

lemma tx_row_id [simp]: "t_id (tx_row lc m now t) = t_id t"
  by (simp add: tx_row_def)

definition fresh_for :: "task list \<Rightarrow> 'x db \<Rightarrow> bool" where
  "fresh_for ts db \<longleftrightarrow> distinct (map t_id ts) \<and> (\<forall>t \<in> set ts. find_task (t_id t) db = Some t)"

lemma find_tx_row: "find_task i (upd_task j (tx_row lc m now) db) =
    (if i = j then map_option (tx_row lc m now) (find_task i db) else find_task i db)"
  unfolding upd_task_simps by (rule find_row_upd) (rule tx_row_id)

lemma fresh_for_step: "fresh_for (t # ts) db \<Longrightarrow> fresh_for ts (upd_task (t_id t) (tx_row lc m now) db)"
proof -
  assume f: "fresh_for (t # ts) db"
  then have d: "t_id t \<notin> t_id ` set ts" "distinct (map t_id ts)" by (simp_all add: fresh_for_def)
  have "find_task (t_id u) (upd_task (t_id t) (tx_row lc m now) db) = Some u" if u: "u \<in> set ts" for u
  proof -
    have "t_id u \<noteq> t_id t" using d(1) u by (metis imageI)
    then show ?thesis using f u unfolding find_tx_row by (simp add: fresh_for_def)
  qed
  then show ?thesis using d(2) by (simp only: fresh_for_def) blast
qed

lemma fresh_snapshot: "wf lc db \<Longrightarrow> openPlan db pid = Inr s \<Longrightarrow> fresh_for (sn_tasks s) db"
proof -
  assume w: "wf lc db" and o: "openPlan db pid = Inr s"
  have d: "distinct (map t_id (d_tasks db))" using wfD(1)[OF w] by (simp add: forest_ok_def)
  obtain p where s: "sn_tasks s = sort_key created_key (filter (\<lambda>t. t_planId t = Some pid) (d_tasks db))"
    using openPlan_Inr[OF o] by metis
  then have "distinct (map t_id (sn_tasks s))" "set (sn_tasks s) \<subseteq> set (d_tasks db)"
    using d by (auto simp: distinct_map inj_on_def)
  then show ?thesis using find_row_unique[OF d] by (auto simp: fresh_for_def)
qed

text \<open>Approval: the proposed tasks of the list, and no other row, are where the approve move lands.\<close>

definition opened :: "'x lifecycle \<Rightarrow> 'x move \<Rightarrow> int \<Rightarrow> task list \<Rightarrow> string \<Rightarrow> 'x db \<Rightarrow> task option" where
  "opened lc m now ts i db = map_option (\<lambda>u. if i \<in> t_id ` {t \<in> set ts. t_state t = l_createState lc}
     then tx_row lc m now u else u) (find_task i db)"

lemma approveEach_Inr:
  assumes v: "valid_lifecycle lc" and m: "moveNamed lc (l_onApprove lc) = Some m"
  shows "wf lc db \<Longrightarrow> fresh_for ts db \<Longrightarrow> approveEach lc a m payload ts db = Inr (db', evs) \<Longrightarrow>
    wf lc db' \<and> d_deps db' = d_deps db \<and> d_plans db' = d_plans db \<and> d_now db' = d_now db \<and>
    (\<forall>i. find_task i db' = opened lc m (d_now db) ts i db)"
proof (induction ts arbitrary: db evs)
  case Nil
  then show ?case by (simp add: opened_def option.map_ident)
next
  case (Cons t ts)
  obtain c where c: "m_to m = c" "claimableState lc = Some c" "l_createState lc \<in> set (m_from m)" "m \<in> set (l_moves lc)"
    using approve_move[OF v] m by (metis option.inject)
  then have cf: "stateFlag sf_claimable lc (m_to m)" using claimableState_iff[OF v, of c] by simp
  have f: "find_task (t_id t) db = Some t" "fresh_for ts db" "t_id t \<notin> t_id ` set ts"
    using Cons.prems(2) by (auto simp: fresh_for_def)
  show ?case
  proof (cases "t_state t = l_createState lc")
    case False
    then have "{u \<in> set (t # ts). t_state u = l_createState lc} = {u \<in> set ts. t_state u = l_createState lc}" by auto
    then have "opened lc m n (t # ts) i d = opened lc m n ts i d" for i n d by (simp add: opened_def)
    then show ?thesis using Cons.IH[OF Cons.prems(1) f(2), of evs] Cons.prems(3) False by simp
  next
    case True
    let ?db1 = "upd_task (t_id t) (tx_row lc m (d_now db)) db"
    obtain evs2 where r: "approveEach lc a m payload ts ?db1 = Inr (db', evs2)"
      using Cons.prems(3) True f(1) c(3) by (auto simp: loadTask_def dest!: moveInTx_Inr)
    have "wf lc ?db1"
      using create_state[OF v] claimable_flags[OF v cf] stateFlag_isState[OF cf] True
      by (intro upd_task_wf[OF v Cons.prems(1) f(1)]) auto
    from Cons.IH[OF this fresh_for_step[OF Cons.prems(2)] r]
    have "wf lc db' \<and> d_deps db' = d_deps db \<and> d_plans db' = d_plans db \<and> d_now db' = d_now db"
      and ft: "\<And>i. find_task i db' = opened lc m (d_now db) ts i ?db1" by simp_all
    moreover have "find_task i db' = opened lc m (d_now db) (t # ts) i db" for i
    proof -
      have s: "{u \<in> set (t # ts). t_state u = l_createState lc} = insert t {u \<in> set ts. t_state u = l_createState lc}"
        using True by auto
      have "t_id t \<notin> t_id ` {u \<in> set ts. t_state u = l_createState lc}" using f(3) by auto
      then show ?thesis
        using ft[of i] f(1) unfolding opened_def find_tx_row s image_insert by (cases "i = t_id t") simp_all
    qed
    ultimately show ?thesis by simp
  qed
qed

lemma plans_approve_Inr:
  assumes "plans_approve lc vs cfg a pid opts db = Inr ((p, fs), db', evs)"
  obtains m s db1 evs1 where "moveNamed lc (l_onApprove lc) = Some m" "openPlan db pid = Inr s"
    "runValidators lc vs cfg None s db = Inr fs" "\<not> has_error fs"
    "approveEach lc a m (JObj [(''via'', JStr (ao_via opts)), (''planId'', JStr pid)]) (sn_tasks s) db = Inr (db1, evs1)"
    "db' = upd_plan pid (\<lambda>p. p\<lparr>p_approvedAt := Some (d_now db), p_approvedBy := Some (ac_id a)\<rparr>) db1"
  using assms by (auto simp: plans_approve_def Let_def split: if_splits option.splits)

lemma plans_approve_wf [inv_intros]:
  assumes v: "valid_lifecycle lc" and w: "wf lc db" and c: "plans_approve lc vs cfg a pid opts db = Inr (r, db', evs)"
  shows "wf lc db'"
proof -
  obtain p fs where r: "r = (p, fs)" by (cases r)
  obtain m s db1 evs1 where m: "moveNamed lc (l_onApprove lc) = Some m" and o: "openPlan db pid = Inr s"
      and e: "approveEach lc a m (JObj [(''via'', JStr (ao_via opts)), (''planId'', JStr pid)]) (sn_tasks s) db = Inr (db1, evs1)"
      and db': "db' = upd_plan pid (\<lambda>p. p\<lparr>p_approvedAt := Some (d_now db), p_approvedBy := Some (ac_id a)\<rparr>) db1"
    using plans_approve_Inr[OF c[unfolded r]] by metis
  have 1: "wf lc db1" "d_plans db1 = d_plans db" using approveEach_Inr[OF v m w fresh_snapshot[OF w o] e] by auto
  obtain q where q: "find_row p_id pid (d_plans db) = Some q" "p_discardedAt q = None" using openPlan_Inr[OF o] by metis
  have "p_discardedAt x = None" if "x \<in> set (d_plans db)" "p_id x = pid" for x
    using find_row_unique[of p_id "d_plans db" x] that q wfD(7)[OF w] by (auto simp: rows_ok_def)
  then show ?thesis unfolding db' using 1 by (intro upd_plan_wf) auto
qed

lemma tasks_approve_wf [inv_intros]:
  assumes v: "valid_lifecycle lc" and w: "wf lc db" and c: "tasks_approve lc vs cfg a i opts db = Inr (r, db', evs)"
  shows "wf lc db'"
proof -
  obtain m t fs payload where m: "moveNamed lc (l_onApprove lc) = Some m" and t: "find_task i db = Some t"
      and rv: "runValidators lc vs cfg (Some TaskScope) \<lparr>sn_plan = None, sn_tasks = [t], sn_deps = [], sn_links = []\<rparr> db = Inr fs"
      and ok: "\<not> has_error fs" and mv: "moveInTx lc a t m payload (ao_requestId opts) db = Inr (r, db', evs)"
    using c by (auto simp: tasks_approve_def split: if_splits option.splits)
  have "\<not> has_error (preApproval lc \<lparr>sn_plan = None, sn_tasks = [t], sn_deps = [], sn_links = []\<rparr>)"
    using has_error_mono[OF runValidators_pre[OF rv]] ok by blast
  then have st: "t_state t = l_createState lc" by (simp add: preApproval_ok)
  obtain c where c: "m_to m = c" "claimableState lc = Some c" using approve_move[OF v] m by (metis option.inject)
  then have cf: "stateFlag sf_claimable lc (m_to m)" using claimableState_iff[OF v, of c] by simp
  have "db' = upd_task i (tx_row lc m (d_now db)) db" using moveInTx_Inr[OF mv] find_row_Some[OF t] by auto
  then show ?thesis
    using create_state[OF v] claimable_flags[OF v cf] stateFlag_isState[OF cf] st
    by (auto intro!: upd_task_wf[OF v w t])
qed

subsection \<open>Discard keeps the invariant\<close>

text \<open>
  While a discard is under way, tasks it has yet to cancel may wait on ones it has cancelled, so the
  invariant holds of the rows without the edges into the set \<open>S\<close> of tasks going.
\<close>

definition undep :: "string set \<Rightarrow> 'x db \<Rightarrow> 'x db" where
  "undep S db = db\<lparr>d_deps := filter (\<lambda>(x, y). y \<notin> S) (d_deps db)\<rparr>"

lemma undep_simps [simp]:
  "d_tasks (undep S db) = d_tasks db" "d_plans (undep S db) = d_plans db" "d_attempts (undep S db) = d_attempts db"
  "d_now (undep S db) = d_now db" "d_deps (undep S db) = filter (\<lambda>(x, y). y \<notin> S) (d_deps db)"
  "liveChildren lc (undep S db) i = liveChildren lc db i"
  "undep S (upd_task i f db) = upd_task i f (undep S db)"
  by (simp_all add: undep_def liveChildren_def childrenOf_def upd_task_def)

definition places :: "task list \<Rightarrow> (string \<times> string option) list" where
  "places ts = map (\<lambda>t. (t_id t, t_parentId t)) ts"

lemma places_upd: "places (upd_row t_id i (tx_row lc m now) ts) = places ts"
  unfolding places_def by (rule map_upd_row) (simp add: tx_row_def)

lemma places_same: "places ts = places us \<Longrightarrow> parents ts = parents us \<and> ids ts = ids us"
proof -
  have "ids ts = fst ` set (places ts)" for ts by (force simp: ids_def places_def)
  then show "places ts = places us \<Longrightarrow> parents ts = parents us \<and> ids ts = ids us"
    by (simp add: parents_alt flip: places_def)
qed

lemma discardEach_Inr:
  assumes v: "valid_lifecycle lc" and m: "moveNamed lc (l_onDiscard lc) = Some m"
  shows "wf lc (undep S db) \<Longrightarrow> set is \<subseteq> S \<Longrightarrow> distinct is \<Longrightarrow>
    (\<And>i. i \<in> set is \<Longrightarrow> \<exists>t. find_task i db = Some t \<and> t_state t = l_createState lc) \<Longrightarrow>
    discardEach lc a m payload is db = Inr (ts, db', evs) \<Longrightarrow>
    wf lc (undep S db') \<and> d_deps db' = d_deps db \<and> d_plans db' = d_plans db \<and> d_now db' = d_now db \<and>
    places (d_tasks db') = places (d_tasks db) \<and>
    (\<forall>i. find_task i db' = (if i \<in> set is then map_option (tx_row lc m (d_now db)) (find_task i db) else find_task i db))"
proof (induction "is" arbitrary: db ts evs)
  case (Cons i "is")
  obtain t where t: "find_task i db = Some t" "t_state t = l_createState lc" using Cons.prems(4)[of i] by auto
  have ti: "t_id t = i" using find_row_Some[OF t(1)] by simp
  obtain row db1 evs1 ts2 evs2 where mv: "moveInTx lc a t m payload None db = Inr (row, db1, evs1)"
      and r: "discardEach lc a m payload is db1 = Inr (ts2, db', evs2)"
    using Cons.prems(5) t(1) by (auto simp: loadTask_def)
  have db1: "db1 = upd_task i (tx_row lc m (d_now db)) db" and ch: "isTerminal lc (m_to m) \<Longrightarrow> liveChildren lc db i = []"
    using moveInTx_Inr[OF mv] ti create_state(3)[OF v] t(2) by auto
  obtain mm: "m \<in> set (l_moves lc)" "isTerminal lc (m_to m)" using discard_move[OF v] m by (metis option.inject)
  have w1: "wf lc (undep S db1)"
    unfolding db1 undep_simps
  proof (rule upd_task_wf[OF v Cons.prems(1)])
    show "liveDependents lc (undep S db) i = []"
      using Cons.prems(2) by (auto simp: liveDependents_def simp flip: set_empty)
    show "\<not> stateFlag sf_leased lc (m_to m)" using leased_not_terminal[OF v] mm(2) by blast
  qed (use t ch create_state[OF v] move_to_state[OF v mm(1)] in auto)
  have f1: "find_task j db1 = (if j = i then map_option (tx_row lc m (d_now db)) (find_task j db) else find_task j db)" for j
    unfolding db1 by (rule find_tx_row)
  have "d_now db1 = d_now db" "d_deps db1 = d_deps db" "d_plans db1 = d_plans db" "places (d_tasks db1) = places (d_tasks db)"
    by (simp_all add: db1 places_upd)
  moreover have "i \<notin> set is" using Cons.prems(3) by simp
  moreover have "\<exists>t. find_task j db1 = Some t \<and> t_state t = l_createState lc" if "j \<in> set is" for j
    using Cons.prems(4)[of j] that \<open>i \<notin> set is\<close> unfolding f1 by auto
  ultimately show ?case
    using Cons.IH[OF w1 _ _ _ r] Cons.prems(2,3) unfolding f1 by auto
qed simp

lemma wf_finish_discard:
  assumes w: "wf lc db" and u: "wf lc (undep S db')" and deps: "d_deps db' = d_deps db"
    and pl: "places (d_tasks db') = places (d_tasks db)"
    and gone: "\<And>x y t. (x, y) \<in> set (d_deps db) \<Longrightarrow> y \<in> S \<Longrightarrow> t \<in> set (d_tasks db') \<Longrightarrow> t_id t = x \<Longrightarrow> isTerminal lc (t_state t)"
  shows "wf lc db'"
proof -
  have "deps_ok (d_tasks db') (set (d_deps db'))"
    using wfD(2)[OF w] places_same[OF pl] by (simp add: deps_ok_def deps)
  moreover have "waits_ok lc (d_tasks db') (set (d_deps db'))"
    unfolding waits_ok_def
  proof (intro ballI impI)
    fix t v assume *: "t \<in> set (d_tasks db')" "v \<in> set (d_tasks db')" "(t_id t, t_id v) \<in> set (d_deps db')"
      "\<not> isTerminal lc (t_state t)" "isTerminal lc (t_state v)"
    then have "t_id v \<notin> S" using gone[of "t_id t" "t_id v" t] deps by auto
    with * show "isSatisfying lc (t_state v)" using wfD(5)[OF u] by (simp add: waits_ok_def deps)
  qed
  ultimately show ?thesis using wfD[OF u] wfD(8)[OF w] by (simp add: wf_def deps)
qed

lemma refuseLeft_Inr:
  assumes r: "refuseLeft lc going db = Inr u" and e: "(x, y) \<in> set (d_deps db)" "y \<in> t_id ` set going"
    and t: "t \<in> set (d_tasks db)" "t_id t = x" and x: "x \<notin> t_id ` set going"
  shows "isTerminal lc (t_state t)"
proof (rule ccontr)
  assume live: "\<not> isTerminal lc (t_state t)"
  have "(x, y, t_state t, False) \<in> set (waitingRows (map t_id going) db)"
    using e t by (auto simp: waitingRows_def intro!: bexI[of _ "(x, y)"])
  then have "(x, y, t_state t, False) \<in> set (filter (leftBehind lc (map t_id going)) (waitingRows (map t_id going) db))"
    using x live by (simp add: leftBehind_def)
  then show False using r by (auto simp: refuseLeft_def Let_def filter_empty_conv split: list.splits)
qed

lemma plans_discard_Inr:
  assumes "plans_discard lc a pid opts db = Inr (p, db', evs)"
  obtains m s going ts db1 evs1 where "moveNamed lc (l_onDiscard lc) = Some m" "openPlan db pid = Inr s"
    "going = filter (\<lambda>t. t_state t = l_createState lc \<and> t_state t \<in> set (m_from m)) (sn_tasks s)"
    "refuseLeft lc going db = Inr ()"
    "discardEach lc a m (JObj [(''via'', JStr (ao_via opts)), (''planId'', JStr pid)]) (cancelOrder going (sn_deps s)) db = Inr (ts, db1, evs1)"
    "db' = upd_plan pid (\<lambda>p. p\<lparr>p_discardedAt := Some (d_now db), p_discardedBy := Some (ac_id a)\<rparr>) db1"
  using assms by (auto simp: plans_discard_def Let_def split: option.splits)

lemma plans_discard_each:
  assumes v: "valid_lifecycle lc" and w: "wf lc db" and m: "moveNamed lc (l_onDiscard lc) = Some m"
    and o: "openPlan db pid = Inr s"
    and g: "going = filter (\<lambda>t. t_state t = l_createState lc \<and> t_state t \<in> set (m_from m)) (sn_tasks s)"
    and l: "refuseLeft lc going db = Inr ()"
    and e: "discardEach lc a m payload (cancelOrder going (sn_deps s)) db = Inr (ts, db1, evs1)"
  shows "wf lc db1" "d_plans db1 = d_plans db" "d_deps db1 = d_deps db"
    "\<And>i. find_task i db1 = (if i \<in> t_id ` set going then map_option (tx_row lc m (d_now db)) (find_task i db) else find_task i db)"
proof -
  have fr: "fresh_for (sn_tasks s) db" using fresh_snapshot[OF w o] .
  then have dg: "distinct (map t_id going)" unfolding g fresh_for_def by (simp add: distinct_map inj_on_def)
  let ?S = "t_id ` set going"
  have S: "set (cancelOrder going (sn_deps s)) = ?S" "distinct (cancelOrder going (sn_deps s))"
    using cancelOrder_set[OF dg, of "sn_deps s"] by simp_all
  have st: "\<exists>t. find_task i db = Some t \<and> t_state t = l_createState lc" if "i \<in> ?S" for i
    using that fr by (auto simp: g fresh_for_def)
  have w0: "wf lc (undep ?S db)" unfolding undep_def using wfD(8)[OF w] by (intro wf_drop_deps[OF w]) auto
  have "wf lc (undep ?S db1) \<and> d_deps db1 = d_deps db \<and> d_plans db1 = d_plans db \<and> d_now db1 = d_now db \<and>
    places (d_tasks db1) = places (d_tasks db) \<and>
    (\<forall>i. find_task i db1 = (if i \<in> set (cancelOrder going (sn_deps s)) then map_option (tx_row lc m (d_now db)) (find_task i db) else find_task i db))"
    by (rule discardEach_Inr[OF v m w0 _ S(2) _ e]) (use S st in auto)
  then have 1: "wf lc (undep ?S db1)" "d_deps db1 = d_deps db" "d_plans db1 = d_plans db"
      "places (d_tasks db1) = places (d_tasks db)"
    and f: "\<And>i. find_task i db1 = (if i \<in> ?S then map_option (tx_row lc m (d_now db)) (find_task i db) else find_task i db)"
    using S(1) by auto
  have tm: "isTerminal lc (m_to m)" using discard_move[OF v] m by (metis option.inject)
  have d1: "distinct (map t_id (d_tasks db1))" using wfD(1)[OF 1(1)] by (simp add: forest_ok_def)
  show "wf lc db1"
  proof (rule wf_finish_discard[OF w 1(1,2,4)])
    fix x y t assume xy: "(x, y) \<in> set (d_deps db)" "y \<in> ?S" and t: "t \<in> set (d_tasks db1)" "t_id t = x"
    have ft: "find_task x db1 = Some t" using find_row_unique[OF d1 t(1)] t(2) by simp
    show "isTerminal lc (t_state t)"
    proof (cases "x \<in> ?S")
      case True
      then show ?thesis using ft f[of x] tm by (auto simp: tx_row_def)
    next
      case False
      then have "find_task x db = Some t" using ft f[of x] by simp
      then show ?thesis using refuseLeft_Inr[OF l xy _ _ False] find_row_Some by metis
    qed
  qed
  show "d_plans db1 = d_plans db" "d_deps db1 = d_deps db"
    "\<And>i. find_task i db1 = (if i \<in> ?S then map_option (tx_row lc m (d_now db)) (find_task i db) else find_task i db)"
    using 1 f by auto
qed

lemma plans_discard_wf [inv_intros]:
  assumes v: "valid_lifecycle lc" and w: "wf lc db" and c: "plans_discard lc a pid opts db = Inr (p, db', evs)"
  shows "wf lc db'"
proof (rule plans_discard_Inr[OF c])
  fix m s going ts db1 evs1
  assume *: "moveNamed lc (l_onDiscard lc) = Some m" "openPlan db pid = Inr s"
    "going = filter (\<lambda>t. t_state t = l_createState lc \<and> t_state t \<in> set (m_from m)) (sn_tasks s)"
    "refuseLeft lc going db = Inr ()"
    "discardEach lc a m (JObj [(''via'', JStr (ao_via opts)), (''planId'', JStr pid)]) (cancelOrder going (sn_deps s)) db = Inr (ts, db1, evs1)"
    and db': "db' = upd_plan pid (\<lambda>p. p\<lparr>p_discardedAt := Some (d_now db), p_discardedBy := Some (ac_id a)\<rparr>) db1"
  note e = plans_discard_each[OF v w *]
  obtain q where q: "find_row p_id pid (d_plans db) = Some q" "p_approvedAt q = None" using openPlan_Inr[OF *(2)] by metis
  have "p_approvedAt x = None" if "x \<in> set (d_plans db)" "p_id x = pid" for x
    using find_row_unique[of p_id "d_plans db" x] that q wfD(7)[OF w] by (auto simp: rows_ok_def)
  then show "wf lc db'" unfolding db' using e(1,2) by (intro upd_plan_wf) auto
qed

end
