(* ===== verification/Retry.thy ===== *)
theory Retry
  imports Model
begin

text \<open>
  The two retry loops of the program: \<open>runTransaction\<close> (src/taskgraph/tx.ts), which reruns a transaction
  after a serialization failure or a deadlock, and \<open>withRetry\<close> (src/sthapathi/retry.ts), which reruns an
  agent call after an overloaded or unreachable service. \<open>run\<close> gives the outcome of each run, by
  its number from 0.

  The locale \<open>retry_loop\<close> is what they share: a run that ends for good ends the loop, and a
  retryable failure runs again until the limit. Its lemma, that some run within the limit decides the
  outcome and every run before it failed retryably, holds of both through their interpretations.
\<close>

locale retry_loop =
  fixes loop :: "(nat \<Rightarrow> 'e + 'a) \<Rightarrow> nat \<Rightarrow> 'e + 'a"
    and retryable :: "'e \<Rightarrow> bool"
    and surface :: "'e \<Rightarrow> 'e"
    and exhausted :: "'e \<Rightarrow> 'e"
    and limit :: nat
  assumes ok: "run n = Inr x \<Longrightarrow> n \<le> limit \<Longrightarrow> loop run n = Inr x"
    and final: "run n = Inl e \<Longrightarrow> \<not> retryable e \<Longrightarrow> n \<le> limit \<Longrightarrow> loop run n = Inl (surface e)"
    and again: "run n = Inl e \<Longrightarrow> retryable e \<Longrightarrow> n < limit \<Longrightarrow> loop run n = loop run (Suc n)"
    and gives_up: "run limit = Inl e \<Longrightarrow> retryable e \<Longrightarrow> loop run limit = Inl (exhausted e)"
begin

definition fails :: "(nat \<Rightarrow> 'e + 'a) \<Rightarrow> nat \<Rightarrow> bool" where
  "fails run n \<longleftrightarrow> (\<exists>e. run n = Inl e \<and> retryable e)"

definition settles :: "(nat \<Rightarrow> 'e + 'a) \<Rightarrow> nat \<Rightarrow> 'e + 'a" where
  "settles run n = (case run n of Inr x \<Rightarrow> Inr x | Inl e \<Rightarrow> Inl (if retryable e then exhausted e else surface e))"

lemma decided_at:
  "\<not> fails run n \<or> n = limit \<Longrightarrow> n \<le> limit \<Longrightarrow> loop run n = settles run n"
  using ok[of run n] final[of run n] gives_up[of run]
  by (cases "run n") (auto simp: settles_def fails_def)

lemma decided_by:
  "n \<le> limit \<Longrightarrow> \<exists>k. n \<le> k \<and> k \<le> limit \<and> (\<forall>j. n \<le> j \<and> j < k \<longrightarrow> fails run j) \<and> (fails run k \<longrightarrow> k = limit) \<and>
    loop run n = settles run k"
proof (induction "limit - n" arbitrary: n)
  case 0
  then have "n = limit" by simp
  then show ?case by (intro exI[of _ limit]) (auto simp: decided_at)
next
  case (Suc d)
  show ?case
  proof (cases "fails run n")
    case False
    then show ?thesis using Suc.prems by (intro exI[of _ n]) (auto simp: decided_at)
  next
    case True
    have "n < limit" "d = limit - Suc n" using Suc.hyps(2) by simp_all
    then obtain k where k: "Suc n \<le> k" "k \<le> limit" "\<forall>j. Suc n \<le> j \<and> j < k \<longrightarrow> fails run j"
        "fails run k \<longrightarrow> k = limit" "loop run (Suc n) = settles run k"
      using Suc.hyps(1)[of "Suc n"] by (metis Suc_leI)
    have "\<forall>j. n \<le> j \<and> j < k \<longrightarrow> fails run j" using k(3) True by (metis Suc_leI le_neq_implies_less)
    moreover have "loop run n = loop run (Suc n)" using True \<open>n < limit\<close> again by (auto simp: fails_def)
    ultimately show ?thesis using k by (intro exI[of _ k]) simp
  qed
qed

end

subsection \<open>The transaction runner (tx.ts)\<close>

definition MAX_RETRIES :: nat where
  "MAX_RETRIES = 3"

definition RETRYABLE :: "string list" where
  "RETRYABLE = [''40001'', ''40P01'']"

definition CONNECTION_CODES :: "string list" where
  "CONNECTION_CODES = [
     ''CONNECTION_CLOSED'', ''CONNECTION_ENDED'', ''CONNECTION_DESTROYED'', ''CONNECT_TIMEOUT'',
     ''ECONNREFUSED'', ''ECONNRESET'', ''ETIMEDOUT'', ''EPIPE'', ''ENOTFOUND'', ''EHOSTUNREACH'', ''ENETUNREACH'', ''EAI_AGAIN'',
     ''57P01'', ''57P02'', ''57P03'', ''57P05'', ''25P03'', ''53300'']"

fun tx_retryable :: "tg_error \<Rightarrow> bool" where
  "tx_retryable (DbError code msg) \<longleftrightarrow> code \<in> set RETRYABLE"
| "tx_retryable e \<longleftrightarrow> False"

text \<open>What the runner throws for an error it does not retry.\<close>

fun tx_surface :: "tg_error \<Rightarrow> tg_error" where
  "tx_surface (DbError code msg) =
     (if code = ''TG001'' then VersionMismatch msg
      else if code = ''TG002'' then InvalidRequest msg
      else if code \<in> set CONNECTION_CODES \<or> take 2 code = ''08'' then Unavailable ''database connection failed''
      else DbError code msg)"
| "tx_surface e = e"

definition tx_exhausted :: "tg_error \<Rightarrow> tg_error" where
  "tx_exhausted e = Unavailable ''transaction gave up after 3 retries''"

function runTransaction :: "(nat \<Rightarrow> tg_error + 'a) \<Rightarrow> nat \<Rightarrow> tg_error + 'a" where
  "runTransaction run retry = (case run retry of
       Inr x \<Rightarrow> Inr x
     | Inl e \<Rightarrow>
         if tx_retryable e
         then (if MAX_RETRIES \<le> retry then Inl (tx_exhausted e) else runTransaction run (Suc retry))
         else Inl (tx_surface e))"
  by pat_completeness auto
termination by (relation "measure (\<lambda>(run, retry). MAX_RETRIES - retry)") auto

declare runTransaction.simps [simp del]

text \<open>The pause before the next run, in milliseconds, for a jitter in thousandths.\<close>

definition backoff :: "nat \<Rightarrow> int \<Rightarrow> int" where
  "backoff retry jitter = (2 * (20 * 2 ^ retry * (500 + jitter)) + 1000) div 2000"

interpretation tx: retry_loop runTransaction tx_retryable tx_surface tx_exhausted MAX_RETRIES
  by unfold_locales (simp_all add: runTransaction.simps)

subsection \<open>Agent calls (retry.ts)\<close>

record agent_error =
  ae_status :: "int option"
  ae_message :: "string option"
  ae_code :: "string option"

record retry_config =
  rc_maxAttempts :: nat
  rc_initialDelayMs :: int
  rc_backoffMultiplier :: int
  rc_maxDelayMs :: int
  rc_retryableStatuses :: "int list"
  rc_retryableErrors :: "string list"

definition AGENT_RETRY_CONFIG :: retry_config where
  "AGENT_RETRY_CONFIG = \<lparr>rc_maxAttempts = 3, rc_initialDelayMs = 5000, rc_backoffMultiplier = 2, rc_maxDelayMs = 60000,
     rc_retryableStatuses = [429, 502, 503, 529], rc_retryableErrors = [''ECONNRESET'', ''ETIMEDOUT'', ''ENOTFOUND'']\<rparr>"

definition error_text :: "agent_error \<Rightarrow> string" where
  "error_text e = (case ae_message e of Some m \<Rightarrow> m | None \<Rightarrow> (case ae_code e of Some c \<Rightarrow> c | None \<Rightarrow> ''''))"

definition isRetryable :: "retry_config \<Rightarrow> agent_error \<Rightarrow> bool" where
  "isRetryable cfg e \<longleftrightarrow>
     (case ae_status e of Some s \<Rightarrow> s \<in> set (rc_retryableStatuses cfg) | None \<Rightarrow> False) \<or>
     list_ex (hasText (error_text e)) (rc_retryableErrors cfg)"

text \<open>
  The outcome, and the delays slept; \<open>n\<close> is the number of attempts made, \<open>run\<close> their
  outcomes. \<open>label\<close> names the exhausted error, which a config of no attempts throws.
\<close>

function withRetryFrom ::
  "string \<Rightarrow> retry_config \<Rightarrow> (nat \<Rightarrow> agent_error + 'a) \<Rightarrow> nat \<Rightarrow> int \<Rightarrow> (agent_error + 'a) \<times> int list" where
  "withRetryFrom label cfg run n delay =
     (if n < rc_maxAttempts cfg
      then (case run n of
          Inr x \<Rightarrow> (Inr x, [])
        | Inl e \<Rightarrow>
            if \<not> isRetryable cfg e \<or> rc_maxAttempts cfg \<le> Suc n then (Inl e, [])
            else (case withRetryFrom label cfg run (Suc n) (min (delay * rc_backoffMultiplier cfg) (rc_maxDelayMs cfg)) of
                (r, ds) \<Rightarrow> (r, delay # ds)))
      else (Inl \<lparr>ae_status = None, ae_message = Some (label @ '' exhausted '' @ show_nat (rc_maxAttempts cfg) @ '' attempts''),
               ae_code = None\<rparr>, []))"
  by pat_completeness auto
termination by (relation "measure (\<lambda>(label, cfg, run, n, delay). rc_maxAttempts cfg - n)") auto

declare withRetryFrom.simps [simp del]

definition withRetry :: "string \<Rightarrow> retry_config \<Rightarrow> (nat \<Rightarrow> agent_error + 'a) \<Rightarrow> (agent_error + 'a) \<times> int list" where
  "withRetry label cfg run = withRetryFrom label cfg run 0 (rc_initialDelayMs cfg)"

text \<open>The outcome does not depend on the delays.\<close>

definition agentLoop :: "retry_config \<Rightarrow> (nat \<Rightarrow> agent_error + 'a) \<Rightarrow> nat \<Rightarrow> agent_error + 'a" where
  "agentLoop cfg run n = fst (withRetryFrom '''' cfg run n 0)"

lemma withRetryFrom_again:
  "run n = Inl e \<Longrightarrow> isRetryable cfg e \<Longrightarrow> Suc n < rc_maxAttempts cfg \<Longrightarrow>
   withRetryFrom label cfg run n delay = apsnd (Cons delay)
     (withRetryFrom label cfg run (Suc n) (min (delay * rc_backoffMultiplier cfg) (rc_maxDelayMs cfg)))"
  by (subst withRetryFrom.simps) (simp split: prod.split)

lemma withRetryFrom_stop:
  "n < rc_maxAttempts cfg \<Longrightarrow> \<not> (\<exists>e. run n = Inl e \<and> isRetryable cfg e \<and> Suc n < rc_maxAttempts cfg) \<Longrightarrow>
   withRetryFrom label cfg run n delay = (run n, [])"
  by (subst withRetryFrom.simps) (auto split: sum.split)

lemma withRetryFrom_outcome:
  "n < rc_maxAttempts cfg \<Longrightarrow> fst (withRetryFrom label cfg run n delay) = fst (withRetryFrom label' cfg run n delay')"
proof (induction "rc_maxAttempts cfg - n" arbitrary: n delay delay')
  case (Suc d)
  show ?case
  proof (cases "\<exists>e. run n = Inl e \<and> isRetryable cfg e \<and> Suc n < rc_maxAttempts cfg")
    case True
    then obtain e where e: "run n = Inl e" "isRetryable cfg e" "Suc n < rc_maxAttempts cfg" by blast
    then show ?thesis
      using Suc.hyps(1)[of "Suc n"] Suc.hyps(2) by (simp add: withRetryFrom_again[where run = run, OF e] fst_apsnd)
  next
    case False
    then show ?thesis using Suc.prems by (simp add: withRetryFrom_stop)
  qed
qed simp

lemma agentLoop_retry:
  assumes m: "0 < rc_maxAttempts cfg"
  shows "retry_loop (agentLoop cfg) (isRetryable cfg) id id (rc_maxAttempts cfg - 1)"
proof
  fix run :: "nat \<Rightarrow> agent_error + 'b" and n x e
  show "run n = Inr x \<Longrightarrow> n \<le> rc_maxAttempts cfg - 1 \<Longrightarrow> agentLoop cfg run n = Inr x"
    and "run n = Inl e \<Longrightarrow> \<not> isRetryable cfg e \<Longrightarrow> n \<le> rc_maxAttempts cfg - 1 \<Longrightarrow> agentLoop cfg run n = Inl (id e)"
    and "run (rc_maxAttempts cfg - 1) = Inl e \<Longrightarrow> isRetryable cfg e \<Longrightarrow>
      agentLoop cfg run (rc_maxAttempts cfg - 1) = Inl (id e)"
    using m by (auto simp: agentLoop_def withRetryFrom_stop)
  assume r: "run n = Inl e" "isRetryable cfg e" "n < rc_maxAttempts cfg - 1"
  then have "Suc n < rc_maxAttempts cfg" by simp
  then show "agentLoop cfg run n = agentLoop cfg run (Suc n)"
    using withRetryFrom_outcome[of "Suc n" cfg "''''" run _ "''''" 0]
    by (simp add: agentLoop_def withRetryFrom_again[where run = run, OF r(1,2)] fst_apsnd)
qed

interpretation agent: retry_loop "agentLoop AGENT_RETRY_CONFIG" "isRetryable AGENT_RETRY_CONFIG" id id 2
  using agentLoop_retry[of AGENT_RETRY_CONFIG] by (simp add: AGENT_RETRY_CONFIG_def)

lemma withRetry_agentLoop:
  "0 < rc_maxAttempts cfg \<Longrightarrow> fst (withRetry label cfg run) = agentLoop cfg run 0"
  unfolding withRetry_def agentLoop_def by (rule withRetryFrom_outcome)

end
