(* ===== verification/Requests.thy ===== *)
theory Requests
  imports Plans Retry
begin

text \<open>
  Idempotent writes (src/taskgraph/requests.ts) and the calls of an actor handle that use them
  (client.ts): each names the event kind its write puts the request id on, the task or plan it is
  about, and how the first write's event becomes the result of a repeat.

  \<open>once\<close> takes the rows when the call starts and, as \<open>later\<close>, the rows when it looks again
  after its own write failed: another process may have written the same request in between.
\<close>

record prior_write =
  pw_kind :: string
  pw_actor :: string
  pw_taskId :: "string option"
  pw_planId :: "string option"
  pw_attemptId :: "string option"
  pw_payload :: json

definition toPrior :: "event \<Rightarrow> prior_write" where
  "toPrior e = \<lparr>pw_kind = e_kind e, pw_actor = e_actor e, pw_taskId = e_taskId e, pw_planId = e_planId e,
     pw_attemptId = e_attemptId e, pw_payload = e_payload e\<rparr>"

definition priorWrite :: "'x db \<Rightarrow> string \<Rightarrow> prior_write option" where
  "priorWrite db r = map_option toPrior (find (\<lambda>e. e_requestId e = Some r) (d_events db))"

record expected =
  ex_actor :: string
  ex_taskId :: "string option"
  ex_planId :: "string option"

definition shown :: "string option \<Rightarrow> string" where
  "shown x = (case x of None \<Rightarrow> ''null'' | Some s \<Rightarrow> s)"

text \<open>\<open>replayed\<close>: nothing, or the prior write's result, unless the id was used for something else.\<close>

definition replayed ::
  "string \<Rightarrow> string \<Rightarrow> expected \<Rightarrow> (prior_write \<Rightarrow> 'x db \<Rightarrow> tg_error + 'a) \<Rightarrow> 'x db \<Rightarrow> tg_error + 'a option" where
  "replayed r kind ex replay db = (case priorWrite db r of
       None \<Rightarrow> Inr None
     | Some p \<Rightarrow>
         if pw_kind p \<noteq> kind
         then Inl (InvalidRequest (''request id '' @ r @ '' was used by another write ('' @ pw_kind p @ ''), not '' @ kind))
         else if pw_actor p \<noteq> ex_actor ex then Inl (InvalidRequest (''request id '' @ r @ '' was used by another actor''))
         else if ex_planId ex \<noteq> None \<and> pw_planId p \<noteq> ex_planId ex
         then Inl (InvalidRequest (''request id '' @ r @ '' was used on plan '' @ shown (pw_planId p) @ '', not '' @ shown (ex_planId ex)))
         else if ex_taskId ex \<noteq> None \<and> pw_taskId p \<noteq> ex_taskId ex
         then Inl (InvalidRequest (''request id '' @ r @ '' was used on task '' @ shown (pw_taskId p) @ '', not '' @ shown (ex_taskId ex)))
         else bindE (replay p db) (\<lambda>x. Inr (Some x)))"

definition once ::
  "string option \<Rightarrow> string \<Rightarrow> expected \<Rightarrow> ('x db \<Rightarrow> tg_error + ('a \<times> 'x db)) \<Rightarrow> (prior_write \<Rightarrow> 'x db \<Rightarrow> tg_error + 'a) \<Rightarrow>
   'x db \<Rightarrow> 'x db \<Rightarrow> tg_error + ('a \<times> 'x db)" where
  "once req kind ex act replay later db = (case req of
       None \<Rightarrow> act db
     | Some r \<Rightarrow>
         if r = '''' then Inl (InvalidRequest ''a request id must not be empty'')
         else bindE (replayed r kind ex replay db) (\<lambda>first. case first of
             Some x \<Rightarrow> Inr (x, db)
           | None \<Rightarrow> (case act db of
                 Inr res \<Rightarrow> Inr res
               | Inl err \<Rightarrow> bindE (replayed r kind ex replay later) (\<lambda>second. case second of
                     None \<Rightarrow> Inl err
                   | Some x \<Rightarrow> Inr (x, later)))))"

subsection \<open>The writes of an actor handle (client.ts)\<close>

definition replay_task :: "prior_write \<Rightarrow> 'x db \<Rightarrow> tg_error + task" where
  "replay_task p db = (case pw_taskId p of None \<Rightarrow> Inl (NotFound ''task'' ''null'') | Some i \<Rightarrow> loadTask db i)"

definition replay_nothing :: "prior_write \<Rightarrow> 'x db \<Rightarrow> tg_error + unit" where
  "replay_nothing p db = Inr ()"

definition replay_plan :: "prior_write \<Rightarrow> 'x db \<Rightarrow> tg_error + plan" where
  "replay_plan p db = (case pw_planId p of None \<Rightarrow> Inl (NotFound ''plan'' ''null'') | Some i \<Rightarrow> plans_get db i)"

text \<open>The same attempt, while it still holds the task; never a second task.\<close>

definition replay_claim :: "prior_write \<Rightarrow> 'x db \<Rightarrow> tg_error + claim option" where
  "replay_claim p db = bindE (replay_task p db) (\<lambda>t.
     if t_leaseAttemptId t \<noteq> pw_attemptId p then Inl (LeaseLost (shown (pw_taskId p)) (shown (pw_attemptId p)))
     else Inr (Some \<lparr>cl_task = t, cl_attemptId = orElse (pw_attemptId p) '''', cl_expiresAt = orElse (t_leaseExpiresAt t) 0\<rparr>))"

definition by_actor :: "actor \<Rightarrow> string option \<Rightarrow> string option \<Rightarrow> expected" where
  "by_actor a task plan = \<lparr>ex_actor = ac_id a, ex_taskId = task, ex_planId = plan\<rparr>"

definition call_create where
  "call_create lc a t rand req = once req ''task.created'' (by_actor a None None)
     (transaction (tasks_create lc a t rand req)) replay_task"

definition call_update where
  "call_update lc a i p req = once req ''task.updated'' (by_actor a (Some i) None)
     (transaction (tasks_update lc a i p req)) replay_task"

definition call_delete where
  "call_delete lc a i req = once req ''task.deleted'' (by_actor a (Some i) None)
     (transaction (tasks_delete lc a i req)) replay_nothing"

definition call_task_approve where
  "call_task_approve lc vs cfg a i opts = once (ao_requestId opts) (''move:'' @ l_onApprove lc) (by_actor a (Some i) None)
     (transaction (tasks_approve lc vs cfg a i opts)) replay_task"

definition call_dep_add where
  "call_dep_add lc a i j req = once req ''dep.added'' (by_actor a (Some i) None)
     (transaction (deps_add lc a i j req)) replay_nothing"

definition call_dep_remove where
  "call_dep_remove lc a i j req = once req ''dep.removed'' (by_actor a (Some i) None)
     (transaction (deps_remove lc a i j req)) replay_nothing"

definition call_link_add where
  "call_link_add lc a x y k req = once req ''link.added'' (by_actor a (Some x) None)
     (transaction (links_add lc a x y k req)) replay_nothing"

definition call_note_add where
  "call_note_add lc a i note req = once req ''note'' (by_actor a (Some i) None)
     (transaction (notes_add lc a i note req)) replay_nothing"

definition call_move where
  "call_move lc a i nm opts fence = once (mo_requestId opts) (''move:'' @ nm) (by_actor a (Some i) None)
     (transaction (move lc a i nm opts fence)) replay_task"

definition call_plan_create where
  "call_plan_create lc a title meta rand req = once req ''plan.created'' (by_actor a None None)
     (transaction (plans_create lc a title meta rand req)) replay_plan"

fun unjson_findings :: "json \<Rightarrow> json" where
  "unjson_findings (JObj ms) = (case map_of ms ''findings'' of Some fs \<Rightarrow> fs | None \<Rightarrow> JArr [])"
| "unjson_findings _ = JArr []"

text \<open>An approval returns the plan with its findings; a replay reads them back from the event.\<close>

definition call_plan_approve where
  "call_plan_approve lc vs cfg a pid opts = once (ao_requestId opts) ''plan.approved'' (by_actor a None (Some pid))
     (\<lambda>db. bindE (transaction (plans_approve lc vs cfg a pid opts) db) (\<lambda>((p, fs), db'). Inr ((p, JArr (map jfinding fs)), db')))
     (\<lambda>w db. bindE (replay_plan w db) (\<lambda>p. Inr (p, unjson_findings (pw_payload w))))"

definition call_plan_discard where
  "call_plan_discard lc a pid opts = once (ao_requestId opts) ''plan.discarded'' (by_actor a None (Some pid))
     (transaction (plans_discard lc a pid opts)) replay_plan"

text \<open>The role check runs before any replay, so a replay never hands a claim to a role that can't work.\<close>

definition call_claim where
  "call_claim lc a opts swept taken uuid later db = bindE (mayWork lc a ''claim'' None) (\<lambda>_.
     once (co_requestId opts) (''move:'' @ l_onClaim lc) (by_actor a None None)
       (transaction (claim_next lc a opts swept taken uuid)) replay_claim later db)"

subsection \<open>A request is acted on once\<close>

lemma find_append: "find P xs = Some x \<Longrightarrow> find P (xs @ ys) = Some x"
  by (induction xs) auto

text \<open>A prior write answers for good: the log only grows.\<close>

lemma priorWrite_grows:
  "priorWrite db r = Some p \<Longrightarrow> d_events db' = d_events db @ new \<Longrightarrow> priorWrite db' r = Some p"
  by (auto simp: priorWrite_def find_append)

lemma once_replays:
  assumes "priorWrite db r = Some p" "pw_kind p = kind" "pw_actor p = ex_actor ex"
    and "ex_planId ex = None \<or> pw_planId p = ex_planId ex" "ex_taskId ex = None \<or> pw_taskId p = ex_taskId ex" "r \<noteq> ''''"
  shows "once (Some r) kind ex act replay later db = bindE (replay p db) (\<lambda>x. Inr (x, db))"
  using assms by (cases "replay p db") (auto simp: once_def replayed_def)

lemma once_steps:
  "once req kind ex act replay later db = Inr (x, db') \<Longrightarrow> db' = db \<or> db' = later \<or> (\<exists>y. act db = Inr (y, db'))"
  by (auto simp: once_def split: option.splits if_splits sum.splits)

text \<open>The events a transaction writes carry the request ids its body gave them.\<close>

lemma insertEvents_events:
  "insertEvents es db = Inr db' \<Longrightarrow> \<exists>new. d_events db' = d_events db @ new \<and>
     map e_requestId new = map n_requestId es \<and> map e_kind new = map n_kind es \<and> map e_actor new = map n_actor es \<and>
     map e_taskId new = map n_taskId es \<and> map e_planId new = map n_planId es \<and> map e_attemptId new = map n_attemptId es"
proof (induction es arbitrary: db)
  case (Cons e es)
  then obtain db1 where 1: "insertEvent e db = Inr db1" "insertEvents es db1 = Inr db'" by auto
  have "d_events db1 = d_events db @ [toEvent (d_nextEventId db) (d_now db) e]"
    using 1(1) by (auto simp: insertEvent_def split: if_splits)
  with Cons.IH[OF 1(2)] show ?case by (auto simp: toEvent_def)
qed simp

lemma writeEvents_events:
  "writeEvents es db = Inr db' \<Longrightarrow> \<exists>new. d_events db' = d_events db @ new \<and>
     map e_requestId new = map n_requestId es \<and> map e_kind new = map n_kind es \<and> map e_actor new = map n_actor es \<and>
     map e_taskId new = map n_taskId es \<and> map e_planId new = map n_planId es \<and> map e_attemptId new = map n_attemptId es"
  by (auto simp: writeEvents_def split: if_splits dest!: insertEvents_events)

end
