(* ===== verification/Transitions.thy ===== *)
theory Transitions
  imports Main
begin

text \<open>
  State machines: the states a step relation reaches, and the proof rule that an invariant of every step
  holds in them all. The engine, the worker's pause latch and its scheduling loop are instances.
\<close>

subsection \<open>Transition systems\<close>

locale transition_system =
  fixes init :: "'s \<Rightarrow> bool" and step :: "'s \<Rightarrow> 's \<Rightarrow> bool"
begin

definition reachable :: "'s \<Rightarrow> bool" where
  "reachable s \<longleftrightarrow> (\<exists>s0. init s0 \<and> step\<^sup>*\<^sup>* s0 s)"

lemma reachable_step: "reachable s \<Longrightarrow> step s s' \<Longrightarrow> reachable s'"
  unfolding reachable_def by (meson rtranclp.rtrancl_into_rtrancl)

end

locale inductive_invariant = transition_system init step
  for init :: "'s \<Rightarrow> bool" and step :: "'s \<Rightarrow> 's \<Rightarrow> bool" +
  fixes inv :: "'s \<Rightarrow> bool"
  assumes base: "init s \<Longrightarrow> inv s"
    and keeps: "inv s \<Longrightarrow> step s s' \<Longrightarrow> inv s'"
begin

lemma keeps_all: "step\<^sup>*\<^sup>* s s' \<Longrightarrow> inv s \<Longrightarrow> inv s'"
  by (induction rule: rtranclp_induct) (auto intro: keeps)

lemma holds: "reachable s \<Longrightarrow> inv s"
  using base keeps_all unfolding reachable_def by blast

lemma related:
  assumes refl: "\<And>s. R s s" and trans: "\<And>a b c. R a b \<Longrightarrow> R b c \<Longrightarrow> R a c"
    and one: "\<And>s s'. inv s \<Longrightarrow> step s s' \<Longrightarrow> R s s'"
  shows "step\<^sup>*\<^sup>* s s' \<Longrightarrow> inv s \<Longrightarrow> R s s'"
proof (induction rule: rtranclp_induct)
  case base
  show ?case by (rule refl)
next
  case (step y z)
  then show ?case using keeps_all[of s y] one[of y z] trans[of s y z] by blast
qed

end

subsection \<open>Refinement\<close>

text \<open>
  A system simulates an abstract one: through the abstraction, each of its steps from a state of its invariant is zero or
  more abstract steps. Then so is every run, and what all abstract steps keep is kept.
\<close>

locale refinement = inductive_invariant init step inv
  for init :: "'s \<Rightarrow> bool" and step :: "'s \<Rightarrow> 's \<Rightarrow> bool" and inv :: "'s \<Rightarrow> bool" +
  fixes abs_init :: "'a \<Rightarrow> bool" and abs_step :: "'a \<Rightarrow> 'a \<Rightarrow> bool" and view :: "'s \<Rightarrow> 'a"
  assumes starts: "init s \<Longrightarrow> abs_init (view s)"
    and simulates: "inv s \<Longrightarrow> step s s' \<Longrightarrow> abs_step\<^sup>*\<^sup>* (view s) (view s')"
begin

lemma runs: "inv s \<Longrightarrow> step\<^sup>*\<^sup>* s s' \<Longrightarrow> abs_step\<^sup>*\<^sup>* (view s) (view s')"
proof (rule related[of "\<lambda>s s'. abs_step\<^sup>*\<^sup>* (view s) (view s')"])
  show "abs_step\<^sup>*\<^sup>* (view a) (view b) \<Longrightarrow> abs_step\<^sup>*\<^sup>* (view b) (view c) \<Longrightarrow> abs_step\<^sup>*\<^sup>* (view a) (view c)" for a b c
    by (rule rtranclp_trans)
qed (auto intro: simulates)

lemma reaches: "reachable s \<Longrightarrow> \<exists>a. abs_init a \<and> abs_step\<^sup>*\<^sup>* a (view s)"
proof -
  assume "reachable s"
  then obtain s0 where "init s0" "step\<^sup>*\<^sup>* s0 s" unfolding reachable_def by blast
  then show ?thesis using starts[of s0] runs[OF base, of s0 s] by blast
qed

end

end
