(* ===== verification/Engine.thy ===== *)
theory Engine
  imports Requests Transitions
begin

text \<open>
  The engine under one version of its lifecycle: every write an actor handle or the lease sweep can make but the
  activation of another version, which \<open>Versions\<close> adds, in any order, by any actor, while the clock runs and the
  caller's own rows change (client.ts). A refused write is a step
  that changes nothing, so it needs no step; what another process writes between a write's failure and
  its second look is a step of its own.

  The theorems: every project state that can be reached satisfies the invariant of the rows and of the
  event log (\<open>engine.holds\<close>), moves only along declared moves, and never leaves a terminal state;
  so the backstop trigger of 0003_activation.ts never refuses a write the engine makes. Where the rows' invariant needs a
  lifecycle whose claim move is no expiry hook, which registration does not check, the lemmas say so.
\<close>

subsection \<open>Every write under one version\<close>

datatype 'x op =
    TaskCreate new_task "nat \<Rightarrow> nat" "string option"
  | TaskUpdate string task_patch "string option"
  | TaskDelete string "string option"
  | TaskApprove string approval_options
  | DepAdd string string "string option"
  | DepRemove string string "string option"
  | LinkAdd string string string "string option"
  | NoteAdd string string "string option"
  | Move string string move_options "string option"
  | PlanCreate string "json option" "nat \<Rightarrow> nat" "string option"
  | PlanApprove string approval_options
  | PlanDiscard string approval_options
  | Claim claim_options "string list" "string list" string
  | Heartbeat string string int
  | ExpireLeases "string list"

definition rows_after :: "tg_error + ('a \<times> 'x db) \<Rightarrow> tg_error + 'x db" where
  "rows_after r = bindE r (\<lambda>(_, db). Inr db)"

fun exec ::
  "'x lifecycle \<Rightarrow> 'x validator list \<Rightarrow> (string \<Rightarrow> json) \<Rightarrow> actor \<Rightarrow> 'x op \<Rightarrow> 'x db \<Rightarrow> tg_error + 'x db" where
  "exec lc vs cfg a (TaskCreate t rand req) db = rows_after (call_create lc a t rand req db db)"
| "exec lc vs cfg a (TaskUpdate i p req) db = rows_after (call_update lc a i p req db db)"
| "exec lc vs cfg a (TaskDelete i req) db = rows_after (call_delete lc a i req db db)"
| "exec lc vs cfg a (TaskApprove i opts) db = rows_after (call_task_approve lc vs cfg a i opts db db)"
| "exec lc vs cfg a (DepAdd i j req) db = rows_after (call_dep_add lc a i j req db db)"
| "exec lc vs cfg a (DepRemove i j req) db = rows_after (call_dep_remove lc a i j req db db)"
| "exec lc vs cfg a (LinkAdd x y k req) db = rows_after (call_link_add lc a x y k req db db)"
| "exec lc vs cfg a (NoteAdd i note req) db = rows_after (call_note_add lc a i note req db db)"
| "exec lc vs cfg a (Move i nm opts fence) db = rows_after (call_move lc a i nm opts fence db db)"
| "exec lc vs cfg a (PlanCreate title meta rand req) db = rows_after (call_plan_create lc a title meta rand req db db)"
| "exec lc vs cfg a (PlanApprove pid opts) db = rows_after (call_plan_approve lc vs cfg a pid opts db db)"
| "exec lc vs cfg a (PlanDiscard pid opts) db = rows_after (call_plan_discard lc a pid opts db db)"
| "exec lc vs cfg a (Claim opts swept taken uuid) db = rows_after (call_claim lc a opts swept taken uuid db db)"
| "exec lc vs cfg a (Heartbeat i att ms) db = rows_after (transaction (heartbeat lc a i att ms) db)"
| "exec lc vs cfg a (ExpireLeases locked) db = rows_after (transaction (expireLeases lc locked) db)"

text \<open>A step: a write, the clock, or the caller's rows.\<close>

inductive step :: "'x lifecycle \<Rightarrow> 'x validator list \<Rightarrow> (string \<Rightarrow> json) \<Rightarrow> 'x db \<Rightarrow> 'x db \<Rightarrow> bool"
  for lc vs cfg where
  call: "exec lc vs cfg a op db = Inr db' \<Longrightarrow> step lc vs cfg db db'"
| tick: "d_now db \<le> n \<Longrightarrow> step lc vs cfg db (db\<lparr>d_now := n\<rparr>)"
| caller: "step lc vs cfg db (db\<lparr>d_caller := c\<rparr>)"

inductive_cases stepE: "step lc vs cfg db db'"

text \<open>A project starts with no rows and, in its log, at most the event of its creation.\<close>

definition new_project :: "'x db \<Rightarrow> bool" where
  "new_project db \<longleftrightarrow> d_tasks db = [] \<and> d_deps db = [] \<and> d_links db = [] \<and>
     d_attempts db = [] \<and> d_plans db = [] \<and> length (d_events db) \<le> 1 \<and> log_ok db"

subsection \<open>A write is its body's transaction, or changes nothing\<close>

definition body_step :: "('a, 'x) body \<Rightarrow> 'x db \<Rightarrow> 'x db \<Rightarrow> bool" where
  "body_step body db db' \<longleftrightarrow> (\<exists>r. transaction body db = Inr (r, db'))"

lemma rows_after_Inr: "rows_after r = Inr db' \<longleftrightarrow> (\<exists>x. r = Inr (x, db'))"
  by (auto simp: rows_after_def)

lemma once_body: "rows_after (once req kind ex (transaction body) replay db db) = Inr db' \<Longrightarrow> db' = db \<or> body_step body db db'"
  unfolding rows_after_Inr body_step_def by (blast dest: once_steps)

lemma exec_cases:
  assumes "exec lc vs cfg a op db = Inr db'"
  shows "db' = db \<or> (case op of
      TaskCreate t rand req \<Rightarrow> body_step (tasks_create lc a t rand req) db db'
    | TaskUpdate i p req \<Rightarrow> body_step (tasks_update lc a i p req) db db'
    | TaskDelete i req \<Rightarrow> body_step (tasks_delete lc a i req) db db'
    | TaskApprove i opts \<Rightarrow> body_step (tasks_approve lc vs cfg a i opts) db db'
    | DepAdd i j req \<Rightarrow> body_step (deps_add lc a i j req) db db'
    | DepRemove i j req \<Rightarrow> body_step (deps_remove lc a i j req) db db'
    | LinkAdd x y k req \<Rightarrow> body_step (links_add lc a x y k req) db db'
    | NoteAdd i note req \<Rightarrow> body_step (notes_add lc a i note req) db db'
    | Move i nm opts fence \<Rightarrow> body_step (move lc a i nm opts fence) db db'
    | PlanCreate title meta rand req \<Rightarrow> body_step (plans_create lc a title meta rand req) db db'
    | PlanApprove pid opts \<Rightarrow> body_step (plans_approve lc vs cfg a pid opts) db db'
    | PlanDiscard pid opts \<Rightarrow> body_step (plans_discard lc a pid opts) db db'
    | Claim opts swept taken uuid \<Rightarrow> body_step (claim_next lc a opts swept taken uuid) db db'
    | Heartbeat i att ms \<Rightarrow> body_step (heartbeat lc a i att ms) db db'
    | ExpireLeases locked \<Rightarrow> body_step (expireLeases lc locked) db db')"
proof (cases op)
  case (PlanApprove pid opts)
  then show ?thesis
    using assms by (auto simp: call_plan_approve_def rows_after_Inr body_step_def dest!: once_steps)
next
  case (Claim opts swept taken uuid)
  then show ?thesis
    using assms by (auto simp: call_claim_def rows_after_Inr body_step_def dest!: once_steps)
qed (use assms in \<open>auto simp: call_create_def call_update_def call_delete_def call_task_approve_def call_dep_add_def
    call_dep_remove_def call_link_add_def call_note_add_def call_move_def call_plan_create_def call_plan_discard_def
    body_step_def rows_after_Inr dest!: once_steps\<close>)

lemma body_step_wf:
  "body_step body db db' \<Longrightarrow> (\<And>r db1 evs. body db = Inr (r, db1, evs) \<Longrightarrow> wf lc db1) \<Longrightarrow> wf lc db'"
  unfolding body_step_def by (blast intro: wf_transaction)

lemma exec_wf:
  assumes s: "sound_lifecycle lc" and w: "wf lc db" and e: "exec lc vs cfg a op db = Inr db'"
  shows "wf lc db'"
proof -
  note v = sound_valid[OF s]
  note k = tasks_create_wf[OF v w] tasks_update_wf[OF v w] tasks_delete_wf[OF w] tasks_approve_wf[OF v w]
    deps_add_wf[OF w] deps_remove_wf[OF w] links_add_wf[OF w] notes_add_wf[OF w] move_wf[OF v w]
    plans_create_wf[OF w] plans_approve_wf[OF v w] plans_discard_wf[OF v w] claim_next_wf[OF s w]
    heartbeat_wf[OF w] expireLeases_wf[OF s w]
  from exec_cases[OF e] w show ?thesis
    by (cases op) (auto elim!: body_step_wf intro: k)
qed

subsection \<open>The event log\<close>

definition same_log :: "'x db \<Rightarrow> 'x db \<Rightarrow> bool" where
  "same_log a b \<longleftrightarrow> d_events b = d_events a \<and> d_nextEventId b = d_nextEventId a \<and>
     d_lifecycleName b = d_lifecycleName a \<and> d_lifecycleVersion b = d_lifecycleVersion a"

lemma same_log_trans: "same_log a b \<Longrightarrow> same_log b c \<Longrightarrow> same_log a c"
  by (simp add: same_log_def)

lemma same_log_simps [simp]:
  "same_log a (upd_task i f b) \<longleftrightarrow> same_log a b" "same_log a (endHeld att nm b) \<longleftrightarrow> same_log a b"
  "same_log a (dropEdges i ws b) \<longleftrightarrow> same_log a b" "same_log a (bumped t b) \<longleftrightarrow> same_log a b"
  "same_log a (deleteRow i b) \<longleftrightarrow> same_log a b" "same_log a (upd_plan i pf b) \<longleftrightarrow> same_log a b"
  "same_log a (sweepOne m t' b) \<longleftrightarrow> same_log a b" "same_log a a"
  "same_log a (b\<lparr>d_deps := ds\<rparr>) \<longleftrightarrow> same_log a b" "same_log a (b\<lparr>d_tasks := ts\<rparr>) \<longleftrightarrow> same_log a b"
  "same_log a (b\<lparr>d_plans := ps\<rparr>) \<longleftrightarrow> same_log a b" "same_log a (b\<lparr>d_attempts := ats\<rparr>) \<longleftrightarrow> same_log a b"
  "same_log a (b\<lparr>d_links := ls\<rparr>) \<longleftrightarrow> same_log a b"
  by (auto simp: same_log_def endHeld_def endAttempt_eq dropEdges_def bumped_def deleteRow_def upd_plan_def sweepOne_def
      split: option.splits)

lemma tasks_create_log: "tasks_create lc a t rand req db = Inr (r, db', evs) \<Longrightarrow> same_log db db'"
  by (auto simp: tasks_create_def split: option.splits elim!: createRow_Inr)

lemma tasks_update_log: "tasks_update lc a i p req db = Inr (r, db', evs) \<Longrightarrow> same_log db db'"
  by (auto simp: tasks_update_def Let_def split: if_splits)

lemma tasks_delete_log: "tasks_delete lc a i req db = Inr (r, db', evs) \<Longrightarrow> same_log db db'"
  by (auto simp: tasks_delete_def Let_def split: if_splits)

lemma deps_add_log: "deps_add lc a i j req db = Inr (r, db', evs) \<Longrightarrow> same_log db db'"
  by (auto simp: deps_add_def split: if_splits)

lemma deps_remove_log: "deps_remove lc a i j req db = Inr (r, db', evs) \<Longrightarrow> same_log db db'"
  by (auto simp: deps_remove_def split: if_splits)

lemma links_add_log: "links_add lc a x y k req db = Inr (r, db', evs) \<Longrightarrow> same_log db db'"
  by (auto simp: links_add_def split: if_splits)

lemma notes_add_log: "notes_add lc a i note req db = Inr (r, db', evs) \<Longrightarrow> same_log db db'"
  by (auto simp: notes_add_def split: if_splits)

lemma move_log: "move lc a i nm opts fence db = Inr (r, db', evs) \<Longrightarrow> same_log db db'"
  by (auto elim!: move_Inr)

lemma plans_create_log: "plans_create lc a title meta rand req db = Inr (r, db', evs) \<Longrightarrow> same_log db db'"
  by (auto simp: plans_create_def insertPlan_Some dest!: newPlanId_Inr)

lemma moveInTx_log: "moveInTx lc a t m payload req db = Inr (r, db', evs) \<Longrightarrow> same_log db db'"
  by (auto dest: moveInTx_Inr)

lemma approveEach_log: "approveEach lc a m payload ts db = Inr (db', evs) \<Longrightarrow> same_log db db'"
proof (induction ts arbitrary: db evs)
  case (Cons t ts)
  then show ?case by (auto split: if_splits dest!: moveInTx_log intro: same_log_trans)
qed simp

lemma discardEach_log: "discardEach lc a m payload is db = Inr (ts, db', evs) \<Longrightarrow> same_log db db'"
  by (induction "is" arbitrary: db ts evs) (auto dest!: moveInTx_log intro: same_log_trans)

lemma plans_approve_log: "plans_approve lc vs cfg a pid opts db = Inr (r, db', evs) \<Longrightarrow> same_log db db'"
  by (cases r) (auto elim!: plans_approve_Inr dest: approveEach_log)

lemma plans_discard_log: "plans_discard lc a pid opts db = Inr (r, db', evs) \<Longrightarrow> same_log db db'"
  by (erule plans_discard_Inr) (auto dest: discardEach_log)

lemma tasks_approve_log: "tasks_approve lc vs cfg a i opts db = Inr (r, db', evs) \<Longrightarrow> same_log db db'"
  by (auto simp: tasks_approve_def split: if_splits option.splits dest: moveInTx_log)

lemma sweepRows_log: "sweepRows lc rows db = Inr (db', evs) \<Longrightarrow> same_log db db'"
proof (induction lc rows db arbitrary: evs rule: sweepRows.induct)
  case (2 lc t n rows db)
  then obtain m evs1 where m: "expiryMove lc n = Some m" and r: "sweepRows lc rows (sweepOne m t db) = Inr (db', evs1)"
    by (auto split: option.splits)
  have "same_log db (sweepOne m t db)" by simp
  then show ?case using "2.IH"[OF m r] same_log_trans by blast
qed simp

lemma sweep_log: "sweep lc locked db = Inr (r, db', evs) \<Longrightarrow> same_log db db'"
  by (auto simp: sweep_def Let_def dest: sweepRows_log)

lemma claim_next_log:
  assumes c: "claim_next lc a opts swept taken uuid db = Inr (r, db', evs)"
  shows "same_log db db'"
proof (rule claim_next_Inr[OF c])
  fix n db1 evs1
  assume s: "sweep lc swept db = Inr (n, db1, evs1)"
    and none: "r = None \<Longrightarrow> nextReady lc taken (co_filter opts) db1 = None \<and> db' = db1"
    and some: "\<And>c. r = Some c \<Longrightarrow> \<exists>t e. nextReady lc taken (co_filter opts) db1 = Some t \<and> leaseTask lc a opts uuid t db1 = Inr (c, db', e)"
  have "same_log db1 db'" using none some by (cases r) (auto elim!: leaseTask_Inr)
  then show ?thesis using sweep_log[OF s] same_log_trans by blast
qed

lemma heartbeat_log: "heartbeat lc a i att ms db = Inr (r, db', evs) \<Longrightarrow> same_log db db'"
  by (auto simp: heartbeat_def Let_def split: option.splits if_splits)

lemma expireLeases_log: "expireLeases lc locked db = Inr (r, db', evs) \<Longrightarrow> same_log db db'"
  unfolding expireLeases_def by (rule sweep_log)

lemmas logs = tasks_create_log tasks_update_log tasks_delete_log deps_add_log deps_remove_log links_add_log notes_add_log
  move_log plans_create_log plans_approve_log plans_discard_log tasks_approve_log claim_next_log heartbeat_log expireLeases_log

text \<open>The log as a history: what was written stays, and new ids are larger than all before.\<close>

definition extends :: "'x db \<Rightarrow> 'x db \<Rightarrow> bool" where
  "extends a b \<longleftrightarrow> (\<exists>new. d_events b = d_events a @ new)"

definition same_version :: "'x db \<Rightarrow> 'x db \<Rightarrow> bool" where
  "same_version a b \<longleftrightarrow> d_lifecycleName b = d_lifecycleName a \<and> d_lifecycleVersion b = d_lifecycleVersion a"

lemma body_step_version:
  assumes b: "body_step body db db'" and q: "\<And>r db1 evs. body db = Inr (r, db1, evs) \<Longrightarrow> same_log db db1"
  shows "same_version db db'"
proof -
  obtain r db1 evs where 1: "body db = Inr (r, db1, evs)" and s: "same_rows db1 db'"
    using b by (auto simp: body_step_def dest!: transaction_Inr)
  show ?thesis using q[OF 1] s by (cases db1; cases db') (simp add: same_version_def same_log_def same_rows_def)
qed

text \<open>No call but an activation changes the project's version.\<close>

lemma exec_version:
  assumes e: "exec lc vs cfg a op db = Inr db'"
  shows "same_version db db'"
proof (cases "db' = db")
  case False
  with exec_cases[OF e] show ?thesis
    by (cases op) (simp_all, (rule body_step_version, assumption, erule logs)+)
qed (simp add: same_version_def)

lemma body_step_log:
  assumes b: "body_step body db db'" and l: "log_ok db"
    and q: "\<And>r db1 evs. body db = Inr (r, db1, evs) \<Longrightarrow> same_log db db1"
  shows "log_ok db' \<and> extends db db'"
proof -
  obtain r where "transaction body db = Inr (r, db')" using b by (auto simp: body_step_def)
  then obtain db1 evs where 1: "body db = Inr (r, db1, evs)" and w: "writeEvents evs db1 = Inr db'"
    by (auto simp: transaction_def)
  have "log_ok db1" "d_events db1 = d_events db" using q[OF 1] l by (simp_all add: same_log_def log_ok_def)
  then show ?thesis using writeEvents_log[OF w] by (simp add: extends_def)
qed

lemma exec_log:
  assumes l: "log_ok db" and e: "exec lc vs cfg a op db = Inr db'"
  shows "log_ok db' \<and> extends db db'"
proof (cases "db' = db")
  case False
  with exec_cases[OF e] l show ?thesis
    by (cases op) (simp_all, (rule body_step_log, assumption, assumption, erule logs)+)
qed (use l in \<open>simp add: extends_def\<close>)

subsection \<open>States change only along declared moves\<close>

definition along :: "'x move set \<Rightarrow> (string \<times> string) set" where
  "along M = {(s, m_to m) | s m. m \<in> M \<and> s \<in> set (m_from m)}"

definition moves_rel :: "'x lifecycle \<Rightarrow> (string \<times> string) set" where
  "moves_rel lc = along (set (l_moves lc))"

text \<open>The moves a call may make: the one it names, when the actor's role may make it, and the sweep's.\<close>

definition may :: "'x lifecycle \<Rightarrow> actor \<Rightarrow> string \<Rightarrow> 'x move set" where
  "may lc a nm = {m. moveNamed lc nm = Some m \<and> ac_role a \<in> set (m_by m)}"

definition expiries :: "'x lifecycle \<Rightarrow> 'x move set" where
  "expiries lc = {m. is_expiry_hook lc (m_name m) \<and> moveNamed lc (m_name m) = Some m}"

fun op_moves :: "'x lifecycle \<Rightarrow> actor \<Rightarrow> 'x op \<Rightarrow> 'x move set" where
  "op_moves lc a (Move i nm opts fence) = may lc a nm"
| "op_moves lc a (TaskApprove i opts) = may lc a (l_onApprove lc)"
| "op_moves lc a (PlanApprove pid opts) = may lc a (l_onApprove lc)"
| "op_moves lc a (PlanDiscard pid opts) = may lc a (l_onDiscard lc)"
| "op_moves lc a (Claim opts swept taken uuid) = may lc a (l_onClaim lc) \<union> expiries lc"
| "op_moves lc a (ExpireLeases locked) = expiries lc"
| "op_moves lc a op = {}"

definition starts :: "'x lifecycle \<Rightarrow> string \<Rightarrow> bool" where
  "starts lc s \<longleftrightarrow> s = l_createState lc \<or> s \<in> snd ` set (opt_list (l_byRole lc))"

text \<open>
  What the trigger of the tasks table allows, over a whole transaction: a row starts where the create rules
  say, is deleted only from the create state, and changes state along the moves.
\<close>

definition evolves :: "'x lifecycle \<Rightarrow> 'x move set \<Rightarrow> 'x db \<Rightarrow> 'x db \<Rightarrow> bool" where
  "evolves lc M db db' \<longleftrightarrow> (\<forall>i. case (find_task i db, find_task i db') of
       (Some t, Some t') \<Rightarrow> (t_state t, t_state t') \<in> (along M)\<^sup>*
     | (Some t, None) \<Rightarrow> t_state t = l_createState lc
     | (None, Some t') \<Rightarrow> starts lc (t_state t')
     | (None, None) \<Rightarrow> True)"

definition moved_along :: "'x move set \<Rightarrow> 'x db \<Rightarrow> 'x db \<Rightarrow> bool" where
  "moved_along M db db' \<longleftrightarrow>
     (\<forall>i. rel_option (\<lambda>t t'. (t_state t, t_state t') \<in> (along M)\<^sup>*) (find_task i db) (find_task i db'))"

lemma moved_along_evolves:
  assumes "moved_along M db db'"
  shows "evolves lc M db db'"
  unfolding evolves_def
proof
  fix i
  show "case (find_task i db, find_task i db') of
       (Some t, Some t') \<Rightarrow> (t_state t, t_state t') \<in> (along M)\<^sup>*
     | (Some t, None) \<Rightarrow> t_state t = l_createState lc
     | (None, Some t') \<Rightarrow> starts lc (t_state t')
     | (None, None) \<Rightarrow> True"
    using assms[unfolded moved_along_def, rule_format, of i]
    by (cases "find_task i db"; cases "find_task i db'") auto
qed

lemma moved_along_refl: "d_tasks db' = d_tasks db \<Longrightarrow> moved_along M db db'"
  by (simp add: moved_along_def option.rel_refl)

lemma moved_along_trans: "moved_along M a b \<Longrightarrow> moved_along M b c \<Longrightarrow> moved_along M a c"
  unfolding moved_along_def
proof
  fix i
  assume "\<forall>i. rel_option (\<lambda>t t'. (t_state t, t_state t') \<in> (along M)\<^sup>*) (find_task i a) (find_task i b)"
    and "\<forall>i. rel_option (\<lambda>t t'. (t_state t, t_state t') \<in> (along M)\<^sup>*) (find_task i b) (find_task i c)"
  then have "rel_option (\<lambda>t t'. (t_state t, t_state t') \<in> (along M)\<^sup>*) (find_task i a) (find_task i b)"
    "rel_option (\<lambda>t t'. (t_state t, t_state t') \<in> (along M)\<^sup>*) (find_task i b) (find_task i c)" by auto
  then show "rel_option (\<lambda>t t'. (t_state t, t_state t') \<in> (along M)\<^sup>*) (find_task i a) (find_task i c)"
    by (auto simp: rel_option_iff split: option.splits intro: rtrancl_trans)
qed

lemma moved_along_upd:
  assumes "\<And>t. t_id (f t) = t_id t" "\<And>t. find_task i db = Some t \<Longrightarrow> (t_state t, t_state (f t)) \<in> (along M)\<^sup>*"
    and "d_tasks db' = upd_row t_id i f (d_tasks db)"
  shows "moved_along M db db'"
  unfolding moved_along_def assms(3) find_row_upd[of t_id f, OF assms(1)]
  using assms(2) by (auto simp: option.rel_refl rel_option_iff split: option.splits)

lemma along_mono: "M \<subseteq> N \<Longrightarrow> along M \<subseteq> along N"
  by (auto simp: along_def)

lemma moved_along_mono:
  assumes "M \<subseteq> N" "moved_along M db db'"
  shows "moved_along N db db'"
proof -
  have "(along M)\<^sup>* \<subseteq> (along N)\<^sup>*" using along_mono[OF assms(1)] by (rule rtrancl_mono)
  then show ?thesis
    using assms(2) unfolding moved_along_def by (auto intro: option.rel_mono_strong)
qed

lemma evolves_mono:
  assumes "M \<subseteq> N" "evolves lc M db db'"
  shows "evolves lc N db db'"
proof -
  have "(along M)\<^sup>* \<subseteq> (along N)\<^sup>*" using along_mono[OF assms(1)] by (rule rtrancl_mono)
  then show ?thesis
    using assms(2) unfolding evolves_def by (fastforce split: option.splits)
qed

lemma in_along: "m \<in> M \<Longrightarrow> s \<in> set (m_from m) \<Longrightarrow> (s, m_to m) \<in> along M"
  by (auto simp: along_def)

lemma tasks_create_evolves:
  assumes c: "tasks_create lc a t rand req db = Inr (row, db', evs)"
  shows "evolves lc M db db'"
proof (cases "Option.bind (nt_key t) (taskByKey db)")
  case (Some e)
  then have "db' = db" using c by (auto simp: tasks_create_def)
  then show ?thesis by (simp add: moved_along_evolves moved_along_refl)
next
  case None
  let ?st = "createState lc (ac_role a) (nt_plan t)"
  have cr: "createRow db t ?st (createOrigin (ac_role a) (nt_plan t)) rand = Inr (row, db')"
    using c None by (auto simp: tasks_create_def)
  show ?thesis
  proof (rule createRow_Inr[OF cr])
    fix i assume row: "row = newRow db t ?st (createOrigin (ac_role a) (nt_plan t)) i"
      and db': "db' = (bumped t db)\<lparr>d_tasks := d_tasks (bumped t db) @ [row]\<rparr>"
    have "starts lc (t_state row)"
      by (force simp: row newRow_def createState_def starts_def split: option.splits dest!: map_of_SomeD)
    then show ?thesis
      by (auto simp: evolves_def db' find_row_append find_bumped split: option.splits)
  qed
qed

lemma tasks_update_moved:
  assumes c: "tasks_update lc a i p req db = Inr (row, db', evs)"
  shows "moved_along M db db'"
proof -
  obtain t kcs pcs where t: "find_task i db = Some t" and parse: "parseTaskPatch p = Inr ()"
      and k: "kindChanges db p t = Inr kcs" and pc: "parentChanges lc db p t = Inr pcs"
      and db': "db' = db \<or> db' = upd_task i (\<lambda>r. (applySets (fieldChanges p t @ kcs @ pcs) r)\<lparr>t_updatedAt := d_now db\<rparr>) db"
    using c by (auto simp: tasks_update_def Let_def split: if_splits)
  have "keeps_row (applySets (fieldChanges p t @ kcs))"
    by (rule applySets_keeps) (use change_sets[OF _ parse] kindChanges_keeps[OF k] in \<open>unfold set_append Un_iff, blast\<close>)
  then have 1: "t_id (applySets (fieldChanges p t @ kcs) r) = t_id r" "t_state (applySets (fieldChanges p t @ kcs) r) = t_state r" for r
    by (simp_all add: keeps_defs)
  have 2: "t_id (applySets pcs r) = t_id r" "t_state (applySets pcs r) = t_state r" for r
  proof -
    have "pcs = [] \<or> (\<exists>np. applySets pcs = t_parentId_update (\<lambda>_. np))" using parentChanges_Inr[OF pc] by blast
    then show "t_id (applySets pcs r) = t_id r" "t_state (applySets pcs r) = t_state r"
      by (auto simp: applySets_def[of "[]"])
  qed
  have "t_id (applySets (fieldChanges p t @ kcs @ pcs) r) = t_id r" "t_state (applySets (fieldChanges p t @ kcs @ pcs) r) = t_state r" for r
    using 1 2 applySets_append[of "fieldChanges p t @ kcs" pcs r] by simp_all
  then have "moved_along M db (upd_task i (\<lambda>r. (applySets (fieldChanges p t @ kcs @ pcs) r)\<lparr>t_updatedAt := d_now db\<rparr>) db)"
    by (intro moved_along_upd[where i = i and f = "\<lambda>r. (applySets (fieldChanges p t @ kcs @ pcs) r)\<lparr>t_updatedAt := d_now db\<rparr>"]) auto
  then show ?thesis using db' moved_along_refl[of db db M] by auto
qed

lemma tasks_delete_evolves:
  assumes "tasks_delete lc a i req db = Inr (r, db', evs)"
  shows "evolves lc M db db'"
proof -
  obtain t where "find_task i db = Some t" "t_state t = l_createState lc" "db' = deleteRow i db"
    using assms by (auto simp: tasks_delete_def Let_def dest!: lockWithParent_Inr split: if_splits)
  then show ?thesis by (auto simp: evolves_def deleteRow_def find_row_del split: option.split)
qed

lemma move_moved: "move lc a i nm opts fence db = Inr (r, db', evs) \<Longrightarrow> moved_along (may lc a nm) db db'"
proof (erule move_Inr)
  fix m t dropped
  assume m: "moveNamed lc nm = Some m" and t: "find_task i db = Some t"
    and r: "moveRefusals lc a m opts fence t db = Inr dropped"
    and db': "db' = upd_task i (moved_row lc m (d_now db)) (endHeld (heldAttempt lc t) nm (dropEdges i dropped db))"
  have "(t_state t, m_to m) \<in> along (may lc a nm)"
    using moveRefusals_Inr(1,2)[OF r] m by (auto simp: may_def intro!: in_along)
  then show ?thesis
    by (intro moved_along_upd[where i = i and f = "moved_row lc m (d_now db)"]) (use t in \<open>auto simp: db' moved_row_def\<close>)
qed

lemma tx_moved:
  assumes f: "\<And>i. find_task i db' = map_option (\<lambda>u. if P i then tx_row lc m n u else u) (find_task i db)"
    and m: "m \<in> M" and s: "\<And>i t. P i \<Longrightarrow> find_task i db = Some t \<Longrightarrow> t_state t \<in> set (m_from m)"
  shows "moved_along M db db'"
  unfolding moved_along_def f using s in_along[OF m] by (auto simp: rel_option_iff tx_row_def split: option.splits)

lemma plans_approve_moved:
  assumes v: "valid_lifecycle lc" and w: "wf lc db" and c: "plans_approve lc vs cfg a pid opts db = Inr (r, db', evs)"
  shows "moved_along (may lc a (l_onApprove lc)) db db'"
proof -
  obtain p fs where r: "r = (p, fs)" by (cases r)
  show ?thesis
  proof (rule plans_approve_Inr[OF c[unfolded r]])
    fix m s db1 evs1
    assume m: "moveNamed lc (l_onApprove lc) = Some m" and o: "openPlan db pid = Inr s"
      and e: "approveEach lc a m (JObj [(''via'', JStr (ao_via opts)), (''planId'', JStr pid)]) (sn_tasks s) db = Inr (db1, evs1)"
      and db': "db' = upd_plan pid (\<lambda>p. p\<lparr>p_approvedAt := Some (d_now db), p_approvedBy := Some (ac_id a)\<rparr>) db1"
    have fr: "fresh_for (sn_tasks s) db" using fresh_snapshot[OF w o] .
    have cm: "l_createState lc \<in> set (m_from m)" "m \<in> set (l_moves lc)" using approve_move[OF v] m by (metis option.inject)+
    have role: "ac_role a \<in> set (m_by m)" using c m by (auto simp: plans_approve_def)
    have "moved_along (may lc a (l_onApprove lc)) db db1"
    proof (rule tx_moved)
      show "m \<in> may lc a (l_onApprove lc)" using m role by (simp add: may_def)
      show "find_task i db1 = map_option (\<lambda>u. if i \<in> t_id ` {t \<in> set (sn_tasks s). t_state t = l_createState lc}
          then tx_row lc m (d_now db) u else u) (find_task i db)" for i
        using approveEach_Inr[OF v m w fr e] by (simp add: opened_def)
      show "t_state t \<in> set (m_from m)"
        if "i \<in> t_id ` {t \<in> set (sn_tasks s). t_state t = l_createState lc}" "find_task i db = Some t" for i t
        using that fr cm(1) by (auto simp: fresh_for_def)
    qed
    then show ?thesis by (simp add: db' moved_along_def)
  qed
qed

lemma plans_discard_moved:
  assumes v: "valid_lifecycle lc" and w: "wf lc db" and c: "plans_discard lc a pid opts db = Inr (r, db', evs)"
  shows "moved_along (may lc a (l_onDiscard lc)) db db'"
proof (rule plans_discard_Inr[OF c])
  fix m s going ts db1 evs1
  assume *: "moveNamed lc (l_onDiscard lc) = Some m" "openPlan db pid = Inr s"
    "going = filter (\<lambda>t. t_state t = l_createState lc \<and> t_state t \<in> set (m_from m)) (sn_tasks s)"
    "refuseLeft lc going db = Inr ()"
    "discardEach lc a m (JObj [(''via'', JStr (ao_via opts)), (''planId'', JStr pid)]) (cancelOrder going (sn_deps s)) db = Inr (ts, db1, evs1)"
    and db': "db' = upd_plan pid (\<lambda>p. p\<lparr>p_discardedAt := Some (d_now db), p_discardedBy := Some (ac_id a)\<rparr>) db1"
  have fr: "fresh_for (sn_tasks s) db" using fresh_snapshot[OF w *(2)] .
  have role: "ac_role a \<in> set (m_by m)" using c *(1) by (auto simp: plans_discard_def Let_def)
  have "moved_along (may lc a (l_onDiscard lc)) db db1"
  proof (rule tx_moved)
    show "m \<in> may lc a (l_onDiscard lc)" using *(1) role by (simp add: may_def)
    show "find_task i db1 = map_option (\<lambda>u. if i \<in> t_id ` set going then tx_row lc m (d_now db) u else u) (find_task i db)" for i
      using plans_discard_each(4)[OF v w *] by (simp add: option.map_ident)
    show "t_state t \<in> set (m_from m)" if "i \<in> t_id ` set going" "find_task i db = Some t" for i t
      using that fr by (auto simp: *(3) fresh_for_def)
  qed
  then show ?thesis by (simp add: db' moved_along_def)
qed

lemma tasks_approve_moved:
  assumes c: "tasks_approve lc vs cfg a i opts db = Inr (r, db', evs)"
  shows "moved_along (may lc a (l_onApprove lc)) db db'"
proof -
  obtain m t payload req where role: "ac_role a \<in> set (m_by m)" and m: "moveNamed lc (l_onApprove lc) = Some m" and t: "find_task i db = Some t"
      and st: "t_state t \<in> set (m_from m)" and mv: "moveInTx lc a t m payload req db = Inr (r, db', evs)"
    using c by (auto simp: tasks_approve_def split: if_splits option.splits)
  show ?thesis
    using moveInTx_Inr[OF mv] find_row_Some[OF t] t st m role
    by (intro moved_along_upd[where i = i and f = "tx_row lc m (d_now db)"])
       (auto simp: tx_row_def may_def intro!: r_into_rtrancl in_along)
qed

lemma sweep_moved:
  assumes s: "sound_lifecycle lc" and w: "wf lc db" and c: "sweep lc locked db = Inr (n, db', evs)"
  shows "moved_along (expiries lc) db db'"
  unfolding moved_along_def
proof
  fix i
  show "rel_option (\<lambda>t t'. (t_state t, t_state t') \<in> (along (expiries lc))\<^sup>*) (find_task i db) (find_task i db')"
  proof (cases "i \<in> t_id ` set (lapsed lc locked db)")
    case False
    then show ?thesis using sweep_Inr(5)[OF s w c] by (simp add: option.rel_refl)
  next
    case True
    then obtain t where t: "t \<in> set (lapsed lc locked db)" "i = t_id t" by auto
    then have tm: "t \<in> set (d_tasks db)" "Some (t_state t) = leasedState lc" by (simp_all add: lapsed_iff)
    obtain m where m: "expiryMove lc (Suc (priorExpiries db (t_id t) (l_onLeaseExpiry lc))) = Some m"
        "find_task (t_id t) db' = Some (swept_row m (d_now db) t)"
      using sweep_Inr(6)[OF s w c t(1)] by blast
    have h: "is_expiry_hook lc (m_name m)" "moveNamed lc (m_name m) = Some m" using expiryMove_SomeD[OF m(1)] by auto
    then have "t_state t \<in> set (m_from m)"
      using expiry_move[OF sound_valid[OF s] h(1)] tm(2) by (metis option.inject)
    then have "(t_state t, m_to m) \<in> along (expiries lc)" using h by (intro in_along) (simp add: expiries_def)
    moreover have "find_task i db = Some t"
      using find_row_unique[of t_id "d_tasks db" t] tm(1) wfD(1)[OF w] t(2) by (simp add: forest_ok_def)
    ultimately show ?thesis using m(2) t(2) by (auto simp: swept_row_def)
  qed
qed

lemma leaseTask_moved:
  assumes v: "valid_lifecycle lc" and w: "wf lc db" and t: "t \<in> set (d_tasks db)" "Some (t_state t) = claimableState lc"
    and c: "leaseTask lc a opts uuid t db = Inr (x, db', e)"
  shows "moved_along {m. moveNamed lc (l_onClaim lc) = Some m} db db'"
proof (rule leaseTask_Inr[OF c])
  fix m assume m: "moveNamed lc (l_onClaim lc) = Some m"
    and db': "db' = (upd_task (t_id t) (claimed_row m (d_now db) (co_leaseMs opts) uuid) db)\<lparr>d_attempts :=
       d_attempts db @ [new_attempt a (co_worker opts) (d_now db) uuid (t_id t)]\<rparr>"
  have ft: "find_task (t_id t) db = Some t"
    using find_row_unique[of t_id "d_tasks db" t] t(1) wfD(1)[OF w] by (simp add: forest_ok_def)
  have "t_state t \<in> set (m_from m)" using claim_move[OF v] m t(2) by (metis option.inject)
  then have "(t_state t, m_to m) \<in> along {m. moveNamed lc (l_onClaim lc) = Some m}" using m by (intro in_along) simp
  then show ?thesis
    by (intro moved_along_upd[where i = "t_id t" and f = "claimed_row m (d_now db) (co_leaseMs opts) uuid"])
       (use ft in \<open>auto simp: db' claimed_row_def\<close>)
qed

lemma claim_next_moved:
  assumes s: "sound_lifecycle lc" and w: "wf lc db" and c: "claim_next lc a opts swept taken uuid db = Inr (r, db', evs)"
  shows "moved_along (may lc a (l_onClaim lc) \<union> expiries lc) db db'"
proof (rule claim_next_Inr[OF c])
  fix n db1 evs1
  assume sw: "sweep lc swept db = Inr (n, db1, evs1)"
    and none: "r = None \<Longrightarrow> nextReady lc taken (co_filter opts) db1 = None \<and> db' = db1"
    and some: "\<And>c. r = Some c \<Longrightarrow> \<exists>t e. nextReady lc taken (co_filter opts) db1 = Some t \<and> leaseTask lc a opts uuid t db1 = Inr (c, db', e)"
  note w1 = sweep_Inr(1)[OF s w sw]
  have m1: "moved_along (may lc a (l_onClaim lc) \<union> expiries lc) db db1"
    by (rule moved_along_mono[OF _ sweep_moved[OF s w sw]]) simp
  have claims: "{m. moveNamed lc (l_onClaim lc) = Some m} \<subseteq> may lc a (l_onClaim lc) \<union> expiries lc"
    using c by (auto simp: claim_next_def mayWork_def may_def split: option.splits)
  show ?thesis
  proof (cases r)
    case None
    then show ?thesis using none m1 by simp
  next
    case (Some x)
    then obtain t e where t: "nextReady lc taken (co_filter opts) db1 = Some t" and l: "leaseTask lc a opts uuid t db1 = Inr (x, db', e)"
      using some by blast
    have "Some (t_state t) = claimableState lc" using nextReady_SomeD(3)[OF t] by (simp add: readyWhere_def)
    then show ?thesis
      using moved_along_trans[OF m1 moved_along_mono[OF claims leaseTask_moved[OF sound_valid[OF s] w1 nextReady_SomeD(1)[OF t] _ l]]] by simp
  qed
qed

lemma heartbeat_moved:
  assumes "heartbeat lc a i att ms db = Inr (r, db', evs)"
  shows "moved_along M db db'"
proof -
  have "db' = upd_task i (\<lambda>r. r\<lparr>t_leaseExpiresAt := Some (d_now db + ms)\<rparr>) db"
    using assms by (auto simp: heartbeat_def Let_def split: option.splits if_splits)
  then show ?thesis
    by (intro moved_along_upd[where i = i and f = "\<lambda>r. r\<lparr>t_leaseExpiresAt := Some (d_now db + ms)\<rparr>"]) auto
qed

lemma deps_links_notes_moved:
  "deps_add lc a i j req db = Inr (u, db', evs) \<Longrightarrow> moved_along M db db'"
  "deps_remove lc a i j req db = Inr (u, db', evs) \<Longrightarrow> moved_along M db db'"
  "links_add lc a x y k req db = Inr (u, db', evs) \<Longrightarrow> moved_along M db db'"
  "notes_add lc a i note req db = Inr (u, db', evs) \<Longrightarrow> moved_along M db db'"
  by (auto simp: deps_add_def deps_remove_def links_add_def notes_add_def intro!: moved_along_refl split: if_splits)

lemma plans_create_moved: "plans_create lc a title meta rand req db = Inr (r, db', evs) \<Longrightarrow> moved_along M db db'"
  by (auto simp: plans_create_def insertPlan_Some dest!: newPlanId_Inr intro!: moved_along_refl)

lemma body_step_evolves:
  assumes b: "body_step body db db'" and e: "\<And>r db1 evs. body db = Inr (r, db1, evs) \<Longrightarrow> evolves lc M db db1"
  shows "evolves lc M db db'"
proof -
  obtain r db1 evs where 1: "body db = Inr (r, db1, evs)" and s: "same_rows db1 db'"
    using b by (auto simp: body_step_def dest!: transaction_Inr)
  have "evolves lc M db db1" using e[OF 1] .
  then show ?thesis using same_rowsD(1)[OF s] by (simp add: evolves_def)
qed

lemma exec_evolves:
  assumes s: "sound_lifecycle lc" and w: "wf lc db" and e: "exec lc vs cfg a op db = Inr db'"
  shows "evolves lc (op_moves lc a op) db db'"
proof (cases "db' = db")
  case False
  note v = sound_valid[OF s]
  note k = tasks_create_evolves tasks_delete_evolves
    tasks_update_moved[THEN moved_along_evolves] tasks_approve_moved[THEN moved_along_evolves]
    deps_links_notes_moved[THEN moved_along_evolves] move_moved[THEN moved_along_evolves]
    plans_create_moved[THEN moved_along_evolves] plans_approve_moved[OF v w, THEN moved_along_evolves]
    plans_discard_moved[OF v w, THEN moved_along_evolves] claim_next_moved[OF s w, THEN moved_along_evolves]
    heartbeat_moved[THEN moved_along_evolves] sweep_moved[OF s w, THEN moved_along_evolves]
  from exec_cases[OF e] False show ?thesis
    by (cases op) (simp_all add: expireLeases_def[abs_def], (rule body_step_evolves, assumption, erule k)+)
qed (simp add: moved_along_evolves moved_along_refl)

subsection \<open>An ended attempt stays ended\<close>

definition ended_stay :: "'x db \<Rightarrow> 'x db \<Rightarrow> bool" where
  "ended_stay db db' \<longleftrightarrow> (\<forall>x \<in> set (d_attempts db). a_endedAt x \<noteq> None \<longrightarrow> x \<in> set (d_attempts db'))"

lemma ended_stay_same: "d_attempts db' = d_attempts db \<Longrightarrow> ended_stay db db'"
  by (simp add: ended_stay_def)

lemma ended_stay_trans: "ended_stay a b \<Longrightarrow> ended_stay b c \<Longrightarrow> ended_stay a c"
  by (auto simp: ended_stay_def)

lemma ended_in_upd: "x \<in> set ats \<Longrightarrow> a_endedAt x \<noteq> None \<Longrightarrow> x \<in> set (upd_row a_id i (end_row n o') ats)"
  by (auto simp: set_upd_row end_row_def image_iff intro!: bexI[of _ x])

lemma ended_stay_endHeld: "d_attempts db' = d_attempts (endHeld att nm db) \<Longrightarrow> ended_stay db db'"
  by (cases att) (auto simp: ended_stay_def intro: ended_in_upd)

lemma move_ended: "move lc a i nm opts fence db = Inr (r, db', evs) \<Longrightarrow> ended_stay db db'"
proof (erule move_Inr)
  fix t dropped m
  assume "db' = upd_task i (moved_row lc m (d_now db)) (endHeld (heldAttempt lc t) nm (dropEdges i dropped db))"
  then have "ended_stay (dropEdges i dropped db) db'"
    by (intro ended_stay_endHeld[where att = "heldAttempt lc t" and nm = nm]) simp
  then show ?thesis by (simp add: ended_stay_def)
qed

lemma sweepOne_ended: "ended_stay db (sweepOne m t db)"
proof -
  have "ended_stay (upd_task (t_id t) (swept_row m (d_now db)) db) (sweepOne m t db)"
    unfolding sweepOne_def by (rule ended_stay_endHeld) (rule refl)
  then show ?thesis by (simp add: ended_stay_def)
qed

lemma sweepRows_ended: "sweepRows lc rows db = Inr (db', evs) \<Longrightarrow> ended_stay db db'"
proof (induction lc rows db arbitrary: evs rule: sweepRows.induct)
  case (2 lc t n rows db)
  then obtain m evs1 where m: "expiryMove lc n = Some m" and r: "sweepRows lc rows (sweepOne m t db) = Inr (db', evs1)"
    by (auto split: option.splits)
  show ?case using "2.IH"[OF m r] sweepOne_ended ended_stay_trans by blast
qed (simp add: ended_stay_same)

lemma sweep_ended: "sweep lc locked db = Inr (r, db', evs) \<Longrightarrow> ended_stay db db'"
  by (auto simp: sweep_def Let_def dest: sweepRows_ended)

lemma claim_next_ended:
  assumes c: "claim_next lc a opts swept taken uuid db = Inr (r, db', evs)"
  shows "ended_stay db db'"
proof (rule claim_next_Inr[OF c])
  fix n db1 evs1
  assume s: "sweep lc swept db = Inr (n, db1, evs1)"
    and none: "r = None \<Longrightarrow> nextReady lc taken (co_filter opts) db1 = None \<and> db' = db1"
    and some: "\<And>c. r = Some c \<Longrightarrow> \<exists>t e. nextReady lc taken (co_filter opts) db1 = Some t \<and> leaseTask lc a opts uuid t db1 = Inr (c, db', e)"
  have "ended_stay db1 db'" using none some by (cases r) (auto elim!: leaseTask_Inr simp: ended_stay_def)
  then show ?thesis using sweep_ended[OF s] ended_stay_trans by blast
qed

lemma moveInTx_ended: "moveInTx lc a t m payload req db = Inr (r, db', evs) \<Longrightarrow> d_attempts db' = d_attempts db"
  by (auto dest: moveInTx_Inr)

lemma approveEach_ended: "approveEach lc a m payload ts db = Inr (db', evs) \<Longrightarrow> d_attempts db' = d_attempts db"
proof (induction ts arbitrary: db evs)
  case (Cons t ts)
  then show ?case by (auto split: if_splits dest!: moveInTx_ended)
qed simp

lemma discardEach_ended: "discardEach lc a m payload is db = Inr (ts, db', evs) \<Longrightarrow> d_attempts db' = d_attempts db"
  by (induction "is" arbitrary: db ts evs) (auto dest!: moveInTx_ended)

lemma plans_ended:
  "plans_create lc a title meta rand req db = Inr (p, db', evs) \<Longrightarrow> d_attempts db' = d_attempts db"
  "plans_approve lc vs cfg a pid opts db = Inr (r, db', evs) \<Longrightarrow> d_attempts db' = d_attempts db"
  "plans_discard lc a pid opts db = Inr (p, db', evs) \<Longrightarrow> d_attempts db' = d_attempts db"
  "tasks_approve lc vs cfg a i opts db = Inr (t, db', evs) \<Longrightarrow> d_attempts db' = d_attempts db"
proof -
  show "plans_create lc a title meta rand req db = Inr (p, db', evs) \<Longrightarrow> d_attempts db' = d_attempts db"
    by (auto simp: plans_create_def insertPlan_Some dest!: newPlanId_Inr)
  show "plans_approve lc vs cfg a pid opts db = Inr (r, db', evs) \<Longrightarrow> d_attempts db' = d_attempts db"
    by (cases r) (auto elim!: plans_approve_Inr dest: approveEach_ended)
  show "plans_discard lc a pid opts db = Inr (p, db', evs) \<Longrightarrow> d_attempts db' = d_attempts db"
    by (erule plans_discard_Inr) (auto dest: discardEach_ended)
  show "tasks_approve lc vs cfg a i opts db = Inr (t, db', evs) \<Longrightarrow> d_attempts db' = d_attempts db"
    by (auto simp: tasks_approve_def split: if_splits option.splits dest: moveInTx_ended)
qed

lemma tasks_ended:
  "tasks_create lc a nt rand req db = Inr (r, db', evs) \<Longrightarrow> d_attempts db' = d_attempts db"
  "tasks_update lc a i p req db = Inr (r, db', evs) \<Longrightarrow> d_attempts db' = d_attempts db"
  "tasks_delete lc a i req db = Inr (u, db', evs) \<Longrightarrow> d_attempts db' = d_attempts db"
proof -
  show "tasks_create lc a nt rand req db = Inr (r, db', evs) \<Longrightarrow> d_attempts db' = d_attempts db"
    by (auto simp: tasks_create_def bumped_def split: option.splits elim!: createRow_Inr)
qed (auto simp: tasks_update_def tasks_delete_def Let_def deleteRow_def split: if_splits)

lemma edges_ended:
  "deps_add lc a i j req db = Inr (u, db', evs) \<Longrightarrow> d_attempts db' = d_attempts db"
  "deps_remove lc a i j req db = Inr (u, db', evs) \<Longrightarrow> d_attempts db' = d_attempts db"
  "links_add lc a x y k req db = Inr (u, db', evs) \<Longrightarrow> d_attempts db' = d_attempts db"
  "notes_add lc a i note req db = Inr (u, db', evs) \<Longrightarrow> d_attempts db' = d_attempts db"
  "heartbeat lc a i att ms db = Inr (c, db', evs) \<Longrightarrow> d_attempts db' = d_attempts db"
  by (auto simp: deps_add_def deps_remove_def links_add_def notes_add_def heartbeat_def Let_def split: if_splits option.splits)

lemma body_step_ended:
  assumes b: "body_step body db db'" and e: "\<And>r db1 evs. body db = Inr (r, db1, evs) \<Longrightarrow> ended_stay db db1"
  shows "ended_stay db db'"
proof -
  obtain r db1 evs where 1: "body db = Inr (r, db1, evs)" and s: "same_rows db1 db'"
    using b by (auto simp: body_step_def dest!: transaction_Inr)
  show ?thesis using e[OF 1] same_rowsD(4)[OF s] by (simp add: ended_stay_def)
qed

lemma exec_ended:
  assumes e: "exec lc vs cfg a op db = Inr db'"
  shows "ended_stay db db'"
proof (cases "db' = db")
  case False
  note k = move_ended claim_next_ended sweep_ended plans_ended[THEN ended_stay_same] tasks_ended[THEN ended_stay_same]
    edges_ended[THEN ended_stay_same]
  from exec_cases[OF e] False show ?thesis
    by (cases op) (simp_all add: expireLeases_def[abs_def], (rule body_step_ended, assumption, erule k)+)
qed (simp add: ended_stay_same)

subsection \<open>The engine as a transition system\<close>

text \<open>The log needs nothing of the lifecycle; the rows need one whose claim move is no expiry hook.\<close>

definition good :: "'x lifecycle \<Rightarrow> 'x db \<Rightarrow> bool" where
  "good lc db \<longleftrightarrow> sound_lifecycle lc \<and> wf lc db \<and> log_ok db"

interpretation engine: inductive_invariant new_project "step lc vs cfg" "\<lambda>db. sound_lifecycle lc \<longrightarrow> good lc db" for lc vs cfg
proof
  fix db :: "'a db"
  assume "new_project db"
  then show "sound_lifecycle lc \<longrightarrow> good lc db" by (auto simp: new_project_def good_def intro: wf_empty)
next
  fix db db' :: "'a db"
  assume g: "sound_lifecycle lc \<longrightarrow> good lc db" and "step lc vs cfg db db'"
  from this(2) show "sound_lifecycle lc \<longrightarrow> good lc db'"
  proof (rule stepE)
    fix a op assume e: "exec lc vs cfg a op db = Inr db'"
    then show ?thesis using g exec_wf exec_log[OF _ e] by (auto simp: good_def)
  qed (use g in \<open>auto simp: good_def wf_def log_ok_def\<close>)
qed

interpretation logged: inductive_invariant new_project "step lc vs cfg" log_ok for lc vs cfg
proof
  fix db :: "'a db"
  assume "new_project db"
  then show "log_ok db" by (simp add: new_project_def)
next
  fix db db' :: "'a db"
  assume g: "log_ok db" and "step lc vs cfg db db'"
  from this(2) show "log_ok db'"
  proof (rule stepE)
    fix a op assume "exec lc vs cfg a op db = Inr db'"
    then show ?thesis using exec_log[OF g] by blast
  qed (use g in \<open>auto simp: log_ok_def\<close>)
qed

abbreviation reachable :: "'x lifecycle \<Rightarrow> 'x validator list \<Rightarrow> (string \<Rightarrow> json) \<Rightarrow> 'x db \<Rightarrow> bool" where
  "reachable lc vs cfg \<equiv> engine.reachable lc vs cfg"

definition leads_to :: "'x lifecycle \<Rightarrow> 'x validator list \<Rightarrow> (string \<Rightarrow> json) \<Rightarrow> 'x db \<Rightarrow> 'x db \<Rightarrow> bool" where
  "leads_to lc vs cfg db db' \<longleftrightarrow> (step lc vs cfg)\<^sup>*\<^sup>* db db'"

lemma op_moves_declared: "op_moves lc a op \<subseteq> set (l_moves lc)"
  by (cases op) (auto simp: may_def expiries_def dest: moveNamed_SomeD)

lemma step_evolves:
  assumes g: "good lc db" and s: "step lc vs cfg db db'"
  shows "evolves lc (set (l_moves lc)) db db'"
  using s
proof (rule stepE)
  fix a op assume "exec lc vs cfg a op db = Inr db'"
  then show ?thesis using g evolves_mono[OF op_moves_declared exec_evolves] by (auto simp: good_def)
qed (auto intro!: moved_along_evolves[OF moved_along_refl])

lemma step_extends: "log_ok db \<Longrightarrow> step lc vs cfg db db' \<Longrightarrow> extends db db'"
  by (erule stepE) (auto simp: extends_def dest: exec_log)

lemma leads_to_extends: "log_ok db \<Longrightarrow> leads_to lc vs cfg db db' \<Longrightarrow> extends db db'"
  unfolding leads_to_def
  by (rule logged.related[of extends]) (auto simp: extends_def dest!: step_extends)

lemma leads_to_log: "log_ok db \<Longrightarrow> leads_to lc vs cfg db db' \<Longrightarrow> log_ok db'"
  unfolding leads_to_def by (rule logged.keeps_all)

text \<open>Terminal states are final between activations: a task in one stays there.\<close>

lemma terminal_moves:
  assumes v: "valid_lifecycle lc" and t: "isTerminal lc s"
  shows "(s, s') \<in> (moves_rel lc)\<^sup>* \<Longrightarrow> s' = s"
  by (induction rule: rtrancl_induct) (use t move_from_live[OF v] in \<open>auto simp: moves_rel_def along_def\<close>)

definition closed_stays :: "'x lifecycle \<Rightarrow> 'x db \<Rightarrow> 'x db \<Rightarrow> bool" where
  "closed_stays lc db db' \<longleftrightarrow> (\<forall>i t. find_task i db = Some t \<longrightarrow> isTerminal lc (t_state t) \<longrightarrow>
     (\<exists>t'. find_task i db' = Some t' \<and> t_state t' = t_state t))"

lemma evolves_closed:
  assumes v: "valid_lifecycle lc" and e: "evolves lc (set (l_moves lc)) db db'"
  shows "closed_stays lc db db'"
  unfolding closed_stays_def
proof (intro allI impI)
  fix i t assume t: "find_task i db = Some t" "isTerminal lc (t_state t)"
  then have "t_state t \<noteq> l_createState lc" using create_state(3)[OF v] by auto
  then obtain t' where "find_task i db' = Some t'" "(t_state t, t_state t') \<in> (moves_rel lc)\<^sup>*"
    using e[unfolded evolves_def, rule_format, of i] t(1) by (auto simp: moves_rel_def split: option.splits)
  then show "\<exists>t'. find_task i db' = Some t' \<and> t_state t' = t_state t" using terminal_moves[OF v t(2)] by auto
qed

lemma leads_to_closed: "good lc db \<Longrightarrow> leads_to lc vs cfg db db' \<Longrightarrow> closed_stays lc db db'"
  unfolding leads_to_def
proof (rule engine.related[of "closed_stays lc"])
  assume g: "good lc db"
  then have s: "sound_lifecycle lc" by (simp add: good_def)
  show "closed_stays lc a a" for a by (simp add: closed_stays_def)
  show "closed_stays lc a b \<Longrightarrow> closed_stays lc b c \<Longrightarrow> closed_stays lc a c" for a b c
    unfolding closed_stays_def by metis
  show "sound_lifecycle lc \<longrightarrow> good lc x \<Longrightarrow> step lc vs cfg x x' \<Longrightarrow> closed_stays lc x x'" for x x'
    using step_evolves evolves_closed sound_valid[OF s] s by blast
  show "sound_lifecycle lc \<longrightarrow> good lc db" using g by simp
qed

lemma step_ended: "step lc vs cfg db db' \<Longrightarrow> ended_stay db db'"
  by (erule stepE) (auto intro: exec_ended ended_stay_same)

lemma leads_to_ended: "leads_to lc vs cfg db db' \<Longrightarrow> ended_stay db db'"
  unfolding leads_to_def
  by (induction rule: rtranclp_induct) (auto intro: ended_stay_trans step_ended ended_stay_same)

lemma good_leads_to:
  assumes "good lc db" and "leads_to lc vs cfg db db'"
  shows "good lc db'"
  using engine.keeps_all[OF assms(2)[unfolded leads_to_def]] assms(1) by (simp add: good_def)

subsection \<open>Runs\<close>

text \<open>A list of writes by their actors, each refused one left out, as a way through the transition system.\<close>

fun runs ::
  "'x lifecycle \<Rightarrow> 'x validator list \<Rightarrow> (string \<Rightarrow> json) \<Rightarrow> (actor \<times> 'x op) list \<Rightarrow> 'x db \<Rightarrow> tg_error + 'x db" where
  "runs lc vs cfg [] db = Inr db"
| "runs lc vs cfg ((a, op) # ops) db = bindE (exec lc vs cfg a op db) (runs lc vs cfg ops)"

lemma runs_leads_to: "runs lc vs cfg ops db = Inr db' \<Longrightarrow> leads_to lc vs cfg db db'"
  unfolding leads_to_def
proof (induction ops arbitrary: db)
  case (Cons x ops)
  then show ?case by (cases x) (auto intro: converse_rtranclp_into_rtranclp step.call)
qed simp

lemma runs_reachable: "new_project db \<Longrightarrow> runs lc vs cfg ops db = Inr db' \<Longrightarrow> reachable lc vs cfg db'"
  using runs_leads_to unfolding engine.reachable_def leads_to_def by blast

lemma reachable_good: "sound_lifecycle lc \<Longrightarrow> reachable lc vs cfg db \<Longrightarrow> good lc db"
  using engine.holds by blast

lemma reachable_log: "reachable lc vs cfg db \<Longrightarrow> log_ok db"
  by (rule logged.holds)

end
