(* ===== verification/Paths.thy ===== *)
theory Paths
  imports Graph
begin

text \<open>
  Walks up the parents of a project's tasks: on an acyclic project they end within as many steps as it has tasks, which
  is the fuel of every such walk in the model.
\<close>

lemma path_in_order:
  assumes "\<forall>j < k. (f j, f (Suc j)) \<in> R" and "i < j" and "j \<le> k"
  shows "(f i, f j) \<in> R\<^sup>+"
  using assms(2,3)
proof (induction j)
  case (Suc j)
  then have e: "(f j, f (Suc j)) \<in> R" using assms(1) by simp
  show ?case
  proof (cases "i = j")
    case False
    then show ?thesis using Suc e by (auto intro: trancl_into_trancl)
  qed (use e in auto)
qed simp

lemma relpow_bound:
  assumes "finite R" and "acyclic R" and "(x, y) \<in> R ^^ k"
  shows "k \<le> card R"
proof -
  obtain f where f: "\<forall>j < k. (f j, f (Suc j)) \<in> R" using assms(3) by (auto simp: relpow_fun_conv)
  have "f i \<noteq> f j" if "i < j" "j \<le> k" for i j
    using path_in_order[OF f that] assms(2) by (auto simp: acyclic_def)
  then have "inj_on (\<lambda>j. (f j, f (Suc j))) {..<k}"
    by (intro inj_onI) (metis lessThan_iff less_imp_le_nat linorder_neqE_nat prod.inject)
  moreover have "(\<lambda>j. (f j, f (Suc j))) ` {..<k} \<subseteq> R" using f by auto
  ultimately show ?thesis using card_inj_on_le[of _ "{..<k}" R] assms(1) by fastforce
qed

lemma card_parents: "finite (parents (d_tasks (db :: 'x db))) \<and> card (parents (d_tasks db)) \<le> length (d_tasks db)"
proof -
  have "length (List.map_filter f xs) \<le> length xs" for f :: "task \<Rightarrow> (string \<times> string) option" and xs
    by (induction xs) (auto simp: List.map_filter_simps split: option.split)
  then have "length (parent_edges db) \<le> length (d_tasks db)" by (simp add: parent_edges_def)
  then show ?thesis
    using card_length[of "parent_edges db"] by (simp flip: set_parent_edges)
qed

text \<open>Rows rewritten in place keep their ids and parents.\<close>

lemma parents_map:
  assumes "\<And>t. t_id (f t) = t_id t" and "\<And>t. t_parentId (f t) = t_parentId t"
  shows "parents (map f ts) = parents ts"
  using assms unfolding parents_def set_map by auto (metis imageI)

lemma ids_map: "(\<And>t. t_id (f t) = t_id t) \<Longrightarrow> ids (map f ts) = ids ts"
  by (simp add: ids_def image_image)

subsection \<open>The walk up a task's parents\<close>

text \<open>\<open>for (let p = ...; p; p = parent.get(p))\<close>: the tasks above one, innermost first.\<close>

fun walk_up :: "(string \<Rightarrow> string option) \<Rightarrow> nat \<Rightarrow> string option \<Rightarrow> string list" where
  "walk_up up n None = []"
| "walk_up up 0 (Some p) = []"
| "walk_up up (Suc n) (Some p) = (if p = [] then [] else p # walk_up up n (up p))"

lemma walk_up_in: "y \<in> set (walk_up up n (Some x)) \<Longrightarrow> (\<And>a b. up a = Some b \<Longrightarrow> (a, b) \<in> R) \<Longrightarrow> (x, y) \<in> R\<^sup>*"
proof (induction n arbitrary: x)
  case (Suc n)
  then show ?case
    by (cases "up x") (auto intro: converse_rtrancl_into_rtrancl split: if_splits)
qed simp

lemma walk_up_all:
  "(x, y) \<in> R ^^ k \<Longrightarrow> k < n \<Longrightarrow> (\<And>a b. (a, b) \<in> R \<Longrightarrow> up a = Some b) \<Longrightarrow> (\<And>a b. (a, b) \<in> R \<Longrightarrow> a \<noteq> []) \<Longrightarrow> y \<noteq> [] \<Longrightarrow>
   y \<in> set (walk_up up n (Some x))"
proof (induction k arbitrary: x n)
  case 0
  then show ?case by (cases n) auto
next
  case (Suc k)
  obtain z where z: "(x, z) \<in> R" "(z, y) \<in> R ^^ k" using relpow_Suc_D2[OF Suc.prems(1)] by blast
  obtain m where m: "n = Suc m" "k < m" using Suc.prems(2) by (cases n) auto
  have "y \<in> set (walk_up up m (Some z))" using Suc.IH[OF z(2) m(2)] Suc.prems(3-) by blast
  then show ?case using Suc.prems(3,4)[OF z(1)] m by simp
qed

text \<open>The same walk from a task itself, remembering where it has been: whether it comes back.\<close>

fun loops :: "(string \<Rightarrow> string option) \<Rightarrow> nat \<Rightarrow> string list \<Rightarrow> string option \<Rightarrow> bool" where
  "loops up n seen None = False"
| "loops up n seen (Some p) = (if p = [] then False else if p \<in> set seen then True
     else (case n of 0 \<Rightarrow> False | Suc m \<Rightarrow> loops up m (p # seen) (up p)))"

lemma loops_sound:
  assumes V: "finite V" "[] \<notin> V" "\<And>a b. up a = Some b \<Longrightarrow> b \<in> V"
  shows "\<not> loops up n seen (Some p) \<Longrightarrow> p \<in> V \<Longrightarrow> card (V - set seen) \<le> n \<Longrightarrow>
    (p, y) \<in> {(a, b). up a = Some b}\<^sup>* \<Longrightarrow> (y, y) \<notin> {(a, b). up a = Some b}\<^sup>+"
proof (induction n arbitrary: seen p y)
  case 0
  then have "V - set seen = {}" using V(1) by simp
  then have "p \<in> set seen" "p \<noteq> []" using 0(2) V(2) by auto
  then show ?case using 0(1) by simp
next
  case (Suc n)
  let ?R = "{(a, b). up a = Some b}"
  have p: "p \<noteq> []" "p \<notin> set seen" using Suc.prems(1,2) V(2) by (auto split: if_splits)
  have c: "card (V - set (p # seen)) \<le> n"
  proof -
    have "V - set (p # seen) = (V - set seen) - {p}" by auto
    then show ?thesis using p Suc.prems(2,3) V(1) by simp
  qed
  show ?case
  proof (cases "up p")
    case None
    then have "y = p" using Suc.prems(4) by (auto elim: converse_rtranclE)
    then show ?thesis using None by (auto dest: tranclD)
  next
    case (Some q)
    then have l: "\<not> loops up n (p # seen) (Some q)" using p Suc.prems(1) by simp
    have q: "(q, z) \<in> ?R\<^sup>* \<Longrightarrow> (z, z) \<notin> ?R\<^sup>+" for z
      by (rule Suc.IH[OF l V(3)[OF Some] c])
    show ?thesis
    proof
      assume cyc: "(y, y) \<in> ?R\<^sup>+"
      have "(q, y) \<in> ?R\<^sup>*"
      proof (cases "y = p")
        case True
        then obtain z where "(p, z) \<in> ?R" "(z, p) \<in> ?R\<^sup>*" using cyc by (auto dest: tranclD)
        then show ?thesis using Some True by auto
      next
        case False
        then obtain z where "(p, z) \<in> ?R" "(z, y) \<in> ?R\<^sup>*" using Suc.prems(4) by (auto elim: converse_rtranclE)
        then show ?thesis using Some by auto
      qed
      then show False using q cyc by blast
    qed
  qed
qed

lemma loops_complete:
  assumes "acyclic R" and "\<And>a b. up a = Some b \<Longrightarrow> (a, b) \<in> R"
  shows "\<forall>s \<in> set seen. (s, p) \<in> R\<^sup>+ \<Longrightarrow> \<not> loops up n seen (Some p)"
proof (induction n arbitrary: seen p)
  case 0
  then show ?case using assms(1) by (auto simp: acyclic_def)
next
  case (Suc n)
  have p: "p \<notin> set seen" using Suc.prems assms(1) by (auto simp: acyclic_def)
  show ?case
  proof (cases "up p")
    case (Some q)
    then have "\<forall>s \<in> set (p # seen). (s, q) \<in> R\<^sup>+" using Suc.prems assms(2) by (auto intro: trancl_into_trancl)
    then show ?thesis using Suc.IH Some p by simp
  qed (use p in simp)
qed

end
