(* ===== verification/Activation.thy ===== *)
theory Activation
  imports Upgrade Engine Paths
begin

text \<open>
  What an activation does to the rows (src/src/taskgraph/upgrade.ts): they satisfy the engine's invariant under the new
  version, and every task is where its lease's end and the migrate map carry it.
\<close>

subsection \<open>The stored form says what the lifecycle says\<close>

lemma serialize_flags [simp]:
  "stateFlag f (serializeLifecycle lc) s = stateFlag f lc s" "isState (serializeLifecycle lc) s = isState lc s"
  "l_migrate (serializeLifecycle lc) = l_migrate lc" "l_onLeaseExpiry (serializeLifecycle lc) = l_onLeaseExpiry lc"
  by (simp_all add: serializeLifecycle_def stateFlag_def isState_def)

lemma serialize_moves: "moveNamed (serializeLifecycle lc) nm = map_option stored_move (moveNamed lc nm)"
proof -
  have "find (\<lambda>m. m_name m = nm) (map stored_move ms) = map_option stored_move (find (\<lambda>m. m_name m = nm) ms)" for ms :: "'x move list"
    by (induction ms) (simp_all add: stored_move_def)
  then show ?thesis by (simp add: moveNamed_def serializeLifecycle_def)
qed

text \<open>Registering never changes a stored version, and one definition is stored under a version for good.\<close>

lemma registered:
  assumes "registerLifecycle h tbl lc = Inr tbl'"
  shows "\<forall>k v. tbl k = Some v \<longrightarrow> tbl' k = Some v" and "\<exists>d. tbl' (l_name lc, l_version lc) = Some (d, h (normal_form lc))"
  using assms by (auto simp: registerLifecycle_def bindE_Inr_iff split: option.splits if_splits)

text \<open>Where a task stands after an activation.\<close>

definition lease_end :: "'x lifecycle \<Rightarrow> string" where
  "lease_end lc = (case moveNamed lc (l_onLeaseExpiry lc) of Some m \<Rightarrow> m_to m | None \<Rightarrow> '''')"

definition migrate_map :: "'x lifecycle \<Rightarrow> nat \<Rightarrow> (string \<times> string) list" where
  "migrate_map lc current = (if current < l_version lc then (case l_migrate lc of Some m \<Rightarrow> m | None \<Rightarrow> []) else [])"

definition carried_to :: "'a lifecycle \<Rightarrow> 'b lifecycle \<Rightarrow> task \<Rightarrow> string option" where
  "carried_to old lc t = (let s = (if t_leaseAttemptId t \<noteq> None then lease_end old else t_state t) in
     if isState lc s then Some s else mapped (migrate_map lc (l_version old)) s)"

subsection \<open>The writes, row by row\<close>

lemma find_map_filter:
  assumes "\<And>x y. x \<in> set xs \<Longrightarrow> g x = Some y \<Longrightarrow> k y = key x" and "distinct (map key xs)" and "x \<in> set xs"
  shows "find (\<lambda>y. k y = key x) (List.map_filter g xs) = g x"
  using assms
proof (induction xs)
  case (Cons z zs)
  have none: "find (\<lambda>y. k y = key z) (List.map_filter g zs) = None"
    using Cons.prems(1,2) set_map_filter[of _ g zs] unfolding find_None_iff by (metis distinct.simps(2) image_eqI list.set_intros(2) list.set_map list.simps(9))
  show ?case
  proof (cases "x = z")
    case True
    then show ?thesis using Cons.prems(1)[of z] none by (cases "g z") simp_all
  next
    case False
    then have "key z \<noteq> key x" "x \<in> set zs" using Cons.prems(2,3) by (auto simp: image_iff)
    moreover have "find (\<lambda>y. k y = key x) (List.map_filter g zs) = g x"
      using Cons.IH Cons.prems(1,2) \<open>x \<in> set zs\<close> by simp
    ultimately show ?thesis using Cons.prems(1)[of z] by (cases "g z") auto
  qed
qed simp

lemma distinct_map_filter_key:
  assumes "\<And>x y. x \<in> set xs \<Longrightarrow> g x = Some y \<Longrightarrow> k y = key x" and "distinct (map key xs)"
  shows "distinct (map k (List.map_filter g xs))"
  using assms
proof (induction xs)
  case (Cons z zs)
  then have "k y \<noteq> key z" if "y \<in> set (List.map_filter g zs)" for y
    using that unfolding set_map_filter by (metis distinct.simps(2) image_eqI list.set_intros(2) list.set_map list.simps(9))
  then have "key z \<notin> k ` set (List.map_filter g zs)" by (metis imageE)
  moreover have "distinct (map k (List.map_filter g zs))" using Cons by simp
  moreover have "g z = Some a \<Longrightarrow> k a = key z" for a using Cons.prems(1) by simp
  ultimately show ?case by (cases "g z") simp_all
qed simp

lemma fold_upd_row:
  assumes "\<And>c r. key (f c r) = key r" and "distinct (map k cs)"
  shows "fold (\<lambda>c. upd_row key (k c) (f c)) cs xs =
    map (\<lambda>r. case find (\<lambda>c. k c = key r) cs of Some c \<Rightarrow> f c r | None \<Rightarrow> r) xs"
  using assms(2)
proof (induction cs arbitrary: xs)
  case (Cons c cs)
  have none: "find (\<lambda>d. k d = k c) cs = None" using Cons.prems by (auto simp: find_None_iff dest: sym)
  have "(case find (\<lambda>d. k d = key (if key r = k c then f c r else r)) cs of Some d \<Rightarrow> f d (if key r = k c then f c r else r)
      | None \<Rightarrow> (if key r = k c then f c r else r)) = (case find (\<lambda>d. k d = key r) (c # cs) of Some d \<Rightarrow> f d r | None \<Rightarrow> r)" for r
    using none assms(1) by (cases "key r = k c") auto
  then show ?case using Cons by (simp add: upd_row_def)
qed simp

lemma change_tasks_rows:
  assumes "distinct (map tc_id cs)"
  shows "change_tasks lc e cs db = db\<lparr>d_tasks := map (\<lambda>t. case find (\<lambda>c. tc_id c = t_id t) cs of
    Some c \<Rightarrow> activated_row lc e (d_now db) c t | None \<Rightarrow> t) (d_tasks db)\<rparr>"
proof -
  have "fold (\<lambda>c. upd_task (tc_id c) (f c)) cs db = db\<lparr>d_tasks := fold (\<lambda>c. upd_row t_id (tc_id c) (f c)) cs (d_tasks db)\<rparr>" for f
    by (induction cs arbitrary: db) (simp_all add: upd_task_def)
  then show ?thesis
    unfolding change_tasks_def by (simp add: fold_upd_row assms activated_row_def)
qed

definition ended_row :: "string set \<Rightarrow> string \<Rightarrow> int \<Rightarrow> attempt \<Rightarrow> attempt" where
  "ended_row V o' now a = (if a_id a \<in> V \<and> a_endedAt a = None then a\<lparr>a_endedAt := Some now, a_outcome := Some o'\<rparr> else a)"

lemma end_leases_rows:
  "end_leases o' ls db = db\<lparr>d_attempts := map (ended_row (hl_attemptId ` set ls) o' (d_now db)) (d_attempts db)\<rparr>"
  unfolding end_leases_def
proof (induction ls arbitrary: db)
  case Nil
  have "ended_row {} o' n = (\<lambda>a. a)" for n by (simp add: ended_row_def fun_eq_iff)
  then show ?case by simp
next
  case (Cons l ls)
  have one: "endAttempt (hl_attemptId l) o' db = db\<lparr>d_attempts := map (ended_row {hl_attemptId l} o' (d_now db)) (d_attempts db)\<rparr>"
    by (simp add: endAttempt_def upd_attempt_def upd_row_def ended_row_def cong: map_cong)
  have "ended_row V o' n (ended_row {i} o' n a) = ended_row (insert i V) o' n a" for V i n a
    by (auto simp: ended_row_def)
  then have "map (ended_row V o' n) (map (ended_row {i} o' n) as) = map (ended_row (insert i V) o' n) as" for V i n as by simp
  then show ?case using Cons by (simp add: one del: map_map)
qed

subsection \<open>A task's row after an activation\<close>

definition new_row :: "'x lifecycle \<Rightarrow> unit lifecycle \<Rightarrow> (string \<times> string) list \<Rightarrow> unit move \<Rightarrow> int \<Rightarrow> task \<Rightarrow> task" where
  "new_row lc new mp e now t = (case task_changed new mp e t of Some c \<Rightarrow> activated_row lc e now c t | None \<Rightarrow> t)"

lemma new_row_fields [simp]:
  "t_id (new_row lc new mp e n t) = t_id t" "t_parentId (new_row lc new mp e n t) = t_parentId t" "t_key (new_row lc new mp e n t) = t_key t"
  "t_planId (new_row lc new mp e n t) = t_planId t" "t_origin (new_row lc new mp e n t) = t_origin t" "t_title (new_row lc new mp e n t) = t_title t"
  "t_priority (new_row lc new mp e n t) = t_priority t"
  by (simp_all add: new_row_def activated_row_def split: option.split)

lemma task_changed_Some: "task_changed new mp e t = Some c \<Longrightarrow> tc_id c = t_id t \<and> tc_from c = t_state t"
  by (auto simp: task_changed_def task_moved_def Let_def split: if_splits)

definition changed_all :: "unit lifecycle \<Rightarrow> (string \<times> string) list \<Rightarrow> unit move \<Rightarrow> task list \<Rightarrow> task_change list" where
  "changed_all new mp e ts = List.map_filter (task_changed new mp e) (sort_key t_id ts)"

lemma changed_all_find:
  assumes "distinct (map t_id ts)" and "t \<in> set ts"
  shows "find (\<lambda>c. tc_id c = t_id t) (changed_all new mp e ts) = task_changed new mp e t"
  unfolding changed_all_def
proof (rule find_map_filter)
  show "distinct (map t_id (sort_key t_id ts))"
    using assms(1) by (simp add: distinct_map)
qed (use assms task_changed_Some in auto)

lemma changed_all_distinct: "distinct (map t_id ts) \<Longrightarrow> distinct (map tc_id (changed_all new mp e ts))"
  unfolding changed_all_def
  by (rule distinct_map_filter_key[of _ _ _ t_id]) (use task_changed_Some in \<open>auto simp: distinct_map\<close>)

lemma state_after_row:
  assumes "distinct (map t_id ts)" and "t \<in> set ts"
  shows "state_after (changed_all new mp e ts) (sort_key t_id ts) (t_id t) = t_state (new_row lc new mp e n t)"
proof -
  have "find_row t_id (t_id t) (sort_key t_id ts) = Some t"
    using find_row_unique[of t_id "sort_key t_id ts" t] assms by (simp add: distinct_map)
  then show ?thesis using changed_all_find[OF assms, of new mp e]
    by (auto simp: state_after_def new_row_def activated_row_def split: option.split)
qed

subsection \<open>The body, inverted\<close>

lemma unmapped_none: "unmapped_states new mp e ts = [] \<longleftrightarrow> (\<forall>t \<in> set ts. \<not> task_stuck new mp e t)"
  by (auto simp: unmapped_states_def Let_def filter_empty_conv)

lemma activate_Inr:
  assumes run: "activate lc tbl a v force req db = Inr (u, db1, evs)" and ov: "assertVersion old db = Inr ()"
    and st: "storedLifecycle tbl (l_name old) (l_version old) = Inr (serializeLifecycle old)"
    and st': "storedLifecycle tbl (l_name lc) (l_version lc) = Inr (serializeLifecycle lc)" and nm: "l_name lc = l_name old"
  obtains m p where "moveNamed old (l_onLeaseExpiry old) = Some m"
    "p = plan_between (serializeLifecycle old) (serializeLifecycle lc) (stored_move m) (l_version lc) db"
    "upgrade_refusals lc (d_projectId db) (l_version lc) force p = Inr ()"
    "list_all (\<lambda>c. isState lc (tc_to c)) (up_changes p)"
    "db1 = change_tasks lc (up_expiry p) (up_changes p) (end_leases (m_name (up_expiry p)) (df_leases p) (db\<lparr>d_lifecycleVersion := l_version lc\<rparr>))"
proof -
  have d: "d_lifecycleName db = l_name old" "d_lifecycleVersion db = l_version old"
    using ov by (auto simp: assertVersion_def split: if_splits)
  obtain p where 1: "v = l_version lc" "plan_upgrade tbl v db = Inr p" "upgrade_refusals lc (d_projectId db) v force p = Inr ()"
      "list_all (\<lambda>c. isState lc (tc_to c)) (up_changes p)"
      "db1 = change_tasks lc (up_expiry p) (up_changes p) (end_leases (m_name (up_expiry p)) (df_leases p) (db\<lparr>d_lifecycleVersion := v\<rparr>))"
    using run st' nm d unfolding activate_def Let_def bindE_Inr_iff by auto
  obtain m where 2: "moveNamed old (l_onLeaseExpiry old) = Some m"
      "p = plan_between (serializeLifecycle old) (serializeLifecycle lc) (stored_move m) (l_version lc) db"
    using 1(1,2) st st' nm d unfolding plan_upgrade_def bindE_Inr_iff by (auto simp: serialize_moves split: option.splits)
  show thesis using that[OF 2] 1 by simp
qed

lemma plan_fields:
  assumes "p = plan_between old new e v db"
  defines "mp \<equiv> (if d_lifecycleVersion db < v then (case l_migrate new of Some m \<Rightarrow> m | None \<Rightarrow> []) else [])"
  defines "ts \<equiv> sort_key t_id (d_tasks db)"
  shows "up_changes p = changed_all new mp e (d_tasks db)" "up_expiry p = e" "df_leases p = held_leases db ts"
    "df_unmapped p = unmapped_states new mp e ts"
    "df_unmapped p = [] \<Longrightarrow> df_broken p = concat (map (broken_task new (state_after (up_changes p) ts)) ts) @
       concat (map (broken_dep new (state_after (up_changes p) ts)) (sort (d_deps db)))"
  by (simp_all add: assms plan_between_def changed_all_def Let_def)

lemma held_set: "hl_attemptId ` set (held_leases db ts) = {x. \<exists>t \<in> set ts. t_leaseAttemptId t = Some x}"
  by (force simp: held_leases_def List.map_filter_def split: option.splits)

lemma carried_row:
  assumes s: "sound_lifecycle old" and w: "states_ok old ts" and d: "distinct (map t_id ts)" and t: "t \<in> set ts"
    and m: "moveNamed old (l_onLeaseExpiry old) = Some m"
    and k: "\<not> task_stuck (serializeLifecycle lc) (migrate_map lc (l_version old)) (stored_move m) t"
    and ok: "list_all (\<lambda>c. isState lc (tc_to c)) (changed_all (serializeLifecycle lc) (migrate_map lc (l_version old)) (stored_move m) ts)"
  shows "carried_to old lc t = Some (t_state (new_row lc' (serializeLifecycle lc) (migrate_map lc (l_version old)) (stored_move m) now t)) \<and>
    isState lc (t_state (new_row lc' (serializeLifecycle lc) (migrate_map lc (l_version old)) (stored_move m) now t)) \<and>
    t_leaseAttemptId (new_row lc' (serializeLifecycle lc) (migrate_map lc (l_version old)) (stored_move m) now t) = None \<and>
    t_leaseExpiresAt (new_row lc' (serializeLifecycle lc) (migrate_map lc (l_version old)) (stored_move m) now t) = None"
proof -
  let ?mp = "migrate_map lc (l_version old)" and ?new = "serializeLifecycle lc" and ?e = "stored_move m"
  have v: "valid_lifecycle old" by (rule sound_valid[OF s])
  have "l_onLeaseExpiry old \<noteq> l_onClaim old" using s by (auto simp: sound_lifecycle_def is_expiry_hook_def)
  then have nl: "\<not> stateFlag sf_leased old (m_to m)" using move_to_unleased[OF v m] by simp
  have to: "m_to ?e = m_to m" by (simp add: stored_move_def)
  have row: "(stateFlag sf_leased old (t_state t) \<longleftrightarrow> t_leaseAttemptId t \<noteq> None) \<and> (t_leaseAttemptId t = None \<longleftrightarrow> t_leaseExpiresAt t = None)"
    using w t by (auto simp: states_ok_def)
  have rest: "carried_to old lc t = (if isState lc (rests_at ?e t) then Some (rests_at ?e t) else mapped ?mp (rests_at ?e t))"
    by (simp add: carried_to_def Let_def rests_at_def lease_end_def m to)
  have changed: "isState lc (tc_to c)" if "task_changed ?new ?mp ?e t = Some c" for c
  proof -
    have "find (\<lambda>c. tc_id c = t_id t) (changed_all ?new ?mp ?e ts) = Some c" using changed_all_find[OF d t] that by simp
    then have "c \<in> set (changed_all ?new ?mp ?e ts)" by (auto simp: find_Some_iff)
    then show ?thesis using ok by (auto simp: list_all_iff)
  qed
  show ?thesis
  proof (cases "isState lc (rests_at ?e t)")
    case True
    show ?thesis
    proof (cases "rests_at ?e t = t_state t")
      case same: True
      then have "t_leaseAttemptId t = None" using nl row to by (auto simp: rests_at_def split: if_splits)
      then show ?thesis using True same row by (simp add: rest new_row_def task_changed_def)
    next
      case False
      then show ?thesis using True by (simp add: rest new_row_def task_changed_def activated_row_def)
    qed
  next
    case False
    then obtain x where x: "mapped ?mp (rests_at ?e t) = Some x" using k by (auto simp: task_stuck_def)
    have c: "task_changed ?new ?mp ?e t = Some \<lparr>tc_id = t_id t, tc_from = t_state t, tc_to = x\<rparr>"
      using False x by (simp add: task_changed_def task_moved_def)
    then show ?thesis using False x changed[OF c] by (simp add: rest new_row_def activated_row_def)
  qed
qed

text \<open>The checks that nothing would be broken, on the rows as they come out.\<close>

lemma unbroken:
  assumes d: "distinct (map t_id ts)" and up: "\<And>t q. t \<in> set ts \<Longrightarrow> t_parentId t = Some q \<Longrightarrow> q \<noteq> [] \<and> q \<in> ids ts"
    and st: "\<And>t. t \<in> set ts \<Longrightarrow> after (t_id t) = t_state (f t)" and f: "\<And>t. t_id (f t) = t_id t" "\<And>t. t_parentId (f t) = t_parentId t"
    and b: "\<forall>t \<in> set ts. broken_task (serializeLifecycle lc) after t = []" and bd: "\<forall>d \<in> set ds. broken_dep (serializeLifecycle lc) after d = []"
  shows "\<forall>t \<in> set ts. \<not> stateFlag sf_leased lc (t_state (f t))" and "closed_ok lc (map f ts)" and "waits_ok lc (map f ts) (set ds)"
proof -
  show "\<forall>t \<in> set ts. \<not> stateFlag sf_leased lc (t_state (f t))"
    using b st by (auto simp: broken_task_def Let_def split: if_splits)
  show "closed_ok lc (map f ts)" unfolding closed_ok_def
  proof (intro ballI impI)
    fix x y assume "x \<in> set (map f ts)" "y \<in> set (map f ts)" and p: "t_parentId x = Some (t_id y)" and c: "isTerminal lc (t_state y)"
    then obtain t u where t: "t \<in> set ts" "x = f t" and u: "u \<in> set ts" "y = f u" by auto
    have q: "t_parentId t = Some (t_id u)" using p t u f by simp
    then have "\<not> (isTerminal lc (after (t_id u)) \<and> \<not> isTerminal lc (after (t_id t)))"
      using b[rule_format, OF t(1)] up[OF t(1) q] by (auto simp: broken_task_def Let_def split: if_splits)
    then show "isTerminal lc (t_state x)" using c t u st by simp
  qed
  show "waits_ok lc (map f ts) (set ds)" unfolding waits_ok_def
  proof (intro ballI impI)
    fix x y assume "x \<in> set (map f ts)" "y \<in> set (map f ts)" and e: "(t_id x, t_id y) \<in> set ds"
      and l: "\<not> isTerminal lc (t_state x)" "isTerminal lc (t_state y)"
    then obtain t u where t: "t \<in> set ts" "x = f t" and u: "u \<in> set ts" "y = f u" by auto
    have "broken_dep (serializeLifecycle lc) after (t_id t, t_id u) = []" using bd e t u f by simp
    then show "isSatisfying lc (t_state y)" using l t u st by (simp add: broken_dep_def Let_def split: if_splits)
  qed
qed

lemma open_is_held:
  assumes a: "attempts_ok ts ats" and x: "x \<in> set ats" "a_endedAt x = None"
  shows "a_id x \<in> {x. \<exists>t \<in> set ts. t_leaseAttemptId t = Some x}"
proof -
  obtain t where t: "t \<in> set ts" "t_id t = a_taskId x" 
  proof -
    have "a_taskId x \<in> ids ts" using a x(1) by (auto simp: attempts_ok_def)
    then show thesis using that by (auto simp: ids_def)
  qed
  have "a_id x \<in> set (open_attempts ats (t_id t))" using x t by (simp add: open_attempts_def)
  then have "a_id x \<in> set (lease_list t)" using a t(1) by (simp add: attempts_ok_def)
  then show ?thesis using t(1) by (auto simp: lease_list_def split: option.splits)
qed

lemma ended_keys [simp]: "a_id (ended_row V o' n a) = a_id a" "a_taskId (ended_row V o' n a) = a_taskId a"
  by (simp_all add: ended_row_def)

lemma ended_ids: "map a_id (map (ended_row V o' n) ats) = map a_id ats" "a_taskId ` set (map (ended_row V o' n) ats) = a_taskId ` set ats"
  by (simp_all add: image_image)

lemma held_lapsed:
  assumes "filter hl_live (held_leases db ts) = []" and "t \<in> set ts" and "t_leaseAttemptId t \<noteq> None"
  shows "case t_leaseExpiresAt t of Some e \<Rightarrow> e \<le> d_now db | None \<Rightarrow> True"
  using assms by (fastforce simp: held_leases_def List.map_filter_def filter_empty_conv split: option.splits)

subsection \<open>What it leaves\<close>

lemma activate_named:
  assumes "activate lc tbl a v force req db = Inr (u, db1, evs)"
  shows "d_lifecycleName db = l_name lc" "v = l_version lc" "d_lifecycleVersion db \<noteq> v"
proof -
  obtain p where p: "plan_upgrade tbl v db = Inr p" "upgrade_refusals lc (d_projectId db) v force p = Inr ()" "v = l_version lc"
      "checkWriter lc (db\<lparr>d_lifecycleVersion := v\<rparr>) = Inr ()"
    using assms unfolding activate_def Let_def bindE_Inr_iff by auto
  have "df_from p = d_lifecycleVersion db"
    using p(1) by (auto simp: plan_upgrade_def plan_between_def Let_def bindE_Inr_iff split: option.splits)
  then show "d_lifecycleName db = l_name lc" "v = l_version lc" "d_lifecycleVersion db \<noteq> v"
    using p(2-4) by (auto simp: checkWriter_def upgrade_refusals_def Let_def bindE_Inr_iff)
qed

lemma activated:
  assumes s: "sound_lifecycle old" and w: "wf old db" and v: "assertVersion old db = Inr ()" and named: "[] \<notin> ids (d_tasks db)"
    and nm: "l_name lc = l_name old"
    and st: "storedLifecycle tbl (l_name old) (l_version old) = Inr (serializeLifecycle old)"
    and st': "storedLifecycle tbl (l_name lc) (l_version lc) = Inr (serializeLifecycle lc)"
    and body: "activate lc tbl a v' force req db = Inr (u, db1, evs)"
  shows "wf lc db1" "assertVersion lc db1 = Inr ()" "d_events db1 = d_events db" "d_nextEventId db1 = d_nextEventId db"
    "map t_id (d_tasks db1) = map t_id (d_tasks db)"
    "list_all2 (\<lambda>t t'. carried_to old lc t = Some (t_state t') \<and> isState lc (t_state t') \<and> t_leaseAttemptId t' = None) (d_tasks db) (d_tasks db1)"
    "\<forall>x \<in> set (d_attempts db1). a_endedAt x \<noteq> None"
    "force \<or> (\<forall>t \<in> set (d_tasks db). case t_leaseExpiresAt t of Some e \<Rightarrow> e \<le> d_now db | None \<Rightarrow> True)"
proof -
  let ?ts = "d_tasks db" and ?new = "serializeLifecycle lc" and ?mp = "migrate_map lc (l_version old)"
  obtain m p where m: "moveNamed old (l_onLeaseExpiry old) = Some m"
      and p: "p = plan_between (serializeLifecycle old) ?new (stored_move m) (l_version lc) db"
      and ref: "upgrade_refusals lc (d_projectId db) (l_version lc) force p = Inr ()"
      and ok: "list_all (\<lambda>c. isState lc (tc_to c)) (up_changes p)"
      and db1: "db1 = change_tasks lc (up_expiry p) (up_changes p) (end_leases (m_name (up_expiry p)) (df_leases p) (db\<lparr>d_lifecycleVersion := l_version lc\<rparr>))"
    using activate_Inr[OF body v st st' nm] by blast
  have dv: "d_lifecycleName db = l_name old" "d_lifecycleVersion db = l_version old"
    using v by (auto simp: assertVersion_def split: if_splits)
  have name: "d_lifecycleName db = l_name lc" by (simp add: dv nm)
  have mp: "(if d_lifecycleVersion db < l_version lc then (case l_migrate ?new of Some m \<Rightarrow> m | None \<Rightarrow> []) else []) = ?mp"
    by (simp add: migrate_map_def dv)
  note pf = plan_fields[OF p, unfolded mp]
  let ?f = "new_row lc ?new ?mp (stored_move m) (d_now db)"
  have dist: "distinct (map t_id ?ts)" using wfD(1)[OF w] by (simp add: forest_ok_def)
  have refs: "df_unmapped p = []" "df_broken p = []" "filter hl_live (df_leases p) = [] \<or> force"
    using ref by (simp_all add: upgrade_refusals_def Let_def bindE_Inr_iff)
  have stuck: "\<not> task_stuck ?new ?mp (stored_move m) t" if "t \<in> set ?ts" for t
    using refs(1) that by (simp add: pf unmapped_none)
  have rows: "d_tasks db1 = map ?f ?ts"
  proof -
    have "(case find (\<lambda>c. tc_id c = t_id t) (changed_all ?new ?mp (stored_move m) ?ts) of
        Some c \<Rightarrow> activated_row lc (stored_move m) (d_now db) c t | None \<Rightarrow> t) = ?f t" if "t \<in> set ?ts" for t
      by (simp add: changed_all_find[OF dist that] new_row_def)
    then show ?thesis
      by (simp add: db1 change_tasks_rows pf(1,2) changed_all_distinct[OF dist] end_leases_rows cong: map_cong option.case_cong)
  qed
  have others: "d_deps db1 = d_deps db" "d_plans db1 = d_plans db" "d_events db1 = d_events db" "d_nextEventId db1 = d_nextEventId db"
      "d_lifecycleName db1 = l_name lc" "d_lifecycleVersion db1 = l_version lc"
      "d_attempts db1 = map (ended_row {x. \<exists>t \<in> set ?ts. t_leaseAttemptId t = Some x} (m_name (up_expiry p)) (d_now db)) (d_attempts db)"
    by (simp_all add: db1 change_tasks_rows pf(1,3) changed_all_distinct[OF dist] end_leases_rows dv nm held_set)
  have out: "carried_to old lc t = Some (t_state (?f t)) \<and> isState lc (t_state (?f t)) \<and> t_leaseAttemptId (?f t) = None \<and> t_leaseExpiresAt (?f t) = None"
    if "t \<in> set ?ts" for t
    by (rule carried_row[OF s wfD(3)[OF w] dist that m stuck[OF that]]) (use ok in \<open>simp add: pf\<close>)
  have broken: "\<forall>t \<in> set ?ts. broken_task ?new (state_after (up_changes p) (sort_key t_id ?ts)) t = []"
      "\<forall>d \<in> set (d_deps db). broken_dep ?new (state_after (up_changes p) (sort_key t_id ?ts)) d = []"
    using refs(1,2) by (simp_all add: pf(5))
  have up: "q \<noteq> [] \<and> q \<in> ids ?ts" if "t \<in> set ?ts" "t_parentId t = Some q" for t q
  proof -
    have "(t_id t, q) \<in> parents ?ts" using that by (auto simp: parents_def)
    then have "q \<in> ids ?ts" using wfD(1)[OF w] by (force simp: forest_ok_def)
    then show ?thesis using named by auto
  qed
  have after: "state_after (up_changes p) (sort_key t_id ?ts) (t_id t) = t_state (?f t)" if "t \<in> set ?ts" for t
    unfolding pf(1) by (rule state_after_row[OF dist that])
  note un = unbroken[where ts = ?ts and after = "state_after (up_changes p) (sort_key t_id ?ts)" and f = ?f and ds = "d_deps db" and lc = lc, OF dist up after _ _ broken]
  have place: "parents (map ?f ?ts) = parents ?ts" "ids (map ?f ?ts) = ids ?ts" by (simp_all add: parents_map ids_map)
  have free: "open_attempts (d_attempts db1) i = []" for i
  proof -
    have "a_id x \<in> {x. \<exists>t \<in> set ?ts. t_leaseAttemptId t = Some x}" if "x \<in> set (d_attempts db)" "a_endedAt x = None" for x
      by (rule open_is_held[OF wfD(6)[OF w] that])
    then show ?thesis by (auto simp: others(7) open_attempts_def filter_empty_conv ended_row_def)
  qed
  have kept: "map a_id (d_attempts db1) = map a_id (d_attempts db)" "a_taskId ` set (d_attempts db1) = a_taskId ` set (d_attempts db)"
    by (simp_all only: others(7) ended_ids)
  have ended: "\<forall>x \<in> set (d_attempts db1). a_endedAt x \<noteq> None"
    using open_is_held[OF wfD(6)[OF w]] by (auto simp: others(7) ended_row_def)
  show "wf lc db1"
    unfolding wf_def
  proof (intro conjI)
    show "forest_ok (d_tasks db1)" "deps_ok (d_tasks db1) (set (d_deps db1))"
      using wfD(1,2)[OF w] by (simp_all add: rows others forest_ok_def deps_ok_def place comp_def)
    show "states_ok lc (d_tasks db1)" using out un(1) by (simp add: rows states_ok_def)
    show "closed_ok lc (d_tasks db1)" "waits_ok lc (d_tasks db1) (set (d_deps db1))" using un(2,3) by (simp_all add: rows others)
    show "attempts_ok (d_tasks db1) (d_attempts db1)"
      using wfD(6)[OF w] out unfolding attempts_ok_def kept by (simp add: free rows place lease_list_def)
    show "rows_ok (d_plans db1) (d_tasks db1)" using wfD(7)[OF w] by (simp add: rows others rows_ok_def row_ok_def comp_def)
    show "distinct (d_deps db1)" using wfD(8)[OF w] by (simp add: others)
  qed
  show "assertVersion lc db1 = Inr ()" using others by (simp add: assertVersion_def)
  show "d_events db1 = d_events db" "d_nextEventId db1 = d_nextEventId db" by (fact others)+
  show "map t_id (d_tasks db1) = map t_id ?ts" by (simp add: rows comp_def)
  show "list_all2 (\<lambda>t t'. carried_to old lc t = Some (t_state t') \<and> isState lc (t_state t') \<and> t_leaseAttemptId t' = None) ?ts (d_tasks db1)"
    using out by (simp add: rows list_all2_map2 list.rel_refl_strong)
  show "\<forall>x \<in> set (d_attempts db1). a_endedAt x \<noteq> None" by (rule ended)
  show "force \<or> (\<forall>t \<in> set ?ts. case t_leaseExpiresAt t of Some e \<Rightarrow> e \<le> d_now db | None \<Rightarrow> True)"
  proof (cases force)
    case False
    have "case t_leaseExpiresAt t of Some e \<Rightarrow> e \<le> d_now db | None \<Rightarrow> True" if "t \<in> set ?ts" for t
      using held_lapsed[where db = db and ts = "sort_key t_id ?ts" and t = t] refs(3) False wfD(3)[OF w] that by (auto simp: pf(3) states_ok_def)
    then show ?thesis by simp
  qed simp
qed

end
