(* ===== verification/Versions.thy ===== *)
theory Versions
  imports Activation
begin

text \<open>
  The engine over the versions of a lifecycle: a database with a table of registered versions, processes that each run one
  of them, and a project that is on one at a time. Every write of an actor handle (client.ts) is here, the calls of
  \<open>op\<close> and the activation of the version a process runs, by any process, with any guards, validators and
  configuration behind the stored form; a process on another version than the project's is refused.

  What registration does not check: that the claim move is not an expiry hook as well (lifecycle.ts, 219 to 231). A sweep
  then leaves a task in the leased state with no lease, so the theorems say it of every version registered, and the last
  section runs a lifecycle for which it fails.
\<close>

subsection \<open>Writes by any version\<close>

definition runs_version :: "'h lifecycle_table \<Rightarrow> 'x lifecycle \<Rightarrow> bool" where
  "runs_version tbl lc \<longleftrightarrow> valid_lifecycle lc \<and> storedLifecycle tbl (l_name lc) (l_version lc) = Inr (serializeLifecycle lc)"

definition claims_apart :: "'h lifecycle_table \<Rightarrow> bool" where
  "claims_apart tbl \<longleftrightarrow> (\<forall>k d h. tbl k = Some (d, h) \<longrightarrow> \<not> is_expiry_hook d (l_onClaim d))"

text \<open>The stored form of the version a project is on.\<close>

definition active :: "'h lifecycle_table \<Rightarrow> 'x db \<Rightarrow> tg_error + unit lifecycle" where
  "active tbl db = storedLifecycle tbl (d_lifecycleName db) (d_lifecycleVersion db)"

datatype 'x handle_call = Call "'x op" | Activate nat bool "string option"

definition call_activate where
  "call_activate lc tbl a version force req = once req ''lifecycle.upgraded'' (by_actor a None None)
     (transaction (activate lc tbl a version force req)) replay_nothing"

fun perform :: "'x lifecycle \<Rightarrow> 'x validator list \<Rightarrow> (string \<Rightarrow> json) \<Rightarrow> 'h lifecycle_table \<Rightarrow> actor \<Rightarrow> 'x handle_call \<Rightarrow> 'x db \<Rightarrow> tg_error + 'x db" where
  "perform lc vs cfg tbl a (Call op) db = exec lc vs cfg a op db"
| "perform lc vs cfg tbl a (Activate version force req) db = rows_after (call_activate lc tbl a version force req db db)"

inductive vstep :: "'h lifecycle_table \<Rightarrow> 'x db \<Rightarrow> 'x db \<Rightarrow> bool" for tbl where
  written: "runs_version tbl lc \<Longrightarrow> perform lc vs cfg tbl a w db = Inr db' \<Longrightarrow> vstep tbl db db'"
| ticked: "d_now db \<le> n \<Longrightarrow> vstep tbl db (db\<lparr>d_now := n\<rparr>)"
| called: "vstep tbl db (db\<lparr>d_caller := c\<rparr>)"

inductive_cases vstepE: "vstep tbl db db'"

text \<open>A project starts empty, on the version the process that makes it runs.\<close>

definition opened_project :: "'h lifecycle_table \<Rightarrow> 'x db \<Rightarrow> bool" where
  "opened_project tbl db \<longleftrightarrow> new_project db \<and> (\<exists>lc :: 'x lifecycle. runs_version tbl lc \<and> assertVersion lc db = Inr ())"

subsection \<open>A version is its stored form\<close>

lemma wf_serialize [simp]: "wf (serializeLifecycle lc) db = wf lc db"
  by (simp add: wf_def states_ok_def closed_ok_def waits_ok_def)

lemma serialize_names [simp]: "l_name (serializeLifecycle lc) = l_name lc" "l_version (serializeLifecycle lc) = l_version lc"
  "l_onClaim (serializeLifecycle lc) = l_onClaim lc" "l_createState (serializeLifecycle lc) = l_createState lc"
  "l_byRole (serializeLifecycle lc) = l_byRole lc" "is_expiry_hook (serializeLifecycle lc) nm = is_expiry_hook lc nm"
  by (simp_all add: serializeLifecycle_def is_expiry_hook_def)

lemma moves_serialize [simp]: "moves_rel (serializeLifecycle lc) = moves_rel lc" "starts (serializeLifecycle lc) = starts lc"
proof -
  have un: "along M = (\<Union>m \<in> M. set (m_from m) \<times> {m_to m})" for M :: "'b move set"
    unfolding along_def by blast
  have "m_from (stored_move m) = m_from m \<and> m_to (stored_move m) = m_to m" for m :: "'a move"
    by (simp add: stored_move_def)
  then have "along (set (map stored_move ms)) = along (set ms)" for ms :: "'a move list"
    unfolding un set_map by simp
  then show "moves_rel (serializeLifecycle lc) = moves_rel lc" by (simp add: moves_rel_def serializeLifecycle_def)
  show "starts (serializeLifecycle lc) = starts lc" by (simp add: starts_def fun_eq_iff)
qed

lemma assertVersion_iff: "assertVersion lc db = Inr () \<longleftrightarrow> d_lifecycleName db = l_name lc \<and> d_lifecycleVersion db = l_version lc"
  by (auto simp: assertVersion_def)

lemma active_runs:
  assumes "runs_version tbl lc" and "assertVersion lc db = Inr ()"
  shows "active tbl db = Inr (serializeLifecycle lc)"
  using assms by (simp add: active_def runs_version_def assertVersion_iff)

lemma claims_sound:
  assumes "claims_apart tbl" and "runs_version tbl lc"
  shows "sound_lifecycle lc"
proof -
  obtain h where "tbl (l_name lc, l_version lc) = Some (serializeLifecycle lc, h)"
    using assms(2) by (auto simp: runs_version_def storedLifecycle_def split: option.splits)
  then have "\<not> is_expiry_hook (serializeLifecycle lc) (l_onClaim (serializeLifecycle lc))"
    using assms(1) unfolding claims_apart_def by blast
  then show ?thesis using assms(2) by (simp add: sound_lifecycle_def runs_version_def)
qed

subsection \<open>No task without an id\<close>

definition named :: "'x db \<Rightarrow> bool" where
  "named db \<longleftrightarrow> [] \<notin> ids (d_tasks db)"

lemma named_find: "named db \<longleftrightarrow> find_task [] db = None"
  by (simp add: named_def ids_def find_row_None)

lemma moved_along_named:
  assumes "moved_along M db db'" and "named db"
  shows "named db'"
  using assms(1)[unfolded moved_along_def, THEN spec[of _ "[]"]] assms(2) by (simp add: named_find)

lemma createRow_named:
  assumes "createRow db t st orig rand = Inr (row, db')"
  shows "t_id row \<noteq> []"
proof (cases "nt_parent t")
  case None
  then have "newTaskId db (\<lambda>i. insertTask db (newRow db t st orig i)) rand = Inr (row, db')"
    using assms by (simp add: createRow_def)
  from draws_Inr[OF this[unfolded newTaskId_def draw_def]] obtain s where
    "insertTask db (newRow db t st orig ((d_idPrefix db @ ''-'') @ s)) = Some (row, db')" by blast
  then show ?thesis by (auto simp: insertTask_Some newRow_def)
next
  case (Some p)
  then obtain n db1 where "insertTask db1 (newRow db1 t st orig (p @ ''.'' @ show_nat n)) = Some (row, db')"
    using assms by (auto simp: createRow_def nextChildId_def split: option.splits)
  then show ?thesis by (auto simp: insertTask_Some newRow_def)
qed

lemma tasks_create_named:
  assumes "tasks_create lc a t rand req db = Inr (r, db', evs)" and "named db"
  shows "named db'"
proof (cases "Option.bind (nt_key t) (taskByKey db)")
  case None
  then have c: "createRow db t (createState lc (ac_role a) (nt_plan t)) (createOrigin (ac_role a) (nt_plan t)) rand = Inr (r, db')"
    using assms(1) by (auto simp: tasks_create_def)
  have "t_id r \<noteq> []" by (rule createRow_named[OF c])
  moreover have "ids (d_tasks (bumped t db)) = ids (d_tasks db)" by (auto simp: bumped_def ids_upd split: option.split)
  ultimately show ?thesis using assms(2) by (rule_tac createRow_Inr[OF c]) (auto simp: named_def ids_def)
qed (use assms in \<open>auto simp: tasks_create_def\<close>)

lemma tasks_delete_named: "tasks_delete lc a i req db = Inr (r, db', evs) \<Longrightarrow> named db \<Longrightarrow> named db'"
  by (auto simp: tasks_delete_def Let_def deleteRow_def named_def ids_def del_row_def split: if_splits)

lemma body_step_named:
  assumes b: "body_step body db db'" and n: "named db"
    and q: "\<And>r db1 evs. body db = Inr (r, db1, evs) \<Longrightarrow> named db \<Longrightarrow> named db1"
  shows "named db'"
proof -
  obtain r db1 evs where 1: "body db = Inr (r, db1, evs)" and s: "same_rows db1 db'"
    using b by (auto simp: body_step_def dest!: transaction_Inr)
  show ?thesis using q[OF 1 n] same_rowsD(1)[OF s] by (simp add: named_def)
qed

lemma exec_named:
  assumes s: "sound_lifecycle lc" and w: "wf lc db" and n: "named db" and e: "exec lc vs cfg a op db = Inr db'"
  shows "named db'"
proof (cases "db' = db")
  case False
  note v = sound_valid[OF s]
  note k = tasks_create_named tasks_delete_named
    tasks_update_moved[THEN moved_along_named] tasks_approve_moved[THEN moved_along_named]
    deps_links_notes_moved[THEN moved_along_named] move_moved[THEN moved_along_named]
    plans_create_moved[THEN moved_along_named] plans_approve_moved[OF v w, THEN moved_along_named]
    plans_discard_moved[OF v w, THEN moved_along_named] claim_next_moved[OF s w, THEN moved_along_named]
    heartbeat_moved[THEN moved_along_named] sweep_moved[OF s w, THEN moved_along_named]
  from exec_cases[OF e] False n show ?thesis
    by (cases op) (simp_all add: expireLeases_def[abs_def], (rule body_step_named, assumption, assumption, erule k, assumption)+)
qed (use n in simp)


subsection \<open>A process on another version is refused\<close>

lemma body_step_other:
  assumes b: "body_step body db db'" and c: "db' \<noteq> db"
    and q: "\<And>r db1 evs. body db = Inr (r, db1, evs) \<Longrightarrow> assertVersion lc db = Inr () \<or> db1 = db \<and> evs = []"
  shows "assertVersion lc db = Inr ()"
  using b c q by (fastforce simp: body_step_def transaction_def writeEvents_def)

lemma asserts_version:
  "tasks_create lc a t rand req db = Inr r1 \<Longrightarrow> assertVersion lc db = Inr ()"
  "tasks_update lc a i p req db = Inr r1 \<Longrightarrow> assertVersion lc db = Inr ()"
  "tasks_delete lc a i req db = Inr r2 \<Longrightarrow> assertVersion lc db = Inr ()"
  "tasks_approve lc vs cfg a i opts db = Inr r1 \<Longrightarrow> assertVersion lc db = Inr ()"
  "deps_add lc a i j req db = Inr r2 \<Longrightarrow> assertVersion lc db = Inr ()"
  "deps_remove lc a i j req db = Inr r2 \<Longrightarrow> assertVersion lc db = Inr ()"
  "links_add lc a x y k req db = Inr r2 \<Longrightarrow> assertVersion lc db = Inr ()"
  "notes_add lc a i note req db = Inr r2 \<Longrightarrow> assertVersion lc db = Inr ()"
  "move lc a i nm mo fence db = Inr r1 \<Longrightarrow> assertVersion lc db = Inr ()"
  "plans_create lc a title meta rand req db = Inr r3 \<Longrightarrow> assertVersion lc db = Inr ()"
  "plans_approve lc vs cfg a pid opts db = Inr r4 \<Longrightarrow> assertVersion lc db = Inr ()"
  "plans_discard lc a pid opts db = Inr r3 \<Longrightarrow> assertVersion lc db = Inr ()"
  "claim_next lc a co swept taken uuid db = Inr r5 \<Longrightarrow> assertVersion lc db = Inr ()"
  "heartbeat lc a i att ms db = Inr r6 \<Longrightarrow> assertVersion lc db = Inr ()"
  unfolding tasks_create_def tasks_update_def tasks_delete_def tasks_approve_def deps_add_def deps_remove_def links_add_def
    notes_add_def move_def plans_create_def plans_approve_def plans_discard_def claim_next_def heartbeat_def check_def bindE_Inr_iff
  by ((elim exE conjE, assumption) | (auto split: if_splits))+

lemma sweep_other:
  assumes "expireLeases lc locked db = Inr (n, db1, evs)"
  shows "assertVersion lc db = Inr () \<or> db1 = db \<and> evs = []"
  using assms by (auto simp: expireLeases_def sweep_def Let_def assertVersion_iff checkWriter_def split: if_splits)

lemma exec_other:
  assumes e: "exec lc vs cfg a op db = Inr db'"
  shows "db' = db \<or> assertVersion lc db = Inr ()"
proof (cases "db' = db")
  case False
  note k = asserts_version[THEN disjI1] sweep_other
  from exec_cases[OF e] False have "assertVersion lc db = Inr ()"
    by (cases op) (simp_all, (rule body_step_other, assumption, assumption, erule k)+)
  then show ?thesis ..
qed simp


subsection \<open>What the whole engine keeps\<close>

definition vgood :: "'h lifecycle_table \<Rightarrow> 'x db \<Rightarrow> bool" where
  "vgood tbl db \<longleftrightarrow> named db \<and> log_ok db \<and>
     (\<exists>lc :: 'x lifecycle. runs_version tbl lc \<and> assertVersion lc db = Inr () \<and> wf lc db)"

text \<open>The active version of such a project, and a process that runs a version of it.\<close>

lemma vgood_active: "vgood tbl db \<Longrightarrow> \<exists>d. active tbl db = Inr d \<and> wf d db"
  unfolding vgood_def using active_runs wf_serialize by blast

lemma vgood_runs:
  assumes g: "vgood tbl (db :: 'x db)" and r: "runs_version tbl lc" and v: "assertVersion lc db = Inr ()"
  shows "wf lc db"
proof -
  obtain lc' :: "'x lifecycle" where lc': "runs_version tbl lc'" "assertVersion lc' db = Inr ()" "wf lc' db"
    using g unfolding vgood_def by blast
  then have "serializeLifecycle lc' = serializeLifecycle lc" using active_runs[OF lc'(1,2)] active_runs[OF r v] by simp
  then show ?thesis using lc'(3) wf_serialize by metis
qed

lemma exec_vgood:
  assumes c: "claims_apart tbl" and g: "vgood tbl db" and r: "runs_version tbl lc" and e: "exec lc vs cfg a op db = Inr db'"
  shows "vgood tbl db'"
proof (cases "db' = db")
  case False
  then have v: "assertVersion lc db = Inr ()" using exec_other[OF e] by blast
  note s = claims_sound[OF c r] and w = vgood_runs[OF g r v]
  have "named db" "log_ok db" using g by (simp_all add: vgood_def)
  then have "named db'" "log_ok db'" "wf lc db'" using exec_named[OF s w _ e] exec_log[OF _ e] exec_wf[OF s w e] by auto
  moreover have "assertVersion lc db' = Inr ()" using exec_version[OF e] v by (simp add: same_version_def assertVersion_iff)
  ultimately show ?thesis using r unfolding vgood_def by blast
qed (use g in simp)

text \<open>Where a state is carried by an activation: a leased task first goes where its lease's end leaves it.\<close>

definition carry :: "'a lifecycle \<Rightarrow> 'b lifecycle \<Rightarrow> string \<Rightarrow> string option" where
  "carry old lc s = (let r = (if stateFlag sf_leased old s then lease_end old else s) in
     if isState lc r then Some r else mapped (migrate_map lc (l_version old)) r)"

lemma carried_carry:
  assumes "wf old db" and "t \<in> set (d_tasks db)"
  shows "carried_to old lc t = carry old lc (t_state t)"
  using wfD(3)[OF assms(1)] assms(2) by (auto simp: states_ok_def carried_to_def carry_def)

lemma carry_serialize [simp]: "carry (serializeLifecycle old) (serializeLifecycle lc) s = carry old lc s"
proof -
  have "lease_end (serializeLifecycle old) = lease_end old"
    by (simp add: lease_end_def serialize_moves stored_move_def split: option.split)
  then show ?thesis by (simp add: carry_def migrate_map_def Let_def)
qed

lemma carry_stays: "isState lc s \<Longrightarrow> \<not> stateFlag sf_leased old s \<Longrightarrow> carry old lc s = Some s"
  by (simp add: carry_def)

text \<open>An upgrade: another version, and every task carried to a state of it.\<close>

definition upgraded :: "'h lifecycle_table \<Rightarrow> 'x db \<Rightarrow> 'x db \<Rightarrow> bool" where
  "upgraded tbl db db' \<longleftrightarrow> d_lifecycleName db' = d_lifecycleName db \<and> d_lifecycleVersion db' \<noteq> d_lifecycleVersion db \<and>
     (\<exists>old new. active tbl db = Inr old \<and> active tbl db' = Inr new \<and>
       (\<forall>i. rel_option (\<lambda>t t'. carry old new (t_state t) = Some (t_state t') \<and> isState new (t_state t') \<and> t_leaseAttemptId t' = None)
         (find_task i db) (find_task i db')))"

lemma rel_find:
  assumes "list_all2 R xs ys" and "map key ys = map key xs"
  shows "rel_option R (find_row key i xs) (find_row key i ys)"
  using assms by (induction rule: list_all2_induct) auto

lemma perform_activate:
  assumes "perform lc vs cfg tbl a (Activate version force req) db = Inr db'"
  shows "db' = db \<or> body_step (activate lc tbl a version force req) db db'"
  using assms by (auto simp: call_activate_def rows_after_Inr body_step_def dest!: once_steps)

lemma activate_vgood:
  assumes c: "claims_apart tbl" and g: "vgood tbl db" and r: "runs_version tbl (lc :: 'x lifecycle)"
    and b: "body_step (activate lc tbl a version force req) db db'"
  shows "vgood tbl db' \<and> upgraded tbl db db'"
proof -
  obtain u db1 evs where body: "activate lc tbl a version force req db = Inr (u, db1, evs)" and wr: "writeEvents evs db1 = Inr db'"
      and same: "same_rows db1 db'" using b by (auto simp: body_step_def dest!: transaction_Inr)
  obtain old :: "'x lifecycle" where old: "runs_version tbl old" "assertVersion old db = Inr ()" "wf old db"
    using g unfolding vgood_def by blast
  note n = activate_named[OF body]
  have nm: "l_name lc = l_name old" using n(1) old(2) by (simp add: assertVersion_iff)
  have st: "storedLifecycle tbl (l_name old) (l_version old) = Inr (serializeLifecycle old)"
    "storedLifecycle tbl (l_name lc) (l_version lc) = Inr (serializeLifecycle lc)"
    using old(1) r by (simp_all add: runs_version_def)
  have nd: "[] \<notin> ids (d_tasks db)" and lg: "log_ok db" using g by (simp_all add: vgood_def named_def)
  note k = activated[OF claims_sound[OF c old(1)] old(3,2) nd nm st body]
  note eq = same_rowsD[OF same]
  have ids: "map t_id (d_tasks db') = map t_id (d_tasks db)" using k(5) eq by simp
  have v: "assertVersion lc db' = Inr ()" using k(2) eq by (simp add: assertVersion_iff)
  have "wf lc db'" using wf_same_rows[OF same k(1)] .
  moreover have "log_ok db'" using writeEvents_log[OF wr] lg k(3,4) by (simp add: log_ok_def)
  moreover have "named db'" using nd ids unfolding named_def ids_def by (metis list.set_map)
  ultimately have good: "vgood tbl db'" using r v unfolding vgood_def by blast
  have "list_all2 (\<lambda>t t'. carry old lc (t_state t) = Some (t_state t') \<and> isState lc (t_state t') \<and> t_leaseAttemptId t' = None) (d_tasks db) (d_tasks db')"
    using k(6) unfolding eq(1) by (rule list.rel_mono_strong) (simp add: carried_carry[OF old(3)])
  then have "rel_option (\<lambda>t t'. carry old lc (t_state t) = Some (t_state t') \<and> isState lc (t_state t') \<and> t_leaseAttemptId t' = None)
      (find_task i db) (find_task i db')" for i by (rule rel_find) (rule ids)
  moreover have "d_lifecycleName db' = d_lifecycleName db" "d_lifecycleVersion db' \<noteq> d_lifecycleVersion db"
    using v n by (simp_all add: assertVersion_iff)
  moreover have "active tbl db = Inr (serializeLifecycle old)" "active tbl db' = Inr (serializeLifecycle lc)"
    using active_runs old(1,2) r v by blast+
  ultimately have "upgraded tbl db db'" unfolding upgraded_def by (intro conjI exI[of _ "serializeLifecycle old"] exI[of _ "serializeLifecycle lc"]) simp_all
  then show ?thesis using good by blast
qed


text \<open>The whole engine, as a transition system: what holds at the start is kept by every write of any process.\<close>

lemma vstep_good:
  assumes c: "claims_apart tbl" and g: "vgood tbl db" and s: "vstep tbl db db'"
  shows "vgood tbl db'"
  using s
proof (rule vstepE)
  fix lc :: "'b lifecycle" and vs cfg a w
  assume r: "runs_version tbl lc" and p: "perform lc vs cfg tbl a w db = Inr db'"
  show ?thesis
  proof (cases w)
    case (Call op)
    then show ?thesis using exec_vgood[OF c g r] p by simp
  next
    case (Activate version force req)
    then show ?thesis using perform_activate p activate_vgood[OF c g r] g by fastforce
  qed
qed (use g in \<open>auto simp: vgood_def named_def log_ok_def wf_def assertVersion_iff\<close>)

interpretation versions: inductive_invariant "\<lambda>db :: 'x db. claims_apart tbl \<and> opened_project tbl db" "vstep tbl" "\<lambda>db. claims_apart tbl \<and> vgood tbl db"
  for tbl :: "'h lifecycle_table"
proof
  fix db :: "'x db"
  assume o: "claims_apart tbl \<and> opened_project tbl db"
  then obtain lc :: "'x lifecycle" where lc: "runs_version tbl lc" "assertVersion lc db = Inr ()" "new_project db"
    by (auto simp: opened_project_def)
  then have "wf lc db" "log_ok db" "named db" by (auto simp: new_project_def log_ok_def named_def ids_def intro: wf_empty)
  then show "claims_apart tbl \<and> vgood tbl db" using lc o unfolding vgood_def by blast
next
  fix db db' :: "'x db"
  assume "claims_apart tbl \<and> vgood tbl db" and "vstep tbl db db'"
  then show "claims_apart tbl \<and> vgood tbl db'" using vstep_good by blast
qed

abbreviation vreachable :: "'h lifecycle_table \<Rightarrow> 'x db \<Rightarrow> bool" where
  "vreachable tbl \<equiv> transition_system.reachable (opened_project tbl) (vstep tbl)"

lemma vreachable_versions:
  "claims_apart tbl \<Longrightarrow> vreachable tbl db \<Longrightarrow>
   transition_system.reachable (\<lambda>db. claims_apart tbl \<and> opened_project tbl db) (vstep tbl) db"
  unfolding transition_system.reachable_def by blast

lemma vreachable_good: "claims_apart tbl \<Longrightarrow> vreachable tbl db \<Longrightarrow> vgood tbl db"
  using versions.holds[OF vreachable_versions] by blast

lemma vsteps_good: "(vstep tbl)\<^sup>*\<^sup>* db db' \<Longrightarrow> claims_apart tbl \<Longrightarrow> vgood tbl db \<Longrightarrow> vgood tbl db'"
  using versions.keeps_all by blast

text \<open>What a step does to the tasks: moves along the moves of the active version, or an upgrade.\<close>

lemma vstep_cases:
  assumes c: "claims_apart tbl" and g: "vgood tbl (db :: 'x db)" and s: "vstep tbl db db'"
  obtains (kept) lc :: "'x lifecycle" where "runs_version tbl lc" "assertVersion lc db = Inr ()" "assertVersion lc db' = Inr ()"
      "evolves lc (set (l_moves lc)) db db'"
    | (upgraded) "upgraded tbl db db'"
proof -
  obtain lc0 :: "'x lifecycle" where lc0: "runs_version tbl lc0" "assertVersion lc0 db = Inr ()"
    using g unfolding vgood_def by blast
  have same: thesis if "d_tasks db' = d_tasks db" "assertVersion lc0 db' = Inr ()"
    using kept[OF lc0 that(2)] moved_along_evolves[OF moved_along_refl] that(1) by blast
  from s show thesis
  proof (rule vstepE)
    fix lc :: "'x lifecycle" and vs cfg a w
    assume r: "runs_version tbl lc" and p: "perform lc vs cfg tbl a w db = Inr db'"
    show thesis
    proof (cases "db' = db")
      case True
      then show thesis using same lc0(2) by simp
    next
      case ne: False
      show thesis
      proof (cases w)
        case (Call op)
        then have e: "exec lc vs cfg a op db = Inr db'" using p by simp
        then have v: "assertVersion lc db = Inr ()" using exec_other[OF e] ne by simp
        then have v': "assertVersion lc db' = Inr ()" using exec_version[OF e] by (simp add: same_version_def assertVersion_iff)
        have "evolves lc (op_moves lc a op) db db'" by (rule exec_evolves[OF claims_sound[OF c r] vgood_runs[OF g r v] e])
        then show thesis using kept[OF r v v'] evolves_mono[OF op_moves_declared] by blast
      next
        case (Activate version force req)
        then show thesis using perform_activate p ne activate_vgood[OF c g r] upgraded by blast
      qed
    qed
  qed (use same lc0(2) in \<open>simp_all add: assertVersion_iff\<close>)
qed


subsection \<open>Closed tasks\<close>

text \<open>The state is a terminal one of the version the project is on.\<close>

definition ends_in :: "'h lifecycle_table \<Rightarrow> string \<Rightarrow> 'x db \<Rightarrow> bool" where
  "ends_in tbl s db \<longleftrightarrow> (\<exists>lc. active tbl db = Inr lc \<and> isTerminal lc s)"

lemma vstep_closed:
  assumes c: "claims_apart tbl" and g: "vgood tbl (db :: 'x db)" and s: "vstep tbl db db'"
    and e: "ends_in tbl (t_state t) db" "ends_in tbl (t_state t) db'" and t: "find_task i db = Some t"
  shows "\<exists>t'. find_task i db' = Some t' \<and> t_state t' = t_state t"
  using c g s
proof (cases rule: vstep_cases)
  case (kept lc)
  have "isTerminal lc (t_state t)" using e(1) active_runs[OF kept(1,2)] by (simp add: ends_in_def)
  then show ?thesis using evolves_closed[OF _ kept(4)] kept(1) t by (auto simp: closed_stays_def runs_version_def)
next
  case upgraded
  then obtain old new where a: "active tbl db = Inr old" "active tbl db' = Inr new"
    and r: "rel_option (\<lambda>t t'. carry old new (t_state t) = Some (t_state t')) (find_task i db) (find_task i db')"
    unfolding upgraded_def by (metis (no_types, lifting) option.rel_mono_strong)
  obtain lc :: "'x lifecycle" where lc: "runs_version tbl lc" "assertVersion lc db = Inr ()"
    using g unfolding vgood_def by blast
  have old: "old = serializeLifecycle lc" using active_runs[OF lc] a(1) by simp
  have "isTerminal lc (t_state t)" using e(1) a(1) old by (simp add: ends_in_def)
  then have "\<not> stateFlag sf_leased old (t_state t)" using leased_not_terminal[of lc "t_state t"] lc(1) old by (auto simp: runs_version_def)
  moreover have "isState new (t_state t)" using e(2) a(2) by (auto simp: ends_in_def isState_def stateFlag_def image_iff intro: bexI[rotated] dest!: map_of_SomeD split: option.splits)
  ultimately have "carry old new (t_state t) = Some (t_state t)" by (rule carry_stays[rotated])
  then show ?thesis using r t by (cases "find_task i db'") auto
qed

lemma closed_runs:
  assumes c: "claims_apart tbl"
  shows "(\<lambda>a b. vstep tbl a b \<and> ends_in tbl s b)\<^sup>*\<^sup>* db db' \<Longrightarrow> vgood tbl db \<Longrightarrow> ends_in tbl s db \<Longrightarrow>
    find_task i db = Some t \<Longrightarrow> t_state t = s \<Longrightarrow>
    vgood tbl db' \<and> ends_in tbl s db' \<and> (\<exists>t'. find_task i db' = Some t' \<and> t_state t' = s)"
proof (induction rule: rtranclp_induct)
  case (step y z)
  then obtain t' where y: "vgood tbl y" "ends_in tbl s y" "find_task i y = Some t'" "t_state t' = s" by blast
  have "vgood tbl z" "ends_in tbl s z" using vstep_good[OF c y(1)] step(2) by blast+
  moreover have "\<exists>t''. find_task i z = Some t'' \<and> t_state t'' = s" using vstep_closed[OF c y(1) _ _ _ y(3)] y(2,4) step(2) by blast
  ultimately show ?case by blast
qed blast

text \<open>A run of one process is a run of the whole.\<close>

lemma leads_vsteps:
  assumes r: "runs_version tbl lc"
  shows "leads_to lc vs cfg db db' \<Longrightarrow> (vstep tbl)\<^sup>*\<^sup>* db db'"
  unfolding leads_to_def
proof (induction rule: rtranclp_induct)
  case (step y z)
  from step(2) have "vstep tbl y z"
  proof (rule stepE)
    fix a op assume "exec lc vs cfg a op y = Inr z"
    then show ?thesis using vstep.written[OF r, of vs cfg a "Call op" y z] by simp
  qed (auto intro: vstep.intros)
  with step(3) show ?case by simp
qed simp


subsection \<open>The log and the attempts, over any versions\<close>

lemma change_tasks_rest:
  "d_attempts (change_tasks lc e cs db) = d_attempts db" "d_events (change_tasks lc e cs db) = d_events db"
  "d_nextEventId (change_tasks lc e cs db) = d_nextEventId db" "d_lifecycleVersion (change_tasks lc e cs db) = d_lifecycleVersion db"
proof -
  have "d_attempts (fold (\<lambda>c. upd_task (tc_id c) (f c)) cs db) = d_attempts db \<and> d_events (fold (\<lambda>c. upd_task (tc_id c) (f c)) cs db) = d_events db \<and>
      d_nextEventId (fold (\<lambda>c. upd_task (tc_id c) (f c)) cs db) = d_nextEventId db \<and>
      d_lifecycleVersion (fold (\<lambda>c. upd_task (tc_id c) (f c)) cs db) = d_lifecycleVersion db" for f
    by (induction cs arbitrary: db) (simp_all add: upd_task_def)
  then show "d_attempts (change_tasks lc e cs db) = d_attempts db" "d_events (change_tasks lc e cs db) = d_events db"
    "d_nextEventId (change_tasks lc e cs db) = d_nextEventId db" "d_lifecycleVersion (change_tasks lc e cs db) = d_lifecycleVersion db"
    unfolding change_tasks_def by blast+
qed

lemma activate_body:
  assumes "activate lc tbl a version force req db = Inr (u, db1, evs)"
  shows "d_events db1 = d_events db" "d_nextEventId db1 = d_nextEventId db" "d_lifecycleVersion db1 = version" "ended_stay db db1"
proof -
  obtain p :: upgrade_plan where db1: "db1 = change_tasks lc (up_expiry p) (up_changes p) (end_leases (m_name (up_expiry p)) (df_leases p) (db\<lparr>d_lifecycleVersion := version\<rparr>))"
    using assms unfolding activate_def Let_def bindE_Inr_iff sum.inject prod.inject
    by (elim exE conjE) (rule that, erule sym)
  show "d_events db1 = d_events db" "d_nextEventId db1 = d_nextEventId db" "d_lifecycleVersion db1 = version"
    by (simp_all add: db1 change_tasks_rest end_leases_rows)
  show "ended_stay db db1"
    by (force simp: ended_stay_def db1 change_tasks_rest end_leases_rows ended_row_def image_iff)
qed

lemma vstep_log:
  assumes l: "log_ok db" and s: "vstep tbl (db :: 'x db) db'"
  shows "log_ok db' \<and> extends db db'"
  using s
proof (rule vstepE)
  fix lc :: "'x lifecycle" and vs cfg a w
  assume p: "perform lc vs cfg tbl a w db = Inr db'"
  show ?thesis
  proof (cases w)
    case (Call op)
    then show ?thesis using exec_log[OF l] p by simp
  next
    case (Activate version force req)
    from perform_activate[OF p[unfolded Activate]] show ?thesis
    proof
      assume "body_step (activate lc tbl a version force req) db db'"
      then obtain u db1 evs where b: "activate lc tbl a version force req db = Inr (u, db1, evs)" and w: "writeEvents evs db1 = Inr db'"
        by (auto simp: body_step_def dest!: transaction_Inr)
      then show ?thesis using writeEvents_log[OF w] l activate_body(1,2)[OF b] by (simp add: log_ok_def extends_def)
    qed (use l in \<open>simp add: extends_def\<close>)
  qed
qed (use l in \<open>auto simp: log_ok_def extends_def\<close>)

lemma vsteps_log: "(vstep tbl)\<^sup>*\<^sup>* db db' \<Longrightarrow> log_ok db \<Longrightarrow> log_ok db' \<and> extends db db'"
proof (induction rule: rtranclp_induct)
  case (step y z)
  then show ?case using vstep_log[of y tbl z] by (auto simp: extends_def)
qed (simp add: extends_def)

lemma vreachable_log: "vreachable tbl db \<Longrightarrow> log_ok db"
  using vsteps_log unfolding transition_system.reachable_def by (fastforce simp: opened_project_def new_project_def log_ok_def)

lemma vstep_ended:
  assumes s: "vstep tbl (db :: 'x db) db'"
  shows "ended_stay db db'"
  using s
proof (rule vstepE)
  fix lc :: "'x lifecycle" and vs cfg a w
  assume p: "perform lc vs cfg tbl a w db = Inr db'"
  show ?thesis
  proof (cases w)
    case (Call op)
    then show ?thesis using exec_ended p by simp
  next
    case (Activate version force req)
    from perform_activate[OF p[unfolded Activate]] show ?thesis
      by (auto intro: ended_stay_same body_step_ended activate_body(4))
  qed
qed (simp_all add: ended_stay_same)

lemma vsteps_ended: "(vstep tbl)\<^sup>*\<^sup>* db db' \<Longrightarrow> ended_stay db db'"
  by (induction rule: rtranclp_induct) (auto intro: ended_stay_trans vstep_ended ended_stay_same)

text \<open>An attempt that has ended holds no task.\<close>

lemma ended_holds_none:
  assumes g: "vgood tbl (db :: 'x db)" and x: "x \<in> set (d_attempts db)" "a_endedAt x \<noteq> None" and t: "t \<in> set (d_tasks db)"
  shows "t_leaseAttemptId t \<noteq> Some (a_id x)"
proof
  assume h: "t_leaseAttemptId t = Some (a_id x)"
  have a: "attempts_ok (d_tasks db) (d_attempts db)" using g wfD(6) unfolding vgood_def by blast
  then have "open_attempts (d_attempts db) (t_id t) = [a_id x]" using t h by (simp add: attempts_ok_def lease_list_def)
  then have "a_id x \<in> set (open_attempts (d_attempts db) (t_id t))" by simp
  then obtain y where "y \<in> set (d_attempts db)" "a_id y = a_id x" "a_endedAt y = None" by (auto simp: open_attempts_def)
  then show False using distinct_key_eq[of a_id "d_attempts db" x y] a x by (auto simp: attempts_ok_def)
qed

end
