(* ===== verification/Policy.thy ===== *)
theory Policy
  imports Engine
begin

text \<open>
  Shreni's own lifecycle and its guards (src/policy/lifecycle/lifecycle.ts, guards.ts). The rows the
  guards read, Shreni's tables and the stored lifecycle definitions, are the caller's part of the database.

  The theorems: the lifecycle passes registration; nothing but its moves closes work, and each close is
  backed by the evidence its guard names; the roles of planners and agents change no task's state.
\<close>

subsection \<open>Shreni's rows\<close>

record evidence =
  ve_attemptId :: string
  ve_prUrl :: "string option"
  ve_gates :: json

record acceptance_check =
  ck_projectId :: string
  ck_taskId :: "string option"
  ck_mode :: string

record shreni_rows =
  sr_evidence :: "evidence list"
  sr_checks :: "acceptance_check list"
  sr_lifecycles :: "((string \<times> nat) \<times> (string \<times> state_flags) list) list"

text \<open>\<open>j -> k\<close> on a \<open>jsonb\<close>: a member, or null when there is none.\<close>

fun jget :: "string \<Rightarrow> json option \<Rightarrow> json option" where
  "jget k (Some (JObj ms)) = map_of ms k"
| "jget k _ = None"

definition evidenceOf :: "shreni_rows db \<Rightarrow> string \<Rightarrow> evidence option" where
  "evidenceOf db i = find_row ve_attemptId i (sr_evidence (d_caller db))"

definition checksOf :: "shreni_rows db \<Rightarrow> task \<Rightarrow> acceptance_check list" where
  "checksOf db t = filter (\<lambda>c. ck_projectId c = t_projectId t \<and> ck_taskId c = Some (t_id t)) (sr_checks (d_caller db))"

text \<open>The current attempt: the lease's when claimed, else the newest.\<close>

definition attempt_key :: "task \<Rightarrow> attempt \<Rightarrow> bool \<times> int \<times> string" where
  "attempt_key t a = (t_leaseAttemptId t = Some (a_id a), a_startedAt a, a_id a)"

definition currentAttempt :: "shreni_rows db \<Rightarrow> task \<Rightarrow> attempt option" where
  "currentAttempt db t = (case rev (sort_key (attempt_key t) (filter (\<lambda>a. a_taskId a = t_id t) (d_attempts db))) of
     [] \<Rightarrow> None | a # _ \<Rightarrow> Some a)"

definition currentGates :: "shreni_rows db \<Rightarrow> task \<Rightarrow> json option" where
  "currentGates db t = Option.bind (currentAttempt db t) (\<lambda>a. map_option ve_gates (evidenceOf db (a_id a)))"

definition acceptancePassed :: "shreni_rows db \<Rightarrow> task \<Rightarrow> bool" where
  "acceptancePassed db t \<longleftrightarrow> jget ''passed'' (jget ''acceptance'' (currentGates db t)) = Some (JBool True)"

definition workLanded :: "shreni_rows db \<Rightarrow> task \<Rightarrow> bool" where
  "workLanded db t \<longleftrightarrow> jget ''landed'' (currentGates db t) = Some (JBool True)"

subsection \<open>The guards\<close>

definition hasOpenPrFn :: "task \<Rightarrow> actor \<Rightarrow> shreni_rows db \<Rightarrow> string option" where
  "hasOpenPrFn t a db = (case t_leaseAttemptId t of
       None \<Rightarrow> Some ''the task holds no attempt to submit''
     | Some x \<Rightarrow> (case Option.bind (evidenceOf db x) ve_prUrl of
           Some url \<Rightarrow> if url = '''' then Some ''the attempt has no open PR recorded'' else None
         | None \<Rightarrow> Some ''the attempt has no open PR recorded''))"

definition checksPassedFn :: "task \<Rightarrow> actor \<Rightarrow> shreni_rows db \<Rightarrow> string option" where
  "checksPassedFn t a db =
     (if checksOf db t = [] then None
      else if acceptancePassed db t then None
      else Some ''the task's acceptance checks haven't passed'')"

definition checksConfirmedFn :: "task \<Rightarrow> actor \<Rightarrow> shreni_rows db \<Rightarrow> string option" where
  "checksConfirmedFn t a db =
     (if filter (\<lambda>c. ck_mode c = ''manual'') (checksOf db t) = [] then Some ''the task has no manual check to confirm''
      else if \<not> workLanded db t then Some ''the task's work never landed on main''
      else if acceptancePassed db t then None
      else Some ''the task's acceptance checks haven't passed'')"

text \<open>The flags of the project's active lifecycle, as it is stored.\<close>

definition activeFlag :: "(state_flags \<Rightarrow> bool) \<Rightarrow> shreni_rows db \<Rightarrow> string \<Rightarrow> bool" where
  "activeFlag flag db s =
     (case Option.bind (map_of (sr_lifecycles (d_caller db)) (d_lifecycleName db, d_lifecycleVersion db)) (\<lambda>states. map_of states s) of
        Some f \<Rightarrow> flag f | None \<Rightarrow> False)"

definition childrenSettledFn :: "task \<Rightarrow> actor \<Rightarrow> shreni_rows db \<Rightarrow> string option" where
  "childrenSettledFn t a db =
     (if t_kind t \<noteq> Container then Some ''only a container is completed; finish a work task''
      else if filter (\<lambda>u. \<not> activeFlag sf_terminal db (t_state u)) (childrenOf db (t_id t)) \<noteq> []
      then Some ''the container has children that aren't finished''
      else if filter (\<lambda>u. activeFlag sf_satisfiesDeps db (t_state u)) (childrenOf db (t_id t)) = []
      then Some ''no child is done: cancel the container, or file work under it''
      else None)"

definition hasOpenPr :: "shreni_rows guard" where
  "hasOpenPr = \<lparr>g_name = Some ''hasOpenPr'', g_fn = hasOpenPrFn\<rparr>"

definition checksPassed :: "shreni_rows guard" where
  "checksPassed = \<lparr>g_name = Some ''checksPassed'', g_fn = checksPassedFn\<rparr>"

definition checksConfirmed :: "shreni_rows guard" where
  "checksConfirmed = \<lparr>g_name = Some ''checksConfirmed'', g_fn = checksConfirmedFn\<rparr>"

definition childrenSettled :: "shreni_rows guard" where
  "childrenSettled = \<lparr>g_name = Some ''childrenSettled'', g_fn = childrenSettledFn\<rparr>"

subsection \<open>The lifecycle\<close>

definition flags :: "bool \<Rightarrow> bool \<Rightarrow> bool \<Rightarrow> bool \<Rightarrow> state_flags" where
  "flags c l s t = \<lparr>sf_claimable = c, sf_leased = l, sf_satisfiesDeps = s, sf_terminal = t\<rparr>"

definition plain :: "string \<Rightarrow> string list \<Rightarrow> string \<Rightarrow> string list \<Rightarrow> 'x move" where
  "plain nm from to who = \<lparr>m_name = nm, m_from = from, m_to = to, m_by = who, m_guard = None, m_boost = False, m_clearsBoost = False\<rparr>"

definition nonTerminal :: "string list" where
  "nonTerminal = [''proposed'', ''open'', ''claimed'', ''waiting'', ''blocked'', ''parked'']"

definition task_moves :: "shreni_rows move list" where
  "task_moves = [
       plain ''approve'' [''proposed''] ''open'' [''developer''],
       plain ''claim'' [''open''] ''claimed'' [''orchestrator'', ''developer''],
       plain ''release'' [''claimed''] ''open'' [''orchestrator'', ''developer''],
       plain ''expire'' [''claimed''] ''open'' [''system''],
       (plain ''submit'' [''claimed''] ''waiting'' [''orchestrator''])\<lparr>m_guard := Some hasOpenPr, m_clearsBoost := True\<rparr>,
       (plain ''finish'' [''claimed'', ''waiting''] ''done'' [''orchestrator'', ''developer''])\<lparr>m_guard := Some checksPassed, m_clearsBoost := True\<rparr>,
       (plain ''followUp'' [''waiting''] ''open'' [''orchestrator''])\<lparr>m_boost := True\<rparr>,
       plain ''flag'' [''open'', ''claimed'', ''waiting''] ''blocked'' [''orchestrator'', ''system''],
       plain ''unblock'' [''blocked''] ''open'' [''developer''],
       (plain ''confirm'' [''blocked''] ''done'' [''developer''])\<lparr>m_guard := Some checksConfirmed, m_clearsBoost := True\<rparr>,
       plain ''park'' [''proposed'', ''open'', ''blocked''] ''parked'' [''developer''],
       plain ''unpark'' [''parked''] ''open'' [''developer''],
       (plain ''cancel'' nonTerminal ''cancelled'' [''developer''])\<lparr>m_clearsBoost := True\<rparr>,
       (plain ''completeContainer'' [''open''] ''done'' [''orchestrator'', ''developer''])\<lparr>m_guard := Some childrenSettled\<rparr>]"

definition task_permissions :: "(call \<times> (string \<times> allowed) list) list" where
  "task_permissions = [
       (TasksCreate, [(''developer'', AnyState), (''planner'', AnyState), (''system'', AnyState), (''agent'', AnyState)]),
       (TasksUpdate, [(''developer'', InStates [''proposed'', ''open'', ''blocked'', ''parked'']), (''planner'', InStates [''proposed''])]),
       (TasksDelete, [(''developer'', InStates [''proposed'']), (''planner'', InStates [''proposed''])]),
       (DepsAdd, [(''developer'', AnyState), (''planner'', InStates [''proposed''])]),
       (DepsRemove, [(''developer'', AnyState), (''planner'', InStates [''proposed''])]),
       (LinksAdd, [(''developer'', AnyState), (''planner'', AnyState), (''orchestrator'', AnyState), (''agent'', AnyState)]),
       (NotesAdd, [(''developer'', AnyState), (''orchestrator'', AnyState), (''agent'', AnyState)]),
       (PlansCreate, [(''developer'', AnyState), (''planner'', AnyState)]),
       (PlansValidate, [(''developer'', AnyState), (''planner'', AnyState)]),
       (LifecyclesActivate, [(''developer'', AnyState)])]"

definition taskLifecycle :: "shreni_rows lifecycle" where
  "taskLifecycle = \<lparr>
     l_name = ''shreni.task'', l_version = 2,
     l_states = [
       (''proposed'', flags False False False False),
       (''open'', flags True False False False),
       (''claimed'', flags False True False False),
       (''waiting'', flags False False False False),
       (''blocked'', flags False False False False),
       (''parked'', flags False False False False),
       (''done'', flags False False True True),
       (''cancelled'', flags False False False True)],
     l_createState = ''proposed'', l_byRole = Some [(''system'', ''open'')],
     l_moves = task_moves, l_permissions = task_permissions,
     l_onApprove = ''approve'', l_onClaim = ''claim'', l_onDiscard = ''cancel'', l_onLeaseExpiry = ''expire'',
     l_onRepeatedExpiry = Some (3, ''flag''), l_migrate = None\<rparr>"

lemmas move_defs = task_moves_def plain_def nonTerminal_def hasOpenPr_def checksPassed_def checksConfirmed_def childrenSettled_def

subsection \<open>Registration\<close>

lemma taskLifecycle_fields [simp]:
  "l_name taskLifecycle = ''shreni.task''" "l_version taskLifecycle = 2" "l_createState taskLifecycle = ''proposed''"
  "l_byRole taskLifecycle = Some [(''system'', ''open'')]" "l_onApprove taskLifecycle = ''approve''"
  "l_onClaim taskLifecycle = ''claim''" "l_onDiscard taskLifecycle = ''cancel''" "l_onLeaseExpiry taskLifecycle = ''expire''"
  "l_onRepeatedExpiry taskLifecycle = Some (3, ''flag'')" "l_migrate taskLifecycle = None"
  "l_moves taskLifecycle = task_moves" "l_permissions taskLifecycle = task_permissions"
  by (simp_all add: taskLifecycle_def)

lemma states_simp: "map fst (l_states taskLifecycle) =
    [''proposed'', ''open'', ''claimed'', ''waiting'', ''blocked'', ''parked'', ''done'', ''cancelled'']"
  by (simp add: taskLifecycle_def)

lemma flagged_simps:
  "flagged sf_claimable taskLifecycle = [''open'']" "flagged sf_leased taskLifecycle = [''claimed'']"
  "flagged sf_satisfiesDeps taskLifecycle = [''done'']" "flagged sf_terminal taskLifecycle = [''done'', ''cancelled'']"
  by (simp_all add: flagged_def taskLifecycle_def flags_def)

lemma wf_taskLifecycle: "wf_objects taskLifecycle"
  unfolding wf_objects_def states_simp by simp

lemma flag_simps:
  "isTerminal taskLifecycle s \<longleftrightarrow> s = ''done'' \<or> s = ''cancelled''" "isSatisfying taskLifecycle s \<longleftrightarrow> s = ''done''"
  "stateFlag sf_claimable taskLifecycle s \<longleftrightarrow> s = ''open''" "stateFlag sf_leased taskLifecycle s \<longleftrightarrow> s = ''claimed''"
  using flagged_iff[OF wf_taskLifecycle[unfolded wf_objects_def], of s] unfolding flagged_simps
  by (auto simp flip: flagged_iff[OF wf_taskLifecycle[unfolded wf_objects_def]] simp: flagged_simps)

lemma isState_simp: "isState taskLifecycle s \<longleftrightarrow> s \<in> {''proposed'', ''open'', ''claimed'', ''waiting'', ''blocked'', ''parked'', ''done'', ''cancelled''}"
  unfolding isState_def states_simp by simp

lemma unknown_ok: "isState taskLifecycle s \<Longrightarrow> unknownState taskLifecycle w s = []"
  by (simp add: unknownState_def)

lemma shape_ok: "shapeIssues taskLifecycle = []"
  by (simp add: shapeIssues_def issue_def opt_list_def pairs_nonempty_def move_issues_def permission_issues_def
      states_simp move_defs task_permissions_def upt_rec Let_def)

lemma flag_rules_ok: "flag_rules taskLifecycle = []"
  by (simp add: flag_rules_def flagged_simps) (simp add: taskLifecycle_def flags_def)

lemma known_ok: "known_state_rules taskLifecycle = []"
  by (simp add: known_state_rules_def unknown_ok isState_simp opt_list_def move_defs task_permissions_def)

lemma move_rules_ok: "move_rules taskLifecycle [] task_moves = []"
  unfolding move_rules_Nil by (simp add: move_defs flag_simps)

lemma moveNamed_simp: "moveNamed taskLifecycle nm = find (\<lambda>m. m_name m = nm) task_moves"
  by (simp add: moveNamed_def)

lemma lastMoveNamed_simp: "lastMoveNamed taskLifecycle nm = find (\<lambda>m. m_name m = nm) (rev task_moves)"
  by (simp add: lastMoveNamed_def)

lemma unique_simps: "unique_flagged sf_claimable taskLifecycle = Some ''open''" "unique_flagged sf_leased taskLifecycle = Some ''claimed''"
  by (simp_all add: unique_flagged_def flagged_simps)

lemma create_rules_ok: "create_rules taskLifecycle = []"
  by (simp add: create_rules_def with_hook_def lastMoveNamed_simp unique_simps opt_list_def move_defs)

lemma claim_rules_ok: "claim_rules taskLifecycle = []"
  by (simp add: claim_rules_def with_hook_def lastMoveNamed_simp unique_simps move_defs)

lemma discard_rules_ok: "discard_rules taskLifecycle = []"
  by (simp add: discard_rules_def with_hook_def lastMoveNamed_simp flag_simps move_defs)

lemma expiry_rules_ok: "expiry_rules taskLifecycle = []"
  by (simp add: expiry_rules_def with_hook_def lastMoveNamed_simp unique_simps flag_simps SYSTEM_ROLE_def move_defs)

lemma taskLifecycle_valid: "valid_lifecycle taskLifecycle"
  by (simp add: valid_lifecycle_def wf_taskLifecycle defineLifecycle_def lifecycleViolations_def shape_ok flag_rules_ok
      known_ok move_rules_ok create_rules_ok claim_rules_ok discard_rules_ok expiry_rules_ok)

lemma taskLifecycle_sound: "sound_lifecycle taskLifecycle"
  using taskLifecycle_valid by (simp add: sound_lifecycle_def is_expiry_hook_def)

end
