(* ===== verification/Scenarios.thy ===== *)
theory Scenarios
  imports Policy "HOL-Library.Code_Target_Numeral"
begin

text \<open>
  Concrete runs under Shreni's lifecycle, at which the properties are instantiated: a plan with a
  container and two tasks, one waiting on the other, up to the claim of the first. Every state is the
  result of running the calls, which the kernel evaluates.
\<close>

definition demo_rows :: shreni_rows where
  "demo_rows = \<lparr>sr_evidence = [], sr_checks = [], sr_lifecycles = [((''shreni.task'', 2), l_states taskLifecycle)]\<rparr>"

definition demo_db :: "shreni_rows db" where
  "demo_db = \<lparr>d_projectId = ''p'', d_idPrefix = ''k'', d_lifecycleName = ''shreni.task'', d_lifecycleVersion = 2,
     d_tasks = [], d_deps = [], d_links = [], d_attempts = [], d_plans = [], d_events = [], d_nextEventId = 1,
     d_notified = [], d_now = 1000, d_caller = demo_rows\<rparr>"

definition demo_task :: "string \<Rightarrow> kind \<Rightarrow> string option \<Rightarrow> new_task" where
  "demo_task t k p = \<lparr>nt_title = t, nt_description = None, nt_kind = Some k, nt_category = None, nt_priority = None,
     nt_parent = p, nt_plan = Some ''k-plan-111'', nt_key = None, nt_spec = None, nt_tags = None, nt_holdUntil = None\<rparr>"

definition ana :: actor where "ana = \<lparr>ac_id = ''ana'', ac_role = ''developer''\<rparr>"
definition orch :: actor where "orch = \<lparr>ac_id = ''w1'', ac_role = ''orchestrator''\<rparr>"

definition demo_claim :: claim_options where
  "demo_claim = \<lparr>co_worker = ''h/1'', co_leaseMs = 60000, co_filter = noFilter, co_requestId = None\<rparr>"

definition plainly :: move_options where
  "plainly = \<lparr>mo_reason = None, mo_payload = [], mo_requestId = None, mo_dropDeps = False\<rparr>"

definition demo_ops :: "(actor \<times> shreni_rows op) list" where
 "demo_ops = [
    (ana, PlanCreate ''release'' None (\<lambda>_. 1) (Some ''r1'')),
    (ana, TaskCreate (demo_task ''epic'' Container None) (\<lambda>_. 1) None),
    (ana, TaskCreate (demo_task ''api'' Work (Some ''k-111'')) (\<lambda>_. 1) None),
    (ana, TaskCreate (demo_task ''ui'' Work (Some ''k-111'')) (\<lambda>_. 1) None),
    (ana, DepAdd ''k-111.2'' ''k-111.1'' None),
    (ana, PlanApprove ''k-plan-111'' \<lparr>ao_via = ''cli'', ao_requestId = None\<rparr>),
    (orch, Claim demo_claim [] [] ''u1''),
    (ana, Move ''k-111.2'' ''cancel'' plainly None),
    (orch, Heartbeat ''k-111.1'' ''u1'' 60000)]"

text \<open>The rows after the first \<open>n\<close> calls.\<close>

definition at_step :: "nat \<Rightarrow> shreni_rows db" where
  "at_step n = (case runs taskLifecycle [] (\<lambda>_. JNull) (take n demo_ops) demo_db of Inr db \<Rightarrow> db | Inl _ \<Rightarrow> demo_db)"

lemma runs_append:
  "runs lc vs cfg (xs @ ys) db = bindE (runs lc vs cfg xs db) (runs lc vs cfg ys)"
proof (induction xs arbitrary: db)
  case (Cons x xs)
  then have "runs lc vs cfg (xs @ ys) = (\<lambda>db. bindE (runs lc vs cfg xs db) (runs lc vs cfg ys))" by (rule ext)
  then show ?case by (cases x) (simp add: bindE_assoc)
qed simp

lemma demo_runs: "isOk (runs taskLifecycle [] (\<lambda>_. JNull) demo_ops demo_db)"
  by code_simp

lemma at_runs: "runs taskLifecycle [] (\<lambda>_. JNull) (take n demo_ops) demo_db = Inr (at_step n)"
proof -
  have "isOk (runs taskLifecycle [] (\<lambda>_. JNull) (take n demo_ops @ drop n demo_ops) demo_db)"
    using demo_runs by simp
  then have "isOk (runs taskLifecycle [] (\<lambda>_. JNull) (take n demo_ops) demo_db)"
    unfolding runs_append isOk_iff by auto
  then show ?thesis by (auto simp: at_step_def isOk_iff)
qed

lemma new_demo: "new_project demo_db"
  by (simp add: new_project_def demo_db_def log_ok_def)

lemma at_reachable: "reachable taskLifecycle [] (\<lambda>_. JNull) (at_step n)"
  by (rule runs_reachable[OF new_demo at_runs])

lemma at_leads: "m \<le> n \<Longrightarrow> leads_to taskLifecycle [] (\<lambda>_. JNull) (at_step m) (at_step n)"
proof (rule runs_leads_to)
  assume "m \<le> n"
  then have "take n demo_ops = take m demo_ops @ take (n - m) (drop m demo_ops)"
    using take_add[of m "n - m" demo_ops] by simp
  then show "runs taskLifecycle [] (\<lambda>_. JNull) (take (n - m) (drop m demo_ops)) (at_step m) = Inr (at_step n)"
    using at_runs[of n] at_runs[of m] by (simp add: runs_append)
qed

lemma at_wf: "wf taskLifecycle (at_step n)"
  using reachable_good[OF taskLifecycle_sound at_reachable] by (simp add: good_def)

text \<open>After the claim, the lease runs out and the sweep takes the task back.\<close>

definition late_db :: "shreni_rows db" where
  "late_db = (at_step 7)\<lparr>d_now := 70000\<rparr>"

definition swept_db :: "shreni_rows db" where
  "swept_db = (case exec taskLifecycle [] (\<lambda>_. JNull) orch (ExpireLeases []) late_db of Inr db \<Rightarrow> db | Inl _ \<Rightarrow> late_db)"

lemma late_reachable: "reachable taskLifecycle [] (\<lambda>_. JNull) late_db"
proof -
  have "d_now (at_step 7) \<le> 70000" by code_simp
  then show ?thesis unfolding late_db_def by (rule engine.reachable_step[OF at_reachable step.tick])
qed

lemma swept_step: "exec taskLifecycle [] (\<lambda>_. JNull) orch (ExpireLeases []) late_db = Inr swept_db"
proof -
  have "isOk (exec taskLifecycle [] (\<lambda>_. JNull) orch (ExpireLeases []) late_db)" by code_simp
  then show ?thesis by (auto simp: swept_db_def isOk_iff)
qed

lemma swept_reachable: "reachable taskLifecycle [] (\<lambda>_. JNull) swept_db"
  by (rule engine.reachable_step[OF late_reachable step.call[OF swept_step]])

end
