(* ===== verification/UpgradeProperties.thy ===== *)
theory UpgradeProperties
  imports Versions Scenarios
begin

text \<open>
  What activating a version of a lifecycle promises (src/src/taskgraph/upgrade.ts), at an upgrade of Shreni's own lifecycle.
\<close>

subsection \<open>The property\<close>

text \<open>
  C40: Activating a version keeps the project sound. Whatever the two registered versions and the migrate map say otherwise,
  when the version left does not use its claim move as an expiry hook (which registration does not refuse: see
  \<open>claim_as_expiry_is_registered\<close>), an activation that commits leaves the engine's invariant and a sound log under
  the new version, which is then the project's. No task is lost; each stands where its lease's end and, upwards, the migrate
  map carry it, without a lease, every attempt is over, and unless it was forced no lease it ended was live.\<close>

theorem activation_is_sound:
  assumes "sound_lifecycle old" and "wf old db" and "log_ok db" and "assertVersion old db = Inr ()" and "[] \<notin> ids (d_tasks db)"
    and "l_name lc = l_name old"
    and "storedLifecycle tbl (l_name old) (l_version old) = Inr (serializeLifecycle old)"
    and "storedLifecycle tbl (l_name lc) (l_version lc) = Inr (serializeLifecycle lc)"
    and "transaction (activate lc tbl a v force req) db = Inr (u, db')"
  shows "wf lc db' \<and> log_ok db' \<and> assertVersion lc db' = Inr () \<and> map t_id (d_tasks db') = map t_id (d_tasks db) \<and>
    list_all2 (\<lambda>t t'. carried_to old lc t = Some (t_state t') \<and> t_leaseAttemptId t' = None) (d_tasks db) (d_tasks db') \<and>
    (\<forall>x \<in> set (d_attempts db'). a_endedAt x \<noteq> None) \<and>
    (force \<or> (\<forall>t \<in> set (d_tasks db). case t_leaseExpiresAt t of Some e \<Rightarrow> e \<le> d_now db | None \<Rightarrow> True))"
proof -
  obtain db1 evs where body: "activate lc tbl a v force req db = Inr (u, db1, evs)" and wr: "writeEvents evs db1 = Inr db'"
      and same: "same_rows db1 db'" using transaction_Inr[OF assms(9)] by blast
  note k = activated[OF assms(1,2,4-8) body]
  have "list_all2 (\<lambda>t t'. carried_to old lc t = Some (t_state t') \<and> t_leaseAttemptId t' = None) (d_tasks db) (d_tasks db1)"
    using k(6) by (rule list_all2_mono) simp
  moreover have "log_ok db'" using writeEvents_log[OF wr] assms(3) k(3,4) by (simp add: log_ok_def)
  moreover have "assertVersion lc db' = Inr ()" using same_rowsD[OF same] k(2) by (simp add: assertVersion_iff)
  ultimately show ?thesis using k same_rowsD[OF same] wf_same_rows[OF same k(1)] by simp
qed

subsection \<open>A version without the parked state\<close>

definition unparked :: "string list \<Rightarrow> string list" where
  "unparked ss = filter (\<lambda>s. s \<noteq> ''parked'') ss"

definition nextLifecycle :: "shreni_rows lifecycle" where
  "nextLifecycle = taskLifecycle\<lparr>l_version := 3, l_states := filter (\<lambda>(s, f). s \<noteq> ''parked'') (l_states taskLifecycle),
     l_moves := map (\<lambda>m. m\<lparr>m_from := unparked (m_from m)\<rparr>) (filter (\<lambda>m. m_to m \<noteq> ''parked'' \<and> unparked (m_from m) \<noteq> []) (l_moves taskLifecycle)),
     l_permissions := map (\<lambda>(c, rs). (c, map (\<lambda>(r, a). (r, case a of AnyState \<Rightarrow> AnyState | InStates ss \<Rightarrow> InStates (unparked ss))) rs))
       (l_permissions taskLifecycle), l_migrate := Some [(''parked'', ''blocked'')]\<rparr>"

definition version_table :: "unit lifecycle_table" where
  "version_table = [(''shreni.task'', 2) \<mapsto> (serializeLifecycle taskLifecycle, ()), (''shreni.task'', 3) \<mapsto> (serializeLifecycle nextLifecycle, ())]"

lemma nextLifecycle_sound: "sound_lifecycle nextLifecycle"
proof -
  have "isOk (defineLifecycle nextLifecycle)" by code_simp
  moreover have "wf_objects nextLifecycle" by code_simp
  moreover have "l_onClaim nextLifecycle = ''claim'' \<and> l_onLeaseExpiry nextLifecycle = ''expire'' \<and> l_onRepeatedExpiry nextLifecycle = Some (3, ''flag'')"
    by (simp add: nextLifecycle_def)
  ultimately show ?thesis by (simp add: sound_lifecycle_def valid_lifecycle_def is_expiry_hook_def)
qed

definition upgraded_db :: "shreni_rows db" where
  "upgraded_db = (case transaction (activate nextLifecycle version_table ana 3 False None) late_db of Inr (_, db) \<Rightarrow> db | Inl _ \<Rightarrow> late_db)"

lemma table_runs: "runs_version version_table taskLifecycle" "runs_version version_table nextLifecycle"
  using sound_valid[OF taskLifecycle_sound] sound_valid[OF nextLifecycle_sound]
  by (simp_all add: runs_version_def storedLifecycle_def version_table_def nextLifecycle_def)

lemma table_apart: "claims_apart version_table"
proof -
  have "\<not> is_expiry_hook taskLifecycle (l_onClaim taskLifecycle)" "\<not> is_expiry_hook nextLifecycle (l_onClaim nextLifecycle)"
    using taskLifecycle_sound nextLifecycle_sound by (simp_all add: sound_lifecycle_def)
  then show ?thesis by (auto simp: claims_apart_def version_table_def split: if_splits)
qed

lemma upgrade_runs: "transaction (activate nextLifecycle version_table ana 3 False None) late_db = Inr ((), upgraded_db)"
proof -
  have "isOk (transaction (activate nextLifecycle version_table ana 3 False None) late_db)" by code_simp
  then show ?thesis by (auto simp: isOk_iff upgraded_db_def)
qed

lemma demo_opened: "opened_project version_table demo_db"
proof -
  have "assertVersion taskLifecycle demo_db = Inr ()" by (simp add: assertVersion_iff demo_db_def)
  then show ?thesis unfolding opened_project_def using new_demo table_runs(1) by blast
qed

lemma demo_leads: "leads_to taskLifecycle [] (\<lambda>_. JNull) demo_db (at_step n)"
  using runs_leads_to[OF at_runs] .

lemma at_vreachable: "vreachable version_table (at_step n)"
  using demo_opened leads_vsteps[OF table_runs(1) demo_leads] unfolding transition_system.reachable_def by blast

lemma upgrade_perform: "perform nextLifecycle [] (\<lambda>_. JNull) version_table ana (Activate 3 False None) late_db = Inr upgraded_db"
  by (simp add: call_activate_def once_def rows_after_def upgrade_runs)

lemma late_vreachable: "vreachable version_table late_db"
proof -
  have "d_now (at_step 7) \<le> 70000" by code_simp
  then have "vstep version_table (at_step 7) late_db" unfolding late_db_def by (rule vstep.ticked)
  then show ?thesis using transition_system.reachable_step[OF at_vreachable] by blast
qed

lemma upgrade_step: "vstep version_table late_db upgraded_db"
  by (rule vstep.written[OF table_runs(2) upgrade_perform])

text \<open>An upgrade of the project in which one task is cancelled, which the next version still calls terminal.\<close>

definition reclosed_db :: "shreni_rows db" where
  "reclosed_db = (case transaction (activate nextLifecycle version_table ana 3 True None) (at_step 8) of Inr (_, db) \<Rightarrow> db | Inl _ \<Rightarrow> at_step 8)"

lemma reclosed_step: "vstep version_table (at_step 8) reclosed_db"
proof -
  have "isOk (transaction (activate nextLifecycle version_table ana 3 True None) (at_step 8))" by code_simp
  then have "transaction (activate nextLifecycle version_table ana 3 True None) (at_step 8) = Inr ((), reclosed_db)"
    by (auto simp: isOk_iff reclosed_db_def)
  then have "perform nextLifecycle [] (\<lambda>_. JNull) version_table ana (Activate 3 True None) (at_step 8) = Inr reclosed_db"
    by (simp add: call_activate_def once_def rows_after_def)
  then show ?thesis by (rule vstep.written[OF table_runs(2)])
qed

lemma at_ends: "ends_in version_table ''cancelled'' (at_step 8)"
proof -
  have "case active version_table (at_step 8) of Inr lc \<Rightarrow> isTerminal lc ''cancelled'' | Inl _ \<Rightarrow> False" by code_simp
  then show ?thesis by (auto simp: ends_in_def split: sum.splits)
qed

lemma reclosed_ends: "ends_in version_table ''cancelled'' reclosed_db"
proof -
  have "case active version_table reclosed_db of Inr lc \<Rightarrow> isTerminal lc ''cancelled'' | Inl _ \<Rightarrow> False" by code_simp
  then show ?thesis by (auto simp: ends_in_def split: sum.splits)
qed

lemma upgraded_vreachable: "vreachable version_table upgraded_db"
  by (rule transition_system.reachable_step[OF late_vreachable upgrade_step])

theorem activation_is_sound_witness:
  "wf nextLifecycle upgraded_db \<and> list_all2 (\<lambda>t t'. carried_to taskLifecycle nextLifecycle t = Some (t_state t')) (d_tasks late_db) (d_tasks upgraded_db)"
proof -
  have v: "isOk (assertVersion taskLifecycle late_db)" by code_simp
  have i: "[] \<notin> t_id ` set (d_tasks late_db)" by code_simp
  have t: "storedLifecycle version_table (l_name taskLifecycle) (l_version taskLifecycle) = Inr (serializeLifecycle taskLifecycle)"
      "storedLifecycle version_table (l_name nextLifecycle) (l_version nextLifecycle) = Inr (serializeLifecycle nextLifecycle)"
    using table_runs by (simp_all add: runs_version_def)
  have n: "l_name nextLifecycle = l_name taskLifecycle" by (simp add: nextLifecycle_def)
  have "wf taskLifecycle late_db" "log_ok late_db" using reachable_good[OF taskLifecycle_sound late_reachable] by (simp_all add: good_def)
  from activation_is_sound[OF taskLifecycle_sound this _ _ n t upgrade_runs] v i show ?thesis
    by (auto simp: isOk_iff ids_def elim: list_all2_mono)
qed

subsection \<open>The claim move as the expiry hook\<close>

text \<open>
  Nothing in lifecycle.ts (219 to 231) refuses a lifecycle whose claim move also starts from the leased state, lists system, and
  is its expiry hook. Shreni's own, so changed, is registered; and when a lease of it runs out, the sweep leaves
  the task claimed with no lease, so the engine's invariant is broken: no one can move the task, and no sweep finds it.
\<close>

definition stuckLifecycle :: "shreni_rows lifecycle" where
  "stuckLifecycle = taskLifecycle\<lparr>l_onLeaseExpiry := ''claim'', l_onRepeatedExpiry := None,
     l_moves := map (\<lambda>m. if m_name m = ''claim'' then m\<lparr>m_from := m_from m @ [''claimed''], m_by := m_by m @ [''system'']\<rparr> else m)
       (l_moves taskLifecycle)\<rparr>"

definition stuck_db :: "shreni_rows db" where
  "stuck_db = (case exec stuckLifecycle [] (\<lambda>_. JNull) orch (ExpireLeases []) late_db of Inr db \<Rightarrow> db | Inl _ \<Rightarrow> late_db)"

lemma claim_as_expiry_is_registered: "valid_lifecycle stuckLifecycle"
proof -
  have "isOk (defineLifecycle stuckLifecycle)" "wf_objects stuckLifecycle" by code_simp+
  then show ?thesis by (simp add: valid_lifecycle_def)
qed

lemma claim_as_expiry_strands_a_task:
  "reachable stuckLifecycle [] (\<lambda>_. JNull) stuck_db \<and> \<not> wf stuckLifecycle stuck_db \<and>
   (case find_task ''k-111.1'' stuck_db of None \<Rightarrow> False | Some t \<Rightarrow> t_state t = ''claimed'' \<and> t_leaseAttemptId t = None)"
proof -
  have "isOk (runs stuckLifecycle [] (\<lambda>_. JNull) (take 7 demo_ops) demo_db)" by code_simp
  then obtain db7 where 7: "runs stuckLifecycle [] (\<lambda>_. JNull) (take 7 demo_ops) demo_db = Inr db7" by (auto simp: isOk_iff)
  have "case runs stuckLifecycle [] (\<lambda>_. JNull) (take 7 demo_ops) demo_db of Inr db \<Rightarrow> db\<lparr>d_now := 70000\<rparr> = late_db \<and> d_now db \<le> 70000 | Inl _ \<Rightarrow> False"
    by code_simp
  then have late: "late_db = db7\<lparr>d_now := 70000\<rparr>" "d_now db7 \<le> 70000" by (simp_all add: 7)
  have "isOk (exec stuckLifecycle [] (\<lambda>_. JNull) orch (ExpireLeases []) late_db)" by code_simp
  then have ex: "exec stuckLifecycle [] (\<lambda>_. JNull) orch (ExpireLeases []) late_db = Inr stuck_db" by (auto simp: stuck_db_def isOk_iff)
  have "reachable stuckLifecycle [] (\<lambda>_. JNull) late_db"
    unfolding late(1) by (rule engine.reachable_step[OF runs_reachable[OF new_demo 7] step.tick]) (rule late(2))
  then have r: "reachable stuckLifecycle [] (\<lambda>_. JNull) stuck_db" by (rule engine.reachable_step[OF _ step.call[OF ex]])
  have t: "case find_task ''k-111.1'' stuck_db of None \<Rightarrow> False | Some t \<Rightarrow> t_state t = ''claimed'' \<and> t_leaseAttemptId t = None" by code_simp
  then obtain u where u: "find_task ''k-111.1'' stuck_db = Some u" "t_state u = ''claimed''" "t_leaseAttemptId u = None"
    by (auto split: option.splits)
  have "stateFlag sf_leased stuckLifecycle ''claimed''" by code_simp
  moreover have "u \<in> set (d_tasks stuck_db)" using find_row_Some[OF u(1)] by simp
  ultimately have "\<not> states_ok stuckLifecycle (d_tasks stuck_db)" using u(2,3) unfolding states_ok_def by metis
  then show ?thesis using r t by (simp add: wf_def)
qed

end
