(* ===== verification/Board.thy ===== *)
theory Board
  imports Versions
begin

text \<open>
  What the engine promises about a project's tasks, with everything but their states taken away: a board of tasks, each in
  a state of the version the board is on. A task is filed in a state the version's create rules name, moved along one of its
  moves, or dropped from its create state, one at a time; or the board goes to another version, which carries every
  task at once. Every write of the engine, sweeps and activations included, is a run of this board.
\<close>

type_synonym board = "(string \<times> nat) \<times> (string \<Rightarrow> string option)"

inductive board_step :: "'h lifecycle_table \<Rightarrow> board \<Rightarrow> board \<Rightarrow> bool" for tbl where
  filed: "storedLifecycle tbl nm v = Inr lc \<Longrightarrow> b i = None \<Longrightarrow> starts lc s \<Longrightarrow> board_step tbl ((nm, v), b) ((nm, v), b(i \<mapsto> s))"
| moved: "storedLifecycle tbl nm v = Inr lc \<Longrightarrow> b i = Some s \<Longrightarrow> (s, s') \<in> moves_rel lc \<Longrightarrow> board_step tbl ((nm, v), b) ((nm, v), b(i \<mapsto> s'))"
| dropped: "storedLifecycle tbl nm v = Inr lc \<Longrightarrow> b i = Some (l_createState lc) \<Longrightarrow> board_step tbl ((nm, v), b) ((nm, v), b(i := None))"
| carried: "storedLifecycle tbl nm v = Inr old \<Longrightarrow> storedLifecycle tbl nm v' = Inr new \<Longrightarrow> v' \<noteq> v \<Longrightarrow>
    (\<And>i. rel_option (\<lambda>s s'. carry old new s = Some s' \<and> isState new s') (b i) (b' i)) \<Longrightarrow>
    board_step tbl ((nm, v), b) ((nm, v'), b')"

inductive_cases board_stepE: "board_step tbl b b'"

definition board_of :: "'x db \<Rightarrow> board" where
  "board_of db = ((d_lifecycleName db, d_lifecycleVersion db), \<lambda>i. map_option t_state (find_task i db))"

text \<open>What may become of one task while the version stays.\<close>

definition may_become :: "'x lifecycle \<Rightarrow> string option \<Rightarrow> string option \<Rightarrow> bool" where
  "may_become lc x y = (case (x, y) of (Some s, Some s') \<Rightarrow> (s, s') \<in> (moves_rel lc)\<^sup>*
     | (Some s, None) \<Rightarrow> s = l_createState lc | (None, Some s) \<Rightarrow> starts lc s | (None, None) \<Rightarrow> True)"

lemma move_one:
  assumes k: "storedLifecycle tbl nm v = Inr lc"
  shows "(s, s') \<in> (moves_rel lc)\<^sup>* \<Longrightarrow> b i = Some s \<Longrightarrow> (board_step tbl)\<^sup>*\<^sup>* ((nm, v), b) ((nm, v), b(i \<mapsto> s'))"
proof (induction rule: rtrancl_induct)
  case base
  then have "b(i \<mapsto> s) = b" by (simp add: fun_upd_idem)
  then show ?case by simp
next
  case (step y z)
  have "(board_step tbl)\<^sup>*\<^sup>* ((nm, v), b) ((nm, v), b(i \<mapsto> y))" by (rule step.IH) (rule step.prems)
  moreover have "board_step tbl ((nm, v), b(i \<mapsto> y)) ((nm, v), (b(i \<mapsto> y))(i \<mapsto> z))"
    by (rule board_step.moved[OF k]) (use step(2) in simp_all)
  ultimately have "(board_step tbl)\<^sup>*\<^sup>* ((nm, v), b) ((nm, v), (b(i \<mapsto> y))(i \<mapsto> z))" by (meson rtranclp.rtrancl_into_rtrancl)
  then show ?case by (simp only: fun_upd_upd)
qed

lemma change_one:
  assumes k: "storedLifecycle tbl nm v = Inr lc" and m: "may_become lc (b i) y"
  shows "(board_step tbl)\<^sup>*\<^sup>* ((nm, v), b) ((nm, v), b(i := y))"
proof (cases "b i")
  case None
  show ?thesis
  proof (cases y)
    case None
    then have "b(i := y) = b" using \<open>b i = None\<close> by (simp add: fun_upd_idem)
    then show ?thesis by simp
  next
    case (Some s)
    then have "starts lc s" using m None by (simp add: may_become_def)
    then show ?thesis using board_step.filed[OF k, of b i s] None Some by simp
  qed
next
  case (Some s)
  show ?thesis
  proof (cases y)
    case None
    then show ?thesis using m Some board_step.dropped[OF k, of b i] by (simp add: may_become_def)
  next
    case s': (Some s')
    then show ?thesis using m Some move_one[OF k, of s s' b i] by (simp add: may_become_def)
  qed
qed

lemma change_many:
  assumes k: "storedLifecycle tbl nm v = Inr lc"
    and "finite D" and "\<And>i. i \<notin> D \<Longrightarrow> b' i = b i" and "\<And>i. may_become lc (b i) (b' i)"
  shows "(board_step tbl)\<^sup>*\<^sup>* ((nm, v), b) ((nm, v), b')"
  using assms(2-)
proof (induction D arbitrary: b rule: finite_induct)
  case empty
  then have "b' = b" by auto
  then show ?case by simp
next
  case (insert i D)
  have "(board_step tbl)\<^sup>*\<^sup>* ((nm, v), b) ((nm, v), b(i := b' i))" by (rule change_one[OF k]) (rule insert.prems(2))
  moreover have "may_become lc x x" for x by (cases x) (simp_all add: may_become_def)
  then have "(board_step tbl)\<^sup>*\<^sup>* ((nm, v), b(i := b' i)) ((nm, v), b')"
    using insert.prems by (intro insert.IH) auto
  ultimately show ?case by simp
qed

lemma evolves_board:
  assumes r: "runs_version tbl lc" and v: "assertVersion lc db = Inr ()" "assertVersion lc db' = Inr ()"
    and e: "evolves lc (set (l_moves lc)) db db'"
  shows "(board_step tbl)\<^sup>*\<^sup>* (board_of db) (board_of db')"
proof -
  let ?k = "(l_name lc, l_version lc)" and ?b = "\<lambda>db i. map_option t_state (find_task i db)"
  have k: "storedLifecycle tbl (l_name lc) (l_version lc) = Inr (serializeLifecycle lc)" using r by (simp add: runs_version_def)
  have "(board_step tbl)\<^sup>*\<^sup>* (?k, ?b db) (?k, ?b db')"
  proof (rule change_many[OF k])
    show "finite (t_id ` set (d_tasks db) \<union> t_id ` set (d_tasks db'))" by simp
    fix i
    show "i \<notin> t_id ` set (d_tasks db) \<union> t_id ` set (d_tasks db') \<Longrightarrow> ?b db' i = ?b db i"
      by (auto simp: find_row_None[THEN iffD2])
    show "may_become (serializeLifecycle lc) (?b db i) (?b db' i)"
      using e[unfolded evolves_def, rule_format, of i] by (auto simp: may_become_def moves_rel_def[of lc] split: option.splits)
  qed
  then show ?thesis using v by (simp add: board_of_def assertVersion_iff)
qed

lemma upgraded_board:
  assumes "upgraded tbl db db'"
  shows "board_step tbl (board_of db) (board_of db')"
proof -
  obtain old new where v: "d_lifecycleName db' = d_lifecycleName db" "d_lifecycleVersion db' \<noteq> d_lifecycleVersion db"
      "active tbl db = Inr old" "active tbl db' = Inr new"
    and r: "\<And>i. rel_option (\<lambda>t t'. carry old new (t_state t) = Some (t_state t') \<and> isState new (t_state t') \<and> t_leaseAttemptId t' = None)
      (find_task i db) (find_task i db')"
    using assms unfolding upgraded_def by blast
  show ?thesis unfolding board_of_def v(1)
  proof (rule board_step.carried)
    show "rel_option (\<lambda>s s'. carry old new s = Some s' \<and> isState new s') (map_option t_state (find_task i db)) (map_option t_state (find_task i db'))" for i
      unfolding option.rel_map using r[of i] by (rule option.rel_mono_strong) simp
  qed (use v in \<open>simp_all add: active_def\<close>)
qed

interpretation board: refinement "\<lambda>db :: 'x db. claims_apart tbl \<and> opened_project tbl db" "vstep tbl" "\<lambda>db. claims_apart tbl \<and> vgood tbl db"
  "\<lambda>b. snd b = (\<lambda>_. None)" "board_step tbl" board_of for tbl :: "'h lifecycle_table"
proof
  fix db :: "'x db"
  assume "claims_apart tbl \<and> opened_project tbl db"
  then show "snd (board_of db) = (\<lambda>_. None)" by (simp add: opened_project_def new_project_def board_of_def)
next
  fix db db' :: "'x db"
  assume "claims_apart tbl \<and> vgood tbl db" and "vstep tbl db db'"
  then show "(board_step tbl)\<^sup>*\<^sup>* (board_of db) (board_of db')"
    by (auto elim!: vstep_cases intro: evolves_board r_into_rtranclp upgraded_board)
qed

end
