(* ===== verification/EngineProperties.thy ===== *)
theory EngineProperties
  imports UpgradeProperties Board
begin

text \<open>
  What the engine as a whole guarantees, whatever its actors do in whatever order: the invariant of the
  rows, moves along declared moves, finality, the event log, and leases. Each property is followed by
  an instance at a concrete run.
\<close>

subsection \<open>Every reachable project\<close>

text \<open>
  C1: Every project state the engine can reach satisfies the invariant of its rows under the version it is on (ids unique,
  parents a forest, dependencies acyclic and never across a containment, states declared, a lease exactly on the
  leased tasks and on the one open attempt, no live child under a closed task, no live task waiting on
  work that ended unsatisfied, plan and key checks), and the event log has rising ids and each request
  id at most once: whatever writes any actors make, activations of other versions included, through processes that run any
  registered versions. It is asked of those versions that none uses its claim move as an expiry hook too, which registration does
  not check and without which it fails (\<open>claim_as_expiry_strands_a_task\<close>).
\<close>

theorem engine_invariant:
  assumes "claims_apart tbl" and "vreachable tbl db"
  shows "\<exists>lc. active tbl db = Inr lc \<and> wf lc db \<and> log_ok db"
  using vreachable_good[OF assms] vgood_active[of tbl db] unfolding vgood_def by blast

theorem engine_invariant_witness:
  "(\<exists>lc. active version_table upgraded_db = Inr lc \<and> wf lc upgraded_db \<and> log_ok upgraded_db) \<and> d_lifecycleVersion upgraded_db = 3 \<and>
   length (d_events upgraded_db) = 12"
proof -
  have "length (d_events upgraded_db) = 12" "d_lifecycleVersion upgraded_db = 3" by code_simp+
  then show ?thesis using engine_invariant[OF table_apart upgraded_vreachable] by simp
qed

text \<open>
  C3: Each write changes a task's state only along its own moves. A call of a process on the project's version: the move it
  names, when the actor's role may make it, from the states it starts from, and, where the call sweeps leases, the expiry
  moves; calls that name no move change no state; a new task starts in a state the create rules name,
  and a task is deleted only from the create state. A call of a process on another version changes nothing. An activation
  either changes nothing or puts the project on its version and carries every task where its lease's end and, upwards, the migrate
  map of the new version say, and no task comes or goes. (Versions whose claim move is an expiry hook apart, as before.)
\<close>

theorem calls_make_their_moves:
  assumes "claims_apart tbl" and "vreachable tbl db" and "runs_version tbl lc" and "perform lc vs cfg tbl a w db = Inr db'"
  shows "case w of
      Call op \<Rightarrow> op_moves lc a op \<subseteq> set (l_moves lc) \<and> (assertVersion lc db \<noteq> Inr () \<longrightarrow> db' = db) \<and>
        (assertVersion lc db = Inr () \<longrightarrow> (case (find_task i db, find_task i db') of
           (Some t, Some t') \<Rightarrow> (t_state t, t_state t') \<in> (along (op_moves lc a op))\<^sup>*
         | (Some t, None) \<Rightarrow> t_state t = l_createState lc
         | (None, Some t') \<Rightarrow> starts lc (t_state t')
         | (None, None) \<Rightarrow> True))
    | Activate version force req \<Rightarrow> db' = db \<or> d_lifecycleVersion db' = version \<and> version \<noteq> d_lifecycleVersion db \<and>
        (\<exists>old new. active tbl db = Inr old \<and> active tbl db' = Inr new \<and>
          rel_option (\<lambda>t t'. carry old new (t_state t) = Some (t_state t')) (find_task i db) (find_task i db'))"
proof -
  have g: "vgood tbl db" by (rule vreachable_good[OF assms(1,2)])
  show ?thesis
  proof (cases w)
    case (Call op)
    then have e: "exec lc vs cfg a op db = Inr db'" using assms(4) by simp
    have "evolves lc (op_moves lc a op) db db'" if "assertVersion lc db = Inr ()"
      by (rule exec_evolves[OF claims_sound[OF assms(1,3)] vgood_runs[OF g assms(3) that] e])
    then show ?thesis unfolding Call using exec_other[OF e] op_moves_declared[of lc a op] by (auto simp: evolves_def)
  next
    case (Activate version force req)
    have "d_lifecycleVersion db' = version \<and> upgraded tbl db db'" if b: "body_step (activate lc tbl a version force req) db db'"
    proof -
      obtain u db1 evs where "activate lc tbl a version force req db = Inr (u, db1, evs)" and s: "same_rows db1 db'"
        using b by (auto simp: body_step_def dest!: transaction_Inr)
      then have "d_lifecycleVersion db1 = version" using activate_body(3) by blast
      then show ?thesis using same_rowsD[OF s] activate_vgood[OF assms(1) g assms(3) b] by simp
    qed
    moreover have "rel_option (\<lambda>t t'. carry old new (t_state t) = Some (t_state t')) x y"
      if "rel_option (\<lambda>t t'. carry old new (t_state t) = Some (t_state t') \<and> isState new (t_state t') \<and> t_leaseAttemptId t' = None) x y" for old new x y
      using that by (rule option.rel_mono_strong) simp
    ultimately show ?thesis using perform_activate[OF assms(4)[unfolded Activate]] unfolding Activate upgraded_def by fastforce
  qed
qed

theorem calls_make_their_moves_witness:
  "map_option t_state (find_task ''k-111.1'' late_db) = Some ''claimed'' \<and>
   map_option t_state (find_task ''k-111.1'' swept_db) = Some ''open'' \<and>
   (''claimed'', ''open'') \<in> (along (expiries taskLifecycle))\<^sup>*"
proof -
  have 1: "map_option t_state (find_task ''k-111.1'' late_db) = Some ''claimed''" by code_simp
  have 2: "map_option t_state (find_task ''k-111.1'' swept_db) = Some ''open''" by code_simp
  have p: "perform taskLifecycle [] (\<lambda>_. JNull) version_table orch (Call (ExpireLeases [])) late_db = Inr swept_db" using swept_step by simp
  have v: "isOk (assertVersion taskLifecycle late_db)" by code_simp
  show ?thesis
    using calls_make_their_moves[OF table_apart late_vreachable table_runs(1) p, of "''k-111.1''"] 1 2 v
    by (auto simp: isOk_iff split: option.splits)
qed

text \<open>
  C4: A task in a terminal state stays in it: no sequence of calls by any actors, sweeps, clock steps and activations
  reopens or deletes it, as long as every version the project is put on has that state and calls it terminal. (An activation
  of one that does not may carry it elsewhere; versions whose claim move is an expiry hook apart, as before; a purge, which is
  no call of an actor, takes a whole project away.)
\<close>

theorem closed_for_good:
  assumes "claims_apart tbl" and "vreachable tbl db" and "find_task i db = Some t" and "ends_in tbl (t_state t) db"
    and "(\<lambda>a b. vstep tbl a b \<and> ends_in tbl (t_state t) b)\<^sup>*\<^sup>* db db'"
  shows "\<exists>t'. find_task i db' = Some t' \<and> t_state t' = t_state t"
  using closed_runs[OF assms(1,5) vreachable_good[OF assms(1,2)] assms(4,3)] by blast

theorem closed_for_good_witness:
  "\<exists>t'. find_task ''k-111.2'' reclosed_db = Some t' \<and> t_state t' = ''cancelled''"
proof -
  have "map_option t_state (find_task ''k-111.2'' (at_step 8)) = Some ''cancelled''" by code_simp
  then obtain t where t: "find_task ''k-111.2'' (at_step 8) = Some t" "t_state t = ''cancelled''" by auto
  have e: "ends_in version_table ''cancelled'' (at_step 8)" "ends_in version_table ''cancelled'' reclosed_db"
    by (simp_all add: at_ends reclosed_ends)
  show ?thesis
    using closed_for_good[OF table_apart at_vreachable t(1)] e reclosed_step t(2) by (simp add: r_into_rtranclp)
qed

text \<open>
  C5: The event log is append-only, across any sequence of steps, calls and activations by any versions: earlier
  events keep their place, ids strictly rise, and no two events carry one request id.
\<close>

theorem log_append_only:
  assumes "vreachable tbl db" and "(vstep tbl)\<^sup>*\<^sup>* db db'"
  shows "(\<exists>new. d_events db' = d_events db @ new) \<and> sorted_wrt (<) (map e_id (d_events db')) \<and>
    distinct (filter (\<lambda>r. r \<noteq> None) (map e_requestId (d_events db')))"
  using vsteps_log[OF assms(2) vreachable_log[OF assms(1)]] by (simp add: extends_def log_ok_def)

theorem log_append_only_witness:
  "\<exists>new. d_events (at_step 7) = d_events (at_step 1) @ new \<and> sorted_wrt (<) (map e_id (d_events (at_step 7)))"
  using log_append_only[OF at_vreachable leads_vsteps[OF table_runs(1) at_leads[of 1 7]]] by auto

subsection \<open>Leases\<close>



text \<open>
  C7: A claim leases the first task, in claim order (boosted, priority, age, id), of the ready tasks its
  filter admits and no other transaction holds, as the rows are after the sweep it runs first; it
  answers nothing exactly when there is none. The task comes back leased to the new attempt until the
  lease's length from now, it had no holder, and no other task changes.
\<close>

theorem claim_takes_first:
  assumes s: "sound_lifecycle lc" and w: "wf lc db" and sw: "sweep lc swept db = Inr (n, db1, evs1)"
    and c: "claim_next lc a opts swept taken uuid db = Inr (r, db', evs)"
  shows "case r of
      None \<Rightarrow> db' = db1 \<and> (\<forall>u \<in> set (d_tasks db1). filterWhere db1 (co_filter opts) u \<longrightarrow> readyWhere lc db1 u \<longrightarrow> t_id u \<in> set taken)
    | Some x \<Rightarrow> \<exists>t. find_task (t_id (cl_task x)) db1 = Some t \<and> t_leaseAttemptId t = None \<and>
        filterWhere db1 (co_filter opts) t \<and> readyWhere lc db1 t \<and> t_id t \<notin> set taken \<and>
        (\<forall>u \<in> set (d_tasks db1). filterWhere db1 (co_filter opts) u \<longrightarrow> readyWhere lc db1 u \<longrightarrow> t_id u \<notin> set taken \<longrightarrow>
           CLAIM_ORDER t \<le> CLAIM_ORDER u) \<and>
        find_task (t_id t) db' = Some (cl_task x) \<and> Some (t_state (cl_task x)) = leasedState lc \<and>
        t_leaseAttemptId (cl_task x) = Some uuid \<and> t_leaseExpiresAt (cl_task x) = Some (d_now db + co_leaseMs opts) \<and>
        (\<forall>i. i \<noteq> t_id t \<longrightarrow> find_task i db' = find_task i db1)"
proof -
  note v = sound_valid[OF s] and w1 = sweep_Inr(1)[OF s w sw] and now = sweep_Inr(2)[OF s w sw]
  obtain m' d1 e1 where 1: "sweep lc swept db = Inr (m', d1, e1)"
      "r = None \<Longrightarrow> nextReady lc taken (co_filter opts) d1 = None \<and> db' = d1"
      "\<And>c. r = Some c \<Longrightarrow> \<exists>t e. nextReady lc taken (co_filter opts) d1 = Some t \<and> leaseTask lc a opts uuid t d1 = Inr (c, db', e)"
    using claim_next_Inr[OF c] by metis
  then have d1: "d1 = db1" using sw by simp
  show ?thesis
  proof (cases r)
    case None
    then show ?thesis using 1(2) by (simp add: d1 nextReady_None)
  next
    case (Some x)
    then obtain t e where t: "nextReady lc taken (co_filter opts) db1 = Some t" and le: "leaseTask lc a opts uuid t db1 = Inr (x, db', e)"
      using 1(3) d1 by metis
    note nr = nextReady_SomeD[OF t]
    have ft: "find_task (t_id t) db1 = Some t"
      using find_row_unique[of t_id "d_tasks db1" t] nr(1) wfD(1)[OF w1] by (simp add: forest_ok_def)
    have "Some (t_state t) = claimableState lc" using nr(3) by (simp add: readyWhere_def)
    then have free: "t_leaseAttemptId t = None"
      using wfD(3)[OF w1] nr(1) claimableState_iff[OF v, of "t_state t"] claimable_flags(1)[OF v] by (auto simp: states_ok_def)
    show ?thesis
    proof (rule leaseTask_Inr[OF le])
      fix m
      assume m: "moveNamed lc (l_onClaim lc) = Some m"
        and x: "x = \<lparr>cl_task = claimed_row m (d_now db1) (co_leaseMs opts) uuid t, cl_attemptId = uuid, cl_expiresAt = d_now db1 + co_leaseMs opts\<rparr>"
        and db': "db' = (upd_task (t_id t) (claimed_row m (d_now db1) (co_leaseMs opts) uuid) db1)\<lparr>d_attempts :=
          d_attempts db1 @ [new_attempt a (co_worker opts) (d_now db1) uuid (t_id t)]\<rparr>"
      have "leasedState lc = Some (m_to m)" using claim_move[OF v] m by (metis option.inject)
      moreover have "find_task i db' = (if i = t_id t then map_option (claimed_row m (d_now db1) (co_leaseMs opts) uuid) (find_task i db1)
          else find_task i db1)" for i
        by (simp add: db' upd_task_def find_row_upd claimed_row_def)
      moreover have "t_id (cl_task x) = t_id t" by (simp add: x claimed_row_def)
      ultimately show ?thesis
        using nr free ft now by (simp add: Some x) (auto simp: claimed_row_def)
    qed
  qed
qed

theorem claim_takes_first_witness:
  "\<exists>x db' evs. claim_next taskLifecycle orch demo_claim [] [] ''u9'' (at_step 6) = Inr (Some x, db', evs) \<and>
     t_id (cl_task x) = ''k-111.1'' \<and> t_leaseAttemptId (cl_task x) = Some ''u9''"
proof -
  have 1: "case sweep taskLifecycle [] (at_step 6) of Inr x \<Rightarrow> True | Inl _ \<Rightarrow> False" by code_simp
  have "case claim_next taskLifecycle orch demo_claim [] [] ''u9'' (at_step 6) of
      Inr (Some x, _, _) \<Rightarrow> t_id (cl_task x) = ''k-111.1'' | _ \<Rightarrow> False" by code_simp
  then obtain x db' evs where c: "claim_next taskLifecycle orch demo_claim [] [] ''u9'' (at_step 6) = Inr (Some x, db', evs)"
      "t_id (cl_task x) = ''k-111.1''"
    by (auto split: sum.splits option.splits prod.splits)
  obtain n db1 evs1 where "sweep taskLifecycle [] (at_step 6) = Inr (n, db1, evs1)" using 1 by (auto split: sum.splits)
  from claim_takes_first[OF taskLifecycle_sound at_wf this c(1)] c show ?thesis by auto
qed

text \<open>
  C8: No task is claimed twice while its lease runs: whatever else a later claim sweeps or takes, a task
  whose lease has not lapsed keeps its row, attempt and all, and is never the task the claim returns.
\<close>

theorem no_double_claim:
  assumes s: "sound_lifecycle lc" and w: "wf lc db" and t: "find_task i db = Some t"
    and e: "t_leaseExpiresAt t = Some e" "d_now db \<le> e"
    and c: "claim_next lc a opts swept taken uuid db = Inr (r, db', evs)"
  shows "find_task i db' = Some t \<and> (\<forall>x. r = Some x \<longrightarrow> t_id (cl_task x) \<noteq> i)"
proof -
  note v = sound_valid[OF s]
  have tm: "t \<in> set (d_tasks db)" "t_id t = i" using find_row_Some[OF t] by auto
  have d: "distinct (map t_id (d_tasks db))" using wfD(1)[OF w] by (simp add: forest_ok_def)
  show ?thesis
  proof (rule claim_next_Inr[OF c])
    fix n db1 evs1
    assume sw: "sweep lc swept db = Inr (n, db1, evs1)"
      and none: "r = None \<Longrightarrow> nextReady lc taken (co_filter opts) db1 = None \<and> db' = db1"
      and some: "\<And>c. r = Some c \<Longrightarrow> \<exists>t e. nextReady lc taken (co_filter opts) db1 = Some t \<and> leaseTask lc a opts uuid t db1 = Inr (c, db', e)"
    have "i \<notin> t_id ` set (lapsed lc swept db)"
      using distinct_key_eq[OF d _ tm(1)] tm(2) e by (force simp: lapsed_iff)
    then have keep: "find_task i db1 = Some t" using sweep_Inr(5)[OF s w sw] t by simp
    show ?thesis
    proof (cases r)
      case None
      then show ?thesis using none keep by simp
    next
      case (Some x)
      then obtain u ev where u: "nextReady lc taken (co_filter opts) db1 = Some u" and le: "leaseTask lc a opts uuid u db1 = Inr (x, db', ev)"
        using some by blast
      have "Some (t_state u) = claimableState lc" using nextReady_SomeD(3)[OF u] by (simp add: readyWhere_def)
      moreover have "stateFlag sf_leased lc (t_state t)" using wfD(3)[OF w] tm(1) e(1) by (auto simp: states_ok_def)
      ultimately have "u \<noteq> t" using claimableState_iff[OF v, of "t_state u"] claimable_flags(1)[OF v] by auto
      then have ne: "t_id u \<noteq> i"
        using nextReady_SomeD(1)[OF u] keep find_row_unique[of t_id "d_tasks db1" u] wfD(1)[OF sweep_Inr(1)[OF s w sw]]
        by (auto simp: forest_ok_def)
      show ?thesis
        by (rule leaseTask_Inr[OF le])
           (use ne keep Some in \<open>auto simp: upd_task_def find_row_upd claimed_row_def\<close>)
    qed
  qed
qed

theorem no_double_claim_witness:
  "\<exists>r db' evs. claim_next taskLifecycle orch demo_claim [] [] ''u9'' (at_step 7) = Inr (r, db', evs) \<and>
     map_option t_leaseAttemptId (find_task ''k-111.1'' db') = Some (Some ''u1'')"
proof -
  have "isOk (claim_next taskLifecycle orch demo_claim [] [] ''u9'' (at_step 7))" by code_simp
  then obtain r db' evs where c: "claim_next taskLifecycle orch demo_claim [] [] ''u9'' (at_step 7) = Inr (r, db', evs)"
    by (auto simp: isOk_iff)
  have "case find_task ''k-111.1'' (at_step 7) of Some t \<Rightarrow> t_leaseAttemptId t = Some ''u1'' \<and> t_leaseExpiresAt t = Some 61000 | None \<Rightarrow> False"
    by code_simp
  then obtain t where t: "find_task ''k-111.1'' (at_step 7) = Some t" "t_leaseAttemptId t = Some ''u1''" "t_leaseExpiresAt t = Some 61000"
    by (auto split: option.splits)
  have "d_now (at_step 7) \<le> 61000" by code_simp
  from no_double_claim[OF taskLifecycle_sound at_wf t(1) t(3) this c] t c show ?thesis by simp
qed

subsection \<open>The engine as a board\<close>

text \<open>
  C2: The engine refines the board of its tasks. Seen as the version it is on and a map from tasks to their states, every
  project the engine reaches is one the board reaches from an empty one, and whatever the engine's writes, sweeps and clock steps
  do between two states, a whole plan approved or discarded in one call included, the board can do by single
  steps: file a task in a state the version's create rules name, move one task along one of its moves, drop one task still in its
  create state, or go to another version, which carries every task at once as an activation must. (Versions whose claim move is an
  expiry hook apart, as before.)\<close>

theorem engine_refines_board:
  assumes "claims_apart tbl" and "vreachable tbl db" and "(vstep tbl)\<^sup>*\<^sup>* db db'"
  shows "(\<exists>k. (board_step tbl)\<^sup>*\<^sup>* (k, \<lambda>_. None) (board_of db)) \<and> (board_step tbl)\<^sup>*\<^sup>* (board_of db) (board_of db')"
proof -
  obtain b where "snd b = (\<lambda>_. None)" "(board_step tbl)\<^sup>*\<^sup>* b (board_of db)"
    using board.reaches[OF vreachable_versions[OF assms(1,2)]] by blast
  moreover have "(board_step tbl)\<^sup>*\<^sup>* (board_of db) (board_of db')"
    by (rule board.runs[OF _ assms(3)]) (use assms(1) vreachable_good[OF assms(1,2)] in simp)
  ultimately show ?thesis by (metis prod.collapse)
qed

theorem engine_refines_board_witness:
  "(board_step version_table)\<^sup>*\<^sup>* (board_of late_db) (board_of upgraded_db) \<and>
   snd (board_of late_db) ''k-111.1'' = Some ''claimed'' \<and> snd (board_of upgraded_db) ''k-111.1'' = Some ''open''"
proof -
  have "snd (board_of late_db) ''k-111.1'' = Some ''claimed''" "snd (board_of upgraded_db) ''k-111.1'' = Some ''open''" by code_simp+
  then show ?thesis using engine_refines_board[OF table_apart late_vreachable r_into_rtranclp[of "vstep version_table", OF upgrade_step]] by simp
qed

end
