(* ===== verification/GraphProperties.thy ===== *)
theory GraphProperties
  imports Scenarios
begin

text \<open>
  What the single operations of the engine do: the sweep, ready work, dependencies, moves, plans and
  their approval, discard and validators. Each property says what happens on every branch, or exactly
  when the operation succeeds.
\<close>

subsection \<open>The sweep and ready work\<close>

text \<open>
  C9: The lease sweep takes back exactly the lapsed leases: for a project on the lifecycle's version it
  always succeeds; every leased task whose lease ended before now, and that no other transaction holds,
  loses its lease and lands where the expiry hook leads: the repeated-expiry move once the expiries in
  a row reach its threshold, the plain one before; every other task keeps its row.
\<close>

theorem sweep_exact:
  assumes s: "sound_lifecycle lc" and w: "wf lc db" and ver: "checkWriter lc db = Inr ()"
  shows "\<exists>db' evs. sweep lc locked db = Inr (length (lapsed lc locked db), db', evs) \<and>
    (\<forall>t \<in> set (d_tasks db).
       if t_id t \<notin> set locked \<and> (\<exists>e. t_leaseExpiresAt t = Some e \<and> e < d_now db)
       then \<exists>m t'. find_task (t_id t) db' = Some t' \<and> t_state t' = m_to m \<and> t_leaseAttemptId t' = None \<and>
         t_leaseExpiresAt t' = None \<and>
         moveNamed lc (case l_onRepeatedExpiry lc of
             Some (k, nm) \<Rightarrow> if k \<le> priorExpiries db (t_id t) (l_onLeaseExpiry lc) + 1 then nm else l_onLeaseExpiry lc
           | None \<Rightarrow> l_onLeaseExpiry lc) = Some m
       else find_task (t_id t) db' = Some t)"
proof -
  let ?rows = "map (\<lambda>t. (t, Suc (priorExpiries db (t_id t) (l_onLeaseExpiry lc)))) (lapsed lc locked db)"
  obtain db' evs where "sweepRows lc ?rows db = Inr (db', evs)" using sweepRows_total[OF sound_valid[OF s]] by blast
  then have c: "sweep lc locked db = Inr (length (lapsed lc locked db), db', evs)" using ver by (simp add: sweep_def)
  have d: "distinct (map t_id (d_tasks db))" using wfD(1)[OF w] by (simp add: forest_ok_def)
  have "if t_id t \<notin> set locked \<and> (\<exists>e. t_leaseExpiresAt t = Some e \<and> e < d_now db)
       then \<exists>m t'. find_task (t_id t) db' = Some t' \<and> t_state t' = m_to m \<and> t_leaseAttemptId t' = None \<and>
         t_leaseExpiresAt t' = None \<and>
         moveNamed lc (case l_onRepeatedExpiry lc of
             Some (k, nm) \<Rightarrow> if k \<le> priorExpiries db (t_id t) (l_onLeaseExpiry lc) + 1 then nm else l_onLeaseExpiry lc
           | None \<Rightarrow> l_onLeaseExpiry lc) = Some m
       else find_task (t_id t) db' = Some t" if t: "t \<in> set (d_tasks db)" for t
  proof -
    have st: "t_leaseExpiresAt t \<noteq> None \<longleftrightarrow> Some (t_state t) = leasedState lc"
      using wfD(3)[OF w] t leasedState_iff[OF sound_valid[OF s], of "t_state t"] by (auto simp: states_ok_def)
    then have iff: "t \<in> set (lapsed lc locked db) \<longleftrightarrow>
        t_id t \<notin> set locked \<and> (\<exists>e. t_leaseExpiresAt t = Some e \<and> e < d_now db)"
      using t by (auto simp: lapsed_iff)
    show ?thesis
    proof (cases "t \<in> set (lapsed lc locked db)")
      case True
      then obtain m where m: "expiryMove lc (Suc (priorExpiries db (t_id t) (l_onLeaseExpiry lc))) = Some m"
          "find_task (t_id t) db' = Some (swept_row m (d_now db) t)"
        using sweep_Inr(6)[OF s w c] by blast
      show ?thesis
        unfolding iff[symmetric] using True m
        by (auto simp: expiryMove_def swept_row_def split: option.splits if_splits)
    next
      case False
      have "t_id t \<notin> t_id ` set (lapsed lc locked db)"
      proof
        assume "t_id t \<in> t_id ` set (lapsed lc locked db)"
        then obtain u where "u \<in> set (lapsed lc locked db)" "t_id u = t_id t" by auto
        then show False using distinct_key_eq[OF d _ t] False by (auto simp: lapsed_iff)
      qed
      then show ?thesis
        unfolding iff[symmetric] using False sweep_Inr(5)[OF s w c] find_row_unique[OF d t] by simp
    qed
  qed
  then show ?thesis using c by blast
qed

theorem sweep_exact_witness:
  "\<exists>db' evs t'. sweep taskLifecycle [] late_db = Inr (1, db', evs) \<and>
     find_task ''k-111.1'' db' = Some t' \<and> t_state t' = ''open'' \<and> t_leaseAttemptId t' = None"
proof -
  have "isOk (checkWriter taskLifecycle late_db)" by code_simp
  then have ver: "checkWriter taskLifecycle late_db = Inr ()" by (auto simp: isOk_iff)
  have w: "wf taskLifecycle late_db" using reachable_good[OF taskLifecycle_sound late_reachable] by (simp add: good_def)
  have n: "length (lapsed taskLifecycle [] late_db) = 1" by code_simp
  have "case find_task ''k-111.1'' late_db of Some t \<Rightarrow> t_leaseExpiresAt t = Some 61000 | None \<Rightarrow> False" by code_simp
  then obtain t where t: "t \<in> set (d_tasks late_db)" "t_id t = ''k-111.1''" "t_leaseExpiresAt t = Some 61000"
    by (auto split: option.splits dest: find_row_Some)
  have p: "priorExpiries late_db ''k-111.1'' ''expire'' = 0" by code_simp
  have "d_now late_db = 70000" by (simp add: late_db_def)
  then show ?thesis
    using sweep_exact[OF taskLifecycle_sound w ver, of "[]"] t n p
    by (force simp: moveNamed_simp move_defs)
qed

text \<open>
  C10: Ready work is exactly the claimable work tasks past their hold, with every dependency satisfied,
  and whose every ancestor container is claimable with every dependency satisfied too; it comes in
  claim order.
\<close>

theorem ready_exact:
  assumes v: "valid_lifecycle lc" and w: "wf lc db"
  shows "\<exists>ts. ready lc db noFilter = Inr ts \<and> sorted (map CLAIM_ORDER ts) \<and>
    set ts = {t \<in> set (d_tasks db). t_kind t = Work \<and> (\<forall>h. t_holdUntil t = Some h \<longrightarrow> h \<le> d_now db) \<and>
      (\<forall>u \<in> set (d_tasks db). (t_id t, t_id u) \<in> (parents (d_tasks db))\<^sup>* \<longrightarrow>
         stateFlag sf_claimable lc (t_state u) \<and>
         (\<forall>d \<in> set (d_tasks db). (t_id u, t_id d) \<in> set (d_deps db) \<longrightarrow> isSatisfying lc (t_state d)))}"
proof -
  let ?ts = "sort_key CLAIM_ORDER (filter (readyWhere lc db) (d_tasks db))"
  have "ready lc db noFilter = Inr ?ts"
    by (simp add: ready_def listWhere_def parseTaskFilter_def parsed_def noFilter_def filterWhere_def given_def issue_def
        limited_def orElse_def)
  moreover have "sorted (map CLAIM_ORDER ?ts)" by (rule sorted_sort_key)
  ultimately show ?thesis using readyWhere_iff[OF v w] by (intro exI[of _ ?ts]) auto
qed

theorem ready_exact_witness:
  "\<exists>ts. ready taskLifecycle (at_step 6) noFilter = Inr ts \<and> map t_id ts = [''k-111.1''] \<and> sorted (map CLAIM_ORDER ts)"
proof -
  have "case ready taskLifecycle (at_step 6) noFilter of Inr ts \<Rightarrow> map t_id ts = [''k-111.1''] | Inl _ \<Rightarrow> False" by code_simp
  then show ?thesis using ready_exact[OF taskLifecycle_valid at_wf, of 6] by (auto split: sum.splits)
qed

subsection \<open>Dependencies and moves\<close>

text \<open>
  C11: A dependency between two tasks the caller may edit, on work that can still satisfy it, is taken
  exactly when the dependencies stay acyclic and neither task contains the other.
\<close>

theorem deps_add_exact:
  assumes "wf lc db" and "find_task i db = Some t" "find_task j db = Some target"
    and "check lc a DepsAdd (Some (t_state t)) db = Inr ()"
    and "isTerminal lc (t_state target) \<longrightarrow> isSatisfying lc (t_state target)"
  shows "isOk (deps_add lc a i j req db) \<longleftrightarrow>
    acyclic (insert (i, j) (set (d_deps db))) \<and> \<not> ((i, j) \<in> (parents (d_tasks db))\<^sup>* \<or> (j, i) \<in> (parents (d_tasks db))\<^sup>*)"
  by (rule deps_add_exact_aux[OF assms])

theorem deps_add_exact_witness:
  "\<not> acyclic {(''k-111.1'', ''k-111.2''), (''k-111.2'', ''k-111.1'')} \<and>
   \<not> isOk (deps_add taskLifecycle ana ''k-111.1'' ''k-111.2'' None (at_step 5))"
proof -
  have "(''k-111.1'', ''k-111.1'') \<in> {(''k-111.1'', ''k-111.2''), (''k-111.2'', ''k-111.1'')}\<^sup>+"
    by (rule trancl_into_trancl[OF r_into_trancl, of _ "''k-111.2''"]) simp_all
  then have c: "\<not> acyclic {(''k-111.1'', ''k-111.2''), (''k-111.2'', ''k-111.1'')}" unfolding acyclic_def by blast
  have "case (find_task ''k-111.1'' (at_step 5), find_task ''k-111.2'' (at_step 5)) of
      (Some t, Some u) \<Rightarrow> t_state t = ''proposed'' \<and> t_state u = ''proposed'' | _ \<Rightarrow> False" by code_simp
  then obtain t u where tu: "find_task ''k-111.1'' (at_step 5) = Some t" "find_task ''k-111.2'' (at_step 5) = Some u"
      "t_state t = ''proposed''" "t_state u = ''proposed''"
    by (auto split: option.splits)
  have "isOk (check taskLifecycle ana DepsAdd (Some ''proposed'') (at_step 5))" by code_simp
  then have k: "check taskLifecycle ana DepsAdd (Some (t_state t)) (at_step 5) = Inr ()" using tu(3) by (auto simp: isOk_iff)
  have d: "d_deps (at_step 5) = [(''k-111.2'', ''k-111.1'')]" by code_simp
  show ?thesis
    using deps_add_exact[OF at_wf tu(1,2) k] c tu(4) by (simp add: flag_simps d)
qed

text \<open>
  C12: A move succeeds exactly when it is declared and is not the claim move, the project is on the
  lifecycle's version, the task exists, a fence names the attempt that holds it, the role may make it
  from the state the task is in, a move to a terminal state leaves no live child behind and, if it
  strands them, no live dependent unless their edges are dropped, and the guard passes. The task then
  is in the move's target with no lease.
\<close>

theorem move_exact:
  assumes w: "wf lc db"
  shows "(isOk (move lc a i nm opts fence db) \<longleftrightarrow>
     (\<exists>m t. moveNamed lc nm = Some m \<and> nm \<noteq> l_onClaim lc \<and> assertVersion lc db = Inr () \<and> find_task i db = Some t \<and>
       (\<forall>x. fence = Some x \<longrightarrow> t_leaseAttemptId t = Some x) \<and> ac_role a \<in> set (m_by m) \<and> t_state t \<in> set (m_from m) \<and>
       (isTerminal lc (m_to m) \<longrightarrow> liveChildren lc db i = []) \<and>
       (isTerminal lc (m_to m) \<and> \<not> isSatisfying lc (m_to m) \<longrightarrow> mo_dropDeps opts \<or> liveDependents lc db i = []) \<and>
       (\<forall>g. m_guard m = Some g \<longrightarrow> g_fn g t a db = None))) \<and>
    (\<forall>row db' evs. move lc a i nm opts fence db = Inr (row, db', evs) \<longrightarrow>
      (\<exists>m. moveNamed lc nm = Some m \<and> find_task i db' = Some row \<and> t_state row = m_to m \<and> t_leaseAttemptId row = None))"
  by (rule conjI[OF move_isOk[OF w]]) (use move_result in blast)

theorem move_exact_witness:
  "\<not> isOk (move taskLifecycle ana ''k-111.1'' ''cancel'' plainly None (at_step 7)) \<and>
   isOk (move taskLifecycle ana ''k-111.1'' ''cancel'' (plainly\<lparr>mo_dropDeps := True\<rparr>) None (at_step 7))"
proof -
  obtain m where m: "moveNamed taskLifecycle ''cancel'' = Some m" "m_to m = ''cancelled''" "m_guard m = None"
      "m_by m = [''developer'']" "m_from m = nonTerminal"
    by (simp add: moveNamed_simp move_defs)
  have "case find_task ''k-111.1'' (at_step 7) of Some t \<Rightarrow> t_state t = ''claimed'' | None \<Rightarrow> False" by code_simp
  then obtain t where t: "find_task ''k-111.1'' (at_step 7) = Some t" "t_state t = ''claimed''" by (auto split: option.splits)
  have "isOk (assertVersion taskLifecycle (at_step 7))" by code_simp
  then have v: "assertVersion taskLifecycle (at_step 7) = Inr ()" by (auto simp: isOk_iff)
  have l: "liveChildren taskLifecycle (at_step 7) ''k-111.1'' = []" "liveDependents taskLifecycle (at_step 7) ''k-111.1'' = [''k-111.2'']"
    by (code_simp, code_simp)
  show ?thesis
    using move_exact[OF at_wf, of ana "''k-111.1''" "''cancel''" plainly None 7]
      move_exact[OF at_wf, of ana "''k-111.1''" "''cancel''" "plainly\<lparr>mo_dropDeps := True\<rparr>" None 7] m t v l
    by (simp add: flag_simps ana_def plainly_def nonTerminal_def)
qed

end
