(* ===== verification/PlanProperties.thy ===== *)
theory PlanProperties
  imports Scenarios
begin

text \<open>
  What plans promise: approval opens a plan whole and changes nothing else, discard cancels it whole
  and changes nothing else, in an order that takes a task after its children and the tasks waiting on
  it, and the cycle validator finds a cycle exactly when there is one.
\<close>

lemma in_snapshot:
  assumes o: "openPlan db pid = Inr s"
  shows "t \<in> set (sn_tasks s) \<longleftrightarrow> t \<in> set (d_tasks db) \<and> t_planId t = Some pid"
  by (rule openPlan_Inr[OF o]) auto

lemma tx_row_fields [simp]:
  "t_state (tx_row lc m n t) = m_to m" "t_leaseAttemptId (tx_row lc m n t) = t_leaseAttemptId t"
  "t_planId (tx_row lc m n t) = t_planId t" "t_closedAt (tx_row lc m n t) = (if isTerminal lc (m_to m) then Some n else t_closedAt t)"
  by (simp_all add: tx_row_def)

subsection \<open>Approval\<close>

text \<open>
  C13: An approval takes a whole plan or nothing. When it succeeds, every validator ran on the open plan, the built-in
  ones (no cycle of dependencies, no missing reference, no childless container, nothing past the create state)
  and the registered ones, what they found is the answer's findings, and none of it is an error; every task of the plan was
  still in the create state and is now claimable work; every container of the plan has a child; the plan's row was open
  before and is now marked approved; and every task outside the plan keeps its row, and every dependency its place.
\<close>

theorem approval_opens_the_plan:
  assumes v: "valid_lifecycle lc" and w: "wf lc db"
    and c: "plans_approve lc vs cfg a pid opts db = Inr ((p, fs), db', evs)"
  shows "(\<forall>t \<in> set (d_tasks db). t_planId t = Some pid \<longrightarrow> t_state t = l_createState lc \<and>
      (\<exists>t'. find_task (t_id t) db' = Some t' \<and> Some (t_state t') = claimableState lc \<and> t_leaseAttemptId t' = None) \<and>
      (t_kind t = Container \<longrightarrow> (\<exists>u \<in> set (d_tasks db). t_parentId u = Some (t_id t)))) \<and>
    (\<forall>t \<in> set (d_tasks db). t_planId t \<noteq> Some pid \<longrightarrow> find_task (t_id t) db' = Some t) \<and>
    d_deps db' = d_deps db \<and>
    (\<exists>q. find_row p_id pid (d_plans db) = Some q \<and> p_approvedAt q = None \<and> p_discardedAt q = None \<and>
      p_approvedAt p = Some (d_now db) \<and> p_approvedBy p = Some (ac_id a)) \<and>
    find_row p_id pid (d_plans db') = Some p \<and>
    (\<exists>s. openPlan db pid = Inr s \<and> runValidators lc vs cfg None s db = Inr fs \<and> \<not> has_error fs \<and>
      set (noCycles s @ noMissingRefs db s @ containersHaveChildren db s @ preApproval lc s) \<subseteq> set fs)"
proof (rule plans_approve_Inr[OF c])
  fix m s db1 evs1
  assume m: "moveNamed lc (l_onApprove lc) = Some m" and o: "openPlan db pid = Inr s"
    and rv: "runValidators lc vs cfg None s db = Inr fs" and ok: "\<not> has_error fs"
    and e: "approveEach lc a m (JObj [(''via'', JStr (ao_via opts)), (''planId'', JStr pid)]) (sn_tasks s) db = Inr (db1, evs1)"
    and db': "db' = upd_plan pid (\<lambda>p. p\<lparr>p_approvedAt := Some (d_now db), p_approvedBy := Some (ac_id a)\<rparr>) db1"
  have d: "distinct (map t_id (d_tasks db))" using wfD(1)[OF w] by (simp add: forest_ok_def)
  note e1 = approveEach_Inr[OF v m w fresh_snapshot[OF w o] e]
  have ft: "find_task i db' = opened lc m (d_now db) (sn_tasks s) i db" for i using e1 by (simp add: db')
  have part: "\<not> has_error (preApproval lc s)" "\<not> has_error (containersHaveChildren db s)"
    using has_error_mono[OF runValidators_builtin[OF rv]] ok by auto
  then have st: "t_state t = l_createState lc" if "t \<in> set (sn_tasks s)" for t
    using that by (auto simp: preApproval_ok)
  obtain k where k: "claimableState lc = Some k" "m_to m = k" using approve_move[OF v] m by (metis option.inject)
  have plan: "find_task (t_id t) db' = Some (if t_planId t = Some pid then tx_row lc m (d_now db) t else t)"
    if t: "t \<in> set (d_tasks db)" for t
  proof -
    have "t_id t \<in> t_id ` {u \<in> set (sn_tasks s). t_state u = l_createState lc} \<longleftrightarrow> t_planId t = Some pid"
    proof
      assume "t_id t \<in> t_id ` {u \<in> set (sn_tasks s). t_state u = l_createState lc}"
      then obtain u where u: "u \<in> set (sn_tasks s)" "t_id u = t_id t" by auto
      then have "u = t" using distinct_key_eq[OF d _ t] in_snapshot[OF o, of u] by blast
      then show "t_planId t = Some pid" using u(1) in_snapshot[OF o, of t] by simp
    next
      assume "t_planId t = Some pid"
      then have "t \<in> set (sn_tasks s)" using in_snapshot[OF o, of t] t by simp
      then show "t_id t \<in> t_id ` {u \<in> set (sn_tasks s). t_state u = l_createState lc}" using st[of t] by simp
    qed
    then show ?thesis using ft find_row_unique[OF d t] by (simp add: opened_def)
  qed
  have kids: "\<exists>u \<in> set (d_tasks db). t_parentId u = Some (t_id t)"
    if "t \<in> set (d_tasks db)" "t_planId t = Some pid" "t_kind t = Container" for t
    using part(2) that in_snapshot[OF o] unfolding containersHaveChildren_ok by blast
  have free: "t_leaseAttemptId t = None" if "t \<in> set (d_tasks db)" "t_state t = l_createState lc" for t
    using wfD(3)[OF w] that create_state(2)[OF v] by (auto simp: states_ok_def)
  obtain q where q: "find_row p_id pid (d_plans db) = Some q" "p_approvedAt q = None" "p_discardedAt q = None"
    using openPlan_Inr[OF o] by metis
  have "find_row p_id pid (d_plans db') = Some (q\<lparr>p_approvedAt := Some (d_now db), p_approvedBy := Some (ac_id a)\<rparr>)"
    using q e1 by (simp add: db' find_row_upd)
  moreover have row: "find_row p_id pid (d_plans db') = Some p"
    using c m o rv ok e by (auto simp: plans_approve_def db' Let_def split: if_splits option.splits)
  ultimately have p: "p_approvedAt p = Some (d_now db)" "p_approvedBy p = Some (ac_id a)" by auto
  have A: "\<forall>t \<in> set (d_tasks db). t_planId t = Some pid \<longrightarrow> t_state t = l_createState lc \<and>
      (\<exists>t'. find_task (t_id t) db' = Some t' \<and> Some (t_state t') = claimableState lc \<and> t_leaseAttemptId t' = None) \<and>
      (t_kind t = Container \<longrightarrow> (\<exists>u \<in> set (d_tasks db). t_parentId u = Some (t_id t)))"
  proof (intro ballI impI)
    fix t assume t: "t \<in> set (d_tasks db)" "t_planId t = Some pid"
    then have s: "t_state t = l_createState lc" using st in_snapshot[OF o] by blast
    have "find_task (t_id t) db' = Some (tx_row lc m (d_now db) t)" using plan[OF t(1)] t(2) by simp
    moreover have "t_leaseAttemptId (tx_row lc m (d_now db) t) = None" using free[OF t(1) s] by simp
    ultimately show "t_state t = l_createState lc \<and>
      (\<exists>t'. find_task (t_id t) db' = Some t' \<and> Some (t_state t') = claimableState lc \<and> t_leaseAttemptId t' = None) \<and>
      (t_kind t = Container \<longrightarrow> (\<exists>u \<in> set (d_tasks db). t_parentId u = Some (t_id t)))"
      using s k kids[OF t] by simp
  qed
  have B: "\<forall>t \<in> set (d_tasks db). t_planId t \<noteq> Some pid \<longrightarrow> find_task (t_id t) db' = Some t" using plan by simp
  have D: "d_deps db' = d_deps db" using e1 by (simp add: db')
  show ?thesis by (intro conjI A B D exI[of _ q] q p row exI[of _ s] o rv ok runValidators_builtin[OF rv])
qed

theorem approval_opens_the_plan_witness:
  "\<exists>p fs db' evs t'. plans_approve taskLifecycle [] (\<lambda>_. JNull) ana ''k-plan-111'' \<lparr>ao_via = ''cli'', ao_requestId = None\<rparr> (at_step 5)
       = Inr ((p, fs), db', evs) \<and> find_task ''k-111.2'' db' = Some t' \<and> Some (t_state t') = claimableState taskLifecycle"
proof -
  let ?r = "plans_approve taskLifecycle [] (\<lambda>_. JNull) ana ''k-plan-111'' \<lparr>ao_via = ''cli'', ao_requestId = None\<rparr> (at_step 5)"
  have "isOk ?r" by code_simp
  then obtain p fs db' evs where c: "?r = Inr ((p, fs), db', evs)" by (auto simp: isOk_iff)
  have "case find_task ''k-111.2'' (at_step 5) of Some t \<Rightarrow> t_planId t = Some ''k-plan-111'' | None \<Rightarrow> False" by code_simp
  then obtain t where "t \<in> set (d_tasks (at_step 5))" "t_id t = ''k-111.2''" "t_planId t = Some ''k-plan-111''"
    by (auto split: option.splits dest: find_row_Some)
  then show ?thesis using approval_opens_the_plan[OF taskLifecycle_valid at_wf c] c by metis
qed

subsection \<open>Discard\<close>

text \<open>
  C14: A discard takes a whole plan or nothing. When it succeeds, every task of the plan still in the
  create state is closed where the discard move lands, no live task is left waiting on one of them or
  sitting under one, and every other task keeps its row; the plan's row was open before, and is the same but for being
  marked discarded now, by this actor, and every other plan keeps its row.
\<close>

theorem discard_closes_the_plan:
  assumes v: "valid_lifecycle lc" and w: "wf lc db"
    and c: "plans_discard lc a pid opts db = Inr (p, db', evs)"
  shows "\<exists>m. moveNamed lc (l_onDiscard lc) = Some m \<and> ac_role a \<in> set (m_by m) \<and> isTerminal lc (m_to m) \<and>
    (\<forall>t \<in> set (d_tasks db). if t_planId t = Some pid \<and> t_state t = l_createState lc
       then (\<exists>t'. find_task (t_id t) db' = Some t' \<and> t_state t' = m_to m \<and> t_closedAt t' = Some (d_now db)) \<and>
         (\<forall>u \<in> set (d_tasks db'). t_parentId u = Some (t_id t) \<longrightarrow> isTerminal lc (t_state u)) \<and>
         (\<not> isSatisfying lc (m_to m) \<longrightarrow> (\<forall>u \<in> set (d_tasks db'). (t_id u, t_id t) \<in> set (d_deps db) \<longrightarrow> isTerminal lc (t_state u)))
       else find_task (t_id t) db' = Some t) \<and>
    (\<exists>q. find_row p_id pid (d_plans db) = Some q \<and> p_approvedAt q = None \<and> p_discardedAt q = None \<and>
      p = q\<lparr>p_discardedAt := Some (d_now db), p_discardedBy := Some (ac_id a)\<rparr>) \<and>
    (\<forall>j. find_row p_id j (d_plans db') = (if j = pid then Some p else find_row p_id j (d_plans db)))"
proof (rule plans_discard_Inr[OF c])
  fix m s going ts db1 evs1
  assume *: "moveNamed lc (l_onDiscard lc) = Some m" "openPlan db pid = Inr s"
    "going = filter (\<lambda>t. t_state t = l_createState lc \<and> t_state t \<in> set (m_from m)) (sn_tasks s)"
    "refuseLeft lc going db = Inr ()"
    "discardEach lc a m (JObj [(''via'', JStr (ao_via opts)), (''planId'', JStr pid)]) (cancelOrder going (sn_deps s)) db = Inr (ts, db1, evs1)"
    and db': "db' = upd_plan pid (\<lambda>p. p\<lparr>p_discardedAt := Some (d_now db), p_discardedBy := Some (ac_id a)\<rparr>) db1"
  note e = plans_discard_each[OF v w *]
  have w': "wf lc db'" by (rule plans_discard_wf[OF v w c])
  have d: "distinct (map t_id (d_tasks db))" and d': "distinct (map t_id (d_tasks db'))"
    using wfD(1)[OF w] wfD(1)[OF w'] by (simp_all add: forest_ok_def)
  have mt: "isTerminal lc (m_to m)" "l_createState lc \<in> set (m_from m)"
    using discard_move[OF v] *(1) by (metis option.inject)+
  have role: "ac_role a \<in> set (m_by m)" using c *(1) by (auto simp: plans_discard_def Let_def)
  have go: "t_id t \<in> t_id ` set going \<longleftrightarrow> t_planId t = Some pid \<and> t_state t = l_createState lc" if t: "t \<in> set (d_tasks db)" for t
    using distinct_key_eq[OF d _ t] in_snapshot[OF *(2)] t mt(2) by (auto simp: *(3) image_iff)
  have f: "find_task (t_id t) db' = Some (if t_planId t = Some pid \<and> t_state t = l_createState lc then tx_row lc m (d_now db) t else t)"
    if t: "t \<in> set (d_tasks db)" for t
    using e(4)[of "t_id t"] go[OF t] find_row_unique[OF d t] by (simp add: db')
  have closed: "isTerminal lc (t_state u)"
    if t: "t \<in> set (d_tasks db)" "t_planId t = Some pid" "t_state t = l_createState lc"
      and u: "u \<in> set (d_tasks db')" "t_parentId u = Some (t_id t)" for t u
  proof -
    have "tx_row lc m (d_now db) t \<in> set (d_tasks db')" using f[OF t(1)] t(2,3) by (auto dest: find_row_Some)
    then show ?thesis using wfD(4)[OF w'] u mt(1) unfolding closed_ok_def by fastforce
  qed
  have waits: "isTerminal lc (t_state u)"
    if t: "t \<in> set (d_tasks db)" "t_planId t = Some pid" "t_state t = l_createState lc" and ns: "\<not> isSatisfying lc (m_to m)"
      and u: "u \<in> set (d_tasks db')" "(t_id u, t_id t) \<in> set (d_deps db)" for t u
  proof (rule ccontr)
    assume live: "\<not> isTerminal lc (t_state u)"
    have t': "tx_row lc m (d_now db) t \<in> set (d_tasks db')" using f[OF t(1)] t(2,3) by (auto dest: find_row_Some)
    have "d_deps db' = d_deps db" using e(3) by (simp add: db')
    then show False using wfD(5)[OF w'] u t' live mt(1) ns unfolding waits_ok_def by fastforce
  qed
  obtain q where q: "find_row p_id pid (d_plans db) = Some q" "p_approvedAt q = None" "p_discardedAt q = None"
    using openPlan_Inr[OF *(2)] by metis
  have plans: "find_row p_id j (d_plans db') = (if j = pid
      then map_option (\<lambda>p. p\<lparr>p_discardedAt := Some (d_now db), p_discardedBy := Some (ac_id a)\<rparr>) (find_row p_id j (d_plans db))
      else find_row p_id j (d_plans db))" for j
    using e(2) by (simp add: db' find_row_upd)
  have row: "find_row p_id pid (d_plans db') = Some p"
    using c * by (auto simp: plans_discard_def db' Let_def split: if_splits option.splits)
  then have p: "p = q\<lparr>p_discardedAt := Some (d_now db), p_discardedBy := Some (ac_id a)\<rparr>" using plans[of pid] q by simp
  show ?thesis
    by (intro exI[of _ m] conjI exI[of _ q] q p) (use *(1) role mt f closed waits plans q row in auto)
qed

theorem discard_closes_the_plan_witness:
  "\<exists>p db' evs t'. plans_discard taskLifecycle ana ''k-plan-111'' \<lparr>ao_via = ''cli'', ao_requestId = None\<rparr> (at_step 5)
       = Inr (p, db', evs) \<and> find_task ''k-111.1'' db' = Some t' \<and> t_closedAt t' = Some 1000"
proof -
  let ?r = "plans_discard taskLifecycle ana ''k-plan-111'' \<lparr>ao_via = ''cli'', ao_requestId = None\<rparr> (at_step 5)"
  have "isOk ?r" by code_simp
  then obtain p db' evs where c: "?r = Inr (p, db', evs)" by (auto simp: isOk_iff)
  have "case find_task ''k-111.1'' (at_step 5) of Some t \<Rightarrow> t_planId t = Some ''k-plan-111'' \<and> t_state t = ''proposed'' | None \<Rightarrow> False"
    by code_simp
  then obtain t where t: "t \<in> set (d_tasks (at_step 5))" "t_id t = ''k-111.1''" "t_planId t = Some ''k-plan-111''" "t_state t = ''proposed''"
    by (auto split: option.splits dest: find_row_Some)
  have "d_now (at_step 5) = 1000" by code_simp
  then show ?thesis using discard_closes_the_plan[OF taskLifecycle_valid at_wf c] c t by fastforce
qed

text \<open>
  C15: The order a discard takes the tasks in is complete, repeats none, and puts every task after its
  children and after the tasks waiting on it, whenever children and waiters taken together have no
  cycle.
\<close>

theorem discard_order:
  assumes "distinct (map t_id ts)" and "acyclic {(b, i). b \<in> set (cancelBefore ts ds i)}"
  shows "set (cancelOrder ts ds) = t_id ` set ts \<and> distinct (cancelOrder ts ds) \<and>
    (\<forall>xs i ys. cancelOrder ts ds = xs @ i # ys \<longrightarrow>
       (\<forall>t \<in> set ts. t_parentId t = Some i \<or> (t_id t, i) \<in> set ds \<longrightarrow> t_id t \<in> set xs))"
proof -
  have "placed (cancelBefore ts ds) (cancelOrder ts ds)"
    using cancelOrder_placed assms(2) by (simp add: before_rel_def)
  then have "set (cancelBefore ts ds i) \<subseteq> set xs" if "cancelOrder ts ds = xs @ i # ys" for xs i ys
    using that unfolding placed_def by blast
  moreover have "t_id t \<in> set (cancelBefore ts ds i)"
    if "t \<in> set ts" "t_parentId t = Some i \<or> (t_id t, i) \<in> set ds" for i t
    using that by (auto simp: cancelBefore_def intro!: rev_image_eqI[of "(t_id t, i)"])
  ultimately have "t_id t \<in> set xs"
    if "cancelOrder ts ds = xs @ i # ys" "t \<in> set ts" "t_parentId t = Some i \<or> (t_id t, i) \<in> set ds" for xs i ys t
    using that by blast
  then show ?thesis using cancelOrder_set[OF assms(1)] by auto
qed

theorem discard_order_witness:
  "\<exists>xs ys. cancelOrder (d_tasks (at_step 5)) (d_deps (at_step 5)) = xs @ ''k-111.1'' # ys \<and> ''k-111.2'' \<in> set xs"
proof -
  let ?ts = "d_tasks (at_step 5)" and ?ds = "d_deps (at_step 5)"
  have d: "distinct (map t_id ?ts)" by code_simp
  have o: "cancelOrder ?ts ?ds = [''k-111.2''] @ ''k-111.1'' # [''k-111'']" by code_simp
  have i: "map t_id ?ts = [''k-111'', ''k-111.1'', ''k-111.2'']" by code_simp
  have p: "map t_parentId ?ts = [None, Some ''k-111'', Some ''k-111'']" by code_simp
  have ds: "?ds = [(''k-111.2'', ''k-111.1'')]" by code_simp
  obtain a b c where ts: "?ts = [a, b, c]" using i by (auto simp: map_eq_Cons_conv)
  have "cancelBefore ?ts ?ds i = (if i = ''k-111'' then [''k-111.1'', ''k-111.2''] else if i = ''k-111.1'' then [''k-111.2''] else [])" for i
    using i p by (auto simp: cancelBefore_def ds ts)
  then have r: "{(b, i). b \<in> set (cancelBefore ?ts ?ds i)} \<subseteq> measure (\<lambda>s. if s = ''k-111'' then 2 else if s = ''k-111.1'' then 1 else 0)"
    by (auto split: if_splits)
  then have "acyclic {(b, i). b \<in> set (cancelBefore ?ts ?ds i)}"
    by (rule acyclic_subset[OF wf_acyclic[OF wf_measure]])
  then have "\<forall>t \<in> set ?ts. t_parentId t = Some ''k-111.1'' \<or> (t_id t, ''k-111.1'') \<in> set ?ds \<longrightarrow> t_id t \<in> set [''k-111.2'']"
    using discard_order[OF d] o by blast
  then show ?thesis using o by (intro exI[of _ "[''k-111.2'']"] exI[of _ "[''k-111'']"]) simp
qed

subsection \<open>The cycle validator\<close>

text \<open>
  C16: The cycle search returns nothing exactly when the dependencies are acyclic, and what it returns
  otherwise is a cycle: a path along the edges, of at least one edge, that ends where it began.
\<close>

theorem findCycle_correct:
  "(findCycle ds = None \<longleftrightarrow> acyclic (set ds)) \<and> (case findCycle ds of None \<Rightarrow> True | Some c \<Rightarrow> is_cycle (set ds) c)"
  using findCycle_exact[of ds] findCycle_SomeD[of ds] by (cases "findCycle ds") auto

end
