(* ===== verification/CallProperties.thy ===== *)
theory CallProperties
  imports Scenarios
begin

text \<open>
  What a caller of the engine can rely on whatever fails in between: a write with a request id is made
  once, a transaction and an agent call are retried a bounded number of times, and a subscriber misses
  no event.
\<close>

lemma find_last: "find P xs = None \<Longrightarrow> P x \<Longrightarrow> find P (xs @ [x]) = Some x"
  by (induction xs) (auto split: if_splits)

subsection \<open>Requests\<close>

text \<open>
  C17: A create that carries a request id makes one task, however often and whenever it is retried. Once
  it has created a task, the same request by the same actor, whatever it now asks for and whatever
  happened since, changes nothing and answers with that task as it stands, or that it is gone.
\<close>

theorem create_once:
  assumes r: "reachable lc vs cfg db"
    and c: "call_create lc a t rand (Some r) db db = Inr (row, db1)" and new: "find_task (t_id row) db = None"
    and l: "leads_to lc vs cfg db1 db2"
  shows "call_create lc a t' rand' (Some r) later db2 =
    (case find_task (t_id row) db2 of Some row' \<Rightarrow> Inr (row', db2) | None \<Rightarrow> Inl (NotFound ''task'' (t_id row)))"
proof -
  let ?act = "transaction (tasks_create lc a t rand (Some r))"
  have gone: "replay_task p db \<noteq> Inr row" for p
    using new find_row_Some by (fastforce simp: replay_task_def split: option.splits)
  have rn: "r \<noteq> ''''" and first: "replayed r ''task.created'' (by_actor a None None) replay_task db = Inr None"
    and act: "?act db = Inr (row, db1)"
    using c gone by (auto simp: call_create_def once_def replayed_def split: if_splits option.splits sum.splits)
  have none: "priorWrite db r = None"
    using first by (auto simp: replayed_def split: option.splits if_splits)
  obtain dbm evs where b: "tasks_create lc a t rand (Some r) db = Inr (row, dbm, evs)" and w: "writeEvents evs dbm = Inr db1"
    using transaction_Inr[OF act] by blast
  have "evs = [created_event a row (Some r)]"
  proof (cases "Option.bind (nt_key t) (taskByKey db)")
    case (Some e)
    then have "row = e" using b by (auto simp: tasks_create_def)
    moreover have "e \<in> set (d_tasks db)"
      using Some by (auto simp: taskByKey_def find_Some_iff Option.bind_eq_Some_conv)
    ultimately show ?thesis using new find_row_None[of t_id "t_id row" "d_tasks db"] by auto
  qed (use b in \<open>auto simp: tasks_create_def\<close>)
  then obtain e where ev: "d_events db1 = d_events dbm @ [e]" "e_requestId e = Some r" "e_kind e = ''task.created''"
      "e_actor e = ac_id a" "e_taskId e = Some (t_id row)"
    using writeEvents_events[OF w] by (auto simp: created_event_def ev_def)
  have "d_events dbm = d_events db" using tasks_create_log[OF b] by (simp add: same_log_def)
  then have "priorWrite db1 r = Some (toPrior e)"
    using none ev by (simp add: priorWrite_def find_last)
  moreover have "extends db1 db2"
  proof -
    have "step lc vs cfg db db1"
      by (rule step.call[where a = a and op = "TaskCreate t rand (Some r)"]) (use c in \<open>simp add: rows_after_def\<close>)
    then show ?thesis using leads_to_extends[OF reachable_log[OF engine.reachable_step[OF r]] l] by blast
  qed
  ultimately have p: "priorWrite db2 r = Some (toPrior e)" using priorWrite_grows by (auto simp: extends_def)
  have "call_create lc a t' rand' (Some r) later db2 = bindE (replay_task (toPrior e) db2) (\<lambda>x. Inr (x, db2))"
    unfolding call_create_def
    by (rule once_replays[OF p]) (use rn ev in \<open>auto simp: toPrior_def by_actor_def\<close>)
  then show ?thesis using ev by (simp add: replay_task_def toPrior_def loadTask_def split: option.split)
qed

definition lone :: new_task where
  "lone = (demo_task ''lone'' Work None)\<lparr>nt_plan := None\<rparr>"

theorem create_once_witness:
  "\<exists>row db1. call_create taskLifecycle ana lone (\<lambda>_. 2) (Some ''q'') (at_step 5) (at_step 5) = Inr (row, db1) \<and>
     call_create taskLifecycle ana lone (\<lambda>_. 3) (Some ''q'') db1 db1 =
       (case find_task (t_id row) db1 of Some row' \<Rightarrow> Inr (row', db1) | None \<Rightarrow> Inl (NotFound ''task'' (t_id row)))"
proof -
  let ?c = "call_create taskLifecycle ana lone (\<lambda>_. 2) (Some ''q'') (at_step 5) (at_step 5)"
  have "case ?c of Inr (row, _) \<Rightarrow> Option.is_none (find_task (t_id row) (at_step 5)) | Inl _ \<Rightarrow> False" by code_simp
  then obtain row db1 where c: "?c = Inr (row, db1)" "find_task (t_id row) (at_step 5) = None"
    by (auto simp: Option.is_none_def split: sum.splits)
  have "leads_to taskLifecycle [] (\<lambda>_. JNull) db1 db1" by (simp add: leads_to_def)
  from create_once[OF at_reachable c this] c(1) show ?thesis by blast
qed

subsection \<open>Retries\<close>

text \<open>
  A transaction runs at most four times: some run, at most three after the first, decides the outcome; every run
  before it failed with a serialization failure or a deadlock; its result or its error, as the runner
  surfaces it, is the caller's; and only the fourth such failure becomes Unavailable.
\<close>

lemma transaction_retries:
  "\<exists>k \<le> 3. (\<forall>j < k. \<exists>code msg. run j = Inl (DbError code msg) \<and> (code = ''40001'' \<or> code = ''40P01'')) \<and>
     runTransaction run 0 = (case run k of
         Inr x \<Rightarrow> Inr x
       | Inl e \<Rightarrow> if k = 3 \<and> tx_retryable e then Inl (Unavailable ''transaction gave up after 3 retries'') else Inl (tx_surface e)) \<and>
     (\<forall>e. run k = Inl e \<longrightarrow> tx_retryable e \<longrightarrow> k = 3)"
proof -
  obtain k where k: "k \<le> 3" "\<forall>j < k. tx.fails run j" "tx.fails run k \<longrightarrow> k = 3" "runTransaction run 0 = tx.settles run k"
    using tx.decided_by[of 0 run] by (auto simp: MAX_RETRIES_def)
  have "\<exists>code msg. e = DbError code msg \<and> (code = ''40001'' \<or> code = ''40P01'')" if "tx_retryable e" for e
    using that by (cases e) (auto simp: RETRYABLE_def)
  then have "\<exists>code msg. run j = Inl (DbError code msg) \<and> (code = ''40001'' \<or> code = ''40P01'')" if "tx.fails run j" for j
    using that unfolding tx.fails_def by metis
  then have before: "\<forall>j < k. \<exists>code msg. run j = Inl (DbError code msg) \<and> (code = ''40001'' \<or> code = ''40P01'')"
    using k(2) by blast
  have last: "\<forall>e. run k = Inl e \<longrightarrow> tx_retryable e \<longrightarrow> k = 3" using k(3) by (auto simp: tx.fails_def)
  then have "tx.settles run k = (case run k of
         Inr x \<Rightarrow> Inr x
       | Inl e \<Rightarrow> if k = 3 \<and> tx_retryable e then Inl (Unavailable ''transaction gave up after 3 retries'') else Inl (tx_surface e))"
    by (cases "run k") (simp_all add: tx.settles_def tx_exhausted_def)
  with k(4) show ?thesis by (intro exI[of _ k] conjI k(1) before last) simp
qed

lemma transaction_retries_witness:
  "runTransaction (\<lambda>j. if j < 2 then Inl (DbError ''40001'' ''could not serialize'') else Inr (7 :: nat)) 0 = Inr 7"
proof -
  define run where "run = (\<lambda>j. if j < (2 :: nat) then Inl (DbError ''40001'' ''could not serialize'') else Inr (7 :: nat))"
  have conflict: "tx_retryable (DbError ''40001'' ''could not serialize'')" by (simp add: RETRYABLE_def)
  obtain k where before: "\<forall>j < k. \<exists>code msg. run j = Inl (DbError code msg) \<and> (code = ''40001'' \<or> code = ''40P01'')"
    and r: "runTransaction run 0 = (case run k of
         Inr x \<Rightarrow> Inr x
       | Inl e \<Rightarrow> if k = 3 \<and> tx_retryable e then Inl (Unavailable ''transaction gave up after 3 retries'') else Inl (tx_surface e))"
    and last: "\<forall>e. run k = Inl e \<longrightarrow> tx_retryable e \<longrightarrow> k = 3"
    using transaction_retries[of run] by blast
  have "run k = Inr 7"
  proof (cases "k < 2")
    case True
    then have "run k = Inl (DbError ''40001'' ''could not serialize'')" by (simp add: run_def)
    then have "k = 3" using last conflict by blast
    with True show ?thesis by simp
  qed (simp add: run_def)
  then show ?thesis using r by (simp add: run_def)
qed

text \<open>
  An agent call is attempted at most three times, after 5 and then 10 seconds: some attempt decides
  the outcome, unchanged, every attempt before it failed with an overloaded or unreachable service, and
  the delays slept are exactly those before the attempts made.
\<close>

lemma agent_retries:
  "\<exists>k \<le> 2. (\<forall>j < k. \<exists>e. run j = Inl e \<and> isRetryable AGENT_RETRY_CONFIG e) \<and>
     withRetry label AGENT_RETRY_CONFIG run = (run k, take k [5000, 10000]) \<and>
     (k < 2 \<longrightarrow> \<not> (\<exists>e. run k = Inl e \<and> isRetryable AGENT_RETRY_CONFIG e))"
proof -
  let ?again = "\<lambda>n. \<exists>e. run n = Inl e \<and> isRetryable AGENT_RETRY_CONFIG e"
  have cfg: "rc_maxAttempts AGENT_RETRY_CONFIG = 3" "rc_backoffMultiplier AGENT_RETRY_CONFIG = 2"
    "rc_maxDelayMs AGENT_RETRY_CONFIG = 60000" "rc_initialDelayMs AGENT_RETRY_CONFIG = 5000"
    by (simp_all add: AGENT_RETRY_CONFIG_def)
  have on: "withRetryFrom label AGENT_RETRY_CONFIG run n d = apsnd (Cons d) (withRetryFrom label AGENT_RETRY_CONFIG run (Suc n) (min (d * 2) 60000))"
    if "?again n" "n < 2" for n d
    using that withRetryFrom_again[where run = run and n = n and cfg = AGENT_RETRY_CONFIG] by (auto simp: cfg)
  have stop: "withRetryFrom label AGENT_RETRY_CONFIG run n d = (run n, [])" if "n = 2 \<or> n < 2 \<and> \<not> ?again n" for n d
    using that by (intro withRetryFrom_stop) (auto simp: cfg)
  consider "\<not> ?again 0" | "?again 0" "\<not> ?again 1" | "?again 0" "?again 1" by blast
  then show ?thesis
  proof cases
    case 1
    then show ?thesis using stop[of 0] by (intro exI[of _ 0]) (simp add: withRetry_def cfg)
  next
    case 2
    then show ?thesis using stop[of 1] on[of 0] by (intro exI[of _ 1]) (simp add: withRetry_def cfg)
  next
    case 3
    then show ?thesis
      using stop[of 2] on[of 0] on[of 1]
      by (intro exI[of _ 2]) (simp add: withRetry_def cfg All_less_Suc numeral_2_eq_2)
  qed
qed

lemma agent_retries_witness:
  "withRetry ''silpi'' AGENT_RETRY_CONFIG
     (\<lambda>j. if j < 1 then Inl \<lparr>ae_status = Some 529, ae_message = None, ae_code = None\<rparr> else Inr (7 :: nat)) = (Inr 7, [5000])"
proof -
  define run where
    "run = (\<lambda>j. if j < (1 :: nat) then Inl \<lparr>ae_status = Some 529, ae_message = None, ae_code = None\<rparr> else Inr (7 :: nat))"
  have busy: "isRetryable AGENT_RETRY_CONFIG \<lparr>ae_status = Some 529, ae_message = None, ae_code = None\<rparr>"
    by (simp add: isRetryable_def AGENT_RETRY_CONFIG_def)
  obtain k where before: "\<forall>j < k. \<exists>e. run j = Inl e \<and> isRetryable AGENT_RETRY_CONFIG e"
    and r: "withRetry ''silpi'' AGENT_RETRY_CONFIG run = (run k, take k [5000, 10000])"
    and last: "k < 2 \<longrightarrow> \<not> (\<exists>e. run k = Inl e \<and> isRetryable AGENT_RETRY_CONFIG e)"
    using agent_retries[of run] by blast
  have "run 0 = Inl \<lparr>ae_status = Some 529, ae_message = None, ae_code = None\<rparr>" by (simp add: run_def)
  then have "k \<noteq> 0" using last busy by (metis zero_less_numeral)
  moreover have "\<not> 1 < k" using before by (auto simp: run_def)
  ultimately have "k = 1" by simp
  then show ?thesis using r by (simp add: run_def)
qed

subsection \<open>The event feed\<close>

text \<open>
  C18: A subscriber that catches up from a cursor gets every later event exactly once, in order, in
  batches that are never empty, and the catch-up ends; this holds as long as the ids fit a cursor.
\<close>

theorem catch_up_is_complete:
  assumes "reachable lc vs cfg db" and "cursors_fit db" and "c \<le> MAX_BIGINT"
  shows "\<exists>bs. catchUp db (show_nat c) = Inr bs \<and> [] \<notin> set bs \<and> concat bs = filter (\<lambda>e. c < e_id e) (d_events db)"
  using catchUp_exact[OF _ assms(2,3)] reachable_log[OF assms(1)] by simp

theorem catch_up_is_complete_witness:
  "\<exists>bs. catchUp (at_step 7) (show_nat 8) = Inr bs \<and> map e_id (concat bs) = [9, 10]"
proof -
  have "cursors_fit (at_step 7)" by code_simp
  moreover have "(8::nat) \<le> MAX_BIGINT" by (simp add: MAX_BIGINT_def)
  moreover have "map e_id (filter (\<lambda>e. 8 < e_id e) (d_events (at_step 7))) = [9, 10]" by code_simp
  ultimately show ?thesis using catch_up_is_complete[OF at_reachable, of 7 8] by metis
qed

text \<open>
  The text of an event id parses back to it exactly when the id is in the range of a bigint, and to
  nothing otherwise; a cursor that parses is never out of that range.
\<close>

lemma cursor_round_trip:
  "parseCursor (show_nat n) = (if n \<le> MAX_BIGINT then Some n else None) \<and>
   (case parseCursor s of Some k \<Rightarrow> k \<le> MAX_BIGINT | None \<Rightarrow> True)"
proof -
  have "parseCursor (show_nat n) = None" if "\<not> n \<le> MAX_BIGINT" using that by (simp add: parseCursor_def)
  then show ?thesis using parseCursor_show[of n] by (auto simp: parseCursor_def)
qed

end
