(* ===== verification/PolicyProperties.thy ===== *)
theory PolicyProperties
  imports Scenarios
begin

text \<open>
  What Shreni's own lifecycle adds: nothing but its moves closes work, each close rests on the evidence
  its guard names, work reaches review only with a pull request, and planners and agents change no
  task's state.
\<close>

lemma along_done:
  assumes "(s, s') \<in> (along M)\<^sup>*" "s \<noteq> s'"
  obtains m where "m \<in> M" "m_to m = s'"
  using assms by (cases rule: rtranclE) (auto simp: along_def)

lemma along_empty: "(s, s') \<in> (along {})\<^sup>* \<Longrightarrow> s' = s"
  by (simp add: along_def)

lemma evolves_state:
  "evolves lc M db db' \<Longrightarrow> find_task i db = Some t \<Longrightarrow> find_task i db' = Some t' \<Longrightarrow> (t_state t, t_state t') \<in> (along M)\<^sup>*"
  unfolding evolves_def by (drule spec[of _ i]) simp

lemma hook_targets:
  "moveNamed taskLifecycle ''approve'' = Some m \<Longrightarrow> m_to m = ''open''"
  "moveNamed taskLifecycle ''claim'' = Some m \<Longrightarrow> m_to m = ''claimed''"
  "moveNamed taskLifecycle ''cancel'' = Some m \<Longrightarrow> m_to m = ''cancelled''"
  "moveNamed taskLifecycle ''expire'' = Some m \<Longrightarrow> m_to m = ''open''"
  "moveNamed taskLifecycle ''flag'' = Some m \<Longrightarrow> m_to m = ''blocked''"
  by (auto simp: moveNamed_simp move_defs)

text \<open>A state none of the hooks leads to is entered by a move on the task itself, past its refusals.\<close>

lemma entered_by_move:
  assumes r: "reachable taskLifecycle vs cfg db" and e: "exec taskLifecycle vs cfg a op db = Inr db'"
    and t: "find_task i db = Some t" and t': "find_task i db' = Some t'" "t_state t' \<noteq> t_state t"
    and to: "t_state t' \<notin> {''open'', ''claimed'', ''cancelled'', ''blocked''}"
  obtains n opts fence m dropped where "op = Move i n opts fence" "moveNamed taskLifecycle n = Some m" "m_to m = t_state t'"
    "moveRefusals taskLifecycle a m opts fence t db = Inr dropped"
proof -
  have "evolves taskLifecycle (op_moves taskLifecycle a op) db db'"
    using exec_evolves[OF _ _ e] reachable_good[OF taskLifecycle_sound r] by (simp add: good_def)
  then have "(t_state t, t_state t') \<in> (along (op_moves taskLifecycle a op))\<^sup>*" using t t'(1) by (rule evolves_state)
  then obtain m where m: "m \<in> op_moves taskLifecycle a op" "m_to m = t_state t'" using along_done t'(2) by metis
  have "m \<notin> may taskLifecycle a ''approve''" "m \<notin> may taskLifecycle a ''cancel''" "m \<notin> may taskLifecycle a ''claim''"
    using hook_targets[of m] m(2) to by (auto simp: may_def)
  moreover have "m \<notin> expiries taskLifecycle"
    using hook_targets[of m] m(2) to by (auto simp: expiries_def is_expiry_hook_def)
  ultimately have "\<exists>j n opts fence. op = Move j n opts fence"
    using m(1) by (cases op) simp_all
  then obtain j n opts fence where op: "op = Move j n opts fence" by blast
  then have mn: "moveNamed taskLifecycle n = Some m" using m(1) by (simp add: may_def)
  have "db' \<noteq> db" using t t' by auto
  then obtain row where tr: "transaction (move taskLifecycle a j n opts fence) db = Inr (row, db')"
    using exec_cases[OF e] by (auto simp: op body_step_def)
  obtain db1 evs where mv: "move taskLifecycle a j n opts fence db = Inr (row, db1, evs)" and s: "same_rows db1 db'"
    using transaction_Inr[OF tr] by auto
  show thesis
  proof (rule move_Inr[OF mv])
    fix k u dropped
    assume u: "find_task j db = Some u" and "moveNamed taskLifecycle n = Some k"
      and rf: "moveRefusals taskLifecycle a k opts fence u db = Inr dropped"
      and db1: "db1 = upd_task j (moved_row taskLifecycle k (d_now db)) (endHeld (heldAttempt taskLifecycle u) n (dropEdges j dropped db))"
    have "j = i"
    proof (rule ccontr)
      assume "j \<noteq> i"
      then have "find_task i db1 = find_task i db" by (simp add: db1 find_row_upd moved_row_def)
      then show False using t t' same_rowsD(1)[OF s] by auto
    qed
    then show thesis using that op mn m(2) rf u t \<open>moveNamed taskLifecycle n = Some k\<close> by auto
  qed
qed

lemma may_roles:
  assumes "m \<in> may taskLifecycle a nm"
  shows "ac_role a \<in> {''developer'', ''orchestrator'', ''system''}"
  using assms moveNamed_SomeD[of taskLifecycle nm m] by (auto simp: may_def move_defs)

text \<open>
  Planners and agents change no task's state: whatever one of them calls, and for a lease sweep it
  is nobody's call, every task there before and after is in the state it was in.
\<close>

lemma planners_and_agents_move_nothing:
  assumes r: "reachable taskLifecycle vs cfg db" and e: "exec taskLifecycle vs cfg a op db = Inr db'"
    and role: "ac_role a = ''planner'' \<or> ac_role a = ''agent''" and op: "\<And>l. op \<noteq> ExpireLeases l"
    and t: "find_task i db = Some t" "find_task i db' = Some t'"
  shows "t_state t' = t_state t"
proof -
  have none: "may taskLifecycle a nm = {}" for nm using may_roles[of _ a nm] role by auto
  have "op \<noteq> Claim opts swept taken uuid" for opts swept taken uuid
  proof
    assume "op = Claim opts swept taken uuid"
    then have "\<exists>m. moveNamed taskLifecycle (l_onClaim taskLifecycle) = Some m \<and> ac_role a \<in> set (m_by m)"
      using e by (auto simp: rows_after_Inr call_claim_def mayWork_def split: option.splits)
    then show False using none[of "l_onClaim taskLifecycle"] by (auto simp: may_def)
  qed
  then have "op_moves taskLifecycle a op = {}" using none op by (cases op) auto
  moreover have "evolves taskLifecycle (op_moves taskLifecycle a op) db db'"
    using exec_evolves[OF _ _ e] reachable_good[OF taskLifecycle_sound r] by (simp add: good_def)
  ultimately have "evolves taskLifecycle {} db db'" by simp
  then have "(t_state t, t_state t') \<in> (along ({} :: shreni_rows move set))\<^sup>*" using t by (rule evolves_state)
  then show ?thesis by (rule along_empty)
qed

definition planner :: actor where "planner = \<lparr>ac_id = ''plan'', ac_role = ''planner''\<rparr>"

lemma planners_and_agents_move_nothing_witness:
  "\<exists>db' t t'. exec taskLifecycle [] (\<lambda>_. JNull) planner (DepRemove ''k-111.2'' ''k-111.1'' None) (at_step 5) = Inr db' \<and>
     find_task ''k-111.2'' (at_step 5) = Some t \<and> find_task ''k-111.2'' db' = Some t' \<and> t_state t' = t_state t"
proof -
  let ?e = "exec taskLifecycle [] (\<lambda>_. JNull) planner (DepRemove ''k-111.2'' ''k-111.1'' None) (at_step 5)"
  have "case ?e of Inr db' \<Rightarrow> \<not> Option.is_none (find_task ''k-111.2'' db') \<and> \<not> Option.is_none (find_task ''k-111.2'' (at_step 5))
      | Inl _ \<Rightarrow> False" by code_simp
  then obtain db' t t' where c: "?e = Inr db'" "find_task ''k-111.2'' (at_step 5) = Some t" "find_task ''k-111.2'' db' = Some t'"
    by (auto simp: Option.is_none_def split: sum.splits)
  from planners_and_agents_move_nothing[OF at_reachable c(1) _ _ c(2,3)] c show ?thesis by (auto simp: planner_def)
qed

text \<open>
  C19: Work is done only on evidence. A call after which a task is done that was not done before is
  \<open>finish\<close> on claimed or waiting work whose acceptance checks, if it has any, passed on the current
  attempt; or a developer's \<open>confirm\<close> on blocked work that has a manual check, landed on main and passed;
  or \<open>completeContainer\<close> on an open container whose children are all in terminal states of the active
  lifecycle, one of them in a satisfying one. No live child is left under it.
\<close>

theorem done_is_backed:
  assumes r: "reachable taskLifecycle vs cfg db" and e: "exec taskLifecycle vs cfg a op db = Inr db'"
    and t: "find_task i db = Some t" "t_state t \<noteq> ''done''" and t': "find_task i db' = Some t'" "t_state t' = ''done''"
  shows "\<exists>nm opts fence. op = Move i nm opts fence \<and> liveChildren taskLifecycle db i = [] \<and>
    (nm = ''finish'' \<and> ac_role a \<in> {''orchestrator'', ''developer''} \<and> t_state t \<in> {''claimed'', ''waiting''} \<and>
       (checksOf db t = [] \<or> acceptancePassed db t)
     \<or> nm = ''confirm'' \<and> ac_role a = ''developer'' \<and> t_state t = ''blocked'' \<and>
       (\<exists>c \<in> set (checksOf db t). ck_mode c = ''manual'') \<and> workLanded db t \<and> acceptancePassed db t
     \<or> nm = ''completeContainer'' \<and> ac_role a \<in> {''orchestrator'', ''developer''} \<and> t_state t = ''open'' \<and> t_kind t = Container \<and>
       (\<forall>u \<in> set (childrenOf db i). activeFlag sf_terminal db (t_state u)) \<and>
       (\<exists>u \<in> set (childrenOf db i). activeFlag sf_satisfiesDeps db (t_state u)))"
proof (rule entered_by_move[OF r e t(1) t'(1)])
  show "t_state t' \<noteq> t_state t" "t_state t' \<notin> {''open'', ''claimed'', ''cancelled'', ''blocked''}" using t(2) t'(2) by auto
next
  fix n opts fence m dropped
  assume op: "op = Move i n opts fence" and mn: "moveNamed taskLifecycle n = Some m" and m: "m_to m = t_state t'"
    and rf: "moveRefusals taskLifecycle a m opts fence t db = Inr dropped"
  have ti: "t_id t = i" using find_row_Some[OF t(1)] by simp
  have live: "liveChildren taskLifecycle db i = []" using moveRefusals_Inr(3)[OF rf] m t'(2) ti by (simp add: flag_simps)
  note facts = moveRefusals_Inr(1,2)[OF rf] moveRefusals_Inr(7)[OF rf]
  have "n \<in> {''finish'', ''confirm'', ''completeContainer''}"
    using moveNamed_SomeD[OF mn] m t'(2) by (auto simp: move_defs)
  then consider (f) "n = ''finish''" | (c) "n = ''confirm''" | (k) "n = ''completeContainer''" by blast
  then show ?thesis
  proof cases
    case f
    then have "m = (plain ''finish'' [''claimed'', ''waiting''] ''done'' [''orchestrator'', ''developer''])\<lparr>m_guard := Some checksPassed, m_clearsBoost := True\<rparr>"
      using mn by (simp add: moveNamed_simp move_defs)
    then show ?thesis using facts live op f by (auto simp: move_defs checksPassedFn_def split: if_splits)
  next
    case c
    then have "m = (plain ''confirm'' [''blocked''] ''done'' [''developer''])\<lparr>m_guard := Some checksConfirmed, m_clearsBoost := True\<rparr>"
      using mn by (simp add: moveNamed_simp move_defs)
    then show ?thesis
      using facts live op c by (auto simp: move_defs checksConfirmedFn_def filter_empty_conv split: if_splits)
  next
    case k
    then have "m = (plain ''completeContainer'' [''open''] ''done'' [''orchestrator'', ''developer''])\<lparr>m_guard := Some childrenSettled\<rparr>"
      using mn by (simp add: moveNamed_simp move_defs)
    then show ?thesis
      using facts live op k ti
      by (auto simp: move_defs childrenSettledFn_def filter_empty_conv split: if_splits)
  qed
qed

theorem done_is_backed_witness:
  "\<exists>db' t. exec taskLifecycle [] (\<lambda>_. JNull) orch (Move ''k-111.1'' ''finish'' plainly (Some ''u1'')) (at_step 7) = Inr db' \<and>
     find_task ''k-111.1'' (at_step 7) = Some t \<and> (checksOf (at_step 7) t = [] \<or> acceptancePassed (at_step 7) t)"
proof -
  let ?e = "exec taskLifecycle [] (\<lambda>_. JNull) orch (Move ''k-111.1'' ''finish'' plainly (Some ''u1'')) (at_step 7)"
  have "case ?e of Inr db' \<Rightarrow> (case (find_task ''k-111.1'' (at_step 7), find_task ''k-111.1'' db') of
        (Some t, Some t') \<Rightarrow> t_state t = ''claimed'' \<and> t_state t' = ''done'' | _ \<Rightarrow> False)
      | Inl _ \<Rightarrow> False" by code_simp
  then obtain db' t t' where c: "?e = Inr db'" "find_task ''k-111.1'' (at_step 7) = Some t" "t_state t = ''claimed''"
      "find_task ''k-111.1'' db' = Some t'" "t_state t' = ''done''"
    by (auto split: sum.splits option.splits)
  from done_is_backed[OF at_reachable c(1,2) _ c(4,5)] c show ?thesis by auto
qed

text \<open>
  Work goes to review only with a pull request: a call after which a task is waiting that was not is
  the orchestrator's \<open>submit\<close> of claimed work, whose leasing attempt has a recorded pull request address.
\<close>

lemma waiting_has_a_pr:
  assumes r: "reachable taskLifecycle vs cfg db" and e: "exec taskLifecycle vs cfg a op db = Inr db'"
    and t: "find_task i db = Some t" "t_state t \<noteq> ''waiting''" and t': "find_task i db' = Some t'" "t_state t' = ''waiting''"
  shows "(\<exists>opts fence. op = Move i ''submit'' opts fence) \<and> ac_role a = ''orchestrator'' \<and> t_state t = ''claimed'' \<and>
    (\<exists>x v url. t_leaseAttemptId t = Some x \<and> evidenceOf db x = Some v \<and> ve_prUrl v = Some url \<and> url \<noteq> '''')"
proof (rule entered_by_move[OF r e t(1) t'(1)])
  show "t_state t' \<noteq> t_state t" "t_state t' \<notin> {''open'', ''claimed'', ''cancelled'', ''blocked''}" using t(2) t'(2) by auto
next
  fix n opts fence m dropped
  assume op: "op = Move i n opts fence" and mn: "moveNamed taskLifecycle n = Some m" and m: "m_to m = t_state t'"
    and rf: "moveRefusals taskLifecycle a m opts fence t db = Inr dropped"
  have n: "n = ''submit''" using moveNamed_SomeD[OF mn] m t'(2) by (auto simp: move_defs)
  then have "m = (plain ''submit'' [''claimed''] ''waiting'' [''orchestrator''])\<lparr>m_guard := Some hasOpenPr, m_clearsBoost := True\<rparr>"
    using mn by (simp add: moveNamed_simp move_defs)
  then show ?thesis
    using moveRefusals_Inr(1,2)[OF rf] moveRefusals_Inr(7)[OF rf] op n
    by (auto simp: move_defs hasOpenPrFn_def Option.bind_eq_Some_conv split: option.splits if_splits)
qed

definition pr_rows :: shreni_rows where
  "pr_rows = demo_rows\<lparr>sr_evidence := [\<lparr>ve_attemptId = ''u1'', ve_prUrl = Some ''https://forge/pr/1'', ve_gates = JObj []\<rparr>]\<rparr>"

lemma waiting_has_a_pr_witness:
  "\<exists>db' t x. exec taskLifecycle [] (\<lambda>_. JNull) orch (Move ''k-111.1'' ''submit'' plainly (Some ''u1'')) ((at_step 7)\<lparr>d_caller := pr_rows\<rparr>) = Inr db' \<and>
     find_task ''k-111.1'' (at_step 7) = Some t \<and> t_leaseAttemptId t = Some x"
proof -
  let ?db = "(at_step 7)\<lparr>d_caller := pr_rows\<rparr>"
  let ?e = "exec taskLifecycle [] (\<lambda>_. JNull) orch (Move ''k-111.1'' ''submit'' plainly (Some ''u1'')) ?db"
  have "case ?e of Inr db' \<Rightarrow> (case (find_task ''k-111.1'' ?db, find_task ''k-111.1'' db') of
        (Some t, Some t') \<Rightarrow> t_state t = ''claimed'' \<and> t_state t' = ''waiting'' | _ \<Rightarrow> False)
      | Inl _ \<Rightarrow> False" by code_simp
  then obtain db' t t' where c: "?e = Inr db'" "find_task ''k-111.1'' ?db = Some t" "t_state t = ''claimed''"
      "find_task ''k-111.1'' db' = Some t'" "t_state t' = ''waiting''"
    by (auto split: sum.splits option.splits)
  have "reachable taskLifecycle [] (\<lambda>_. JNull) ?db" by (rule engine.reachable_step[OF at_reachable step.caller])
  from waiting_has_a_pr[OF this c(1,2) _ c(4,5)] c show ?thesis by auto
qed

end
