(* ===== verification/WorkerState.thy ===== *)
theory WorkerState
  imports Retry Transitions "HOL-Library.AList"
begin

text \<open>
  The worker's own state, one slice per Kshetra in \<open>state.json\<close> (src/kshetra/state.ts): the pause latch, the
  stall counter, the stuck marker, recovery attempts and the health baseline. With it, what writes that
  state: the error handler of a cycle (src/sthapathi/errors.ts) and the watchdog (src/sthapathi/watchdog.ts),
  and the check that a resume must heal a run in flight (src/sthapathi/self-heal.ts).

  The file is read and written whole, so every operation is a function on its contents. Text outside ASCII
  has an ASCII stand-in. The theorems: the stall counter counts the latest run of equal outcomes; the watchdog trips exactly on a
  repeated outcome or a silent busy worker, and tells the operator once; and what ends a manual pause.
\<close>

subsection \<open>The state\<close>

record stuck_marker =
  sm_since :: int
  sm_reason :: string
  sm_remediation :: string
  sm_phase :: "string option"
  sm_beadId :: "string option"

record kshetra_state =
  ks_paused :: bool
  ks_reason :: "string option"
  ks_message :: "string option"
  ks_pausedAt :: "int option"
  ks_requiresManualResume :: "bool option"
  ks_healthBaseline :: "int option"
  ks_beadAttempts :: "(string \<times> nat) list option"
  ks_lastProgressAt :: "int option"
  ks_lastOutcome :: "string option"
  ks_outcomeRepeatCount :: "nat option"
  ks_stuck :: "stuck_marker option"
  ks_phase :: "string option"
  ks_ablations :: "string list option"

type_synonym worker_state = "(string \<times> kshetra_state) list"

definition unpaused :: kshetra_state where
  "unpaused = \<lparr>ks_paused = False, ks_reason = None, ks_message = None, ks_pausedAt = None,
     ks_requiresManualResume = None, ks_healthBaseline = None, ks_beadAttempts = None, ks_lastProgressAt = None,
     ks_lastOutcome = None, ks_outcomeRepeatCount = None, ks_stuck = None, ks_phase = None, ks_ablations = None\<rparr>"

definition orElse' :: "'a option \<Rightarrow> 'a \<Rightarrow> 'a" where
  "orElse' x d = (case x of Some y \<Rightarrow> y | None \<Rightarrow> d)"

text \<open>\<open>state.kshetras[id] ?? \<close> the bare unpaused slice, and an assignment to it.\<close>

definition slice :: "worker_state \<Rightarrow> string \<Rightarrow> kshetra_state" where
  "slice s k = orElse' (map_of s k) unpaused"

definition put :: "string \<Rightarrow> (kshetra_state \<Rightarrow> kshetra_state) \<Rightarrow> worker_state \<Rightarrow> worker_state" where
  "put k f s = AList.update k (f (slice s k)) s"

lemma slice_put [simp]: "slice (put k f s) j = (if j = k then f (slice s k) else slice s j)"
  by (simp add: slice_def put_def orElse'_def update_conv')

subsection \<open>Its operations (state.ts)\<close>

record pause_options =
  po_cooldownMs :: "int option"
  po_manual :: "bool option"
  po_reason :: string
  po_message :: string

definition pauseKshetra :: "string \<Rightarrow> pause_options \<Rightarrow> int \<Rightarrow> worker_state \<Rightarrow> worker_state" where
  "pauseKshetra k opts now = put k (\<lambda>x. x\<lparr>ks_paused := True, ks_reason := Some (po_reason opts),
     ks_message := Some (po_message opts), ks_pausedAt := Some now,
     ks_requiresManualResume := Some (orElse' (po_manual opts) False)\<rparr>)"

definition restoreKshetraSlice :: "string \<Rightarrow> kshetra_state option \<Rightarrow> worker_state \<Rightarrow> worker_state" where
  "restoreKshetraSlice k saved = put k (\<lambda>_. (orElse' saved unpaused)\<lparr>ks_stuck := None, ks_paused := False,
     ks_requiresManualResume := Some False\<rparr>)"

definition resumeKshetra :: "string \<Rightarrow> worker_state \<Rightarrow> worker_state" where
  "resumeKshetra k = put k (\<lambda>x. x\<lparr>ks_stuck := None, ks_paused := False, ks_requiresManualResume := Some False,
     ks_outcomeRepeatCount := Some 0, ks_lastOutcome := None\<rparr>)"

definition recordProgress :: "string \<Rightarrow> int \<Rightarrow> worker_state \<Rightarrow> worker_state" where
  "recordProgress k now = put k (\<lambda>x. x\<lparr>ks_lastProgressAt := Some now, ks_lastOutcome := None,
     ks_outcomeRepeatCount := Some 0\<rparr>)"

definition stallCount :: "kshetra_state \<Rightarrow> string \<Rightarrow> nat" where
  "stallCount x outcome = (if ks_lastOutcome x = Some outcome then orElse' (ks_outcomeRepeatCount x) 0 + 1 else 1)"

definition recordStall :: "string \<Rightarrow> string \<Rightarrow> worker_state \<Rightarrow> nat \<times> worker_state" where
  "recordStall k outcome s = (let count = stallCount (slice s k) outcome in
     (count, put k (\<lambda>x. x\<lparr>ks_lastOutcome := Some outcome, ks_outcomeRepeatCount := Some count\<rparr>) s))"

definition setStuck ::
  "string \<Rightarrow> string \<Rightarrow> string \<Rightarrow> string option \<Rightarrow> string option \<Rightarrow> int \<Rightarrow> worker_state \<Rightarrow> worker_state" where
  "setStuck k reason remediation phase bead now = put k (\<lambda>x. x\<lparr>ks_stuck := Some \<lparr>sm_since = now, sm_reason = reason,
     sm_remediation = remediation, sm_phase = phase, sm_beadId = bead\<rparr>\<rparr>)"

definition setPhaseName :: "string \<Rightarrow> string \<Rightarrow> worker_state \<Rightarrow> worker_state" where
  "setPhaseName k phase = put k (\<lambda>x. x\<lparr>ks_phase := Some phase\<rparr>)"

definition setAblations :: "string \<Rightarrow> string list \<Rightarrow> worker_state \<Rightarrow> worker_state" where
  "setAblations k ablations = put k (\<lambda>x. x\<lparr>ks_ablations := Some ablations\<rparr>)"

definition getHealthBaseline :: "worker_state \<Rightarrow> string \<Rightarrow> int" where
  "getHealthBaseline s k = orElse' (ks_healthBaseline (slice s k)) 0"

definition setHealthBaseline :: "string \<Rightarrow> int \<Rightarrow> worker_state \<Rightarrow> worker_state" where
  "setHealthBaseline k count = put k (\<lambda>x. x\<lparr>ks_healthBaseline := Some count\<rparr>)"

definition getBeadAttempts :: "worker_state \<Rightarrow> string \<Rightarrow> string \<Rightarrow> nat" where
  "getBeadAttempts s k bead = orElse' (map_of (orElse' (ks_beadAttempts (slice s k)) []) bead) 0"

definition recordBeadAttempt :: "string \<Rightarrow> string \<Rightarrow> worker_state \<Rightarrow> nat \<times> worker_state" where
  "recordBeadAttempt k bead s = (let n = getBeadAttempts s k bead + 1 in
     (n, put k (\<lambda>x. x\<lparr>ks_beadAttempts := Some (AList.update bead n (orElse' (ks_beadAttempts x) []))\<rparr>) s))"

definition clearBeadAttempts :: "string \<Rightarrow> string \<Rightarrow> worker_state \<Rightarrow> worker_state" where
  "clearBeadAttempts k bead s = (case map_of s k of
       Some x \<Rightarrow> (case ks_beadAttempts x of
           Some attempts \<Rightarrow> if map_of attempts bead = None then s
             else put k (\<lambda>y. y\<lparr>ks_beadAttempts := Some (AList.delete bead attempts)\<rparr>) s
         | None \<Rightarrow> s)
     | None \<Rightarrow> s)"

definition isKshetraManuallyPaused :: "worker_state \<Rightarrow> string \<Rightarrow> bool" where
  "isKshetraManuallyPaused s k \<longleftrightarrow> ks_paused (slice s k) \<and> ks_requiresManualResume (slice s k) = Some True"

definition clearStuckPauseOnRecover :: "string \<Rightarrow> worker_state \<Rightarrow> bool \<times> worker_state" where
  "clearStuckPauseOnRecover k s =
     (if \<not> ks_paused (slice s k) \<or> ks_reason (slice s k) \<noteq> Some ''stuck'' then (False, s)
      else (True, put k (\<lambda>x. x\<lparr>ks_stuck := None, ks_paused := False, ks_requiresManualResume := Some False,
        ks_reason := None, ks_message := None, ks_outcomeRepeatCount := Some 0, ks_lastOutcome := None\<rparr>) s))"

definition clearCooldownPauses :: "worker_state \<Rightarrow> worker_state" where
  "clearCooldownPauses = map (\<lambda>(k, x).
     (k, if ks_paused x \<and> ks_requiresManualResume x \<noteq> Some True then x\<lparr>ks_paused := False\<rparr> else x))"

text \<open>The edge a resume watcher acts on: stuck and paused before, not so now, with a run to cancel.\<close>

definition isStuckPaused :: "kshetra_state option \<Rightarrow> bool" where
  "isStuckPaused x = (case x of None \<Rightarrow> False | Some y \<Rightarrow> ks_paused y \<and> ks_reason y = Some ''stuck'')"

definition shouldSelfHeal :: "kshetra_state option \<Rightarrow> kshetra_state option \<Rightarrow> bool \<Rightarrow> bool \<Rightarrow> bool" where
  "shouldSelfHeal before now hasActiveRun healing \<longleftrightarrow>
     isStuckPaused before \<and> \<not> isStuckPaused now \<and> hasActiveRun \<and> \<not> healing"

subsection \<open>Errors of a cycle (errors.ts)\<close>

datatype thrown =
    GitFailure string
  | AgentFailure bool string \<comment> \<open>whether its output was malformed, and the message\<close>
  | OtherFailure agent_error

datatype error_class = API_DOWN | AGENT_FAILED | MALFORMED_OUTPUT | GIT_FAILED | UNKNOWN_ERROR

definition classifyError :: "thrown \<Rightarrow> error_class" where
  "classifyError err = (case err of
       GitFailure m \<Rightarrow> GIT_FAILED
     | AgentFailure malformed m \<Rightarrow> (if malformed then MALFORMED_OUTPUT else AGENT_FAILED)
     | OtherFailure e \<Rightarrow>
         if (case ae_status e of Some st \<Rightarrow> st \<in> {429, 502, 503, 529} | None \<Rightarrow> False) then API_DOWN
         else if hasText (error_text e) ''ECONNRESET'' \<or> hasText (error_text e) ''ETIMEDOUT'' \<or>
                 hasText (error_text e) ''ENOTFOUND'' then API_DOWN
         else UNKNOWN_ERROR)"

fun class_name :: "error_class \<Rightarrow> string" where
  "class_name API_DOWN = ''API_DOWN''"
| "class_name AGENT_FAILED = ''AGENT_FAILED''"
| "class_name MALFORMED_OUTPUT = ''MALFORMED_OUTPUT''"
| "class_name GIT_FAILED = ''GIT_FAILED''"
| "class_name UNKNOWN_ERROR = ''UNKNOWN''"

fun thrown_message :: "thrown \<Rightarrow> string" where
  "thrown_message (GitFailure m) = m"
| "thrown_message (AgentFailure malformed m) = m"
| "thrown_message (OtherFailure e) = orElse' (ae_message e) ''''"

text \<open>
  What the handler does besides writing the worker's state: notes and flags on the task, the abandoned
  branch deleted, and the operator told of an event, with its reason and remedy.
\<close>

datatype effect =
    AddNote string string
  | FlagTask string string
  | CleanupBranch string
  | Notify string "string option" "string option"

definition handleCycleError ::
  "string \<Rightarrow> string option \<Rightarrow> thrown \<Rightarrow> int \<Rightarrow> worker_state \<Rightarrow> effect list \<times> worker_state" where
  "handleCycleError k task err now s =
     (let cls = classifyError err; msg = thrown_message err;
          s1 = snd (recordStall k (''cycle:'' @ class_name cls) s);
          onTask = (\<lambda>es. case task of None \<Rightarrow> [] | Some t \<Rightarrow> es t)
      in case cls of
        API_DOWN \<Rightarrow>
          (onTask (\<lambda>t. [AddNote t (''Paused: API unavailable -- '' @ msg @ ''. Will retry.''), CleanupBranch t]) @
             [Notify ''api_down'' None None],
           pauseKshetra k \<lparr>po_cooldownMs = Some 300000, po_manual = None, po_reason = ''api_down'', po_message = msg\<rparr> now s1)
      | AGENT_FAILED \<Rightarrow>
          (onTask (\<lambda>t. [FlagTask t (''Agent failed: '' @ msg), CleanupBranch t]) @ [Notify ''agent_failed'' None None], s1)
      | MALFORMED_OUTPUT \<Rightarrow>
          (onTask (\<lambda>t. [FlagTask t (''Malformed output after retries: '' @ msg), CleanupBranch t]) @
             [Notify ''agent_failed'' None None], s1)
      | GIT_FAILED \<Rightarrow>
          (onTask (\<lambda>t. [FlagTask t (''Git failure: '' @ msg @ ''. Branch kept.'')]) @ [Notify ''git_failed'' None None],
           pauseKshetra k \<lparr>po_cooldownMs = None, po_manual = Some True, po_reason = ''git_failed'', po_message = msg\<rparr> now s1)
      | UNKNOWN_ERROR \<Rightarrow>
          (onTask (\<lambda>t. [FlagTask t (''Unexpected error: '' @ msg), CleanupBranch t]) @ [Notify ''unknown_error'' None None], s1))"

subsection \<open>The watchdog (watchdog.ts)\<close>

definition STUCK_THRESHOLD_MS :: int where
  "STUCK_THRESHOLD_MS = 20 * 60 * 1000"

definition MAX_OUTCOME_REPEAT :: nat where
  "MAX_OUTCOME_REPEAT = 5"

record stuck_input =
  si_phase :: string
  si_manuallyPaused :: bool
  si_heartbeatAgeMs :: "int option"
  si_outcomeRepeatCount :: nat
  si_lastOutcome :: "string option"
  si_idleNoWork :: "bool option"
  si_stuckMs :: "int option"
  si_maxRepeat :: "nat option"

record verdict =
  vd_stuck :: bool
  vd_reason :: "string option"
  vd_remediation :: "string option"

definition lines_of :: "string list \<Rightarrow> string" where
  "lines_of = joined [CHR 0x0A]"

definition remediationFor :: "string option \<Rightarrow> string" where
  "remediationFor outcome = (let o' = orElse' outcome '''' in
     if hasText o' ''branch already exists'' then lines_of [
       ''  1) Delete the stale bead branch, then resume:'',
       ''       git -C <repo> branch -D <bead-branch>'',
       ''       shreni resume --kshetra <id>'',
       ''  2) If it recurs, the worker will RECOVER it on next start (shreni stop/start).'']
     else if hasText o' ''dirty working tree'' then lines_of [
       ''  1) Inspect, then discard the interrupted changes:'',
       ''       git -C <repo> status'',
       ''       git -C <repo> checkout main && git -C <repo> clean -fd'',
       ''  2) shreni resume --kshetra <id>  (RECOVER also cleans this on restart)'']
     else if hasText o' ''cycle:GIT_FAILED'' then lines_of [
       ''  1) Read the error in the worker log; fix the underlying git issue.'',
       ''  2) shreni resume --kshetra <id>'']
     else if hasText o' ''base suite red'' \<or> hasText o' ''health'' then lines_of [
       ''  1) A [shreni-health] repair bead should be queued -- let it run, or'',
       ''  2) fix the failing tests manually, then shreni resume --kshetra <id>.'']
     else lines_of [
       ''  1) Inspect the worker log and the active bead for a genuinely hung agent.'',
       ''  2) ACK to clear the latch and resume -- either of:'',
       ''       shreni resume --kshetra <id>          (CLI ACK)'',
       ''       shreni stop --kshetra <id> && shreni start --kshetra <id>  (RECOVER acknowledges)'',
       ''  3) If a specific bead keeps failing, mark it blocked for manual work.''])"

definition not_stuck :: verdict where
  "not_stuck = \<lparr>vd_stuck = False, vd_reason = None, vd_remediation = None\<rparr>"

definition evaluateStuck :: "stuck_input \<Rightarrow> verdict" where
  "evaluateStuck i =
     (if si_manuallyPaused i then not_stuck
      else if si_idleNoWork i = Some True then not_stuck
      else if orElse' (si_maxRepeat i) MAX_OUTCOME_REPEAT \<le> si_outcomeRepeatCount i
      then \<lparr>vd_stuck = True,
        vd_reason = Some (''the same outcome '' @ [CHR 0x22] @ orElse' (si_lastOutcome i) ''unknown'' @ [CHR 0x22] @
          '' repeated '' @ show_nat (si_outcomeRepeatCount i) @ ''x without forward progress''),
        vd_remediation = Some (remediationFor (si_lastOutcome i))\<rparr>
      else (case si_heartbeatAgeMs i of
          Some age \<Rightarrow>
            if si_phase i \<noteq> ''IDLE'' \<and> orElse' (si_stuckMs i) STUCK_THRESHOLD_MS < age
            then \<lparr>vd_stuck = True,
              vd_reason = Some (''no worker heartbeat for '' @ show_nat (nat ((age + 30000) div 60000)) @ ''m while phase='' @
                si_phase i @ '' -- the worker appears hung''),
              vd_remediation = Some (remediationFor None)\<rparr>
            else not_stuck
        | None \<Rightarrow> not_stuck))"

text \<open>
  One look of the watchdog. The heartbeat's age (or the activity log's) and the answer of the ready-queue
  probe (\<open>None\<close>: no probe) are read by the caller. A trip marks the worker stuck, pauses it for
  a manual resume and notifies the operator.
\<close>

definition runWatchdogOnce ::
  "string \<Rightarrow> string \<Rightarrow> int \<Rightarrow> bool option \<Rightarrow> int option \<Rightarrow> int option \<Rightarrow> nat option \<Rightarrow> worker_state
     \<Rightarrow> verdict \<times> effect list \<times> worker_state" where
  "runWatchdogOnce k phase now hasReadyWork heartbeatAge stuckMs maxRepeat s = (case ks_stuck (slice s k) of
       Some m \<Rightarrow> (\<lparr>vd_stuck = True, vd_reason = Some (sm_reason m), vd_remediation = None\<rparr>, [], s)
     | None \<Rightarrow>
         let idle = ((phase = ''IDLE'' \<or> phase = ''SELECTING'') \<and> hasReadyWork = Some False);
             v = evaluateStuck \<lparr>si_phase = phase, si_manuallyPaused = isKshetraManuallyPaused s k,
               si_heartbeatAgeMs = heartbeatAge, si_outcomeRepeatCount = orElse' (ks_outcomeRepeatCount (slice s k)) 0,
               si_lastOutcome = ks_lastOutcome (slice s k), si_idleNoWork = Some idle, si_stuckMs = stuckMs,
               si_maxRepeat = maxRepeat\<rparr>
         in (case (vd_stuck v, vd_reason v, vd_remediation v) of
              (True, Some reason, Some remedy) \<Rightarrow>
                if reason = '''' \<or> remedy = '''' then (v, [], s)
                else (v, [Notify ''stuck'' (Some reason) (Some remedy)],
                 pauseKshetra k \<lparr>po_cooldownMs = None, po_manual = Some True, po_reason = ''stuck'', po_message = reason\<rparr> now
                   (setStuck k reason remedy (Some phase) None now s))
            | _ \<Rightarrow> (v, [], s)))"

subsection \<open>The trip conditions\<close>

lemma evaluateStuck_iff:
  "vd_stuck (evaluateStuck i) \<longleftrightarrow> \<not> si_manuallyPaused i \<and> si_idleNoWork i \<noteq> Some True \<and>
     (orElse' (si_maxRepeat i) MAX_OUTCOME_REPEAT \<le> si_outcomeRepeatCount i \<or>
      si_phase i \<noteq> ''IDLE'' \<and> (\<exists>age. si_heartbeatAgeMs i = Some age \<and> orElse' (si_stuckMs i) STUCK_THRESHOLD_MS < age))"
  by (simp add: evaluateStuck_def not_stuck_def split: option.split)

lemma remedy_nonempty: "remediationFor x \<noteq> ''''"
  by (simp add: remediationFor_def lines_of_def Let_def)

text \<open>A trip always says why and what to do.\<close>

lemma evaluateStuck_explains:
  "vd_stuck (evaluateStuck i) \<Longrightarrow>
   \<exists>r m. evaluateStuck i = \<lparr>vd_stuck = True, vd_reason = Some r, vd_remediation = Some m\<rparr> \<and> r \<noteq> '''' \<and> m \<noteq> ''''"
  by (cases "si_heartbeatAgeMs i") (auto simp: evaluateStuck_def not_stuck_def remedy_nonempty split: if_splits)

text \<open>The counter is the length of the latest run of equal outcomes since progress was last made.\<close>

lemma stall_count:
  "ks_outcomeRepeatCount (slice (fold (\<lambda>out s. snd (recordStall k out s)) outs (recordProgress k t s)) k)
     = Some (length (takeWhile (\<lambda>x. x = last outs) (rev outs))) \<and>
   ks_lastOutcome (slice (fold (\<lambda>out s. snd (recordStall k out s)) outs (recordProgress k t s)) k)
     = (if outs = [] then None else Some (last outs))"
proof (induction outs rule: rev_induct)
  case Nil
  show ?case by (simp add: recordProgress_def)
next
  case (snoc x xs)
  have "takeWhile (\<lambda>y. y = x) (rev xs) = []" if "xs \<noteq> []" "last xs \<noteq> x"
    using that by (cases xs rule: rev_cases) auto
  then show ?case using snoc by (auto simp: recordStall_def stallCount_def orElse'_def Let_def)
qed

subsection \<open>A worker's run\<close>

text \<open>Everything that writes the worker's state, as one operation each.\<close>

datatype worker_op =
    Pause string pause_options
  | Resume string
  | Restore string "kshetra_state option"
  | Progress string
  | Stall string string
  | Phase string string
  | Ablations string "string list"
  | Baseline string int
  | BeadAttempt string string
  | BeadDone string string
  | CycleError string "string option" thrown
  | Look string string "bool option" "int option" "int option" "nat option"
  | Recover string
  | Cooldown

fun apply_op :: "int \<Rightarrow> worker_op \<Rightarrow> worker_state \<Rightarrow> worker_state" where
  "apply_op now (Pause k opts) s = pauseKshetra k opts now s"
| "apply_op now (Resume k) s = resumeKshetra k s"
| "apply_op now (Restore k saved) s = restoreKshetraSlice k saved s"
| "apply_op now (Progress k) s = recordProgress k now s"
| "apply_op now (Stall k out) s = snd (recordStall k out s)"
| "apply_op now (Phase k p) s = setPhaseName k p s"
| "apply_op now (Ablations k as) s = setAblations k as s"
| "apply_op now (Baseline k n) s = setHealthBaseline k n s"
| "apply_op now (BeadAttempt k b) s = snd (recordBeadAttempt k b s)"
| "apply_op now (BeadDone k b) s = clearBeadAttempts k b s"
| "apply_op now (CycleError k task err) s = snd (handleCycleError k task err now s)"
| "apply_op now (Look k phase probe age stuckMs maxRepeat) s = snd (snd (runWatchdogOnce k phase now probe age stuckMs maxRepeat s))"
| "apply_op now (Recover k) s = snd (clearStuckPauseOnRecover k s)"
| "apply_op now Cooldown s = clearCooldownPauses s"

text \<open>The operations that take a manual pause of \<open>k\<close> away.\<close>

fun lifts :: "string \<Rightarrow> worker_state \<Rightarrow> worker_op \<Rightarrow> bool" where
  "lifts k s (Pause j opts) \<longleftrightarrow> j = k \<and> po_manual opts \<noteq> Some True"
| "lifts k s (Resume j) \<longleftrightarrow> j = k"
| "lifts k s (Restore j saved) \<longleftrightarrow> j = k"
| "lifts k s (CycleError j task err) \<longleftrightarrow> j = k \<and> classifyError err = API_DOWN"
| "lifts k s (Recover j) \<longleftrightarrow> j = k \<and> ks_reason (slice s k) = Some ''stuck''"
| "lifts k s _ \<longleftrightarrow> False"

lemma orElse'_True: "orElse' x False \<longleftrightarrow> x = Some True"
  by (simp add: orElse'_def split: option.split)

lemma slice_recordStall [simp]:
  "slice (snd (recordStall j out s)) k = (if k = j
     then (slice s k)\<lparr>ks_lastOutcome := Some out, ks_outcomeRepeatCount := Some (stallCount (slice s k) out)\<rparr> else slice s k)"
  by (simp add: recordStall_def Let_def)

lemma slice_clearBeadAttempts:
  "\<exists>a. slice (clearBeadAttempts j b s) k = (slice s k)\<lparr>ks_beadAttempts := a\<rparr>"
  by (auto simp: clearBeadAttempts_def split: option.splits intro: exI[of _ "ks_beadAttempts (slice s k)"])

lemma slice_clearCooldown:
  "slice (clearCooldownPauses s) k = (if ks_paused (slice s k) \<and> ks_requiresManualResume (slice s k) \<noteq> Some True
     then (slice s k)\<lparr>ks_paused := False\<rparr> else slice s k)"
proof -
  have "map_of (clearCooldownPauses s) k = map_option (\<lambda>x. if ks_paused x \<and> ks_requiresManualResume x \<noteq> Some True
      then x\<lparr>ks_paused := False\<rparr> else x) (map_of s k)"
    by (induction s) (auto simp: clearCooldownPauses_def)
  then show ?thesis by (simp add: slice_def orElse'_def unpaused_def split: option.split)
qed

lemma runWatchdogOnce_quiet:
  "ks_stuck (slice s k) = Some m \<Longrightarrow> runWatchdogOnce k phase now probe age stuckMs maxRepeat s =
     (\<lparr>vd_stuck = True, vd_reason = Some (sm_reason m), vd_remediation = None\<rparr>, [], s)"
  by (simp add: runWatchdogOnce_def)

definition look_input :: "string \<Rightarrow> string \<Rightarrow> bool option \<Rightarrow> int option \<Rightarrow> int option \<Rightarrow> nat option \<Rightarrow> worker_state \<Rightarrow> stuck_input" where
  "look_input k phase probe age stuckMs maxRepeat s = \<lparr>si_phase = phase, si_manuallyPaused = isKshetraManuallyPaused s k,
     si_heartbeatAgeMs = age, si_outcomeRepeatCount = orElse' (ks_outcomeRepeatCount (slice s k)) 0,
     si_lastOutcome = ks_lastOutcome (slice s k),
     si_idleNoWork = Some ((phase = ''IDLE'' \<or> phase = ''SELECTING'') \<and> probe = Some False), si_stuckMs = stuckMs,
     si_maxRepeat = maxRepeat\<rparr>"

definition trips :: "string \<Rightarrow> string \<Rightarrow> bool option \<Rightarrow> int option \<Rightarrow> int option \<Rightarrow> nat option \<Rightarrow> worker_state \<Rightarrow> bool" where
  "trips k phase probe age stuckMs maxRepeat s \<longleftrightarrow> \<not> isKshetraManuallyPaused s k \<and>
     \<not> ((phase = ''IDLE'' \<or> phase = ''SELECTING'') \<and> probe = Some False) \<and>
     (orElse' maxRepeat 5 \<le> orElse' (ks_outcomeRepeatCount (slice s k)) 0 \<or>
      phase \<noteq> ''IDLE'' \<and> (\<exists>a. age = Some a \<and> orElse' stuckMs (20 * 60 * 1000) < a))"

lemma trips_iff: "vd_stuck (evaluateStuck (look_input k phase probe age stuckMs maxRepeat s)) \<longleftrightarrow> trips k phase probe age stuckMs maxRepeat s"
  by (simp add: evaluateStuck_iff look_input_def trips_def MAX_OUTCOME_REPEAT_def STUCK_THRESHOLD_MS_def)

lemma runWatchdogOnce_fresh:
  assumes "ks_stuck (slice s k) = None"
  shows "if trips k phase probe age stuckMs maxRepeat s
    then \<exists>r m. runWatchdogOnce k phase now probe age stuckMs maxRepeat s =
      (\<lparr>vd_stuck = True, vd_reason = Some r, vd_remediation = Some m\<rparr>, [Notify ''stuck'' (Some r) (Some m)],
       pauseKshetra k \<lparr>po_cooldownMs = None, po_manual = Some True, po_reason = ''stuck'', po_message = r\<rparr> now
         (setStuck k r m (Some phase) None now s))
    else \<exists>v. \<not> vd_stuck v \<and> runWatchdogOnce k phase now probe age stuckMs maxRepeat s = (v, [], s)"
proof -
  let ?v = "evaluateStuck (look_input k phase probe age stuckMs maxRepeat s)"
  have run: "runWatchdogOnce k phase now probe age stuckMs maxRepeat s = (case (vd_stuck ?v, vd_reason ?v, vd_remediation ?v) of
       (True, Some reason, Some remedy) \<Rightarrow>
         if reason = '''' \<or> remedy = '''' then (?v, [], s)
         else (?v, [Notify ''stuck'' (Some reason) (Some remedy)],
           pauseKshetra k \<lparr>po_cooldownMs = None, po_manual = Some True, po_reason = ''stuck'', po_message = reason\<rparr> now
             (setStuck k reason remedy (Some phase) None now s))
     | _ \<Rightarrow> (?v, [], s))"
    using assms unfolding runWatchdogOnce_def look_input_def Let_def by simp
  show ?thesis
  proof (cases "vd_stuck ?v")
    case True
    then obtain r m where "?v = \<lparr>vd_stuck = True, vd_reason = Some r, vd_remediation = Some m\<rparr>" "r \<noteq> ''''" "m \<noteq> ''''"
      using evaluateStuck_explains by blast
    then show ?thesis using True unfolding run trips_iff by simp
  next
    case False
    then show ?thesis unfolding run by (simp add: trips_iff)
  qed
qed

lemma slice_look:
  "slice (snd (snd (runWatchdogOnce j phase now probe age stuckMs maxRepeat s))) k = slice s k \<or>
   k = j \<and> \<not> isKshetraManuallyPaused s k"
proof (cases "ks_stuck (slice s j)")
  case None
  then show ?thesis
    using runWatchdogOnce_fresh[OF None, of phase probe age stuckMs maxRepeat now]
    by (auto simp: pauseKshetra_def setStuck_def trips_def split: if_splits)
qed (simp add: runWatchdogOnce_quiet)

lemma manual_pause_keeps:
  assumes p: "isKshetraManuallyPaused s k"
  shows "isKshetraManuallyPaused (apply_op now op s) k \<longleftrightarrow> \<not> lifts k s op"
proof (cases op)
  case (BeadDone j b)
  then show ?thesis
    using p slice_clearBeadAttempts[of j b s k] by (auto simp: isKshetraManuallyPaused_def)
next
  case (Look j phase probe age stuckMs maxRepeat)
  then show ?thesis
    using p slice_look[of j phase now probe age stuckMs maxRepeat s k] by (auto simp: isKshetraManuallyPaused_def)
next
  case (CycleError j task err)
  then show ?thesis
    using p by (cases "classifyError err")
      (auto simp: isKshetraManuallyPaused_def handleCycleError_def pauseKshetra_def orElse'_def Let_def)
qed (use p in \<open>auto simp: isKshetraManuallyPaused_def pauseKshetra_def resumeKshetra_def restoreKshetraSlice_def orElse'_True
    recordProgress_def setPhaseName_def setAblations_def setHealthBaseline_def recordBeadAttempt_def Let_def
    clearStuckPauseOnRecover_def slice_clearCooldown\<close>)

end
