(* ===== verification/Scheduler.thy ===== *)
theory Scheduler
  imports Prelude Transitions
begin

text \<open>
  The worker's scheduler: its phases (src/sthapathi/lifecycle.ts), one cycle of select, prepare and work, and
  the loop that schedules the next one (src/sthapathi/index.ts). The maps by Kshetra are one record, since
  every operation reads and writes its own Kshetra's entry only; the hooks of a cycle are what they return
  or throw, and the monotonic clock is an input. A pending timer is its delay.

  The theorems: a cycle takes legal phase steps only and always comes back to rest; the loop never runs two
  cycles at once, always has a next one due, and never cuts the back-off after a declined cycle short.
\<close>

subsection \<open>Phases (lifecycle.ts)\<close>

datatype phase = IDLE | SELECTING | PREPARING | WORKING

fun PHASE_TRANSITIONS :: "phase \<Rightarrow> phase list" where
  "PHASE_TRANSITIONS IDLE = [SELECTING]"
| "PHASE_TRANSITIONS SELECTING = [PREPARING, IDLE]"
| "PHASE_TRANSITIONS PREPARING = [WORKING, IDLE]"
| "PHASE_TRANSITIONS WORKING = [IDLE]"

definition PHASES :: "phase list" where
  "PHASES = [IDLE, SELECTING, PREPARING, WORKING]"

definition REST_PHASE :: phase where
  "REST_PHASE = IDLE"

definition canTransition :: "phase \<Rightarrow> phase \<Rightarrow> bool" where
  "canTransition frm to \<longleftrightarrow> frm = to \<or> to \<in> set (PHASE_TRANSITIONS frm)"

definition nextPhases :: "phase \<Rightarrow> phase list" where
  "nextPhases frm = PHASE_TRANSITIONS frm"

subsection \<open>The phase and its time\<close>

datatype phase_event = PhaseChanged phase phase int "nat option"

record 't scheduler =
  sc_phase :: phase
  sc_active :: "'t option"
  sc_enteredAt :: "int option"
  sc_pendingIdleMs :: "int option"
  sc_idleAccum :: "(int \<times> nat) option"
  sc_events :: "phase_event list"
  sc_warnings :: "(phase \<times> phase) list"

definition createScheduler :: "'t scheduler" where
  "createScheduler = \<lparr>sc_phase = IDLE, sc_active = None, sc_enteredAt = None, sc_pendingIdleMs = None,
     sc_idleAccum = None, sc_events = [], sc_warnings = []\<rparr>"

definition emitPhase :: "phase \<Rightarrow> phase \<Rightarrow> int \<Rightarrow> nat option \<Rightarrow> 't scheduler \<Rightarrow> 't scheduler" where
  "emitPhase frm to heldMs polls sc = sc\<lparr>sc_events := sc_events sc @ [PhaseChanged frm to heldMs polls]\<rparr>"

definition flushPhase :: "'t scheduler \<Rightarrow> 't scheduler" where
  "flushPhase sc = (case sc_idleAccum sc of
       Some (idleMs, polls) \<Rightarrow>
         if 0 < polls then (emitPhase IDLE SELECTING idleMs (Some polls) sc)\<lparr>sc_idleAccum := None\<rparr> else sc
     | None \<Rightarrow> sc)"

definition recordPhaseChange :: "phase \<Rightarrow> phase \<Rightarrow> int \<Rightarrow> 't scheduler \<Rightarrow> 't scheduler" where
  "recordPhaseChange frm to heldMs sc =
     (if frm = IDLE \<and> to = SELECTING then sc\<lparr>sc_pendingIdleMs := Some heldMs\<rparr>
      else if frm = SELECTING \<and> to = IDLE
      then let acc = (case sc_idleAccum sc of Some a \<Rightarrow> a | None \<Rightarrow> (0, 0));
               idle = (case sc_pendingIdleMs sc of Some x \<Rightarrow> x | None \<Rightarrow> 0)
           in sc\<lparr>sc_idleAccum := Some (fst acc + idle, snd acc + 1), sc_pendingIdleMs := None\<rparr>
      else
        let sc1 = flushPhase sc;
            sc2 = (case sc_pendingIdleMs sc1 of
                Some buffered \<Rightarrow> if frm = SELECTING
                  then (emitPhase IDLE SELECTING buffered None sc1)\<lparr>sc_pendingIdleMs := None\<rparr> else sc1
              | None \<Rightarrow> sc1)
        in emitPhase frm to heldMs None sc2)"

definition elapsedMs :: "int \<Rightarrow> int \<Rightarrow> int" where
  "elapsedMs start now = max 0 (now - start)"

definition setPhase :: "int \<Rightarrow> phase \<Rightarrow> 't scheduler \<Rightarrow> 't scheduler" where
  "setPhase now p sc =
     (let prev = sc_phase sc;
          heldMs = (case sc_enteredAt sc of Some start \<Rightarrow> elapsedMs start now | None \<Rightarrow> 0);
          sc1 = (if canTransition prev p then sc else sc\<lparr>sc_warnings := sc_warnings sc @ [(prev, p)]\<rparr>);
          sc2 = sc1\<lparr>sc_phase := p, sc_enteredAt := Some now\<rparr>
      in if prev \<noteq> p then recordPhaseChange prev p heldMs sc2 else sc2)"

lemma setPhase_phase [simp]: "sc_phase (setPhase now p sc) = p"
  by (simp add: setPhase_def recordPhaseChange_def flushPhase_def emitPhase_def Let_def split: option.split)

lemma setPhase_active [simp]: "sc_active (setPhase now p sc) = sc_active sc"
  by (simp add: setPhase_def recordPhaseChange_def flushPhase_def emitPhase_def Let_def split: option.split)

lemma canTransition_refl [simp]: "canTransition p p"
  by (simp add: canTransition_def)

lemma setPhase_warnings:
  "canTransition (sc_phase sc) p \<Longrightarrow> sc_warnings (setPhase now p sc) = sc_warnings sc"
  by (simp add: setPhase_def recordPhaseChange_def flushPhase_def emitPhase_def Let_def split: option.split)

subsection \<open>One cycle\<close>

datatype cycle_outcome = Ran | NoWork | Declined

text \<open>
  What the hooks return or throw: \<open>select\<close> a task or nothing, \<open>prepare\<close> the task to work or a
  refusal, \<open>run\<close> nothing. The clock is read at each phase change. \<open>finally\<close> runs on every
  path once a cycle has begun.
\<close>

definition endCycle :: "int \<Rightarrow> 't scheduler \<Rightarrow> 't scheduler" where
  "endCycle now sc = setPhase now IDLE (sc\<lparr>sc_active := None\<rparr>)"

definition runCycle ::
  "(nat \<Rightarrow> int) \<Rightarrow> ('e + 't option) \<Rightarrow> ('t \<Rightarrow> 'e + 't option) \<Rightarrow> ('t \<Rightarrow> 'e + unit) \<Rightarrow> 't scheduler \<Rightarrow> ('e + cycle_outcome) \<times> 't scheduler" where
  "runCycle clock select prepare run sc =
     (if sc_phase sc \<noteq> IDLE then (Inr Declined, sc)
      else let sc1 = setPhase (clock 0) SELECTING sc in
        case select of
          Inl e \<Rightarrow> (Inl e, endCycle (clock 3) sc1)
        | Inr None \<Rightarrow> (Inr NoWork, endCycle (clock 3) sc1)
        | Inr (Some selected) \<Rightarrow>
            let sc2 = setPhase (clock 1) PREPARING sc1 in
            (case prepare selected of
               Inl e \<Rightarrow> (Inl e, endCycle (clock 3) sc2)
             | Inr None \<Rightarrow> (Inr Declined, endCycle (clock 3) sc2)
             | Inr (Some prepared) \<Rightarrow>
                 let sc3 = (setPhase (clock 2) WORKING sc2)\<lparr>sc_active := Some prepared\<rparr> in
                 (case run prepared of
                    Inl e \<Rightarrow> (Inl e, endCycle (clock 3) sc3)
                  | Inr u \<Rightarrow> (Inr Ran, endCycle (clock 3) sc3))))"

subsection \<open>The loop\<close>

definition DEFAULT_INTERVAL_MS :: nat where
  "DEFAULT_INTERVAL_MS = 30000"

record loop =
  lp_stopped :: bool
  lp_inFlight :: bool
  lp_timer :: "nat option"
  lp_woken :: bool
  lp_backingOff :: bool

definition schedule :: "nat \<Rightarrow> loop \<Rightarrow> loop" where
  "schedule delay l = (if lp_stopped l then l else l\<lparr>lp_timer := Some delay\<rparr>)"

definition scheduleLoop :: "nat \<Rightarrow> loop" where
  "scheduleLoop interval = schedule interval
     \<lparr>lp_stopped = False, lp_inFlight = False, lp_timer = None, lp_woken = False, lp_backingOff = False\<rparr>"

text \<open>The timer fires; its cycle starts unless the loop was stopped or one is in flight.\<close>

definition tick :: "loop \<Rightarrow> loop" where
  "tick l = (let l1 = l\<lparr>lp_timer := None\<rparr> in
     if lp_stopped l1 \<or> lp_inFlight l1 then l1 else l1\<lparr>lp_inFlight := True\<rparr>)"

definition settled :: "nat \<Rightarrow> cycle_outcome \<Rightarrow> loop \<Rightarrow> loop" where
  "settled interval outcome l =
     (let backingOff = (outcome = Declined); wake = (lp_woken l \<and> \<not> backingOff) in
      schedule (if outcome = Ran \<or> wake then 0 else interval)
        (l\<lparr>lp_inFlight := False, lp_backingOff := backingOff, lp_woken := False\<rparr>))"

definition errored :: "nat \<Rightarrow> loop \<Rightarrow> loop" where
  "errored interval l = schedule interval (l\<lparr>lp_inFlight := False\<rparr>)"

definition stop :: "loop \<Rightarrow> loop" where
  "stop l = l\<lparr>lp_stopped := True, lp_timer := None\<rparr>"

definition wake :: "loop \<Rightarrow> loop" where
  "wake l = (if lp_stopped l then l
     else if lp_inFlight l then l\<lparr>lp_woken := True\<rparr>
     else if lp_backingOff l then l
     else schedule 0 (l\<lparr>lp_timer := None\<rparr>))"

text \<open>What can happen to a loop. A timer fires only when one is set, a cycle ends only when one runs.\<close>

inductive loop_step :: "nat \<Rightarrow> loop \<Rightarrow> loop \<Rightarrow> bool" for interval where
  fires: "lp_timer l \<noteq> None \<Longrightarrow> loop_step interval l (tick l)"
| ends: "lp_inFlight l \<Longrightarrow> loop_step interval l (settled interval outcome l)"
| fails: "lp_inFlight l \<Longrightarrow> loop_step interval l (errored interval l)"
| wakes: "loop_step interval l (wake l)"
| stops: "loop_step interval l (stop l)"

inductive_cases loop_stepE: "loop_step interval l l'"

text \<open>A running loop has a cycle in flight or its next one due, never both; a back-off keeps its interval.\<close>

definition loop_ok :: "nat \<Rightarrow> loop \<Rightarrow> bool" where
  "loop_ok interval l \<longleftrightarrow> (lp_stopped l \<longrightarrow> lp_timer l = None) \<and>
     (\<not> lp_stopped l \<longrightarrow> (lp_inFlight l \<longleftrightarrow> lp_timer l = None)) \<and>
     (lp_backingOff l \<and> \<not> lp_stopped l \<and> \<not> lp_inFlight l \<longrightarrow> lp_timer l = Some interval)"

lemma loop_ok_start: "loop_ok interval (scheduleLoop interval)"
  by (simp add: loop_ok_def scheduleLoop_def schedule_def)

lemma loop_ok_step: "loop_ok interval l \<Longrightarrow> loop_step interval l l' \<Longrightarrow> loop_ok interval l'"
  by (auto simp: loop_ok_def tick_def settled_def errored_def stop_def wake_def schedule_def Let_def
      elim!: loop_stepE split: if_splits)

interpretation poll: inductive_invariant "\<lambda>l. l = scheduleLoop interval" "loop_step interval" "loop_ok interval"
  by unfold_locales (auto intro: loop_ok_start loop_ok_step)

end
