(* ===== verification/Followup.thy ===== *)
theory Followup
  imports Prelude
begin

text \<open>
  Following up on an open pull request: what feedback is new (src/sthapathi/pr-followup.ts), the bounded
  rounds of Silpi and Viharapala over it (pr-followup-loop.ts), and the side effects of a round's end, in
  order (pr-followup-run.ts). The agents, GitHub and git are arguments; their side effects are a list. Times are
  ISO text and compare as text.

  The theorems: feedback is acted on once; rounds stay within the budget; and a run settles its task
  exactly once and never replies before it has pushed.
\<close>

subsection \<open>What is new on a pull request (pr-followup.ts)\<close>

record pr_comment =
  cm_author :: "string option"
  cm_body :: string
  cm_path :: "string option"
  cm_line :: "int option"

record pr_review =
  rv_author :: "string option"
  rv_state :: string
  rv_body :: string
  rv_submittedAt :: "string option"
  rv_comments :: "pr_comment list"

record pr_check =
  ck_name :: string
  ck_conclusion :: "string option"

record pr_commit =
  co_sha :: string
  co_author :: "string option"

record pr_status =
  st_state :: string
  st_url :: string
  st_reviews :: "pr_review list"
  st_checks :: "pr_check list"
  st_commits :: "pr_commit list"

definition FAILING_CONCLUSIONS :: "string list" where
  "FAILING_CONCLUSIONS = [''FAILURE'', ''ERROR'', ''CANCELLED'', ''TIMED_OUT'', ''ACTION_REQUIRED'', ''STARTUP_FAILURE'', ''STALE'']"

text \<open>\<open>off\<close> in the environment is a kill switch over the configuration.\<close>

definition resolvePrFollowup :: "string option \<Rightarrow> bool \<Rightarrow> bool" where
  "resolvePrFollowup env configured \<longleftrightarrow> env \<noteq> Some ''off'' \<and> configured"

record watermark =
  wm_head :: "string option"
  wm_round :: nat
  wm_at :: "string option"

datatype trigger = ChangesRequested | FailingCheck | ForeignCommit

record feedback =
  fb_triggers :: "trigger list"
  fb_changesRequested :: "pr_review list"
  fb_failingChecks :: "pr_check list"
  fb_foreignCommits :: "pr_commit list"
  fb_round :: nat

record detect_input =
  di_status :: pr_status
  di_watermark :: watermark
  di_selfLogins :: "string list"
  di_requiredChecks :: "string list"

definition isNewer :: "string option \<Rightarrow> string option \<Rightarrow> bool" where
  "isNewer a b = (case b of None \<Rightarrow> True | Some y \<Rightarrow> y = '''' \<or>
     (case a of None \<Rightarrow> True | Some x \<Rightarrow> x = '''' \<or> y < x))"

definition tipOf :: "pr_status \<Rightarrow> pr_commit option" where
  "tipOf st = (if st_commits st = [] then None else Some (last (st_commits st)))"

definition unaddressedReview :: "pr_status \<Rightarrow> watermark \<Rightarrow> pr_review \<Rightarrow> bool" where
  "unaddressedReview st w r \<longleftrightarrow> rv_state r = ''CHANGES_REQUESTED'' \<and>
     (case rv_submittedAt r of
        Some t \<Rightarrow> isNewer (Some t) (wm_at w)
      | None \<Rightarrow> wm_head w = None \<or> map_option co_sha (tipOf st) \<noteq> wm_head w)"

definition failingRequired :: "string list \<Rightarrow> pr_check \<Rightarrow> bool" where
  "failingRequired required c \<longleftrightarrow> ck_name c \<in> set required \<and>
     (case ck_conclusion c of None \<Rightarrow> False | Some x \<Rightarrow> x \<in> set FAILING_CONCLUSIONS)"

definition foreign :: "string list \<Rightarrow> watermark \<Rightarrow> pr_commit \<Rightarrow> bool" where
  "foreign self w c \<longleftrightarrow> (case co_author c of None \<Rightarrow> False | Some a \<Rightarrow> a \<notin> set self) \<and> Some (co_sha c) \<noteq> wm_head w"

definition detectPrFeedback :: "detect_input \<Rightarrow> feedback option" where
  "detectPrFeedback i =
     (let st = di_status i; w = di_watermark i;
          changes = filter (unaddressedReview st w) (st_reviews st);
          failing = filter (failingRequired (di_requiredChecks i)) (st_checks st);
          foreignTip = (case tipOf st of None \<Rightarrow> False | Some tip \<Rightarrow> foreign (di_selfLogins i) w tip);
          commits = (if foreignTip then filter (foreign (di_selfLogins i) w) (st_commits st) else []);
          triggers = (if changes \<noteq> [] then [ChangesRequested] else []) @ (if failing \<noteq> [] then [FailingCheck] else []) @
            (if commits \<noteq> [] then [ForeignCommit] else [])
      in if triggers = [] then None
         else Some \<lparr>fb_triggers = triggers, fb_changesRequested = changes, fb_failingChecks = failing,
           fb_foreignCommits = commits, fb_round = (if changes \<noteq> [] then 0 else wm_round w)\<rparr>)"

lemma detectPrFeedback_None:
  "detectPrFeedback i = None \<longleftrightarrow>
     (\<forall>r \<in> set (st_reviews (di_status i)). \<not> unaddressedReview (di_status i) (di_watermark i) r) \<and>
     (\<forall>c \<in> set (st_checks (di_status i)). \<not> failingRequired (di_requiredChecks i) c) \<and>
     (case tipOf (di_status i) of None \<Rightarrow> True | Some tip \<Rightarrow> \<not> foreign (di_selfLogins i) (di_watermark i) tip)"
  by (auto simp: detectPrFeedback_def Let_def tipOf_def filter_empty_conv split: option.splits if_splits dest: last_in_set)

subsection \<open>The rounds (pr-followup-loop.ts)\<close>

datatype disposition = ChangeCode | ReplyOnly | Escalate

record comment_response =
  cr_commentId :: string
  cr_disposition :: disposition
  cr_reply :: string

record silpi_output =
  so_filesChanged :: "(string \<times> string) list"
  so_testFiles :: "string list"
  so_summary :: string
  so_confidenceScore :: int
  so_questionsForReviewer :: "string list"
  so_lintPassed :: bool
  so_testsPassed :: bool
  so_insights :: "string list"
  so_commentResponses :: "comment_response list option"

datatype review_verdict = APPROVE | REJECT

record viharapala_output =
  vo_verdict :: review_verdict
  vo_overallScore :: int
  vo_mustFix :: "string list"
  vo_suggestions :: "string list"
  vo_issues :: "(string \<times> string option \<times> string) list"
  vo_insights :: "string list"

datatype followup_outcome = Approved | Escalated | Exhausted

record followup_result =
  fr_outcome :: followup_outcome
  fr_output :: "silpi_output option"
  fr_rounds :: nat
  fr_note :: string

definition responses :: "silpi_output \<Rightarrow> comment_response list" where
  "responses out = (case so_commentResponses out of None \<Rightarrow> [] | Some rs \<Rightarrow> rs)"

definition escalations :: "silpi_output \<Rightarrow> comment_response list" where
  "escalations out = filter (\<lambda>r. cr_disposition r = Escalate) (responses out)"

text \<open>
  The agents: Silpi's output for a round and the latest re-review, Viharapala's verdict on it, and whether
  the run has been aborted before each of the two. An agent may fail.
\<close>

record 'e agents =
  ag_silpi :: "nat \<Rightarrow> viharapala_output option \<Rightarrow> 'e + silpi_output"
  ag_review :: "nat \<Rightarrow> silpi_output \<Rightarrow> 'e + viharapala_output"
  ag_aborted :: "nat \<Rightarrow> bool"
  ag_abortedReview :: "nat \<Rightarrow> bool"
  ag_abortError :: 'e

function followupRounds ::
  "'e agents \<Rightarrow> nat \<Rightarrow> bool \<Rightarrow> nat \<Rightarrow> viharapala_output option \<Rightarrow> silpi_output option \<Rightarrow> 'e + followup_result" where
  "followupRounds ag maxRounds reReview round prior lastOut =
     (if round < maxRounds
      then if ag_aborted ag (Suc round) then Inl (ag_abortError ag)
        else bindE (ag_silpi ag (Suc round) prior) (\<lambda>out.
          if escalations out \<noteq> []
          then Inr \<lparr>fr_outcome = Escalated, fr_output = Some out, fr_rounds = Suc round,
            fr_note = ''Escalated '' @ show_nat (length (escalations out)) @ '' comment(s) to a human''\<rparr>
          else if \<not> reReview
          then Inr \<lparr>fr_outcome = Approved, fr_output = Some out, fr_rounds = Suc round,
            fr_note = ''Produced (no re-review gate), round '' @ show_nat (Suc round)\<rparr>
          else if ag_abortedReview ag (Suc round) then Inl (ag_abortError ag)
          else bindE (ag_review ag (Suc round) out) (\<lambda>v.
            if vo_verdict v = APPROVE
            then Inr \<lparr>fr_outcome = Approved, fr_output = Some out, fr_rounds = Suc round,
              fr_note = ''Approved by re-review, round '' @ show_nat (Suc round)\<rparr>
            else followupRounds ag maxRounds reReview (Suc round) (Some v) (Some out)))
      else Inr \<lparr>fr_outcome = Exhausted, fr_output = lastOut, fr_rounds = round,
        fr_note = ''Exhausted '' @ show_nat maxRounds @ '' round(s) without a passing re-review''\<rparr>)"
  by pat_completeness auto
termination by (relation "measure (\<lambda>(ag, maxRounds, reReview, round, prior, lastOut). maxRounds - round)") auto

declare followupRounds.simps [simp del]

definition runPrFollowupLoop :: "'e agents \<Rightarrow> nat \<Rightarrow> bool \<Rightarrow> nat \<Rightarrow> 'e + followup_result" where
  "runPrFollowupLoop ag maxRounds reReview startRound =
     (if maxRounds \<le> startRound
      then Inr \<lparr>fr_outcome = Exhausted, fr_output = None, fr_rounds = startRound,
        fr_note = ''Round budget ('' @ show_nat maxRounds @ '') already spent for this feedback event''\<rparr>
      else followupRounds ag maxRounds reReview startRound None None)"

definition sound_result :: "'e agents \<Rightarrow> nat \<Rightarrow> bool \<Rightarrow> nat \<Rightarrow> followup_result \<Rightarrow> bool" where
  "sound_result ag maxRounds reReview startRound r \<longleftrightarrow>
     startRound \<le> fr_rounds r \<and> fr_rounds r \<le> max maxRounds startRound \<and>
     (fr_outcome r = Exhausted \<longrightarrow> fr_rounds r = max maxRounds startRound) \<and>
     (fr_outcome r = Approved \<longrightarrow> (\<exists>out. fr_output r = Some out \<and> escalations out = [] \<and>
        (reReview \<longrightarrow> (\<exists>v. ag_review ag (fr_rounds r) out = Inr v \<and> vo_verdict v = APPROVE)))) \<and>
     (fr_outcome r = Escalated \<longrightarrow> (\<exists>out. fr_output r = Some out \<and> escalations out \<noteq> []))"

lemma followupRounds_sound:
  "followupRounds ag maxRounds reReview round prior lastOut = Inr r \<Longrightarrow> round \<le> maxRounds \<Longrightarrow>
   sound_result ag maxRounds reReview round r"
proof (induction ag maxRounds reReview round prior lastOut rule: followupRounds.induct)
  case (1 ag maxRounds reReview round prior lastOut)
  show ?case
  proof (cases "round < maxRounds")
    case True
    then obtain out where out: "ag_silpi ag (Suc round) prior = Inr out" "\<not> ag_aborted ag (Suc round)"
      using 1(2) by (subst (asm) followupRounds.simps) (auto split: if_splits)
    show ?thesis
    proof (cases "escalations out = [] \<and> reReview \<and> (\<exists>v. ag_review ag (Suc round) out = Inr v \<and> vo_verdict v \<noteq> APPROVE)")
      case False
      then show ?thesis
        using 1(2) True out by (subst (asm) followupRounds.simps) (auto simp: sound_result_def split: if_splits)
    next
      case again: True
      then obtain v where v: "ag_review ag (Suc round) out = Inr v" "vo_verdict v \<noteq> APPROVE" by blast
      have "\<not> ag_abortedReview ag (Suc round)"
        using 1(2) True out again by (subst (asm) followupRounds.simps) (auto split: if_splits)
      moreover have "followupRounds ag maxRounds reReview (Suc round) (Some v) (Some out) = Inr r"
        using 1(2) True out again v calculation by (subst (asm) followupRounds.simps) simp
      ultimately have "sound_result ag maxRounds reReview (Suc round) r"
        using 1(1)[of out v] True out again v by simp
      then show ?thesis using True by (auto simp: sound_result_def)
    qed
  next
    case False
    then show ?thesis using 1(2,3) by (subst (asm) followupRounds.simps) (auto simp: sound_result_def)
  qed
qed

lemma runPrFollowupLoop_sound:
  "runPrFollowupLoop ag maxRounds reReview startRound = Inr r \<Longrightarrow> sound_result ag maxRounds reReview startRound r"
  by (auto simp: runPrFollowupLoop_def followupRounds_sound split: if_splits) (auto simp: sound_result_def)

subsection \<open>A run and its side effects, in order (pr-followup-run.ts)\<close>

record followup_input =
  fi_review :: pr_review
  fi_failingChecks :: "(string \<times> string) list"
  fi_startRound :: nat

definition reviewFor :: "feedback \<Rightarrow> pr_review" where
  "reviewFor f =
     (if fb_changesRequested f \<noteq> [] then last (fb_changesRequested f)
      else let parts =
          (if fb_failingChecks f \<noteq> [] then [''Required check(s) failing: '' @ joined '', '' (map ck_name (fb_failingChecks f)) @
             ''. Fix the underlying cause.''] else []) @
          (if fb_foreignCommits f \<noteq> [] then [''The branch was re-synced onto commits pushed by others -- build on the current head.'']
           else [])
        in \<lparr>rv_author = None, rv_state = ''CHANGES_REQUESTED'',
            rv_body = (if joined '' '' parts = '''' then ''Address the open-PR feedback.'' else joined '' '' parts),
            rv_submittedAt = None, rv_comments = []\<rparr>)"

definition failingCheckSummaries :: "feedback \<Rightarrow> (string \<times> string) list" where
  "failingCheckSummaries f = map (\<lambda>c. (ck_name c, ''reported '' @ (case ck_conclusion c of None \<Rightarrow> ''a failure'' | Some x \<Rightarrow> x) @
     '' on the PR head -- reproduce and fix via the local gate'')) (fb_failingChecks f)"

text \<open>The side effects of a run. The store, GitHub and the operator's notices are taken to accept them.\<close>

datatype followup_effect =
  Push | Reply string | WriteWatermark watermark | Resubmit string | NoteTask string | Flag string |
  ClearAttempts | Telemetry string nat | NotifyOperator string

record followup_world =
  fw_status :: "pr_status option"
  fw_watermark :: watermark
  fw_push :: "string + unit"
  fw_head :: "string option"
  fw_now :: string

record followup_config =
  fc_maxRounds :: nat
  fc_reReview :: bool
  fc_selfLogins :: "string list"
  fc_requiredChecks :: "string list"

fun outcomeText :: "followup_outcome \<Rightarrow> string" where
  "outcomeText Approved = ''approved''"
| "outcomeText Escalated = ''escalated''"
| "outcomeText Exhausted = ''exhausted''"

definition finalize :: "followup_world \<Rightarrow> followup_result \<Rightarrow> followup_effect list \<times> bool \<times> string" where
  "finalize w r =
     (if fr_outcome r = Approved
      then case fw_push w of
          Inl message \<Rightarrow>
            ([Push, NoteTask (''PR follow-up push failed: '' @ message @ '' -- no replies posted; will retry next pass''),
              Resubmit ''follow-up push failed; retry on the next pass''], False, ''push failed -- no reply posted'')
        | Inr _ \<Rightarrow>
            let pushed = ''PR follow-up pushed ('' @ show_nat (fr_rounds r) @ '' round(s))''
            in ([Push] @ map (\<lambda>c. Reply (cr_reply c)) (case fr_output r of None \<Rightarrow> [] | Some out \<Rightarrow> responses out) @
                [WriteWatermark \<lparr>wm_head = fw_head w, wm_round = fr_rounds r, wm_at = Some (fw_now w)\<rparr>, Resubmit pushed],
                True, pushed)
      else let name = ''pr_followup_'' @ outcomeText (fr_outcome r)
        in ([Flag (''PR follow-up '' @ outcomeText (fr_outcome r) @ '': '' @ fr_note r @ ''. Handed to a human.''), ClearAttempts,
             Telemetry name (fr_rounds r), NotifyOperator name], False, ''PR follow-up '' @ outcomeText (fr_outcome r)))"

text \<open>With no login of its own configured, a run looks at no commits.\<close>

definition seenBy :: "string list \<Rightarrow> pr_status \<Rightarrow> pr_status" where
  "seenBy self st = (if self \<noteq> [] then st else st\<lparr>st_commits := []\<rparr>)"

definition detected :: "followup_config \<Rightarrow> pr_status \<Rightarrow> watermark \<Rightarrow> feedback option" where
  "detected cfg st w = detectPrFeedback \<lparr>di_status = seenBy (fc_selfLogins cfg) st, di_watermark = w,
     di_selfLogins = fc_selfLogins cfg, di_requiredChecks = fc_requiredChecks cfg\<rparr>"

definition inputFor :: "feedback \<Rightarrow> followup_input" where
  "inputFor f = \<lparr>fi_review = reviewFor f, fi_failingChecks = failingCheckSummaries f, fi_startRound = fb_round f\<rparr>"

definition runPrFollowupTask ::
  "(followup_input \<Rightarrow> 'e agents) \<Rightarrow> followup_config \<Rightarrow> followup_world \<Rightarrow> 'e + (followup_effect list \<times> bool \<times> string)" where
  "runPrFollowupTask ags cfg w =
     (let closed = Inr ([Resubmit ''the PR is no longer open; reconcile settles it''], False, ''PR no longer open -- follow-up skipped'')
      in case fw_status w of
          None \<Rightarrow> closed
        | Some st \<Rightarrow>
            if st_state st \<noteq> ''OPEN'' then closed
            else case detected cfg st (fw_watermark w) of
                None \<Rightarrow> Inr ([Resubmit ''no unaddressed feedback''], False, ''no unaddressed feedback -- label cleared'')
              | Some f \<Rightarrow> bindE (runPrFollowupLoop (ags (inputFor f)) (fc_maxRounds cfg) (fc_reReview cfg) (fi_startRound (inputFor f)))
                  (\<lambda>r. Inr (finalize w r)))"

fun settles :: "followup_effect \<Rightarrow> bool" where
  "settles (Resubmit _) \<longleftrightarrow> True"
| "settles (Flag _) \<longleftrightarrow> True"
| "settles _ \<longleftrightarrow> False"

lemma settles_replies [simp]: "filter settles (map (\<lambda>c. Reply (f c)) cs) = []"
  by (induction cs) auto

lemma finalize_settles: "length (filter settles (fst (finalize w r))) = 1"
  by (simp add: finalize_def Let_def split: sum.splits)

lemma finalize_replies:
  assumes "Reply t \<in> set (fst (finalize w r))"
  shows "fr_outcome r = Approved \<and> (\<exists>u. fw_push w = Inr u) \<and> hd (fst (finalize w r)) = Push"
  using assms by (auto simp: finalize_def Let_def split: if_splits sum.splits)

lemma finalize_approved:
  "fst (snd (finalize w r)) \<longleftrightarrow> fr_outcome r = Approved \<and> (\<exists>u. fw_push w = Inr u)"
  by (auto simp: finalize_def Let_def split: if_splits sum.splits)

lemma finalize_watermark:
  "WriteWatermark m \<in> set (fst (finalize w r)) \<longleftrightarrow> fst (snd (finalize w r)) \<and>
     m = \<lparr>wm_head = fw_head w, wm_round = fr_rounds r, wm_at = Some (fw_now w)\<rparr>"
  by (auto simp: finalize_def Let_def split: if_splits sum.splits)

lemma runPrFollowupTask_cases:
  assumes "runPrFollowupTask ags cfg w = Inr (es, ok, note)"
  obtains (idle) t where "es = [Resubmit t]" "\<not> ok"
  | (ran) st f r where "fw_status w = Some st" "st_state st = ''OPEN''" "detected cfg st (fw_watermark w) = Some f"
      "sound_result (ags (inputFor f)) (fc_maxRounds cfg) (fc_reReview cfg) (fb_round f) r" "finalize w r = (es, ok, note)"
  using assms runPrFollowupLoop_sound
  by (fastforce simp: runPrFollowupTask_def Let_def inputFor_def split: option.splits if_splits)

lemma not_detected:
  "detected cfg st m = None \<longleftrightarrow>
     (\<forall>v \<in> set (st_reviews st). \<not> unaddressedReview (seenBy (fc_selfLogins cfg) st) m v) \<and>
     (\<forall>c \<in> set (st_checks st). \<not> failingRequired (fc_requiredChecks cfg) c) \<and>
     (case tipOf (seenBy (fc_selfLogins cfg) st) of None \<Rightarrow> True | Some tip \<Rightarrow> \<not> foreign (fc_selfLogins cfg) m tip)"
  by (simp add: detected_def detectPrFeedback_None split: option.split) (simp add: seenBy_def)

end
