(* ===== verification/WorkerProperties.thy ===== *)
theory WorkerProperties
  imports WorkerState Scheduler Followup
begin

text \<open>
  The properties of the orchestrator's worker: its watchdog, its pause latch, its scheduling loop, and the
  rounds it spends on a pull request.
\<close>

text \<open>
  C20: The watchdog reports a worker stuck exactly when it is already marked stuck, or it is not paused
  for a manual resume, not idle with an empty queue, and either its latest outcome has repeated as often as
  allowed (five by default) or it is busy and has been silent for longer than the threshold (twenty minutes
  by default).
\<close>

theorem watchdog_exact:
  "vd_stuck (fst (runWatchdogOnce k phase now probe age stuckMs maxRepeat s)) \<longleftrightarrow>
     ks_stuck (slice s k) \<noteq> None \<or>
     \<not> isKshetraManuallyPaused s k \<and> \<not> ((phase = ''IDLE'' \<or> phase = ''SELECTING'') \<and> probe = Some False) \<and>
     (orElse' maxRepeat 5 \<le> orElse' (ks_outcomeRepeatCount (slice s k)) 0 \<or>
      phase \<noteq> ''IDLE'' \<and> (\<exists>a. age = Some a \<and> orElse' stuckMs (20 * 60 * 1000) < a))"
proof (cases "ks_stuck (slice s k)")
  case None
  then show ?thesis
    using runWatchdogOnce_fresh[OF None, of phase probe age stuckMs maxRepeat now] by (auto simp: trips_def split: if_splits)
qed (simp add: runWatchdogOnce_quiet)

lemma watchdog_exact_witness:
  "\<not> vd_stuck (fst (runWatchdogOnce ''k'' ''WORKING'' 0 None (Some 1200000) None None [])) \<and>
   vd_stuck (fst (runWatchdogOnce ''k'' ''WORKING'' 0 None (Some 1200001) None None []))"
  unfolding watchdog_exact
  by (simp add: slice_def orElse'_def unpaused_def isKshetraManuallyPaused_def)

text \<open>
  The watchdog escalates once. The look that finds a worker stuck notifies the operator, with a cause
  and a remedy, and leaves it marked and paused for a manual resume; until that is acknowledged no look
  notifies again or changes anything. The resume lifts the pause, heals a run still in flight, and a
  worker that then shows a fresh heartbeat is not taken for stuck again.
\<close>

lemma watchdog_escalates_once:
  assumes fresh: "ks_stuck (slice s k) = None"
    and look: "runWatchdogOnce k phase now probe age stuckMs maxRepeat s = (v, es, s')" and stuck: "vd_stuck v"
  shows "(\<exists>r m. es = [Notify ''stuck'' (Some r) (Some m)] \<and> vd_reason v = Some r) \<and> isKshetraManuallyPaused s' k \<and>
    (\<forall>phase' now' probe' age' stuckMs' maxRepeat'. snd (runWatchdogOnce k phase' now' probe' age' stuckMs' maxRepeat' s') = ([], s')) \<and>
    \<not> isKshetraManuallyPaused (resumeKshetra k s') k \<and>
    shouldSelfHeal (Some (slice s' k)) (Some (slice (resumeKshetra k s') k)) True False \<and>
    (\<forall>phase' now' probe' a. a \<le> 20 * 60 * 1000 \<longrightarrow>
       \<not> vd_stuck (fst (runWatchdogOnce k phase' now' probe' (Some a) None None (resumeKshetra k s'))))"
proof -
  have s': "\<exists>r m. v = \<lparr>vd_stuck = True, vd_reason = Some r, vd_remediation = Some m\<rparr> \<and> es = [Notify ''stuck'' (Some r) (Some m)] \<and>
      s' = pauseKshetra k \<lparr>po_cooldownMs = None, po_manual = Some True, po_reason = ''stuck'', po_message = r\<rparr> now
        (setStuck k r m (Some phase) None now s)"
    using runWatchdogOnce_fresh[OF fresh, of phase probe age stuckMs maxRepeat now] look stuck by (auto split: if_splits)
  have sl: "ks_paused (slice s' k)" "ks_requiresManualResume (slice s' k) = Some True" "ks_reason (slice s' k) = Some ''stuck''"
      "ks_stuck (slice s' k) \<noteq> None"
    using s' by (auto simp: pauseKshetra_def setStuck_def orElse'_def)
  have quiet: "snd (runWatchdogOnce k phase' now' probe' age' stuckMs' maxRepeat' s') = ([], s')" for phase' now' probe' age' stuckMs' maxRepeat'
    using sl(4) by (auto simp: runWatchdogOnce_quiet)
  have calm: "\<not> vd_stuck (fst (runWatchdogOnce k phase' now' probe' (Some a) None None (resumeKshetra k s')))"
    if "a \<le> 20 * 60 * 1000" for phase' now' probe' a
    using that runWatchdogOnce_fresh[of "resumeKshetra k s'" k phase' probe' "Some a" None None now']
    by (auto simp: resumeKshetra_def trips_def orElse'_def split: if_splits)
  show ?thesis
    using s' sl quiet calm by (auto simp: isKshetraManuallyPaused_def shouldSelfHeal_def isStuckPaused_def resumeKshetra_def)
qed

lemma watchdog_escalates_once_witness:
  "isKshetraManuallyPaused (snd (snd (runWatchdogOnce ''k'' ''WORKING'' 7 None (Some 1300000) None None []))) ''k''"
proof -
  let ?r = "runWatchdogOnce ''k'' ''WORKING'' 7 None (Some 1300000) None None []"
  have "ks_stuck (slice [] ''k'') = None" and "vd_stuck (fst ?r)" by code_simp+
  then show ?thesis
    using watchdog_escalates_once[of "[]" "''k''" "''WORKING''" 7 None "Some 1300000" None None "fst ?r" "fst (snd ?r)" "snd (snd ?r)"]
    by simp
qed

text \<open>
  What ends a manual pause. Of everything that writes the worker's state, a pause that needs a manual
  resume is ended by exactly these, on that Kshetra: a resume, a restore, the recovery at a start when the
  pause is the watchdog's, a pause that asks for no manual resume, and an API failure of a cycle, whose
  pause is of that kind. So a failing API call lifts a pause a person, or the watchdog, had set.
\<close>

lemma manual_pause_ends:
  assumes "isKshetraManuallyPaused s k"
  shows "isKshetraManuallyPaused (apply_op now op s) k \<longleftrightarrow>
    \<not> (op = Resume k \<or> (\<exists>saved. op = Restore k saved) \<or> (\<exists>opts. op = Pause k opts \<and> po_manual opts \<noteq> Some True) \<or>
       op = Recover k \<and> ks_reason (slice s k) = Some ''stuck'' \<or>
       (\<exists>task err. op = CycleError k task err \<and> classifyError err = API_DOWN))"
  unfolding manual_pause_keeps[OF assms] by (cases op) auto

lemma manual_pause_ends_witness:
  "let s = pauseKshetra ''k'' \<lparr>po_cooldownMs = None, po_manual = Some True, po_reason = ''manual'', po_message = ''Paused via CLI''\<rparr> 1 [] in
   isKshetraManuallyPaused s ''k'' \<and> isKshetraManuallyPaused (apply_op 2 (Stall ''k'' ''preflight'') s) ''k'' \<and>
   \<not> isKshetraManuallyPaused (apply_op 2 (CycleError ''k'' None
       (OtherFailure \<lparr>ae_status = Some 503, ae_message = Some ''overloaded'', ae_code = None\<rparr>)) s) ''k''"
proof -
  let ?s = "pauseKshetra ''k'' \<lparr>po_cooldownMs = None, po_manual = Some True, po_reason = ''manual'', po_message = ''Paused via CLI''\<rparr> 1 []"
  let ?err = "OtherFailure \<lparr>ae_status = Some 503, ae_message = Some ''overloaded'', ae_code = None\<rparr>"
  have p: "isKshetraManuallyPaused ?s ''k''" by code_simp
  have "classifyError ?err = API_DOWN" by code_simp
  then show ?thesis
    using manual_pause_ends[OF p, of 2 "Stall ''k'' ''preflight''"] manual_pause_ends[OF p, of 2 "CycleError ''k'' None ?err"] p
    by (simp add: Let_def)
qed

text \<open>
  A cycle starts only from rest and always comes back to it. Started while another one runs, it
  changes nothing and is declined. Otherwise, whatever its hooks answer or throw, it ends at rest with no
  active task, and made no phase step outside the transition table; it reports work exactly when a task was
  selected, prepared and run to its end, no work when none was selected, a decline when the preparation
  refused, and it passes a hook's error on.
\<close>

lemma cycle_comes_to_rest:
  assumes "runCycle clock select prepare run sc = (r, sc')"
  shows "if sc_phase sc \<noteq> IDLE then r = Inr Declined \<and> sc' = sc
    else sc_phase sc' = REST_PHASE \<and> sc_active sc' = None \<and> sc_warnings sc' = sc_warnings sc \<and>
      r = bindE select (\<lambda>found. case found of None \<Rightarrow> Inr NoWork | Some t \<Rightarrow>
            bindE (prepare t) (\<lambda>made. case made of None \<Rightarrow> Inr Declined | Some u \<Rightarrow> bindE (run u) (\<lambda>_. Inr Ran)))"
proof (cases "sc_phase sc = IDLE")
  case True
  have w: "sc_warnings (setPhase t p x) = sc_warnings x" if "canTransition (sc_phase x) p" for t p and x :: "'b scheduler"
    using that by (rule setPhase_warnings)
  show ?thesis
    using assms True
    by (auto simp: runCycle_def endCycle_def REST_PHASE_def canTransition_def w Let_def split: sum.splits option.splits)
next
  case False
  then show ?thesis using assms by (simp add: runCycle_def)
qed

lemma cycle_comes_to_rest_witness:
  "sc_phase (snd (runCycle (\<lambda>n. int n) (Inr (Some ''t'')) (\<lambda>t. Inr (Some t)) (\<lambda>t. Inl ''agent failed'') createScheduler)) = REST_PHASE"
  using cycle_comes_to_rest[of "\<lambda>n. int n" "Inr (Some ''t'')" "\<lambda>t. Inr (Some t)" "\<lambda>t. Inl ''agent failed''" createScheduler,
      OF prod.collapse[symmetric]]
  by (simp add: createScheduler_def split: if_splits)

text \<open>
  C21: The polling loop neither stalls nor spins. In every state it can reach, whatever fires, ends, fails or
  wakes it in any order, a loop that was not stopped has a cycle in flight or the next one due, never both;
  and after a declined cycle the next one is due only a full interval later, however often it is woken.
\<close>

theorem loop_never_stalls_or_spins:
  assumes "poll.reachable interval l"
  shows "(\<not> lp_stopped l \<longrightarrow> (lp_inFlight l \<longleftrightarrow> lp_timer l = None)) \<and>
    (lp_backingOff l \<and> \<not> lp_stopped l \<and> \<not> lp_inFlight l \<longrightarrow> lp_timer l = Some interval \<and> wake l = l) \<and>
    (lp_stopped l \<longrightarrow> lp_timer l = None)"
  using poll.holds[OF assms] by (auto simp: loop_ok_def wake_def)

lemma loop_never_stalls_or_spins_witness:
  "lp_timer (wake (settled 30000 Declined (tick (scheduleLoop 30000)))) = Some 30000"
proof -
  let ?l = "settled 30000 Declined (tick (scheduleLoop 30000))"
  have "loop_step 30000 (scheduleLoop 30000) (tick (scheduleLoop 30000))"
    by (rule loop_step.fires) (simp add: scheduleLoop_def schedule_def)
  moreover have "loop_step 30000 (tick (scheduleLoop 30000)) ?l"
    by (rule loop_step.ends) (simp add: scheduleLoop_def schedule_def tick_def)
  ultimately have "poll.reachable 30000 ?l"
    unfolding poll.reachable_def by (meson converse_rtranclp_into_rtranclp r_into_rtranclp)
  from loop_never_stalls_or_spins[OF this] show ?thesis
    by (simp add: settled_def tick_def scheduleLoop_def schedule_def wake_def)
qed

text \<open>
  A run on a pull request settles its task once and in order. Whatever the agents, git and GitHub
  answer, a run that returns has put its task back to waiting or handed it to a human, one of the two and
  once; it replied to a comment only after a push that succeeded; it reports approval only when an output
  within the round budget, with no comment to escalate, passed the review of its round (when one is
  configured) and was pushed; and only then it moved the watermark.
\<close>

lemma followup_settles:
  assumes "runPrFollowupTask ags cfg w = Inr (es, ok, note)"
  shows "length (filter settles es) = 1 \<and>
    (\<forall>t. Reply t \<in> set es \<longrightarrow> hd es = Push \<and> (\<exists>u. fw_push w = Inr u)) \<and>
    (ok \<longrightarrow> (\<exists>u. fw_push w = Inr u) \<and> (\<exists>st f out n. fw_status w = Some st \<and> detected cfg st (fw_watermark w) = Some f \<and>
       fb_round f \<le> n \<and> n \<le> max (fc_maxRounds cfg) (fb_round f) \<and> escalations out = [] \<and>
       (fc_reReview cfg \<longrightarrow> (\<exists>v. ag_review (ags (inputFor f)) n out = Inr v \<and> vo_verdict v = APPROVE)))) \<and>
    (ok \<longleftrightarrow> (\<exists>m. WriteWatermark m \<in> set es))"
  using assms
proof (cases rule: runPrFollowupTask_cases)
  case idle
  then show ?thesis by auto
next
  case (ran st f r)
  have fin: "es = fst (finalize w r)" "ok = fst (snd (finalize w r))" using ran(5) by simp_all
  show ?thesis
    unfolding fin using ran(1,3,4) finalize_settles[of w r] finalize_replies[of _ w r] finalize_approved[of w r] finalize_watermark[of _ w r]
    by (fastforce simp: sound_result_def)
qed

lemma followup_settles_witness:
  "let st = \<lparr>st_state = ''OPEN'', st_url = ''u'',
       st_reviews = [\<lparr>rv_author = Some ''ann'', rv_state = ''CHANGES_REQUESTED'', rv_body = ''rename it'', rv_submittedAt = Some ''2026-01-02'', rv_comments = []\<rparr>],
       st_checks = [], st_commits = []\<rparr>;
     out = \<lparr>so_filesChanged = [], so_testFiles = [], so_summary = ''renamed'', so_confidenceScore = 9, so_questionsForReviewer = [],
       so_lintPassed = True, so_testsPassed = True, so_insights = [],
       so_commentResponses = Some [\<lparr>cr_commentId = ''c1'', cr_disposition = ChangeCode, cr_reply = ''Renamed.''\<rparr>]\<rparr>;
     ags = \<lambda>_ :: followup_input. \<lparr>ag_silpi = \<lambda>n prior. Inr out,
       ag_review = \<lambda>n x. Inr \<lparr>vo_verdict = APPROVE, vo_overallScore = 9, vo_mustFix = [], vo_suggestions = [], vo_issues = [], vo_insights = []\<rparr>,
       ag_aborted = \<lambda>n. False, ag_abortedReview = \<lambda>n. False, ag_abortError = ''aborted''\<rparr>;
     cfg = \<lparr>fc_maxRounds = 2, fc_reReview = True, fc_selfLogins = [], fc_requiredChecks = []\<rparr>;
     w = \<lparr>fw_status = Some st, fw_watermark = \<lparr>wm_head = None, wm_round = 0, wm_at = None\<rparr>, fw_push = Inr (), fw_head = Some ''abc'', fw_now = ''2026-01-03''\<rparr>
   in case runPrFollowupTask ags cfg w of Inl _ \<Rightarrow> False | Inr (es, ok, note) \<Rightarrow> ok \<and> es ! 1 = Reply ''Renamed.'' \<and> hd es = Push"
proof -
  have concrete: "case runPrFollowupTask ags cfg w of Inl _ \<Rightarrow> False | Inr (es, ok, note) \<Rightarrow> ok \<and> es ! 1 = Reply t \<and> hd es = Push"
    if "case runPrFollowupTask ags cfg w of Inl _ \<Rightarrow> False | Inr (es, ok, msg) \<Rightarrow> ok \<and> es ! 1 = Reply t \<and> Reply t \<in> set es"
    for ags :: "followup_input \<Rightarrow> string agents" and cfg w t
  proof -
    from that obtain es msg where r: "runPrFollowupTask ags cfg w = Inr (es, True, msg)" "es ! 1 = Reply t" "Reply t \<in> set es"
      by (auto split: sum.splits)
    from followup_settles[OF r(1)] r(3) have "hd es = Push" by blast
    then show ?thesis using r by simp
  qed
  show ?thesis
    unfolding Let_def by (rule concrete) code_simp
qed

text \<open>
  Feedback is acted on once. After a run that moved the watermark, with the pushed commit at the tip of
  the branch, the next look at the pull request finds feedback only in a required check that fails or in
  a request for changes submitted after the watermark's time. That time is the end of the run: a request
  submitted while the agents worked counts as addressed too, although no agent has seen it.
\<close>

lemma feedback_acted_once:
  assumes "runPrFollowupTask ags cfg w = Inr (es, ok, note)" and "WriteWatermark m \<in> set es"
    and "fw_head w = Some sha" and "fw_now w \<noteq> ''''"
    and "fc_selfLogins cfg \<noteq> []" and "tipOf st = Some tip" and "co_sha tip = sha"
    and "\<forall>v \<in> set (st_reviews st). rv_submittedAt v \<noteq> Some ''''"
  shows "detected cfg st m = None \<longleftrightarrow>
    (\<forall>c \<in> set (st_checks st). \<not> failingRequired (fc_requiredChecks cfg) c) \<and>
    (\<forall>v \<in> set (st_reviews st). rv_state v = ''CHANGES_REQUESTED'' \<longrightarrow> (\<forall>t. rv_submittedAt v = Some t \<longrightarrow> \<not> fw_now w < t))"
  using assms(1)
proof (cases rule: runPrFollowupTask_cases)
  case idle
  then show ?thesis using assms(2) by simp
next
  case (ran st' f r)
  have m: "wm_head m = Some sha" "wm_at m = Some (fw_now w)"
    using ran(5) assms(2,3) finalize_watermark[of m w r] by auto
  have seen: "seenBy (fc_selfLogins cfg) st = st" using assms(5) by (simp add: seenBy_def)
  have tip: "\<not> foreign (fc_selfLogins cfg) m tip" using m assms(7) by (simp add: foreign_def)
  have new: "unaddressedReview st m v \<longleftrightarrow>
      rv_state v = ''CHANGES_REQUESTED'' \<and> (\<exists>t. rv_submittedAt v = Some t \<and> fw_now w < t)" if "v \<in> set (st_reviews st)" for v
    using that m assms(4,6,7,8) by (auto simp: unaddressedReview_def isNewer_def split: option.splits)
  show ?thesis
    unfolding not_detected seen using assms(6) tip new by auto
qed

lemma feedback_acted_once_witness:
  "let cfg = \<lparr>fc_maxRounds = 2, fc_reReview = False, fc_selfLogins = [''bot''], fc_requiredChecks = []\<rparr>;
     review = \<lambda>t. \<lparr>rv_author = Some ''ann'', rv_state = ''CHANGES_REQUESTED'', rv_body = ''rename it'', rv_submittedAt = Some t, rv_comments = []\<rparr>;
     st = \<lambda>ts. \<lparr>st_state = ''OPEN'', st_url = ''u'', st_reviews = map review ts, st_checks = [],
       st_commits = [\<lparr>co_sha = ''abc'', co_author = Some ''bot''\<rparr>]\<rparr>;
     m = \<lparr>wm_head = Some ''abc'', wm_round = 1, wm_at = Some ''2026-01-09''\<rparr>
   in detected cfg (st [''2026-01-02'', ''2026-01-05'']) m = None \<and> detected cfg (st [''2026-01-11'']) m \<noteq> None"
proof -
  let ?cfg = "\<lparr>fc_maxRounds = 2, fc_reReview = False, fc_selfLogins = [''bot''], fc_requiredChecks = []\<rparr>"
  let ?review = "\<lambda>t. \<lparr>rv_author = Some ''ann'', rv_state = ''CHANGES_REQUESTED'', rv_body = ''rename it'', rv_submittedAt = Some t, rv_comments = []\<rparr>"
  let ?st = "\<lambda>ts. \<lparr>st_state = ''OPEN'', st_url = ''u'', st_reviews = map ?review ts, st_checks = [],
    st_commits = [\<lparr>co_sha = ''abc'', co_author = Some ''bot''\<rparr>]\<rparr>"
  let ?m = "\<lparr>wm_head = Some ''abc'', wm_round = 1, wm_at = Some ''2026-01-09''\<rparr>"
  let ?out = "\<lparr>so_filesChanged = [], so_testFiles = [], so_summary = ''renamed'', so_confidenceScore = 9, so_questionsForReviewer = [],
    so_lintPassed = True, so_testsPassed = True, so_insights = [], so_commentResponses = None\<rparr>"
  let ?ags = "\<lambda>_ :: followup_input. \<lparr>ag_silpi = \<lambda>n prior. Inr ?out, ag_review = \<lambda>n x. Inl ''unused'',
    ag_aborted = \<lambda>n. False, ag_abortedReview = \<lambda>n. False, ag_abortError = ''aborted''\<rparr>"
  let ?w = "\<lparr>fw_status = Some (?st [''2026-01-02'']), fw_watermark = \<lparr>wm_head = None, wm_round = 0, wm_at = None\<rparr>,
    fw_push = Inr (), fw_head = Some ''abc'', fw_now = ''2026-01-09''\<rparr>"
  have ran: "runPrFollowupTask ?ags ?cfg ?w =
      Inr ([Push, WriteWatermark ?m, Resubmit ''PR follow-up pushed (1 round(s))''], True, ''PR follow-up pushed (1 round(s))'')"
    by code_simp
  have look: "detected ?cfg (?st ts) ?m = None \<longleftrightarrow> (\<forall>t \<in> set ts. \<not> ''2026-01-09'' < t)" if "'''' \<notin> set ts" for ts
    using feedback_acted_once[OF ran, of ?m "''abc''" "?st ts" "\<lparr>co_sha = ''abc'', co_author = Some ''bot''\<rparr>"] that
    by (auto simp: tipOf_def)
  show ?thesis unfolding Let_def look[of "[''2026-01-02'', ''2026-01-05'']", simplified] using look[of "[''2026-01-11'']"] look[of "[''2026-01-02'', ''2026-01-05'']"]
    by simp
qed

end
