(* ===== verification/Toolchain.thy ===== *)
theory Toolchain
  imports Prelude
begin

text \<open>
  The commands a Kshetra's gates run (src/kshetra/toolchain.ts): each comes from the configuration, or from
  the defaults of the language. An empty command is a skipped gate. Text is ASCII.
\<close>

subsection \<open>Text\<close>

definition is_space :: "char \<Rightarrow> bool" where
  "is_space c \<longleftrightarrow> c \<in> {CHR 0x20, CHR 0x09, CHR 0x0A, CHR 0x0B, CHR 0x0C, CHR 0x0D}"

definition trim :: "string \<Rightarrow> string" where
  "trim s = rev (dropWhile is_space (rev (dropWhile is_space s)))"

definition toLower :: "string \<Rightarrow> string" where
  "toLower = map (\<lambda>c. if CHR ''A'' \<le> c \<and> c \<le> CHR ''Z'' then char_of (of_char c + 32 :: nat) else c)"

text \<open>\<open>s.split(/\s+/)\<close> of a text that neither starts nor ends with a space.\<close>

function wordsOf :: "string \<Rightarrow> string list" where
  "wordsOf s = (let rest = dropWhile is_space s in
     if rest = [] then [] else takeWhile (\<lambda>c. \<not> is_space c) rest # wordsOf (dropWhile (\<lambda>c. \<not> is_space c) rest))"
  by pat_completeness auto
termination
proof (relation "measure length", goal_cases)
  case (2 s rest)
  obtain c cs where r: "rest = c # cs" using 2(2) by (meson neq_Nil_conv)
  have "\<not> is_space c" using 2 r hd_dropWhile[of is_space s] by (metis list.sel(1))
  then have "length (dropWhile (\<lambda>c. \<not> is_space c) rest) < length rest"
    using r by (simp add: le_imp_less_Suc length_dropWhile_le)
  then show ?case using 2(1) length_dropWhile_le[of is_space s] by simp
qed simp

declare wordsOf.simps [simp del]

definition splitCommand :: "string \<Rightarrow> string list" where
  "splitCommand command = (let trimmed = trim command in if trimmed = '''' then [] else wordsOf trimmed)"

subsection \<open>The language's defaults\<close>

datatype profile_key = Node | Python | Go | Rust | Java | Unknown

record profile =
  pf_build :: string
  pf_test :: string
  pf_lint :: string
  pf_coverage :: string
  pf_testFileGlobs :: "string list"
  pf_vendorDirs :: "string list"

definition normalizeLanguage :: "string \<Rightarrow> profile_key" where
  "normalizeLanguage language = (let l = toLower (trim language) in
     if l \<in> {''typescript'', ''ts'', ''javascript'', ''js'', ''node'', ''nodejs''} then Node
     else if l \<in> {''python'', ''py''} then Python
     else if l \<in> {''go'', ''golang''} then Go
     else if l \<in> {''rust'', ''rs''} then Rust
     else if l \<in> {''java''} then Java
     else Unknown)"

definition nodeProfile :: "string \<Rightarrow> profile" where
  "nodeProfile packageManager = (let pm = (if trim packageManager = '''' then ''pnpm'' else trim packageManager) in
     \<lparr>pf_build = pm @ '' build'', pf_test = pm @ '' test'', pf_lint = pm @ '' lint'', pf_coverage = pm @ '' test:coverage'',
      pf_testFileGlobs = [''**/*.test.ts'', ''**/*.spec.ts'', ''**/*.test.js''],
      pf_vendorDirs = [''node_modules'', ''dist'']\<rparr>)"

fun STATIC_PROFILES :: "profile_key \<Rightarrow> profile" where
  "STATIC_PROFILES Python = \<lparr>pf_build = '''', pf_test = ''pytest'', pf_lint = ''ruff check'', pf_coverage = ''pytest --cov'',
     pf_testFileGlobs = [''test_*.py'', ''*_test.py''], pf_vendorDirs = [''.venv'', ''__pycache__'']\<rparr>"
| "STATIC_PROFILES Go = \<lparr>pf_build = ''go build ./...'', pf_test = ''go test ./...'', pf_lint = ''go vet ./...'',
     pf_coverage = ''go test -cover ./...'', pf_testFileGlobs = [''*_test.go''], pf_vendorDirs = [''vendor'']\<rparr>"
| "STATIC_PROFILES Rust = \<lparr>pf_build = ''cargo build'', pf_test = ''cargo test'', pf_lint = ''cargo clippy'', pf_coverage = '''',
     pf_testFileGlobs = [''tests/**'', ''*_test.rs''], pf_vendorDirs = [''target'']\<rparr>"
| "STATIC_PROFILES Java = \<lparr>pf_build = ''mvn -q compile'', pf_test = ''mvn -q test'', pf_lint = ''mvn -q checkstyle:check'',
     pf_coverage = '''', pf_testFileGlobs = [''*Test.java''], pf_vendorDirs = [''target'']\<rparr>"
| "STATIC_PROFILES _ = \<lparr>pf_build = '''', pf_test = '''', pf_lint = '''', pf_coverage = '''', pf_testFileGlobs = [],
     pf_vendorDirs = [''.git'']\<rparr>"

record stack_config =
  sk_language :: string
  sk_packageManager :: "string option"
  sk_buildCommand :: "string option"
  sk_testRunner :: "string option"
  sk_lintCommand :: "string option"
  sk_coverageCommand :: "string option"
  sk_testFileGlobs :: "string list option"
  sk_vendorDirs :: "string list option"

definition profileFor :: "stack_config \<Rightarrow> profile" where
  "profileFor sk = (case normalizeLanguage (sk_language sk) of
       Node \<Rightarrow> nodeProfile (case sk_packageManager sk of None \<Rightarrow> ''pnpm'' | Some p \<Rightarrow> p)
     | key \<Rightarrow> STATIC_PROFILES key)"

subsection \<open>The commands\<close>

definition resolveCommand :: "string option \<Rightarrow> string \<Rightarrow> string" where
  "resolveCommand override fallback = (case override of Some c \<Rightarrow> trim c | None \<Rightarrow> fallback)"

definition resolveBuildCommand :: "stack_config \<Rightarrow> string" where
  "resolveBuildCommand sk = resolveCommand (sk_buildCommand sk) (pf_build (profileFor sk))"

definition resolveTestCommand :: "stack_config \<Rightarrow> string" where
  "resolveTestCommand sk = resolveCommand (sk_testRunner sk) (pf_test (profileFor sk))"

definition resolveLintCommand :: "stack_config \<Rightarrow> string" where
  "resolveLintCommand sk = resolveCommand (sk_lintCommand sk) (pf_lint (profileFor sk))"

definition resolveCoverageCommand :: "stack_config \<Rightarrow> string" where
  "resolveCoverageCommand sk = resolveCommand (sk_coverageCommand sk) (pf_coverage (profileFor sk))"

definition resolveTestGlobs :: "stack_config \<Rightarrow> string list" where
  "resolveTestGlobs sk = (case sk_testFileGlobs sk of Some gs \<Rightarrow> gs | None \<Rightarrow> pf_testFileGlobs (profileFor sk))"

definition resolveVendorDirs :: "stack_config \<Rightarrow> string list" where
  "resolveVendorDirs sk = (case sk_vendorDirs sk of Some ds \<Rightarrow> ds | None \<Rightarrow> pf_vendorDirs (profileFor sk))"

subsection \<open>An empty command and only that is a skip\<close>

lemma dropWhile_all: "dropWhile p s = [] \<or> (\<exists>c \<in> set (dropWhile p s). \<not> p c)"
  using hd_dropWhile[of p s] by (metis list.set_sel(1))

lemma trim_spaces: "trim s = '''' \<or> (\<exists>c \<in> set (trim s). \<not> is_space c)"
  unfolding trim_def using dropWhile_all[of is_space "rev (dropWhile is_space s)"] by auto

lemma splitCommand_Nil: "splitCommand s = [] \<longleftrightarrow> trim s = ''''"
proof (cases "trim s = ''''")
  case False
  then have some: "dropWhile is_space (trim s) \<noteq> []" using trim_spaces[of s] by auto
  have "wordsOf (trim s) \<noteq> []" by (subst wordsOf.simps) (simp only: Let_def some if_False list.simps not_False_eq_True)
  then show ?thesis using False by (simp only: splitCommand_def Let_def if_False)
qed (simp add: splitCommand_def)

end
