(* ===== verification/Gates.thy ===== *)
theory Gates
  imports Toolchain
begin

text \<open>
  The quality gates a round must pass (src/sthapathi/gates.ts), the health of the test suite and its cache
  (health.ts), the lint gate (lint.ts), the form of a coverage summary (coverage-summary.ts) and the ablation
  switches (src/kshetra/ablation.ts). What a command printed and how it exited are arguments. A percentage
  is a decimal fraction; a number that is not one cannot come out of a coverage report.
\<close>

subsection \<open>Ablation switches (ablation.ts)\<close>

datatype ablation_key = ReviewOff | EnforcementOff

fun key_name :: "ablation_key \<Rightarrow> string" where
  "key_name ReviewOff = ''review''"
| "key_name EnforcementOff = ''enforcement''"

definition ABLATION_KEYS :: "ablation_key list" where
  "ABLATION_KEYS = [ReviewOff, EnforcementOff]"

fun ABLATIONS :: "ablation_key \<Rightarrow> string" where
  "ABLATIONS ReviewOff = ''review -- Viharapala skipped; a round whose gates pass is approved without review''"
| "ABLATIONS EnforcementOff = ''enforcement -- every blocking point becomes warn; gates still run and failures still surface, only enforcement is removed''"

type_synonym ablation_config = "ablation_key list"

definition keyNamed :: "string \<Rightarrow> ablation_key option" where
  "keyNamed s = find (\<lambda>k. key_name k = s) ABLATION_KEYS"

fun ablationIssue :: "string \<times> json \<Rightarrow> string list" where
  "ablationIssue (k, v) =
     (if keyNamed k = None
      then [''unknown ablation '' @ [CHR 0x22] @ k @ [CHR 0x22] @ '' -- valid keys: '' @ joined '', '' (map key_name ABLATION_KEYS)]
      else if v \<noteq> JStr ''off'' \<and> v \<noteq> JBool False
      then [''ablation '' @ [CHR 0x22] @ k @ [CHR 0x22] @ '' must be '' @ [CHR 0x22] @ ''off'' @ [CHR 0x22] @
        '' (its only value -- the capability is removed)'']
      else [])"

text \<open>The schema of the configuration's block: the issues, or the switches that are off.\<close>

definition AblationConfigSchema :: "(string \<times> json) list \<Rightarrow> string list + ablation_config" where
  "AblationConfigSchema obj = (let issues = concat (map ablationIssue obj) in
     if issues \<noteq> [] then Inl issues else Inr (List.map_filter (\<lambda>(k, v). keyNamed k) obj))"

definition isAblated :: "ablation_config option \<Rightarrow> ablation_key \<Rightarrow> bool" where
  "isAblated cfg key = (case cfg of None \<Rightarrow> False | Some ks \<Rightarrow> key \<in> set ks)"

definition activeAblations :: "ablation_config option \<Rightarrow> ablation_key list" where
  "activeAblations cfg = filter (isAblated cfg) ABLATION_KEYS"

definition ablationGuardError :: "ablation_config option \<Rightarrow> bool \<Rightarrow> string option" where
  "ablationGuardError cfg allow = (let active = activeAblations cfg in
     if active = [] \<or> allow then None
     else Some (''Refusing to run: active ablation(s) weaken the harness -- '' @ joined '', '' (map key_name active) @ ''.'' @ [CHR 0x0A] @
       joined [CHR 0x0A] (map (\<lambda>k. ''  * '' @ ABLATIONS k) active) @ [CHR 0x0A] @
       ''Pass --allow-ablation to run anyway (it is recorded in the lot manifest).''))"

definition ablationBanner :: "ablation_config option \<Rightarrow> string list" where
  "ablationBanner cfg = map (\<lambda>k. ''ABLATION ACTIVE: '' @ ABLATIONS k) (activeAblations cfg)"

lemma activeAblations_Nil: "activeAblations cfg = [] \<longleftrightarrow> (\<forall>k. \<not> isAblated cfg k)"
proof -
  have "k \<in> set ABLATION_KEYS" for k by (cases k) (simp_all add: ABLATION_KEYS_def)
  then show ?thesis by (auto simp: activeAblations_def filter_empty_conv)
qed

lemma keyNamed_Some: "keyNamed s = Some k \<longleftrightarrow> key_name k = s"
  by (cases k) (auto simp: keyNamed_def ABLATION_KEYS_def)

lemma ablationIssue_Nil:
  "ablationIssue (s, v) = [] \<longleftrightarrow> (\<exists>k. key_name k = s) \<and> v \<in> {JStr ''off'', JBool False}"
  by (auto simp: keyNamed_Some[symmetric])

lemma ablation_schema:
  assumes "AblationConfigSchema obj = Inr ks"
  shows "isAblated (Some ks) k \<longleftrightarrow> key_name k \<in> fst ` set obj"
    and "(s, v) \<in> set obj \<Longrightarrow> (\<exists>k. key_name k = s) \<and> v \<in> {JStr ''off'', JBool False}"
proof -
  have ks: "ks = List.map_filter (\<lambda>(k, v). keyNamed k) obj" and clean: "\<And>x. x \<in> set obj \<Longrightarrow> ablationIssue x = []"
    using assms by (auto simp only: AblationConfigSchema_def Let_def concat_eq_Nil_conv set_map split: if_splits)
  show "isAblated (Some ks) k \<longleftrightarrow> key_name k \<in> fst ` set obj"
    by (force simp: isAblated_def ks set_map_filter keyNamed_Some)
  show "(s, v) \<in> set obj \<Longrightarrow> (\<exists>k. key_name k = s) \<and> v \<in> {JStr ''off'', JBool False}"
    using clean ablationIssue_Nil by blast
qed

subsection \<open>Decimal fractions\<close>

text \<open>\<open>Dec n k\<close> is \<open>n / 10 ^ k\<close>, printed without trailing zeros, as JavaScript prints it.\<close>

datatype decimal = Dec nat nat

fun dec_less :: "decimal \<Rightarrow> decimal \<Rightarrow> bool" where
  "dec_less (Dec a j) (Dec b k) \<longleftrightarrow> a * 10 ^ k < b * 10 ^ j"

fun show_decimal :: "nat \<Rightarrow> nat \<Rightarrow> string" where
  "show_decimal n 0 = show_nat n"
| "show_decimal n (Suc k) =
     (if n mod 10 = 0 then show_decimal (n div 10) k
      else show_nat (n div 10 ^ Suc k) @ ''.'' @
        (let frac = show_nat (n mod 10 ^ Suc k) in replicate (Suc k - length frac) (CHR ''0'') @ frac))"

fun show_dec :: "decimal \<Rightarrow> string" where
  "show_dec (Dec n k) = show_decimal n k"

subsection \<open>Coverage (coverage-summary.ts, gates.ts)\<close>

datatype metric = Statements | Branches | Functions | Lines

fun metric_name :: "metric \<Rightarrow> string" where
  "metric_name Statements = ''statements''"
| "metric_name Branches = ''branches''"
| "metric_name Functions = ''functions''"
| "metric_name Lines = ''lines''"

definition COVERAGE_METRICS :: "metric list" where
  "COVERAGE_METRICS = [Statements, Branches, Functions, Lines]"

record coverage_summary =
  cs_statements :: "decimal option"
  cs_branches :: "decimal option"
  cs_functions :: "decimal option"
  cs_lines :: "decimal option"

fun measured :: "coverage_summary \<Rightarrow> metric \<Rightarrow> decimal option" where
  "measured s Statements = cs_statements s"
| "measured s Branches = cs_branches s"
| "measured s Functions = cs_functions s"
| "measured s Lines = cs_lines s"

definition formatCoverageSummary :: "coverage_summary \<Rightarrow> string" where
  "formatCoverageSummary s = joined '' . '' (List.map_filter (\<lambda>k. map_option (\<lambda>v. metric_name k @ '' '' @ show_dec v @ ''%'') (measured s k)) COVERAGE_METRICS)"

record coverage_result =
  cv_passed :: bool
  cv_skipped :: bool
  cv_raw :: string
  cv_summary :: "coverage_summary option"

text \<open>
  A command's run: whether it exited with zero, and what it printed (and, on a failure, the error's
  message). The coverage report's reader is an argument.
\<close>

type_synonym ran = "string list \<Rightarrow> bool \<times> string"

definition runCoverageGate :: "stack_config \<Rightarrow> ran \<Rightarrow> (string \<Rightarrow> coverage_summary option) \<Rightarrow> coverage_result" where
  "runCoverageGate sk exec parse = (case splitCommand (resolveCoverageCommand sk) of
       [] \<Rightarrow> \<lparr>cv_passed = True, cv_skipped = True, cv_raw = ''(no coverage command configured -- coverage gate skipped)'', cv_summary = None\<rparr>
     | cmd \<Rightarrow> (case exec cmd of (zero, raw) \<Rightarrow> \<lparr>cv_passed = zero, cv_skipped = False, cv_raw = raw, cv_summary = parse raw\<rparr>))"

record judgement =
  jd_passed :: bool
  jd_reason :: string
  jd_noSignal :: bool

definition quoted :: "string \<Rightarrow> string" where
  "quoted s = [CHR 0x60] @ s @ [CHR 0x60]"

definition shortfall :: "coverage_summary \<Rightarrow> metric \<Rightarrow> decimal \<Rightarrow> string option" where
  "shortfall s k least = (case measured s k of
       None \<Rightarrow> Some (metric_name k @ '' not reported (minimum '' @ show_dec least @ ''%)'')
     | Some actual \<Rightarrow>
         if dec_less actual least then Some (metric_name k @ '' '' @ show_dec actual @ ''% < '' @ show_dec least @ ''%'') else None)"

definition judgeCoverage :: "coverage_result \<Rightarrow> coverage_summary option \<Rightarrow> string \<Rightarrow> judgement" where
  "judgeCoverage coverage least command =
     (if cv_skipped coverage then \<lparr>jd_passed = True, jd_reason = ''coverage skipped (no command configured)'', jd_noSignal = False\<rparr>
      else if \<not> cv_passed coverage
      then \<lparr>jd_passed = False, jd_reason = ''Coverage gate failed -- run '' @ quoted command @ '' and address the shortfall.'', jd_noSignal = False\<rparr>
      else let required = List.map_filter (\<lambda>k. map_option (Pair k) (Option.bind least (\<lambda>m. measured m k))) COVERAGE_METRICS in
      case cv_summary coverage of
        None \<Rightarrow>
          (let noSignal = quoted command @ '' printed no recognisable coverage summary, so it adds no signal beyond the test gate '' @
             ''(a second full suite run). Enable a text/text-summary coverage reporter, or set '' @
             ''stack.coverageCommand: '' @ [CHR 0x22, CHR 0x22] @ '' to skip the gate.''
           in if required \<noteq> []
              then \<lparr>jd_passed = False, jd_reason =
                ''Coverage gate failed -- CONFIGURATION ISSUE, not a defect in this task: gates.coverage.min is set but '' @ noSignal @
                '' Do not change the project's coverage tooling for this task; the operator must fix the kshetra configuration.'',
                jd_noSignal = True\<rparr>
              else \<lparr>jd_passed = True, jd_reason = ''coverage command passed, but '' @ noSignal, jd_noSignal = True\<rparr>)
      | Some s \<Rightarrow>
          (let shortfalls = List.map_filter (\<lambda>(k, m). shortfall s k m) required
           in if shortfalls \<noteq> []
              then \<lparr>jd_passed = False, jd_reason = ''Coverage gate failed -- '' @ joined ''; '' shortfalls @ ''. Run '' @ quoted command @
                '' and add tests for the uncovered code.'', jd_noSignal = False\<rparr>
              else \<lparr>jd_passed = True, jd_reason = ''coverage '' @ formatCoverageSummary s, jd_noSignal = False\<rparr>))"

text \<open>What a coverage result must show, said once.\<close>

definition covers :: "coverage_result \<Rightarrow> coverage_summary option \<Rightarrow> bool" where
  "covers coverage least \<longleftrightarrow> cv_skipped coverage \<or>
     cv_passed coverage \<and> (\<forall>k \<in> set COVERAGE_METRICS. \<forall>m. Option.bind least (\<lambda>l. measured l k) = Some m \<longrightarrow>
       (\<exists>s v. cv_summary coverage = Some s \<and> measured s k = Some v \<and> \<not> dec_less v m))"

lemma shortfall_None: "shortfall s k m = None \<longleftrightarrow> (\<exists>v. measured s k = Some v \<and> \<not> dec_less v m)"
  by (auto simp: shortfall_def split: option.splits)

lemma judgeCoverage_covers: "jd_passed (judgeCoverage coverage least command) \<longleftrightarrow> covers coverage least"
proof -
  let ?req = "List.map_filter (\<lambda>k. map_option (Pair k) (Option.bind least (\<lambda>m. measured m k))) COVERAGE_METRICS"
  have nil: "?req = [] \<longleftrightarrow> (\<forall>k \<in> set COVERAGE_METRICS. Option.bind least (\<lambda>l. measured l k) = None)"
    by (simp add: map_filter_Nil)
  have req: "(k, m) \<in> set ?req \<longleftrightarrow> k \<in> set COVERAGE_METRICS \<and> Option.bind least (\<lambda>l. measured l k) = Some m" for k m
    unfolding set_map_filter by auto
  have short: "List.map_filter (\<lambda>(k, m). shortfall s k m) ?req = [] \<longleftrightarrow>
      (\<forall>k \<in> set COVERAGE_METRICS. \<forall>m. Option.bind least (\<lambda>l. measured l k) = Some m \<longrightarrow> (\<exists>v. measured s k = Some v \<and> \<not> dec_less v m))" for s
    unfolding map_filter_Nil[of _ ?req] shortfall_None[symmetric] using req by fastforce
  show ?thesis
    unfolding judgeCoverage_def covers_def Let_def
    by (cases "cv_skipped coverage"; cases "cv_passed coverage"; cases "cv_summary coverage") (auto simp: nil short)
qed

subsection \<open>Health and lint (health.ts, lint.ts)\<close>

record test_run =
  tr_passed :: bool
  tr_failCount :: int
  tr_raw :: string

record health_status =
  hs_green :: bool
  hs_failCount :: int
  hs_baseline :: int
  hs_sha :: string

definition runTestSuite :: "stack_config \<Rightarrow> ran \<Rightarrow> (string \<Rightarrow> int) \<Rightarrow> test_run" where
  "runTestSuite sk exec parseFailCount = (case splitCommand (resolveTestCommand sk) of
       [] \<Rightarrow> \<lparr>tr_passed = True, tr_failCount = 0, tr_raw = ''(no test command configured -- test gate skipped)''\<rparr>
     | cmd \<Rightarrow> (case exec cmd of
         (True, raw) \<Rightarrow> \<lparr>tr_passed = True, tr_failCount = 0, tr_raw = raw\<rparr>
       | (False, raw) \<Rightarrow> \<lparr>tr_passed = False, tr_failCount = parseFailCount raw, tr_raw = raw\<rparr>))"

definition computeStatus :: "test_run \<Rightarrow> int \<Rightarrow> string \<Rightarrow> health_status" where
  "computeStatus r baseline sha = \<lparr>hs_green = (tr_passed r \<or> 0 \<le> tr_failCount r \<and> tr_failCount r \<le> baseline),
     hs_failCount = (if tr_passed r then 0 else tr_failCount r), hs_baseline = baseline, hs_sha = sha\<rparr>"

text \<open>The cache, per repository path; \<open>suite\<close> is the run of the suite at a commit.\<close>

type_synonym health_cache = "(string \<times> health_status) list"

definition invalidateHealth :: "string \<Rightarrow> health_cache \<Rightarrow> health_cache" where
  "invalidateHealth path cache = filter (\<lambda>e. fst e \<noteq> path) cache"

definition measureHealth :: "string \<Rightarrow> string \<Rightarrow> int \<Rightarrow> test_run \<Rightarrow> health_cache \<Rightarrow> health_status \<times> health_cache" where
  "measureHealth path sha baseline r cache =
     (let status = computeStatus r baseline sha in (status, (path, status) # invalidateHealth path cache))"

definition checkHealth :: "string \<Rightarrow> string \<Rightarrow> int \<Rightarrow> test_run \<Rightarrow> health_cache \<Rightarrow> health_status \<times> health_cache" where
  "checkHealth path sha baseline r cache = (case map_of cache path of
       Some st \<Rightarrow> if hs_sha st = sha \<and> hs_baseline st = baseline then (st, cache) else measureHealth path sha baseline r cache
     | None \<Rightarrow> measureHealth path sha baseline r cache)"

definition HEALTH_BEAD_PREFIX :: string where
  "HEALTH_BEAD_PREFIX = ''[shreni-health]''"

definition isHealthBead :: "string \<Rightarrow> bool" where
  "isHealthBead title \<longleftrightarrow> take (length HEALTH_BEAD_PREFIX) title = HEALTH_BEAD_PREFIX"

text \<open>A cached verdict is the verdict of the commit it is asked for, when a commit's suite runs alike each time.\<close>

definition true_cache :: "(string \<Rightarrow> string \<Rightarrow> test_run) \<Rightarrow> health_cache \<Rightarrow> bool" where
  "true_cache suite cache \<longleftrightarrow> (\<forall>(path, st) \<in> set cache. st = computeStatus (suite path (hs_sha st)) (hs_baseline st) (hs_sha st))"

lemma computeStatus_fields [simp]:
  "hs_sha (computeStatus r b sha) = sha" "hs_baseline (computeStatus r b sha) = b"
  by (simp_all add: computeStatus_def)

lemma measureHealth_true:
  "true_cache suite cache \<Longrightarrow> measureHealth path sha b (suite path sha) cache = (st, cache') \<Longrightarrow>
   st = computeStatus (suite path sha) b sha \<and> true_cache suite cache'"
  by (auto simp: measureHealth_def true_cache_def invalidateHealth_def Let_def)

lemma checkHealth_true:
  assumes "true_cache suite cache" and "checkHealth path sha b (suite path sha) cache = (st, cache')"
  shows "st = computeStatus (suite path sha) b sha \<and> true_cache suite cache'"
  using assms measureHealth_true[OF assms(1)]
  by (auto simp: checkHealth_def true_cache_def split: option.splits if_splits dest!: map_of_SomeD)

record lint_result =
  lr_passed :: bool
  lr_skipped :: bool
  lr_raw :: string

definition runLintGate :: "stack_config \<Rightarrow> ran \<Rightarrow> lint_result" where
  "runLintGate sk exec = (case splitCommand (resolveLintCommand sk) of
       [] \<Rightarrow> \<lparr>lr_passed = True, lr_skipped = True, lr_raw = ''(no lint command configured -- lint gate skipped)''\<rparr>
     | cmd \<Rightarrow> (case exec cmd of (zero, raw) \<Rightarrow> \<lparr>lr_passed = zero, lr_skipped = False, lr_raw = raw\<rparr>))"

subsection \<open>The gates\<close>

datatype gate_level = Block | Warn
datatype gate_name = TestGate | LintGate | CoverageGate | DiffSizeGate

record gate_result =
  gr_gate :: gate_name
  gr_level :: gate_level
  gr_passed :: bool
  gr_skipped :: bool
  gr_reason :: string
  gr_durationMs :: int
  gr_ablations :: "ablation_key list option"
  gr_coverage :: "coverage_summary option"

record gates_outcome =
  go_passed :: bool
  go_blockers :: "gate_result list"
  go_warnings :: "gate_result list"
  go_results :: "gate_result list"

record diff_size =
  ds_files :: nat
  ds_lines :: nat

record gates_config =
  gc_test :: gate_level
  gc_lint :: gate_level
  gc_coverage :: gate_level
  gc_coverageMin :: "coverage_summary option"
  gc_diffSize :: gate_level
  gc_maxFiles :: nat
  gc_maxLines :: nat

fun configured :: "gates_config \<Rightarrow> gate_name \<Rightarrow> gate_level" where
  "configured cfg TestGate = gc_test cfg"
| "configured cfg LintGate = gc_lint cfg"
| "configured cfg CoverageGate = gc_coverage cfg"
| "configured cfg DiffSizeGate = gc_diffSize cfg"

definition effectiveLevel :: "gate_name \<Rightarrow> gate_level \<Rightarrow> bool \<Rightarrow> gate_level" where
  "effectiveLevel g lvl enforcementAblated =
     (if enforcementAblated then Warn else if g = TestGate \<or> g = LintGate then Block else lvl)"

record timings =
  tm_healthMs :: "int option"
  tm_lintMs :: "int option"
  tm_coverageMs :: int
  tm_diffSizeMs :: int

definition diffOk :: "gates_config \<Rightarrow> diff_size option \<Rightarrow> bool" where
  "diffOk cfg d = (case d of None \<Rightarrow> True | Some x \<Rightarrow> ds_files x \<le> gc_maxFiles cfg \<and> ds_lines x \<le> gc_maxLines cfg)"

definition show_int :: "int \<Rightarrow> string" where
  "show_int i = (if i < 0 then ''-'' @ show_nat (nat (- i)) else show_nat (nat i))"

definition gateResults ::
  "gates_config \<Rightarrow> stack_config \<Rightarrow> bool \<Rightarrow> health_status \<Rightarrow> lint_result \<Rightarrow> coverage_result \<Rightarrow> diff_size option \<Rightarrow> timings \<Rightarrow> gate_result list" where
  "gateResults cfg sk enf health lint coverage diff tm =
     (let verdict = judgeCoverage coverage (gc_coverageMin cfg) (resolveCoverageCommand sk);
          failCountLabel = (if 0 \<le> hs_failCount health then show_int (hs_failCount health) @ '' failing'' else ''fail count unknown'')
      in [\<lparr>gr_gate = TestGate, gr_level = effectiveLevel TestGate (gc_test cfg) enf, gr_passed = hs_green health, gr_skipped = False,
            gr_reason = (if hs_green health then ''tests green''
              else ''Test gate failed ('' @ failCountLabel @ '', accepted baseline '' @ show_int (hs_baseline health) @ '') -- run '' @
                quoted (resolveTestCommand sk) @ '' and fix the failures.''),
            gr_durationMs = (case tm_healthMs tm of None \<Rightarrow> 0 | Some ms \<Rightarrow> ms), gr_ablations = None, gr_coverage = None\<rparr>,
          \<lparr>gr_gate = LintGate, gr_level = effectiveLevel LintGate (gc_lint cfg) enf, gr_passed = lr_passed lint, gr_skipped = lr_skipped lint,
            gr_reason = (if lr_passed lint then (if lr_skipped lint then ''lint skipped (no command configured)'' else ''lint clean'')
              else ''Lint gate failed -- run '' @ quoted (resolveLintCommand sk) @ '' and fix the reported problems.''),
            gr_durationMs = (case tm_lintMs tm of None \<Rightarrow> 0 | Some ms \<Rightarrow> ms), gr_ablations = None, gr_coverage = None\<rparr>,
          \<lparr>gr_gate = CoverageGate, gr_level = effectiveLevel CoverageGate (gc_coverage cfg) enf, gr_passed = jd_passed verdict,
            gr_skipped = cv_skipped coverage, gr_reason = jd_reason verdict, gr_durationMs = tm_coverageMs tm, gr_ablations = None,
            gr_coverage = cv_summary coverage\<rparr>,
          \<lparr>gr_gate = DiffSizeGate, gr_level = effectiveLevel DiffSizeGate (gc_diffSize cfg) enf, gr_passed = diffOk cfg diff,
            gr_skipped = (diff = None),
            gr_reason = (case diff of None \<Rightarrow> ''diff size skipped (could not measure)''
              | Some d \<Rightarrow> if diffOk cfg diff then ''diff size within limits''
                  else ''Diff size gate failed -- '' @ show_nat (ds_files d) @ '' files / '' @ show_nat (ds_lines d) @
                    '' changed lines exceeds the limit ('' @ show_nat (gc_maxFiles cfg) @ '' files / '' @ show_nat (gc_maxLines cfg) @
                    '' lines). Reduce the diff to the minimal change for this task; split unrelated work out.''),
            gr_durationMs = tm_diffSizeMs tm, gr_ablations = None, gr_coverage = None\<rparr>])"

text \<open>The mark of a failure that would have blocked, but for the ablation.\<close>

definition markAblated :: "gates_config \<Rightarrow> gate_result \<Rightarrow> gate_result" where
  "markAblated cfg r =
     (if \<not> gr_passed r \<and> \<not> gr_skipped r \<and> effectiveLevel (gr_gate r) (configured cfg (gr_gate r)) False = Block
      then r\<lparr>gr_ablations := Some [EnforcementOff]\<rparr> else r)"

definition evaluateGates ::
  "gates_config \<Rightarrow> stack_config \<Rightarrow> ablation_config option \<Rightarrow> health_status \<Rightarrow> lint_result \<Rightarrow> coverage_result \<Rightarrow> diff_size option \<Rightarrow> timings \<Rightarrow> gates_outcome" where
  "evaluateGates cfg sk ablation health lint coverage diff tm =
     (let enf = isAblated ablation EnforcementOff;
          rs = gateResults cfg sk enf health lint coverage diff tm;
          results = (if enf then map (markAblated cfg) rs else rs);
          failing = filter (\<lambda>r. \<not> gr_passed r) results;
          blockers = filter (\<lambda>r. gr_level r = Block) failing;
          warnings = filter (\<lambda>r. gr_level r = Warn) failing
      in \<lparr>go_passed = (blockers = []), go_blockers = blockers, go_warnings = warnings, go_results = results\<rparr>)"

lemma markAblated_fields [simp]:
  "gr_gate (markAblated cfg r) = gr_gate r" "gr_level (markAblated cfg r) = gr_level r"
  "gr_passed (markAblated cfg r) = gr_passed r" "gr_skipped (markAblated cfg r) = gr_skipped r"
  "gr_reason (markAblated cfg r) = gr_reason r"
  by (simp_all add: markAblated_def)

end
