(* ===== verification/Dispatch.thy ===== *)
theory Dispatch
  imports Followup Gates
begin

text \<open>
  The rounds a worker spends on a claimed task (src/sthapathi/dispatch.ts): Silpi works on the task's branch, the
  branch guard (guard.ts) and the gates judge what it left, Viharapala reviews it, and only then it is merged or a
  pull request is opened. The repair loop of a red suite is the second of the two. What the agents answer, what git and
  the commands show in each round, and whether the run has been aborted, are arguments; everything the loop does is
  a list of effects in order, and any of them but a log entry may throw, which ends the run: these loops catch nothing. An
  effect that throws may have done its work, a merge whose push went through for one: Merge says how far it got.
\<close>

subsection \<open>The branch guard (guard.ts)\<close>

record branch_guard =
  bg_branch :: string
  bg_mainSha :: string

text \<open>Why the work tree is not where the agent was put, if so: HEAD's branch and main's commit are given.\<close>

definition assertOnBranch :: "branch_guard \<Rightarrow> string \<Rightarrow> string \<Rightarrow> string option" where
  "assertOnBranch g head mainSha =
     (let offBranch = (head \<noteq> bg_branch g); mainMoved = (mainSha \<noteq> bg_mainSha g) in
      if \<not> offBranch \<and> \<not> mainMoved then None
      else Some (if offBranch
        then ''HEAD is on '' @ [CHR 0x22] @ head @ [CHR 0x22] @ '', expected bead branch '' @ [CHR 0x22] @ bg_branch g @ [CHR 0x22]
        else ''main moved from '' @ take 8 (bg_mainSha g) @ '' to '' @ take 8 mainSha @ '' outside the squash-merge flow''))"

datatype git_step = Checkout string | ForceBranch string string

definition recoverOffBranch :: "branch_guard \<Rightarrow> string \<Rightarrow> string \<Rightarrow> string \<Rightarrow> git_step list \<times> string option" where
  "recoverOffBranch g mainBranch task strayMain =
     (if strayMain = bg_mainSha g then ([Checkout (bg_branch g)], None)
      else let salvage = ''shreni-salvage/'' @ task
        in ([Checkout (bg_branch g), ForceBranch salvage strayMain, ForceBranch mainBranch (bg_mainSha g)], Some salvage))"

text \<open>No commit is lost: a main that strayed is on the salvage branch before main is put back.\<close>

definition run_git :: "git_step list \<Rightarrow> (string \<Rightarrow> string option) \<Rightarrow> string \<Rightarrow> (string \<Rightarrow> string option) \<times> string" where
  "run_git steps refs head = foldl (\<lambda>(refs, head) s. case s of Checkout b \<Rightarrow> (refs, b) | ForceBranch b sha \<Rightarrow> (refs(b \<mapsto> sha), head)) (refs, head) steps"

lemma recovered:
  assumes "recoverOffBranch g mainBranch task stray = (steps, salvage)" and "refs mainBranch = Some stray"
    and "mainBranch \<noteq> ''shreni-salvage/'' @ task" and "run_git steps refs head = (refs', head')"
  shows "head' = bg_branch g \<and> refs' mainBranch = Some (bg_mainSha g) \<and>
    (stray \<noteq> bg_mainSha g \<longrightarrow> (\<exists>b. salvage = Some b \<and> refs' b = Some stray))"
  using assms by (auto simp: recoverOffBranch_def run_git_def Let_def split: if_splits)

subsection \<open>What a run does\<close>

datatype ledger_verdict = VPass | VFail | VWarn | VSkip

definition gateLedgerVerdict :: "gate_result \<Rightarrow> ledger_verdict" where
  "gateLedgerVerdict g = (if gr_skipped g then VSkip else if gr_passed g then VPass
     else if gr_level g = Block then VFail else VWarn)"

datatype run_event =
    TaskClaimed
  | RoundStart nat string
  | SilpiDone nat silpi_output bool bool \<comment> \<open>lint and tests as the gates found them\<close>
  | GateResultEvent nat gate_name ledger_verdict int "ablation_key list option" "coverage_summary option"
  | ReviewAblated nat
  | ViharapalaDone nat viharapala_output
  | TaskDone bool nat

text \<open>What is done around the agents' answers and only looked at.\<close>

datatype work_step = CreateTaskBranch | CaptureGuard | BuildContext nat | CheckBranch nat | MeasureHealth nat | RunLintGate nat | EvaluateGates nat

datatype run_effect =
    Log run_event
  | Doing work_step
  | Progress
  | NoteOn string
  | Remember string
  | Blocked string
  | Git git_step
  | Accept
  | SquashMerge silpi_output
  | OpenPr silpi_output viharapala_output
  | SetBaseline int

record round_inputs =
  ri_head :: string
  ri_mainSha :: string
  ri_health :: health_status
  ri_lint :: lint_result
  ri_coverage :: coverage_result
  ri_diff :: "diff_size option"
  ri_timings :: timings

record 'e crew =
  cw_silpi :: "nat \<Rightarrow> viharapala_output option \<Rightarrow> 'e + silpi_output"
  cw_review :: "nat \<Rightarrow> silpi_output \<Rightarrow> 'e + viharapala_output"
  cw_inputs :: "nat \<Rightarrow> round_inputs"
  cw_aborted :: "nat \<Rightarrow> bool"
  cw_abortedLate :: "nat \<Rightarrow> bool"
  cw_abortError :: 'e
  cw_fails :: "run_effect list \<Rightarrow> run_effect \<Rightarrow> 'e option"

datatype merge_policy = PushPolicy | PrPolicy

text \<open>The environment's override of the merge policy.\<close>

definition resolveMergePolicy :: "string option \<Rightarrow> merge_policy option \<Rightarrow> merge_policy" where
  "resolveMergePolicy env cfgd = (if env = Some ''pr'' then PrPolicy else if env = Some ''push'' then PushPolicy
     else case cfgd of Some p \<Rightarrow> p | None \<Rightarrow> PushPolicy)"

record run_config =
  rc_maxRounds :: nat
  rc_gates :: gates_config
  rc_stack :: stack_config
  rc_ablation :: "ablation_config option"
  rc_policy :: merge_policy
  rc_mainBranch :: string
  rc_task :: string

datatype reject_source = ByTests | ByReviewer

type_synonym outcome = "bool \<times> string"

text \<open>
  A run as it goes: effects in order, the first that throws the last. Emitting an event never throws, since a sink's failure is its own
  (events.ts).
\<close>

definition thrown :: "'e crew \<Rightarrow> run_effect list \<Rightarrow> run_effect \<Rightarrow> 'e option" where
  "thrown cw did e = (case e of Log x \<Rightarrow> None | _ \<Rightarrow> cw_fails cw did e)"

fun performed :: "'e crew \<Rightarrow> run_effect list \<Rightarrow> run_effect list \<Rightarrow> 'e + outcome \<Rightarrow> run_effect list \<times> ('e + outcome)" where
  "performed cw did [] res = (did, res)"
| "performed cw did (e # es) res = (case thrown cw did e of Some err \<Rightarrow> (did @ [e], Inl err) | None \<Rightarrow> performed cw (did @ [e]) es res)"

fun verdict_text :: "review_verdict \<Rightarrow> string" where
  "verdict_text APPROVE = ''APPROVE''"
| "verdict_text REJECT = ''REJECT''"

fun gate_text :: "gate_name \<Rightarrow> string" where
  "gate_text TestGate = ''test''"
| "gate_text LintGate = ''lint''"
| "gate_text CoverageGate = ''coverage''"
| "gate_text DiffSizeGate = ''diffSize''"

definition rejection :: "string list \<Rightarrow> viharapala_output" where
  "rejection must = \<lparr>vo_verdict = REJECT, vo_overallScore = 0, vo_mustFix = must, vo_suggestions = [], vo_issues = [], vo_insights = []\<rparr>"

definition ablatedReview :: viharapala_output where
  "ablatedReview = \<lparr>vo_verdict = APPROVE, vo_overallScore = 0, vo_mustFix = [],
     vo_suggestions = [''Merged WITHOUT Viharapala review (ablation: review)''], vo_issues = [], vo_insights = []\<rparr>"

definition guardAfterAgent :: "run_config \<Rightarrow> branch_guard \<Rightarrow> nat \<Rightarrow> round_inputs \<Rightarrow> (run_effect list \<times> outcome) option" where
  "guardAfterAgent cfg g n ri = (case assertOnBranch g (ri_head ri) (ri_mainSha ri) of
       None \<Rightarrow> None
     | Some why \<Rightarrow> (case recoverOffBranch g (rc_mainBranch cfg) (rc_task cfg) (ri_mainSha ri) of (steps, salvage) \<Rightarrow>
         let salvageNote = (case salvage of None \<Rightarrow> '''' | Some b \<Rightarrow> '' Stray commits preserved on '' @ [CHR 0x22] @ b @ [CHR 0x22] @ ''.'')
         in Some (map Git steps @ [Log (TaskDone False n),
              Blocked (''Aborted round '' @ show_nat n @ '': agent left the bead branch -- '' @ why @ ''. main restored to origin.'' @
                salvageNote @ '' Investigate manually.'')],
            False, ''Aborted: off-branch ('' @ ri_head ri @ '')'')))"

text \<open>How the round's work lands: the acceptance is recorded first.\<close>

definition lands :: "run_config \<Rightarrow> silpi_output \<Rightarrow> viharapala_output \<Rightarrow> run_effect list" where
  "lands cfg out review = [Accept, case rc_policy cfg of PrPolicy \<Rightarrow> OpenPr out review | PushPolicy \<Rightarrow> SquashMerge out]"

datatype 'e round_end =
    Ended "run_effect list" "'e + outcome"
  | Again "run_effect list" viharapala_output reject_source

definition gatesOf :: "run_config \<Rightarrow> round_inputs \<Rightarrow> gates_outcome" where
  "gatesOf cfg ri = evaluateGates (rc_gates cfg) (rc_stack cfg) (rc_ablation cfg) (ri_health ri) (ri_lint ri) (ri_coverage ri)
     (ri_diff ri) (ri_timings ri)"

definition gateEvents :: "nat \<Rightarrow> gates_outcome \<Rightarrow> run_effect list" where
  "gateEvents n gates = map (\<lambda>g. Log (GateResultEvent n (gr_gate g) (gateLedgerVerdict g) (gr_durationMs g) (gr_ablations g) (gr_coverage g))) (go_results gates)"

text \<open>From the review on: the gates have passed.\<close>

definition reviewRound :: "run_config \<Rightarrow> 'e crew \<Rightarrow> nat \<Rightarrow> silpi_output \<Rightarrow> 'e round_end" where
  "reviewRound cfg cw n out =
     (let round = ''Round '' @ show_nat n in
      if isAblated (rc_ablation cfg) ReviewOff
      then if cw_abortedLate cw n then Ended [] (Inl (cw_abortError cw))
        else Ended ([NoteOn (round @ '': merged WITHOUT review (ablation: review)''), Log (ReviewAblated n), Log (TaskDone True n), Progress] @
            lands cfg out ablatedReview)
          (Inr (True, round @ (case rc_policy cfg of PrPolicy \<Rightarrow> '' -- review ablated, PR opened'' | PushPolicy \<Rightarrow> '' -- review ablated, merged'')))
      else let submitted = [NoteOn (round @ '': submitted for review'')] in
        if cw_abortedLate cw n then Ended submitted (Inl (cw_abortError cw))
        else let started = submitted @ [Log (RoundStart n ''viharapala'')] in
          (case cw_review cw n out of
             Inl e \<Rightarrow> Ended started (Inl e)
           | Inr v \<Rightarrow>
               let heard = started @ [Log (ViharapalaDone n v)] @ map Remember (vo_insights v) @
                     [NoteOn (round @ '': '' @ verdict_text (vo_verdict v))]
               in if vo_verdict v = APPROVE
                  then Ended (heard @ [Log (TaskDone True n), Progress] @ lands cfg out v)
                    (Inr (True, ''Approved round '' @ show_nat n @ (case rc_policy cfg of PrPolicy \<Rightarrow> '' -- PR opened, awaiting merge'' | PushPolicy \<Rightarrow> '''')))
                  else Again heard v ByReviewer))"

definition oneRound :: "run_config \<Rightarrow> 'e crew \<Rightarrow> branch_guard \<Rightarrow> nat \<Rightarrow> viharapala_output option \<Rightarrow> 'e round_end" where
  "oneRound cfg cw g n feedback =
     (if cw_aborted cw n then Ended [] (Inl (cw_abortError cw))
      else let started = [Log (RoundStart n ''silpi''), Doing (BuildContext n)] in
        case cw_silpi cw n feedback of
          Inl e \<Rightarrow> Ended started (Inl e)
        | Inr out \<Rightarrow>
          let ri = cw_inputs cw n; worked = started @ [Doing (CheckBranch n)] in
          (case guardAfterAgent cfg g n ri of
             Some (es, res) \<Rightarrow> Ended (worked @ es) (Inr res)
           | None \<Rightarrow>
             let gates = gatesOf cfg ri;
                 judged = worked @ map Doing [MeasureHealth n, RunLintGate n, EvaluateGates n] @ [Log (SilpiDone n out (lr_passed (ri_lint ri)) (hs_green (ri_health ri)))] @ gateEvents n gates @
                   map Remember (so_insights out) @
                   (if go_warnings gates = [] then []
                    else [NoteOn (''Round '' @ show_nat n @ '': gate warnings (non-blocking) -- '' @ joined '' | '' (map gr_reason (go_warnings gates)))])
             in if \<not> go_passed gates
                then Again (judged @ [NoteOn (''Round '' @ show_nat n @ '': gates failed ('' @
                         joined '', '' (map (gate_text \<circ> gr_gate) (go_blockers gates)) @ '')'')])
                       (rejection (map gr_reason (go_blockers gates))) ByTests
                else (case reviewRound cfg cw n out of
                    Ended es res \<Rightarrow> Ended (judged @ es) res
                  | Again es v src \<Rightarrow> Again (judged @ es) v src)))"

text \<open>The rounds from \<open>n + 1\<close> on, \<open>left\<close> of them; out of rounds, the task is blocked.\<close>

fun rounds ::
  "run_config \<Rightarrow> 'e crew \<Rightarrow> branch_guard \<Rightarrow> nat \<Rightarrow> nat \<Rightarrow> viharapala_output option \<Rightarrow> reject_source option \<Rightarrow> run_effect list \<times> ('e + outcome)" where
  "rounds cfg cw g 0 n feedback src =
     ([Log (TaskDone False n), Blocked (''Blocked after '' @ show_nat n @ '' rounds -- '' @
         (if src = Some ByTests then ''task's own tests/lint kept failing'' else ''Viharapala kept rejecting'') @ ''.'')],
      Inr (False, ''Blocked after '' @ show_nat n @ '' rounds ('' @
         (case src of None \<Rightarrow> ''unknown'' | Some ByTests \<Rightarrow> ''tests'' | Some ByReviewer \<Rightarrow> ''reviewer'') @ '')''))"
| "rounds cfg cw g (Suc left) n feedback src = (case oneRound cfg cw g (Suc n) feedback of
       Ended es res \<Rightarrow> (es, res)
     | Again es v src' \<Rightarrow> (case rounds cfg cw g left (Suc n) (Some v) (Some src') of (es', res) \<Rightarrow> (es @ es', res)))"

definition featureLoop :: "run_config \<Rightarrow> 'e crew \<Rightarrow> branch_guard \<Rightarrow> run_effect list \<times> ('e + outcome)" where
  "featureLoop cfg cw g = (case rounds cfg cw g (rc_maxRounds cfg) 0 None None of
     (es, res) \<Rightarrow> performed cw [] ([Log TaskClaimed, Progress, Doing CreateTaskBranch, Doing CaptureGuard] @ es) res)"

subsection \<open>The repair of a red suite\<close>

definition repairFeedback :: "int \<Rightarrow> bool \<Rightarrow> viharapala_output" where
  "repairFeedback failCount progress = (let label = (if 0 \<le> failCount then show_int failCount else ''some'') in
     rejection [if progress then label @ '' test(s) still failing -- keep fixing, do not touch unrelated code.''
       else ''Still '' @ label @ '' failing and no progress this round -- try a different approach; fix the tests, don't delete them.''])"

datatype 'e repair_end =
    Repaired "run_effect list" "'e + outcome"
  | Still "run_effect list" viharapala_output int

definition repairRound :: "run_config \<Rightarrow> 'e crew \<Rightarrow> branch_guard \<Rightarrow> nat \<Rightarrow> viharapala_output option \<Rightarrow> int \<Rightarrow> 'e repair_end" where
  "repairRound cfg cw g n feedback prev =
     (if cw_aborted cw n then Repaired [] (Inl (cw_abortError cw))
      else let started = [Log (RoundStart n ''silpi''), Doing (BuildContext n)] in
        case cw_silpi cw n feedback of
          Inl e \<Rightarrow> Repaired started (Inl e)
        | Inr out \<Rightarrow>
          let ri = cw_inputs cw n; worked = started @ map Remember (so_insights out) @ [Doing (CheckBranch n)] in
          (case guardAfterAgent cfg g n ri of
             Some (es, res) \<Rightarrow> Repaired (worked @ es) (Inr res)
           | None \<Rightarrow>
             let health = ri_health ri; round = ''Round '' @ show_nat n;
                 judged = worked @ [Doing (MeasureHealth n), Log (SilpiDone n out (so_lintPassed out) (hs_green health))]
             in if hs_green health
                then Repaired (judged @ [NoteOn (round @ '': suite green -- merging''), Log (TaskDone True n), Progress, Accept,
                    SquashMerge out, SetBaseline 0]) (Inr (True, ''Suite restored to green round '' @ show_nat n))
                else if 0 \<le> hs_failCount health \<and> hs_failCount health < prev
                then Still (judged @ [NoteOn (round @ '': progress '' @ show_int prev @ '' -> '' @ show_int (hs_failCount health) @ '' failing'')])
                  (repairFeedback (hs_failCount health) True) (hs_failCount health)
                else Still (judged @ [NoteOn (round @ '': no progress ('' @ show_int (hs_failCount health) @ '' failing)'')])
                  (repairFeedback (hs_failCount health) False) prev))"

text \<open>Out of rounds, what still fails is accepted as the baseline and the task is blocked.\<close>

fun repairs ::
  "run_config \<Rightarrow> 'e crew \<Rightarrow> branch_guard \<Rightarrow> nat \<Rightarrow> nat \<Rightarrow> viharapala_output option \<Rightarrow> int \<Rightarrow> run_effect list \<times> ('e + outcome)" where
  "repairs cfg cw g 0 n feedback prev =
     ([SetBaseline prev, Log (TaskDone False n), Blocked (''[needs-human] Could not restore green after '' @ show_nat n @ '' rounds -- '' @
         show_int prev @ '' failing test(s) quarantined as the accepted baseline. Investigate manually; feature work resumes against this baseline.'')],
      Inr (False, ''Quarantined '' @ show_int prev @ '' failing after '' @ show_nat n @ '' rounds''))"
| "repairs cfg cw g (Suc left) n feedback prev = (case repairRound cfg cw g (Suc n) feedback prev of
       Repaired es res \<Rightarrow> (es, res)
     | Still es v prev' \<Rightarrow> (case repairs cfg cw g left (Suc n) (Some v) prev' of (es', res) \<Rightarrow> (es @ es', res)))"

definition runHealthRepairLoop :: "run_config \<Rightarrow> 'e crew \<Rightarrow> branch_guard \<Rightarrow> int \<Rightarrow> run_effect list \<times> ('e + outcome)" where
  "runHealthRepairLoop cfg cw g failing = (case repairs cfg cw g (rc_maxRounds cfg) 0 None failing of
     (es, res) \<Rightarrow> performed cw [] ([Log TaskClaimed, Progress, Doing CreateTaskBranch, Doing CaptureGuard, Doing (MeasureHealth 0),
       NoteOn (''Repair start: '' @ show_int failing @ '' failing'')] @ es) res)"

text \<open>The loop of a claimed task; \<open>failing\<close> is the count measured before a repair.\<close>

definition runSilpiViharapalaLoop ::
  "run_config \<Rightarrow> string \<Rightarrow> 'e crew \<Rightarrow> branch_guard \<Rightarrow> int \<Rightarrow> run_effect list \<times> ('e + outcome)" where
  "runSilpiViharapalaLoop cfg title cw g failing =
     (if isHealthBead title then runHealthRepairLoop cfg cw g failing else featureLoop cfg cw g)"

subsection \<open>How a run ends\<close>

text \<open>Effects that decide nothing: no acceptance, no landing, no block, no new baseline.\<close>

fun idle :: "run_effect \<Rightarrow> bool" where
  "idle Accept \<longleftrightarrow> False"
| "idle (SquashMerge _) \<longleftrightarrow> False"
| "idle (OpenPr _ _) \<longleftrightarrow> False"
| "idle (Blocked _) \<longleftrightarrow> False"
| "idle (SetBaseline _) \<longleftrightarrow> False"
| "idle _ \<longleftrightarrow> True"

definition landed :: "run_config \<Rightarrow> 'e crew \<Rightarrow> branch_guard \<Rightarrow> nat \<Rightarrow> silpi_output \<Rightarrow> viharapala_output \<Rightarrow> bool" where
  "landed cfg cw g n out v \<longleftrightarrow>
     (\<exists>prior. cw_silpi cw n prior = Inr out) \<and> assertOnBranch g (ri_head (cw_inputs cw n)) (ri_mainSha (cw_inputs cw n)) = None \<and>
     go_passed (gatesOf cfg (cw_inputs cw n)) \<and>
     (if isAblated (rc_ablation cfg) ReviewOff then v = ablatedReview else cw_review cw n out = Inr v \<and> vo_verdict v = APPROVE)"

inductive ends_well :: "run_config \<Rightarrow> 'e crew \<Rightarrow> branch_guard \<Rightarrow> nat \<Rightarrow> nat \<Rightarrow> run_effect list \<Rightarrow> 'e + outcome \<Rightarrow> bool"
  for cfg cw g lo hi where
  fails: "list_all idle es \<Longrightarrow> ends_well cfg cw g lo hi es (Inl e)"
| lands: "list_all idle pre \<Longrightarrow> lo < n \<Longrightarrow> n \<le> hi \<Longrightarrow> landed cfg cw g n out v \<Longrightarrow>
    ends_well cfg cw g lo hi (pre @ lands cfg out v) (Inr (True, t))"
| blocks: "list_all idle pre \<Longrightarrow> ends_well cfg cw g lo hi (pre @ [Blocked why]) (Inr (False, t))"

inductive_cases ends_wellE: "ends_well cfg cw g lo hi es res"

text \<open>A run does all it set out to, or stops at the first effect that throws.\<close>

lemma performed_cases:
  "performed cw did es res = (did @ es, res) \<or>
   (\<exists>k err. k < length es \<and> performed cw did es res = (did @ take (Suc k) es, Inl err) \<and> thrown cw (did @ take k es) (es ! k) = Some err)"
proof (induction es arbitrary: did)
  case (Cons e es)
  show ?case
  proof (cases "thrown cw did e")
    case None
    then have "performed cw did (e # es) res = performed cw (did @ [e]) es res" by simp
    then show ?thesis using Cons[of "did @ [e]"]
    proof (elim disjE exE conjE)
      fix k err assume "k < length es" "performed cw (did @ [e]) es res = ((did @ [e]) @ take (Suc k) es, Inl err)"
        "thrown cw ((did @ [e]) @ take k es) (es ! k) = Some err" "performed cw did (e # es) res = performed cw (did @ [e]) es res"
      then show ?thesis by (intro disjI2 exI[of _ "Suc k"] exI[of _ err]) simp
    qed simp
  next
    case (Some err)
    then show ?thesis by (intro disjI2 exI[of _ 0] exI[of _ err]) simp
  qed
qed simp

lemma idle_maps [simp]:
  "list_all idle (map Doing ws)" "list_all idle (map Remember xs)" "list_all idle (gateEvents n gates)" "list_all idle (map Git steps)"
  by (simp_all add: list_all_iff gateEvents_def)

lemma ends_well_prefix:
  assumes "ends_well cfg cw g lo hi es res" and "list_all idle pre"
  shows "ends_well cfg cw g lo hi (pre @ es) res"
  using assms(1)
proof cases
  case (fails e)
  then show ?thesis using assms(2) by (auto intro: ends_well.fails)
next
  case (lands p n out v t)
  then show ?thesis using assms(2) ends_well.lands[of "pre @ p"] by simp
next
  case (blocks p why t)
  then show ?thesis using assms(2) ends_well.blocks[of "pre @ p"] by simp
qed

lemma ends_well_Cons: "ends_well cfg cw g lo hi es res \<Longrightarrow> idle e \<Longrightarrow> ends_well cfg cw g lo hi (e # es) res"
  using ends_well_prefix[of cfg cw g lo hi es res "[e]"] by simp

lemma ends_well_lands:
  "lo < n \<Longrightarrow> n \<le> hi \<Longrightarrow> landed cfg cw g n out v \<Longrightarrow> ends_well cfg cw g lo hi (lands cfg out v) (Inr (True, t))"
  using ends_well.lands[of "[]"] by simp

lemmas ends_well_intros = ends_well.fails ends_well_Cons ends_well_prefix ends_well_lands

lemma ends_well_mono:
  assumes "ends_well cfg cw g lo hi es res" and "lo' \<le> lo" and "hi \<le> hi'"
  shows "ends_well cfg cw g lo' hi' es res"
  using assms(1)
proof cases
  case (lands pre n out v t)
  then show ?thesis using assms(2,3) ends_well.lands[of pre lo' n hi'] by (meson le_less_trans le_trans)
qed (auto intro: ends_well.intros)

lemma guardAfterAgent_None:
  "guardAfterAgent cfg g n ri = None \<longleftrightarrow> assertOnBranch g (ri_head ri) (ri_mainSha ri) = None"
  by (auto simp: guardAfterAgent_def Let_def split: option.splits prod.splits)

lemma guardAfterAgent_Some:
  "guardAfterAgent cfg g n ri = Some (es, res) \<Longrightarrow>
   \<exists>steps why t. es = (map Git steps @ [Log (TaskDone False n)]) @ [Blocked why] \<and> res = (False, t)"
  by (auto simp: guardAfterAgent_def Let_def split: option.splits prod.splits)

lemma guardAfterAgent_ends: "guardAfterAgent cfg g n ri = Some (es, res) \<Longrightarrow> ends_well cfg cw g lo hi es (Inr res)"
  by (auto dest!: guardAfterAgent_Some simp del: append_assoc intro!: ends_well.blocks)

text \<open>A round that ends the run ends it well; one that does not has only idle effects.\<close>

lemma reviewRound_Ended:
  assumes "reviewRound cfg cw n out = Ended es res" and "cw_silpi cw n prior = Inr out" and "go_passed (gatesOf cfg (cw_inputs cw n))"
    and "assertOnBranch g (ri_head (cw_inputs cw n)) (ri_mainSha (cw_inputs cw n)) = None" and "lo < n" and "n \<le> hi"
  shows "ends_well cfg cw g lo hi es res"
proof -
  have fits: "landed cfg cw g n out v" if "if isAblated (rc_ablation cfg) ReviewOff then v = ablatedReview else cw_review cw n out = Inr v \<and> vo_verdict v = APPROVE" for v
    using that assms(2-4) unfolding landed_def by blast
  show ?thesis
    using assms(1,5,6) fits
    by (auto simp: reviewRound_def Let_def intro!: ends_well_intros split: if_splits sum.splits)
qed

lemma reviewRound_Again: "reviewRound cfg cw n out = Again es v src \<Longrightarrow> list_all idle es"
  by (auto simp: reviewRound_def Let_def split: if_splits sum.splits)

lemma oneRound_Ended:
  assumes "oneRound cfg cw g n feedback = Ended es res" and "lo < n" and "n \<le> hi"
  shows "ends_well cfg cw g lo hi es res"
  using assms
  by (auto simp: oneRound_def Let_def guardAfterAgent_None split: if_splits sum.splits option.splits round_end.splits
      intro!: ends_well_intros intro: guardAfterAgent_ends reviewRound_Ended)

lemma oneRound_Again: "oneRound cfg cw g n feedback = Again es v src \<Longrightarrow> list_all idle es"
  by (auto simp: oneRound_def Let_def split: if_splits sum.splits option.splits round_end.splits dest: reviewRound_Again)

lemma rounds_end: "rounds cfg cw g left n feedback src = (es, res) \<Longrightarrow> ends_well cfg cw g n (n + left) es res"
proof (induction left arbitrary: n feedback src es res)
  case 0
  then show ?case using ends_well.blocks[of "[Log (TaskDone False n)]"] by auto
next
  case (Suc left)
  show ?case
  proof (cases "oneRound cfg cw g (Suc n) feedback")
    case (Ended es1 res1)
    then show ?thesis using Suc.prems oneRound_Ended[OF Ended, of n "n + Suc left"] by simp
  next
    case (Again es1 v src1)
    then obtain es2 where es: "es = es1 @ es2" and "rounds cfg cw g left (Suc n) (Some v) (Some src1) = (es2, res)"
      using Suc.prems by (auto split: prod.splits)
    then show ?thesis
      using ends_well_prefix[OF ends_well_mono[OF Suc.IH, of "Suc n"]] oneRound_Again[OF Again] by auto
  qed
qed

text \<open>How a repair ends; \<open>count\<close> is what was measured in a round.\<close>

abbreviation count :: "'e crew \<Rightarrow> nat \<Rightarrow> int" where
  "count cw n \<equiv> hs_failCount (ri_health (cw_inputs cw n))"

inductive repair_ends :: "run_config \<Rightarrow> 'e crew \<Rightarrow> branch_guard \<Rightarrow> nat \<Rightarrow> nat \<Rightarrow> int \<Rightarrow> run_effect list \<Rightarrow> 'e + outcome \<Rightarrow> bool"
  for cfg cw g lo hi prev where
  fails: "list_all idle es \<Longrightarrow> repair_ends cfg cw g lo hi prev es (Inl e)"
| leaves: "list_all idle pre \<Longrightarrow> repair_ends cfg cw g lo hi prev (pre @ [Blocked why]) (Inr (False, t))"
| greens: "list_all idle pre \<Longrightarrow> lo < n \<Longrightarrow> n \<le> hi \<Longrightarrow> cw_silpi cw n prior = Inr out \<Longrightarrow>
    assertOnBranch g (ri_head (cw_inputs cw n)) (ri_mainSha (cw_inputs cw n)) = None \<Longrightarrow> hs_green (ri_health (cw_inputs cw n)) \<Longrightarrow>
    repair_ends cfg cw g lo hi prev (pre @ [Accept, SquashMerge out, SetBaseline 0]) (Inr (True, t))"
| stalls: "list_all idle pre \<Longrightarrow> b = prev \<or> 0 \<le> b \<and> b < prev \<and> (\<exists>n. lo < n \<and> n \<le> hi \<and> count cw n = b) \<Longrightarrow>
    \<forall>n. lo < n \<and> n \<le> hi \<longrightarrow> \<not> hs_green (ri_health (cw_inputs cw n)) \<and> \<not> (0 \<le> count cw n \<and> count cw n < b) \<Longrightarrow>
    repair_ends cfg cw g lo hi prev (pre @ [SetBaseline b, Log (TaskDone False hi), Blocked why]) (Inr (False, t))"

lemma repairRound_Repaired:
  assumes "repairRound cfg cw g n feedback prev = Repaired es res" and "lo < n" and "n \<le> hi"
  shows "repair_ends cfg cw g lo hi prev es res"
proof (cases "\<exists>out. \<not> cw_aborted cw n \<and> cw_silpi cw n feedback = Inr out")
  case False
  then show ?thesis
    using assms(1) by (auto simp: repairRound_def Let_def intro!: repair_ends.fails split: if_splits sum.splits)
next
  case True
  then obtain out where out: "\<not> cw_aborted cw n" "cw_silpi cw n feedback = Inr out" by blast
  let ?pre = "Log (RoundStart n ''silpi'') # Doing (BuildContext n) # map Remember (so_insights out) @ [Doing (CheckBranch n)]"
  show ?thesis
  proof (cases "guardAfterAgent cfg g n (cw_inputs cw n)")
    case (Some r)
    obtain es1 res1 where r: "r = (es1, res1)" by (cases r)
    from guardAfterAgent_Some[OF Some[unfolded r]] obtain p why t where
      "es1 = p @ [Blocked why]" "res1 = (False, t)" "list_all idle p"
      by fastforce
    moreover have "es = ?pre @ es1" "res = Inr res1"
      using assms(1) out Some r by (auto simp: repairRound_def Let_def)
    ultimately show ?thesis using repair_ends.leaves[of "?pre @ p"] by simp
  next
    case None
    then have green: "hs_green (ri_health (cw_inputs cw n))"
      using assms(1) out by (auto simp: repairRound_def Let_def split: if_splits)
    obtain p t where "es = p @ [Accept, SquashMerge out, SetBaseline 0]" "list_all idle p" "res = Inr (True, t)"
      using assms(1) out None green by (auto simp: repairRound_def Let_def)
    then show ?thesis using repair_ends.greens[of p lo n hi cw feedback] out(2) None green assms(2,3) by (simp add: guardAfterAgent_None)
  qed
qed

lemma repairRound_Still:
  assumes "repairRound cfg cw g n feedback prev = Still es v prev'"
  shows "list_all idle es \<and> \<not> hs_green (ri_health (cw_inputs cw n)) \<and>
    prev' = (if 0 \<le> count cw n \<and> count cw n < prev then count cw n else prev)"
  using assms by (auto simp: repairRound_def Let_def split: if_splits sum.splits option.splits)

lemma repair_ends_step:
  assumes "repair_ends cfg cw g (Suc n) hi prev' es res" and "list_all idle es1" and "Suc n \<le> hi"
    and red: "\<not> hs_green (ri_health (cw_inputs cw (Suc n)))"
    and prev': "prev' = (if 0 \<le> count cw (Suc n) \<and> count cw (Suc n) < prev then count cw (Suc n) else prev)"
  shows "repair_ends cfg cw g n hi prev (es1 @ es) res"
  using assms(1)
proof cases
  case (fails e)
  then show ?thesis using assms(2) by (auto intro: repair_ends.fails)
next
  case (leaves pre why t)
  then show ?thesis using assms(2) repair_ends.leaves[of "es1 @ pre"] by simp
next
  case (greens pre m prior out t)
  then show ?thesis using assms(2) repair_ends.greens[of "es1 @ pre" n m] by simp
next
  case (stalls pre b why t)
  have all: "\<not> hs_green (ri_health (cw_inputs cw m)) \<and> \<not> (0 \<le> count cw m \<and> count cw m < b)" if "n < m" "m \<le> hi" for m
    using that stalls(4,5) red prev' by (cases "m = Suc n") (auto split: if_splits)
  have b: "b = prev \<or> 0 \<le> b \<and> b < prev \<and> (\<exists>m. n < m \<and> m \<le> hi \<and> count cw m = b)"
    using stalls(4) prev' assms(3) by (auto split: if_splits intro: Suc_lessD)
  show ?thesis
    unfolding stalls(1,2) append_assoc[symmetric] by (rule repair_ends.stalls) (use assms(2) stalls(3) all b in auto)
qed

lemma repairs_end: "repairs cfg cw g left n feedback prev = (es, res) \<Longrightarrow> repair_ends cfg cw g n (n + left) prev es res"
proof (induction left arbitrary: n feedback prev es res)
  case 0
  then show ?case using repair_ends.stalls[of "[]" prev prev n n cw] by auto
next
  case (Suc left)
  show ?case
  proof (cases "repairRound cfg cw g (Suc n) feedback prev")
    case (Repaired es1 res1)
    then show ?thesis using Suc.prems repairRound_Repaired[OF Repaired, of n "n + Suc left"] by simp
  next
    case (Still es1 v prev')
    then obtain es2 where es: "es = es1 @ es2" and "repairs cfg cw g left (Suc n) (Some v) prev' = (es2, res)"
      using Suc.prems by (auto split: prod.splits)
    then show ?thesis
      using repair_ends_step[OF Suc.IH[of "Suc n"]] repairRound_Still[OF Still] by simp
  qed
qed

end
