(* ===== verification/RoundProperties.thy ===== *)
theory RoundProperties
  imports Dispatch
begin

text \<open>
  The properties of a worker's rounds: its gates are exactly the configured ones, nothing merges that they and the
  reviewer did not pass, and what the repair of a red suite leaves behind.
\<close>

lemma gates_pass_iff:
  "go_passed (evaluateGates cfg sk ablation health lint coverage diff tm) \<longleftrightarrow>
     isAblated ablation EnforcementOff \<or> hs_green health \<and> lr_passed lint \<and>
       (gc_coverage cfg = Block \<longrightarrow> covers coverage (gc_coverageMin cfg)) \<and> (gc_diffSize cfg = Block \<longrightarrow> diffOk cfg diff)"
proof (cases "isAblated ablation EnforcementOff")
  case True
  have "gr_level r = Warn" if "r \<in> set (gateResults cfg sk True health lint coverage diff tm)" for r
    using that by (auto simp: gateResults_def Let_def effectiveLevel_def)
  then show ?thesis using True by (auto simp: evaluateGates_def Let_def filter_empty_conv)
next
  case False
  then have "go_passed (evaluateGates cfg sk ablation health lint coverage diff tm) \<longleftrightarrow>
      (\<forall>r \<in> set (gateResults cfg sk False health lint coverage diff tm). gr_passed r \<or> gr_level r \<noteq> Block)"
    by (auto simp: evaluateGates_def Let_def filter_empty_conv)
  then show ?thesis using False by (simp add: gateResults_def Let_def judgeCoverage_covers effectiveLevel_def) blast
qed

text \<open>
  C22: The gates, exactly. A round passes them if and only if enforcement is ablated, or its tests are
  green, its lint passed, its coverage is as required when coverage blocks, and its diff is within the limits when
  the size of the diff blocks: no configuration softens tests or lint. Every failure is a blocker or a warning,
  never both and never lost, and a failure the ablation let through is marked exactly when it would have blocked.
\<close>

theorem gates_exact:
  "(let enf = isAblated ablation EnforcementOff; out = evaluateGates cfg sk ablation health lint coverage diff tm in
    (go_passed out \<longleftrightarrow> enf \<or> hs_green health \<and> lr_passed lint \<and>
       (gc_coverage cfg = Block \<longrightarrow> covers coverage (gc_coverageMin cfg)) \<and> (gc_diffSize cfg = Block \<longrightarrow> diffOk cfg diff)) \<and>
    (\<forall>r. r \<in> set (go_results out) \<and> \<not> gr_passed r \<longleftrightarrow> r \<in> set (go_blockers out) \<or> r \<in> set (go_warnings out)) \<and>
    set (go_blockers out) \<inter> set (go_warnings out) = {} \<and>
    (\<forall>r \<in> set (go_results out). gr_ablations r = (if enf \<and> \<not> gr_passed r \<and> \<not> gr_skipped r \<and>
       effectiveLevel (gr_gate r) (configured cfg (gr_gate r)) False = Block then Some [EnforcementOff] else None)))"
proof -
  let ?rs = "\<lambda>enf. gateResults cfg sk enf health lint coverage diff tm"
  have warn: "gr_level r = Warn" if "r \<in> set (?rs True)" for r
    using that by (auto simp: gateResults_def Let_def effectiveLevel_def)
  have plain: "gr_ablations r = None" if "r \<in> set (?rs enf)" for r enf
    using that by (auto simp: gateResults_def Let_def)
  have levels: "gr_level r = Block \<or> gr_level r = Warn" for r :: gate_result by (cases "gr_level r") auto
  note rest = evaluateGates_def Let_def
  show ?thesis
    unfolding Let_def gates_pass_iff
    using warn plain levels by (cases "isAblated ablation EnforcementOff") (auto simp: rest markAblated_def)
qed

lemma gates_exact_witness:
  "let cfg = \<lparr>gc_test = Warn, gc_lint = Warn, gc_coverage = Warn, gc_coverageMin = None, gc_diffSize = Warn, gc_maxFiles = 1, gc_maxLines = 1\<rparr>;
     sk = \<lparr>sk_language = ''go'', sk_packageManager = None, sk_buildCommand = None, sk_testRunner = None, sk_lintCommand = None,
       sk_coverageCommand = None, sk_testFileGlobs = None, sk_vendorDirs = None\<rparr>;
     red = \<lparr>hs_green = False, hs_failCount = 2, hs_baseline = 0, hs_sha = ''abc''\<rparr>;
     lint = \<lparr>lr_passed = True, lr_skipped = False, lr_raw = ''''\<rparr>;
     cov = \<lparr>cv_passed = False, cv_skipped = False, cv_raw = '''', cv_summary = None\<rparr>;
     tm = \<lparr>tm_healthMs = None, tm_lintMs = None, tm_coverageMs = 0, tm_diffSizeMs = 0\<rparr>
   in \<not> go_passed (evaluateGates cfg sk None red lint cov (Some \<lparr>ds_files = 9, ds_lines = 9\<rparr>) tm) \<and>
      go_passed (evaluateGates cfg sk (Some [EnforcementOff]) red lint cov (Some \<lparr>ds_files = 9, ds_lines = 9\<rparr>) tm)"
  by (simp add: Let_def gates_exact[unfolded Let_def] isAblated_def)

text \<open>
  A run whose effects may throw: an idle beginning and a tail. It stops in the beginning, or at an effect of the tail, the
  last done; or it does it all, and no effect threw.
\<close>

lemma performed_tail:
  assumes i: "list_all idle pre" and p: "performed cw [] (pre @ tail) res = (es, res')"
  shows "(\<exists>e. list_all idle es \<and> res' = Inl e) \<or>
    (\<exists>k e. 0 < k \<and> k \<le> length tail \<and> es = pre @ take k tail \<and> res' = Inl e \<and> thrown cw (pre @ take (k - 1) tail) (tail ! (k - 1)) = Some e) \<or>
    es = pre @ tail \<and> res' = res"
proof -
  from performed_cases[of cw "[]" "pre @ tail" res] show ?thesis
  proof (elim disjE exE conjE)
    fix k e
    assume k: "k < length (pre @ tail)" "performed cw [] (pre @ tail) res = ([] @ take (Suc k) (pre @ tail), Inl e)"
      and t: "thrown cw ([] @ take k (pre @ tail)) ((pre @ tail) ! k) = Some e"
    have es: "es = take (Suc k) (pre @ tail)" "res' = Inl e" using k(2) p by simp_all
    show ?thesis
    proof (cases "k < length pre")
      case True
      then have "es = take (Suc k) pre" by (simp add: es(1))
      then have "list_all idle es" using i by (auto simp: list_all_iff dest: in_set_takeD)
      then show ?thesis using es(2) by blast
    next
      case False
      let ?j = "Suc (k - length pre)"
      have "es = pre @ take ?j tail" using False by (simp add: es(1) Suc_diff_le)
      moreover have "thrown cw (pre @ take (?j - 1) tail) (tail ! (?j - 1)) = Some e" using False t by (simp add: nth_append)
      ultimately show ?thesis using es(2) False k(1) by (intro disjI2 disjI1 exI[of _ ?j] exI[of _ e]) auto
    qed
  qed (use p in simp)
qed

text \<open>
  C31: Nothing lands that was not gated and reviewed. Whatever the agents answer and whatever throws, a run of the rounds of a
  task does nothing that decides but this, as its last acts: it blocks its task, once, and reports no approval; or it records the
  acceptance of one output and then lands it, and reports approval: the output Silpi gave in one of the
  rounds within the budget, with HEAD still on the task's branch and main where it was, whose tests were green, lint clean
  and blocking gates passed (unless enforcement is ablated), and which Viharapala approved in that same round (unless the
  review is ablated). A run that fails stops at the act that threw: before any of these, or at the block, the acceptance or
  the landing, which may have reached main before it threw, but only with such an output.
\<close>

theorem nothing_lands_ungated:
  assumes "featureLoop cfg cw g = (es, res)"
  shows "\<exists>pre tail k. list_all idle pre \<and> es = pre @ take k tail \<and>
     (tail = [] \<or> (\<exists>why. tail = [Blocked why]) \<or>
      (\<exists>n out v. 0 < n \<and> n \<le> rc_maxRounds cfg \<and>
        tail = [Accept, case rc_policy cfg of PrPolicy \<Rightarrow> OpenPr out v | PushPolicy \<Rightarrow> SquashMerge out] \<and>
        (\<exists>prior. cw_silpi cw n prior = Inr out) \<and> ri_head (cw_inputs cw n) = bg_branch g \<and> ri_mainSha (cw_inputs cw n) = bg_mainSha g \<and>
        (isAblated (rc_ablation cfg) EnforcementOff \<or> hs_green (ri_health (cw_inputs cw n)) \<and> lr_passed (ri_lint (cw_inputs cw n)) \<and>
          (gc_coverage (rc_gates cfg) = Block \<longrightarrow> covers (ri_coverage (cw_inputs cw n)) (gc_coverageMin (rc_gates cfg))) \<and>
          (gc_diffSize (rc_gates cfg) = Block \<longrightarrow> diffOk (rc_gates cfg) (ri_diff (cw_inputs cw n)))) \<and>
        (isAblated (rc_ablation cfg) ReviewOff \<or> cw_review cw n out = Inr v \<and> vo_verdict v = APPROVE))) \<and>
     (case res of
        Inl e \<Rightarrow> tail = [] \<or> 0 < k \<and> k \<le> length tail \<and> thrown cw (pre @ take (k - 1) tail) (tail ! (k - 1)) = Some e
      | Inr (ok, _) \<Rightarrow> k = length tail \<and> tail \<noteq> [] \<and> (ok \<longleftrightarrow> hd tail = Accept))"
    (is "\<exists>pre tail k. ?idle pre \<and> ?es pre tail k \<and> ?tail tail \<and> ?res pre tail k")
proof -
  let ?start = "[Log TaskClaimed, Progress, Doing CreateTaskBranch, Doing CaptureGuard]"
  obtain es1 res1 where run: "rounds cfg cw g (rc_maxRounds cfg) 0 None None = (es1, res1)"
    and p: "performed cw [] (?start @ es1) res1 = (es, res)"
    using assms by (auto simp: featureLoop_def split: prod.splits)
  have branch: "assertOnBranch g h m = None \<longleftrightarrow> h = bg_branch g \<and> m = bg_mainSha g" for h m
    by (simp add: assertOnBranch_def Let_def)
  have "ends_well cfg cw g 0 (rc_maxRounds cfg) (?start @ es1) res1"
    by (rule ends_well_prefix[OF rounds_end[OF run], unfolded add_0]) simp
  then have "\<exists>pre tail. ?start @ es1 = pre @ tail \<and> list_all idle pre \<and> ?tail tail \<and>
      (case res1 of Inl e \<Rightarrow> tail = [] | Inr (ok, _) \<Rightarrow> tail \<noteq> [] \<and> (ok \<longleftrightarrow> hd tail = Accept))"
  proof cases
    case (fails e)
    then show ?thesis by (intro exI[of _ "?start @ es1"] exI[of _ "[]"]) simp
  next
    case (lands pre n out v t)
    then show ?thesis
      by (intro exI[of _ pre] exI[of _ "lands cfg out v"]) (auto simp: lands_def landed_def branch gatesOf_def gates_pass_iff split: if_splits)
  next
    case (blocks pre why t)
    then show ?thesis by (intro exI[of _ pre] exI[of _ "[Blocked why]"]) simp
  qed
  then obtain pre tail where t: "?start @ es1 = pre @ tail" "list_all idle pre" "?tail tail"
      "case res1 of Inl e \<Rightarrow> tail = [] | Inr (ok, _) \<Rightarrow> tail \<noteq> [] \<and> (ok \<longleftrightarrow> hd tail = Accept)" by (elim exE conjE)
  from performed_tail[OF t(2) p[unfolded t(1)]] show ?thesis
  proof (elim disjE exE conjE)
    fix e assume "list_all idle es" "res = Inl e"
    then show ?thesis by (intro exI[of _ es] exI[of _ "[]"] exI[of _ 0]) simp
  next
    fix k e assume "0 < k" "k \<le> length tail" "es = pre @ take k tail" "res = Inl e" "thrown cw (pre @ take (k - 1) tail) (tail ! (k - 1)) = Some e"
    then show ?thesis by (intro exI[of _ pre] exI[of _ tail] exI[of _ k] conjI t(2,3)) simp_all
  next
    assume "es = pre @ tail" "res = res1"
    then show ?thesis using t(4) by (intro exI[of _ pre] exI[of _ tail] exI[of _ "length tail"] conjI t(2,3)) (auto split: sum.splits)
  qed
qed

lemma nothing_lands_ungated_witness:
  "let out = \<lparr>so_filesChanged = [], so_testFiles = [], so_summary = ''done'', so_confidenceScore = 9, so_questionsForReviewer = [],
       so_lintPassed = True, so_testsPassed = True, so_insights = [], so_commentResponses = None\<rparr>;
     verdict = \<lambda>n. (rejection [])\<lparr>vo_verdict := if n = (2::nat) then APPROVE else REJECT\<rparr>;
     inputs = \<lparr>ri_head = ''b'', ri_mainSha = ''m'', ri_health = \<lparr>hs_green = True, hs_failCount = 0, hs_baseline = 0, hs_sha = ''s''\<rparr>,
       ri_lint = \<lparr>lr_passed = True, lr_skipped = False, lr_raw = ''''\<rparr>,
       ri_coverage = \<lparr>cv_passed = True, cv_skipped = True, cv_raw = '''', cv_summary = None\<rparr>, ri_diff = None,
       ri_timings = \<lparr>tm_healthMs = None, tm_lintMs = None, tm_coverageMs = 0, tm_diffSizeMs = 0\<rparr>\<rparr>;
     cw = \<lparr>cw_silpi = \<lambda>n prior. Inr out, cw_review = \<lambda>n x. Inr (verdict n), cw_inputs = \<lambda>n. inputs, cw_aborted = \<lambda>n. False,
       cw_abortedLate = \<lambda>n. False, cw_abortError = ''aborted'', cw_fails = \<lambda>did e. None\<rparr>;
     cfg = \<lparr>rc_maxRounds = 3,
       rc_gates = \<lparr>gc_test = Block, gc_lint = Block, gc_coverage = Warn, gc_coverageMin = None, gc_diffSize = Warn, gc_maxFiles = 40, gc_maxLines = 1500\<rparr>,
       rc_stack = \<lparr>sk_language = ''go'', sk_packageManager = None, sk_buildCommand = None, sk_testRunner = None, sk_lintCommand = None,
         sk_coverageCommand = None, sk_testFileGlobs = None, sk_vendorDirs = None\<rparr>,
       rc_ablation = None, rc_policy = PushPolicy, rc_mainBranch = ''main'', rc_task = ''t-1''\<rparr>
   in last (fst (featureLoop cfg cw \<lparr>bg_branch = ''b'', bg_mainSha = ''m''\<rparr>)) \<in> {SquashMerge out, OpenPr out (verdict 2)}"
proof -
  have concrete: "last (fst r) = SquashMerge out" if run: "featureLoop cfg cw g = r" and push: "rc_policy cfg = PushPolicy"
    and out: "cw_silpi cw = (\<lambda>n prior. Inr out)" and ok: "case snd r of Inl _ \<Rightarrow> False | Inr (ok, t) \<Rightarrow> ok"
    for cfg and cw :: "string crew" and g r and out
  proof -
    obtain es t where r: "r = (es, Inr (True, t))" using ok by (cases r) (auto split: sum.splits)
    from nothing_lands_ungated[OF run[unfolded r]] push out show ?thesis by (auto simp: r split: if_splits)
  qed
  show ?thesis
    unfolding Let_def insert_iff by (rule disjI1, rule concrete[OF refl]) (simp_all, code_simp)
qed

text \<open>
  C32: What a repair of a red suite leaves. Whatever the agents answer and whatever throws, it does nothing that decides but this, as
  its last acts: it blocks its task because the agent left the branch; or, in a round within the budget whose suite
  is green up to the accepted baseline, it accepts and merges Silpi's output and then resets the baseline to zero; or, when no round
  is, it accepts as the new baseline the least count of failures seen from the start, and blocks. One that fails stops at the act
  that threw: a merge that throws, before or after it reached main, leaves the baseline as it was. When the count at the start
  could not be read, the baseline becomes negative in the last case, whatever the rounds achieve, and no red suite passes
  against it.
\<close>

theorem repair_leaves:
  assumes "runHealthRepairLoop cfg cw g failing = (es, res)"
  shows "(\<exists>pre tail k. list_all idle pre \<and> es = pre @ take k tail \<and>
     (tail = [] \<or> (\<exists>why. tail = [Blocked why]) \<or>
      (\<exists>n out prior. 0 < n \<and> n \<le> rc_maxRounds cfg \<and> cw_silpi cw n prior = Inr out \<and> hs_green (ri_health (cw_inputs cw n)) \<and>
         ri_head (cw_inputs cw n) = bg_branch g \<and> ri_mainSha (cw_inputs cw n) = bg_mainSha g \<and> tail = [Accept, SquashMerge out, SetBaseline 0]) \<or>
      (\<exists>b why. tail = [SetBaseline b, Log (TaskDone False (rc_maxRounds cfg)), Blocked why] \<and>
         (b = failing \<or> 0 \<le> b \<and> b < failing \<and> (\<exists>n. 0 < n \<and> n \<le> rc_maxRounds cfg \<and> count cw n = b)) \<and>
         (\<forall>n. 0 < n \<and> n \<le> rc_maxRounds cfg \<longrightarrow> \<not> hs_green (ri_health (cw_inputs cw n)) \<and> \<not> (0 \<le> count cw n \<and> count cw n < b)))) \<and>
     (case res of
        Inl e \<Rightarrow> tail = [] \<or> 0 < k \<and> k \<le> length tail \<and> thrown cw (pre @ take (k - 1) tail) (tail ! (k - 1)) = Some e
      | Inr (ok, _) \<Rightarrow> k = length tail \<and> tail \<noteq> [] \<and> (ok \<longleftrightarrow> hd tail = Accept))) \<and>
    (failing = -1 \<and> SetBaseline b \<in> set es \<and> b \<noteq> 0 \<longrightarrow> b = -1 \<and> (\<forall>r sha. hs_green (computeStatus r b sha) \<longleftrightarrow> tr_passed r))"
    (is "(\<exists>pre tail k. ?idle pre \<and> ?es pre tail k \<and> ?tail tail \<and> ?res pre tail k) \<and> ?last")
proof
  let ?start = "[Log TaskClaimed, Progress, Doing CreateTaskBranch, Doing CaptureGuard, Doing (MeasureHealth 0),
     NoteOn (''Repair start: '' @ show_int failing @ '' failing'')]"
  obtain es1 res1 where run: "repairs cfg cw g (rc_maxRounds cfg) 0 None failing = (es1, res1)"
    and p: "performed cw [] (?start @ es1) res1 = (es, res)"
    using assms by (auto simp: runHealthRepairLoop_def split: prod.splits)
  have branch: "assertOnBranch g h m = None \<longleftrightarrow> h = bg_branch g \<and> m = bg_mainSha g" for h m
    by (simp add: assertOnBranch_def Let_def)
  have "\<exists>pre tail. ?start @ es1 = pre @ tail \<and> list_all idle pre \<and> ?tail tail \<and>
      (case res1 of Inl e \<Rightarrow> tail = [] | Inr (ok, _) \<Rightarrow> tail \<noteq> [] \<and> (ok \<longleftrightarrow> hd tail = Accept))"
    using repairs_end[OF run, unfolded add_0]
  proof cases
    case (fails e)
    then show ?thesis by (intro exI[of _ "?start @ es1"] exI[of _ "[]"]) simp
  next
    case (leaves pre why t)
    then show ?thesis by (intro exI[of _ "?start @ pre"] exI[of _ "[Blocked why]"]) simp
  next
    case (greens pre n prior out t)
    then show ?thesis by (intro exI[of _ "?start @ pre"] exI[of _ "[Accept, SquashMerge out, SetBaseline 0]"]) (auto simp: branch)
  next
    case (stalls pre b' why t)
    have "?tail [SetBaseline b', Log (TaskDone False (rc_maxRounds cfg)), Blocked why]"
      by (rule disjI2, rule disjI2, rule disjI2, rule exI[of _ b'], rule exI[of _ why]) (use stalls(4,5) in simp)
    then show ?thesis using stalls(1-3)
      by (intro exI[of _ "?start @ pre"] exI[of _ "[SetBaseline b', Log (TaskDone False (rc_maxRounds cfg)), Blocked why]"] conjI) simp_all
  qed
  then obtain pre tail where t: "?start @ es1 = pre @ tail" "list_all idle pre" "?tail tail"
      "case res1 of Inl e \<Rightarrow> tail = [] | Inr (ok, _) \<Rightarrow> tail \<noteq> [] \<and> (ok \<longleftrightarrow> hd tail = Accept)" by (elim exE conjE)
  from performed_tail[OF t(2) p[unfolded t(1)]] show all: "\<exists>pre tail k. ?idle pre \<and> ?es pre tail k \<and> ?tail tail \<and> ?res pre tail k"
  proof (elim disjE exE conjE)
    fix e assume "list_all idle es" "res = Inl e"
    then show ?thesis by (intro exI[of _ es] exI[of _ "[]"] exI[of _ 0]) simp
  next
    fix k e assume "0 < k" "k \<le> length tail" "es = pre @ take k tail" "res = Inl e" "thrown cw (pre @ take (k - 1) tail) (tail ! (k - 1)) = Some e"
    then show ?thesis by (intro exI[of _ pre] exI[of _ tail] exI[of _ k] conjI t(2,3)) simp_all
  next
    assume "es = pre @ tail" "res = res1"
    then show ?thesis using t(4) by (intro exI[of _ pre] exI[of _ tail] exI[of _ "length tail"] conjI t(2,3)) (auto split: sum.splits)
  qed
  then obtain pre tail k where q: "list_all idle pre" "es = pre @ take k tail" "?tail tail"
    by (elim exE conjE)
  have none: "SetBaseline b \<notin> set pre" using q(1) by (auto simp: list_all_iff)
  have red: "hs_green (computeStatus r (-1) sha) \<longleftrightarrow> tr_passed r" for r sha unfolding computeStatus_def by auto
  show ?last
  proof (intro impI, elim conjE)
    assume f: "failing = -1" and s: "SetBaseline b \<in> set es" and b: "b \<noteq> 0"
    have "SetBaseline b \<in> set tail" using s none q(2) by (auto dest: in_set_takeD)
    then have "b = -1" using q(3) f b by auto
    then show "b = -1 \<and> (\<forall>r sha. hs_green (computeStatus r b sha) \<longleftrightarrow> tr_passed r)" using red by simp
  qed
qed

lemma repair_leaves_witness:
  "let out = \<lparr>so_filesChanged = [], so_testFiles = [], so_summary = ''done'', so_confidenceScore = 9, so_questionsForReviewer = [],
       so_lintPassed = True, so_testsPassed = True, so_insights = [], so_commentResponses = None\<rparr>;
     inputs = \<lambda>n. \<lparr>ri_head = ''b'', ri_mainSha = ''m'',
       ri_health = computeStatus \<lparr>tr_passed = False, tr_failCount = int n, tr_raw = ''''\<rparr> 0 ''s'',
       ri_lint = \<lparr>lr_passed = True, lr_skipped = False, lr_raw = ''''\<rparr>,
       ri_coverage = \<lparr>cv_passed = True, cv_skipped = True, cv_raw = '''', cv_summary = None\<rparr>, ri_diff = None,
       ri_timings = \<lparr>tm_healthMs = None, tm_lintMs = None, tm_coverageMs = 0, tm_diffSizeMs = 0\<rparr>\<rparr>;
     cw = \<lparr>cw_silpi = \<lambda>n prior. Inr out, cw_review = \<lambda>n x. Inl ''unused'', cw_inputs = inputs, cw_aborted = \<lambda>n. False,
       cw_abortedLate = \<lambda>n. False, cw_abortError = ''aborted'', cw_fails = \<lambda>did e. None\<rparr>;
     cfg = \<lparr>rc_maxRounds = 2,
       rc_gates = \<lparr>gc_test = Block, gc_lint = Block, gc_coverage = Warn, gc_coverageMin = None, gc_diffSize = Warn, gc_maxFiles = 40, gc_maxLines = 1500\<rparr>,
       rc_stack = \<lparr>sk_language = ''go'', sk_packageManager = None, sk_buildCommand = None, sk_testRunner = None, sk_lintCommand = None,
         sk_coverageCommand = None, sk_testFileGlobs = None, sk_vendorDirs = None\<rparr>,
       rc_ablation = None, rc_policy = PushPolicy, rc_mainBranch = ''main'', rc_task = ''t-1''\<rparr>;
     es = fst (runHealthRepairLoop cfg cw \<lparr>bg_branch = ''b'', bg_mainSha = ''m''\<rparr> (-1))
   in SetBaseline (-1) \<in> set es \<and> \<not> hs_green (computeStatus \<lparr>tr_passed = False, tr_failCount = 1, tr_raw = ''''\<rparr> (-1) ''s'')"
proof -
  have concrete: "SetBaseline (-1) \<in> set (fst (runHealthRepairLoop cfg cw g (-1))) \<and> \<not> hs_green (computeStatus r (-1) sha)"
    if "SetBaseline (-1) \<in> set (fst (runHealthRepairLoop cfg cw g (-1)))" and "\<not> tr_passed r"
    for cfg and cw :: "string crew" and g r sha
    using that repair_leaves[of cfg cw g "-1" _ _ "-1", OF prod.collapse[symmetric], THEN conjunct2] by simp
  show ?thesis
    unfolding Let_def by (rule concrete) code_simp+
qed

end
