(* ===== verification/Merge.thy ===== *)
theory Merge
  imports Reads Dispatch
begin

text \<open>
  How approved work lands (src/sthapathi/merge.ts): the squash merge, the pull request, and the reconciliation of
  open pull requests; the branch a task works on (branch.ts, the slug of pickup.ts) and the acceptance criteria a
  pull request shows (task-json.ts). Every call to git, GitHub or the task store may fail, as a function of the calls
  made before it; a failure is its message.
\<close>

subsection \<open>Branches and slugs (branch.ts, pickup.ts)\<close>

definition is_alnum :: "char \<Rightarrow> bool" where
  "is_alnum c \<longleftrightarrow> CHR ''a'' \<le> c \<and> c \<le> CHR ''z'' \<or> CHR ''0'' \<le> c \<and> c \<le> CHR ''9''"

text \<open>\<open>replace(/[^a-z0-9]+/g, '-')\<close>: each run of other characters is one dash.\<close>

fun dashed :: "bool \<Rightarrow> string \<Rightarrow> string" where
  "dashed gap [] = []"
| "dashed gap (c # cs) = (if is_alnum c then c # dashed False cs else if gap then dashed True cs else CHR ''-'' # dashed True cs)"

definition is_dash :: "char \<Rightarrow> bool" where
  "is_dash c \<longleftrightarrow> c = CHR ''-''"

definition toSlug :: "string \<Rightarrow> string" where
  "toSlug title = take 50 (rev (dropWhile is_dash (rev (dropWhile is_dash (dashed False (toLower title))))))"

definition branchName :: "string \<Rightarrow> string \<Rightarrow> string" where
  "branchName task slug = ''bead-'' @ task @ ''/'' @ slug"

lemma set_dashed: "c \<in> set (dashed gap s) \<Longrightarrow> is_alnum c \<or> c = CHR ''-''"
  by (induction gap s rule: dashed.induct) (auto split: if_splits)

lemma alnum_dashed: "is_alnum c \<Longrightarrow> c \<in> set (dashed gap s) \<longleftrightarrow> c \<in> set s"
  by (induction gap s rule: dashed.induct) (auto simp: is_alnum_def split: if_splits)

lemma hd_slug: "toSlug title \<noteq> '''' \<Longrightarrow> hd (toSlug title) \<noteq> CHR ''-''"
proof -
  let ?s = "dropWhile is_dash (dashed False (toLower title))"
  let ?r = "rev (dropWhile is_dash (rev ?s))"
  assume "toSlug title \<noteq> ''''"
  then have r: "?r \<noteq> []" and h: "hd (toSlug title) = hd ?r" by (auto simp: toSlug_def hd_take)
  have "?s = ?r @ rev (takeWhile is_dash (rev ?s))"
    by (metis rev_append rev_rev_ident takeWhile_dropWhile_id)
  then have "hd ?s = hd ?r" "?s \<noteq> []" using r by (metis hd_append2, metis append_is_Nil_conv)
  then show ?thesis using h hd_dropWhile[of is_dash "dashed False (toLower title)"] by (simp add: is_dash_def)
qed

lemma slug_Nil: "toSlug title = '''' \<longleftrightarrow> (\<forall>c \<in> set (toLower title). \<not> is_alnum c)"
proof -
  let ?x = "dashed False (toLower title)"
  have "toSlug title = '''' \<longleftrightarrow> (\<forall>c \<in> set (dropWhile is_dash ?x). is_dash c)" by (simp add: toSlug_def)
  also have "\<dots> \<longleftrightarrow> dropWhile is_dash ?x = []" by (metis dropWhile_all empty_iff empty_set)
  also have "\<dots> \<longleftrightarrow> (\<forall>c \<in> set ?x. is_dash c)" by simp
  also have "\<dots> \<longleftrightarrow> (\<forall>c \<in> set (toLower title). \<not> is_alnum c)"
  proof
    assume dashes: "\<forall>c \<in> set ?x. is_dash c"
    show "\<forall>c \<in> set (toLower title). \<not> is_alnum c"
    proof (rule ballI, rule notI)
      fix c assume "c \<in> set (toLower title)" and "is_alnum c"
      then have "is_dash c" using dashes alnum_dashed by blast
      with \<open>is_alnum c\<close> show False by (simp add: is_dash_def is_alnum_def)
    qed
  next
    assume none: "\<forall>c \<in> set (toLower title). \<not> is_alnum c"
    show "\<forall>c \<in> set ?x. is_dash c"
    proof (rule ballI)
      fix c assume "c \<in> set ?x"
      then show "is_dash c" using set_dashed[of c False "toLower title"] alnum_dashed[of c False "toLower title"] none by (auto simp: is_dash_def)
    qed
  qed
  finally show ?thesis .
qed

subsection \<open>Calls that may fail\<close>

datatype merge_call =
    BeforeMerge
  | GitCheckout string
  | GitMergeSquash string
  | GitCommit string
  | GitPush string
  | GitFetch string
  | GitRebase string
  | GitRebaseAbort
  | GitPullRebase string
  | MergeDone merge_policy "string option"
  | RefreshRepoMap
  | Parikshaka
  | Finish string
  | FlagTaskFor string
  | NoteTaskFor string
  | TaskMerged merge_policy
  | ClearAttemptsFor
  | DeleteBranch string
  | DeleteRemoteBranch string
  | PrCreate string string string string
  | DeferForPr string
  | DeclinePr string
  | NeedsFollowup
  | PauseManual string string
  | NotifyOf string

text \<open>The world answers a call with nothing, or the message it fails with.\<close>

type_synonym world = "merge_call list \<Rightarrow> merge_call \<Rightarrow> string option"
type_synonym 'a act = "merge_call list \<Rightarrow> (string + 'a) \<times> merge_call list"

definition call :: "world \<Rightarrow> merge_call \<Rightarrow> unit act" where
  "call w c es = (case w es c of None \<Rightarrow> Inr () | Some m \<Rightarrow> Inl m, es @ [c])"

definition noted :: "merge_call \<Rightarrow> unit act" where
  "noted c es = (Inr (), es @ [c])"

definition and_then :: "'a act \<Rightarrow> 'b act \<Rightarrow> 'b act" where
  "and_then f g es = (case f es of (Inl m, es') \<Rightarrow> (Inl m, es') | (Inr x, es') \<Rightarrow> g es')"

definition or_catch :: "'a act \<Rightarrow> (string \<Rightarrow> 'a act) \<Rightarrow> 'a act" where
  "or_catch f h es = (case f es of (Inl m, es') \<Rightarrow> h m es' | (Inr x, es') \<Rightarrow> (Inr x, es'))"

definition finished :: "unit act" where
  "finished es = (Inr (), es)"

definition throws :: "string \<Rightarrow> unit act" where
  "throws m es = (Inl m, es)"

fun in_turn :: "unit act list \<Rightarrow> unit act" where
  "in_turn [] = finished"
| "in_turn (f # fs) = and_then f (in_turn fs)"

subsection \<open>The squash merge\<close>

record merge_task =
  mt_id :: string
  mt_title :: string
  mt_slug :: string

definition buildCommitMessage :: "merge_task \<Rightarrow> silpi_output \<Rightarrow> string" where
  "buildCommitMessage t out = joined [CHR 0x0A]
     ([mt_title t @ '' ('' @ mt_id t @ '')'', '''', so_summary out, '''',
       ''Confidence: '' @ show_int (so_confidenceScore out) @ ''%'', ''Files changed: '' @ show_nat (length (so_filesChanged out))] @
      (if so_questionsForReviewer out = [] then []
       else ['''', ''Questions for reviewer:''] @ map (\<lambda>q. ''- '' @ q) (so_questionsForReviewer out)))"

definition branchOf :: "merge_task \<Rightarrow> string" where
  "branchOf t = branchName (mt_id t) (mt_slug t)"

definition merge_note :: "silpi_output \<Rightarrow> string" where
  "merge_note out = ''Merged: confidence='' @ show_int (so_confidenceScore out) @ '' files='' @ show_nat (length (so_filesChanged out)) @
     '' -- '' @ take 120 (so_summary out)"

text \<open>
  \<open>parikshaka\<close>: whether the post-merge test agent is entitled to run. The commit's hash is for the record
  only, and may be missing.
\<close>

definition squashMergeAndClose :: "world \<Rightarrow> string \<Rightarrow> merge_task \<Rightarrow> silpi_output \<Rightarrow> string option \<Rightarrow> bool \<Rightarrow> unit act" where
  "squashMergeAndClose w main t out sha parikshaka = in_turn [
     call w BeforeMerge,
     call w (GitCheckout main),
     call w (GitMergeSquash (branchOf t)),
     call w (GitCommit (buildCommitMessage t out)),
     call w (GitPush main),
     noted (MergeDone PushPolicy sha),
     noted RefreshRepoMap,
     (if parikshaka then noted Parikshaka else finished),
     or_catch (call w (Finish (merge_note out)))
       (\<lambda>m. call w (FlagTaskFor (''merged to '' @ main @ '' but finish failed: '' @ m @ ''. Check it and finish by hand.''))),
     noted (TaskMerged PushPolicy),
     call w ClearAttemptsFor,
     call w (DeleteBranch (branchOf t))]"

subsection \<open>The checked merge\<close>

text \<open>
  \<open>safeMerge\<close> and its helpers, which no other file of the program calls yet. \<open>ahead\<close>: the
  commits of the remote main the branch lacks; \<open>conflicts\<close>: the files \<open>git merge-tree\<close> reports.
\<close>

definition rebaseBranchOnMain :: "world \<Rightarrow> string \<Rightarrow> merge_task \<Rightarrow> string \<Rightarrow> unit act" where
  "rebaseBranchOnMain w main t branch = and_then (call w (NoteTaskFor ''main has new commits -- attempting rebase before merge''))
     (\<lambda>es. or_catch
       (in_turn [call w (GitCheckout branch), call w (GitRebase (''origin/'' @ main)), call w (GitCheckout main),
          call w (NoteTaskFor ''rebase onto main succeeded'')])
       (\<lambda>m. in_turn [call w GitRebaseAbort, call w (GitCheckout main), throws m]) es)"

definition safePush :: "world \<Rightarrow> string \<Rightarrow> unit act" where
  "safePush w main = or_catch (call w (GitPush main)) (\<lambda>m.
     if \<not> hasText m ''non-fast-forward'' then throws m
     else and_then (call w (NoteTaskFor ''push rejected (non-fast-forward) -- pull-rebase and retrying''))
       (or_catch (in_turn [call w (GitPullRebase main), call w (GitPush main)])
         (\<lambda>m'. throws (''Push failed after rebase retry: '' @ m'))))"

definition handleMergeConflict :: "world \<Rightarrow> string list \<Rightarrow> nat \<Rightarrow> nat \<Rightarrow> string list \<Rightarrow> unit act" where
  "handleMergeConflict w relatedFiles round maxRounds conflicts =
     (let outside = filter (\<lambda>f. f \<notin> set relatedFiles) conflicts; files = joined '', '' conflicts in
      if outside \<noteq> [] then in_turn [
        call w (FlagTaskFor (''Merge conflict in files outside task scope: '' @ joined '', '' outside @
          ''. Silpi may have drifted. Branch kept for inspection.'')),
        noted (PauseManual ''git_failed'' (''Out-of-scope conflict: '' @ joined '', '' outside)),
        noted (NotifyOf ''merge_conflict_out_of_scope'')]
      else if round < maxRounds then
        call w (NoteTaskFor (''Merge conflict in task files -- re-dispatching Silpi with conflict context. Conflicted: '' @ files))
      else in_turn [
        call w (FlagTaskFor (''Merge conflict after max rounds: '' @ files)),
        noted (PauseManual ''git_failed'' (''Unresolved merge conflict: '' @ files)),
        noted (NotifyOf ''merge_conflict'')])"

definition safeMerge ::
  "world \<Rightarrow> string \<Rightarrow> merge_task \<Rightarrow> string list \<Rightarrow> nat \<Rightarrow> nat \<Rightarrow> string \<Rightarrow> string list \<Rightarrow> string list \<Rightarrow> unit act" where
  "safeMerge w main t relatedFiles round maxRounds branch ahead conflicts = in_turn [
     call w (GitFetch main),
     (if ahead \<noteq> [] then rebaseBranchOnMain w main t branch else finished),
     (if conflicts \<noteq> [] then handleMergeConflict w relatedFiles round maxRounds conflicts
      else in_turn [call w (GitCheckout main), call w (GitMergeSquash branch),
        call w (GitCommit (''bead-'' @ mt_id t @ '': '' @ mt_title t)), safePush w main])]"

subsection \<open>The pull request\<close>

text \<open>\<open>details\<close>: the task JSON the tracker shows, parsed; nothing when it does not parse.\<close>

definition parseAcceptanceCriteria :: "json option \<Rightarrow> string \<Rightarrow> string" where
  "parseAcceptanceCriteria details i = (case details of
       Some (JArr items) \<Rightarrow>
         (case find (\<lambda>b. case b of JObj ms \<Rightarrow> map_of ms ''id'' = Some (JStr i) | _ \<Rightarrow> False) items of
            Some (JObj ms) \<Rightarrow> (case map_of ms ''acceptance_criteria'' of Some (JStr s) \<Rightarrow> trim s | _ \<Rightarrow> '''')
          | _ \<Rightarrow> '''')
     | _ \<Rightarrow> '''')"

definition buildPrBody :: "merge_task \<Rightarrow> silpi_output \<Rightarrow> viharapala_output \<Rightarrow> json option \<Rightarrow> string" where
  "buildPrBody t out v details = (let criteria = parseAcceptanceCriteria details (mt_id t) in joined [CHR 0x0A]
     ([buildCommitMessage t out, '''', ''## Acceptance criteria'', '''',
       (if criteria = '''' then ''_(no acceptance criteria recorded)_'' else criteria), '''',
       ''## Reviewer verdict'', '''', ''- Verdict: **'' @ verdict_text (vo_verdict v) @ ''**'',
       ''- Score: '' @ show_int (vo_overallScore v) @ ''/100''] @
      (if vo_mustFix v \<noteq> [] then ''- Must-fix:'' # map (\<lambda>x. ''  - '' @ x) (vo_mustFix v) else [''- Must-fix: none''])))"

text \<open>
  The number at the end of a pull request's address: \<open>/\/(\d+)(?:[/?#].*)?$/\<close>, whose \<open>.\<close>
  stops at a line break. As a decimal it is exact; the code's is up to 2^53.
\<close>

definition ends_number :: "string \<Rightarrow> bool" where
  "ends_number s \<longleftrightarrow> s = [] \<or> hd s \<in> {CHR ''/'', CHR ''?'', CHR 0x23} \<and> CHR 0x0A \<notin> set s \<and> CHR 0x0D \<notin> set s"

fun prNumber :: "string \<Rightarrow> nat option" where
  "prNumber [] = None"
| "prNumber (c # cs) = (let ds = takeWhile is_digit cs in
     if c = CHR ''/'' \<and> ds \<noteq> [] \<and> ends_number (dropWhile is_digit cs) then Some (decimal ds) else prNumber cs)"

text \<open>\<open>url\<close> is what GitHub answers the creation with.\<close>

definition openPrAndDefer ::
  "world \<Rightarrow> string \<Rightarrow> merge_task \<Rightarrow> silpi_output \<Rightarrow> viharapala_output \<Rightarrow> json option \<Rightarrow> string \<Rightarrow> unit act" where
  "openPrAndDefer w main t out v details url = in_turn [
     call w (GitPush (branchOf t)),
     call w (PrCreate main (branchOf t) (mt_title t @ '' ('' @ mt_id t @ '')'') (buildPrBody t out v details)),
     or_catch (call w (DeferForPr url))
       (\<lambda>m. call w (FlagTaskFor (''opened '' @ url @ '' but could not record it: '' @ m @ ''. Submit it by hand.''))),
     noted (MergeDone PrPolicy (map_option show_nat (prNumber url)))]"

subsection \<open>Reconciling open pull requests\<close>

datatype pr_state = PrOpen | PrMerged | PrClosed

text \<open>The follow-up's detection; \<open>status\<close> is the rich read, \<open>None\<close> when GitHub does not answer.\<close>

definition detectAndStampFollowup :: "world \<Rightarrow> followup_config \<Rightarrow> pr_status option \<Rightarrow> watermark \<Rightarrow> unit act" where
  "detectAndStampFollowup w fc status mark = (case status of
       None \<Rightarrow> finished
     | Some st \<Rightarrow> if st_state st \<noteq> ''OPEN'' then finished
         else if detected fc st mark = None then finished
         else call w NeedsFollowup)"

definition reconcileOne ::
  "world \<Rightarrow> string \<Rightarrow> bool \<Rightarrow> followup_config \<Rightarrow> merge_task \<Rightarrow> (pr_state \<times> string) option \<Rightarrow> pr_status option \<Rightarrow> watermark \<Rightarrow> unit act" where
  "reconcileOne w main followups fc t pr status mark = (case pr of
       None \<Rightarrow> finished
     | Some (PrOpen, url) \<Rightarrow> if followups then detectAndStampFollowup w fc status mark else finished
     | Some (PrMerged, url) \<Rightarrow> in_turn [
         or_catch (call w (Finish (''Merged via PR: '' @ url)))
           (\<lambda>m. call w (FlagTaskFor (''merged via PR '' @ url @ '' but finish failed: '' @ m @ ''. Check it and finish by hand.''))),
         noted (TaskMerged PrPolicy),
         call w ClearAttemptsFor,
         or_catch (call w (DeleteBranch (branchOf t))) (\<lambda>_. finished),
         or_catch (call w (DeleteRemoteBranch (branchOf t))) (\<lambda>_. finished)]
     | Some (PrClosed, url) \<Rightarrow>
         call w (DeclinePr (''PR closed without merging: '' @ url @ ''. The change did not land on '' @ main @ '' -- investigate manually.'')))"

text \<open>One task's failure does not hold up the rest.\<close>

definition reconcilePullRequests :: "unit act list \<Rightarrow> unit act" where
  "reconcilePullRequests waiting = in_turn (map (\<lambda>one. or_catch one (\<lambda>_. finished)) waiting)"

lemma reconcile_goes_on: "fst (reconcilePullRequests waiting es) = Inr ()"
  unfolding reconcilePullRequests_def
  by (induction waiting arbitrary: es)
    (auto simp: finished_def and_then_def or_catch_def split: sum.splits prod.splits)

subsection \<open>What a merge has done when it ends\<close>

lemma call_simps:
  "call w c es = (case w es c of None \<Rightarrow> Inr () | Some m \<Rightarrow> Inl m, es @ [c])"
  "noted c es = (Inr (), es @ [c])"
  by (simp_all add: call_def noted_def)

lemmas act_simps = and_then_def or_catch_def finished_def throws_def call_simps

text \<open>The calls that must succeed for the work to be on main.\<close>

definition landing :: "string \<Rightarrow> merge_task \<Rightarrow> silpi_output \<Rightarrow> merge_call list" where
  "landing main t out = [BeforeMerge, GitCheckout main, GitMergeSquash (branchOf t), GitCommit (buildCommitMessage t out), GitPush main]"

lemma in_turn_append: "in_turn (fs @ gs) = and_then (in_turn fs) (in_turn gs)"
  by (induction fs) (auto simp: and_then_def finished_def fun_eq_iff split: sum.splits prod.splits)

lemma in_turn_calls:
  "in_turn (map (call w) cs) es = (Inr (), es @ cs) \<or> (\<exists>m k. in_turn (map (call w) cs) es = (Inl m, es @ take (Suc k) cs) \<and> k < length cs)"
proof (induction cs arbitrary: es)
  case Nil
  show ?case by (simp add: finished_def)
next
  case (Cons c cs)
  show ?case
  proof (cases "w es c")
    case (Some m)
    then show ?thesis by (intro disjI2 exI[of _ m] exI[of _ 0]) (simp add: act_simps)
  next
    case None
    then show ?thesis
      using Cons[of "es @ [c]"] by (fastforce simp: act_simps)
  qed
qed

end
