(* ===== verification/Store.thy ===== *)
theory Store
  imports Policy Merge
begin

text \<open>
  The task store of the worker's merge, follow-up and agent paths (src/policy/sthapathi/task-store.ts), over the engine's
  model: each call of the store is engine calls and changes to Shreni's own rows, one transaction after another, so
  a later one that fails leaves the earlier ones in place. Working by hand (src/policy/task/by-hand.ts) is in ByHand.

  A call's result is its value or error together with the rows after it. The retries of an unavailable database are
  not here: a call either reaches it or not.
\<close>

subsection \<open>Calls, one transaction after another\<close>

type_synonym rows = "shreni_rows db"
type_synonym 'a run = "rows \<Rightarrow> (tg_error + 'a) \<times> rows"

definition andThen :: "'a run \<Rightarrow> ('a \<Rightarrow> 'b run) \<Rightarrow> 'b run" where
  "andThen f g db = (case f db of (Inl e, db') \<Rightarrow> (Inl e, db') | (Inr x, db') \<Rightarrow> g x db')"

definition orCatch :: "'a run \<Rightarrow> (tg_error \<Rightarrow> 'a run) \<Rightarrow> 'a run" where
  "orCatch f h db = (case f db of (Inl e, db') \<Rightarrow> h e db' | (Inr x, db') \<Rightarrow> (Inr x, db'))"

definition returns :: "'a \<Rightarrow> 'a run" where
  "returns x db = (Inr x, db)"

definition fails_with :: "tg_error \<Rightarrow> 'a run" where
  "fails_with e db = (Inl e, db)"

text \<open>A write of the engine: its rows when it succeeds, none changed when it is refused.\<close>

definition engine :: "(rows \<Rightarrow> tg_error + rows) \<Rightarrow> unit run" where
  "engine f db = (case f db of Inl e \<Rightarrow> (Inl e, db) | Inr db' \<Rightarrow> (Inr (), db'))"

definition reads :: "(rows \<Rightarrow> tg_error + 'a) \<Rightarrow> 'a run" where
  "reads f db = (f db, db)"

subsection \<open>Evidence\<close>

text \<open>The attempts of a task, newest first.\<close>

definition newestFirst :: "rows \<Rightarrow> string \<Rightarrow> attempt list" where
  "newestFirst db i = rev (sort_key (\<lambda>a. (a_startedAt a, a_id a)) (filter (\<lambda>a. a_taskId a = i) (d_attempts db)))"

text \<open>The attempt the task's evidence goes on: the live claim's, else the newest.\<close>

definition attemptFor :: "string option \<Rightarrow> rows \<Rightarrow> string \<Rightarrow> string option" where
  "attemptFor claim db i = (case claim of Some att \<Rightarrow> Some att
     | None \<Rightarrow> (case newestFirst db i of [] \<Rightarrow> None | a # _ \<Rightarrow> Some (a_id a)))"

fun members :: "json \<Rightarrow> (string \<times> json) list" where
  "members (JObj ms) = ms"
| "members _ = []"

text \<open>\<open>a || b\<close> on two objects.\<close>

definition jmerge :: "json \<Rightarrow> (string \<times> json) list \<Rightarrow> json" where
  "jmerge j ms = JObj (fold (\<lambda>(k, v). put_member k v) ms (members j))"

definition upsertEvidence :: "string \<Rightarrow> string option \<Rightarrow> (string \<times> json) list \<Rightarrow> evidence list \<Rightarrow> evidence list" where
  "upsertEvidence att url gates es = (case find_row ve_attemptId att es of
       None \<Rightarrow> es @ [\<lparr>ve_attemptId = att, ve_prUrl = url, ve_gates = JObj gates\<rparr>]
     | Some _ \<Rightarrow> upd_row ve_attemptId att
         (\<lambda>e. e\<lparr>ve_prUrl := (case url of Some u \<Rightarrow> Some u | None \<Rightarrow> ve_prUrl e), ve_gates := jmerge (ve_gates e) gates\<rparr>) es)"

definition putEvidence :: "string \<Rightarrow> string option \<Rightarrow> (string \<times> json) list \<Rightarrow> unit run" where
  "putEvidence att url gates db =
     (Inr (), db\<lparr>d_caller := (d_caller db)\<lparr>sr_evidence := upsertEvidence att url gates (sr_evidence (d_caller db))\<rparr>\<rparr>)"

text \<open>What the newest attempt that has it recorded.\<close>

definition lastOf :: "(evidence \<Rightarrow> 'a option) \<Rightarrow> rows \<Rightarrow> string \<Rightarrow> 'a option" where
  "lastOf f db i = (case List.map_filter (\<lambda>a. Option.bind (evidenceOf db (a_id a)) f) (newestFirst db i) of
     [] \<Rightarrow> None | x # _ \<Rightarrow> Some x)"

definition lastPr :: "rows \<Rightarrow> string \<Rightarrow> string option" where
  "lastPr = lastOf ve_prUrl"

definition present :: "json option \<Rightarrow> json option" where
  "present j = (if j = Some JNull then None else j)"

definition lastAcceptance :: "rows \<Rightarrow> string \<Rightarrow> json option" where
  "lastAcceptance db i = present (lastOf (\<lambda>e. jget ''acceptance'' (Some (ve_gates e))) db i)"

subsection \<open>Moves\<close>

definition reasoned :: "string \<Rightarrow> string \<Rightarrow> move_options" where
  "reasoned why req = \<lparr>mo_reason = Some why, mo_payload = [], mo_requestId = Some req, mo_dropDeps = False\<rparr>"

text \<open>A move fenced by the live claim when there is one, once per request id.\<close>

definition moveTask :: "actor \<Rightarrow> string option \<Rightarrow> string \<Rightarrow> string \<Rightarrow> string \<Rightarrow> string \<Rightarrow> unit run" where
  "moveTask a claim i nm why req = engine (\<lambda>db. rows_after (call_move taskLifecycle a i nm (reasoned why req) claim db db))"

definition LEASE_MS :: int where
  "LEASE_MS = 10 * 60000"

definition beforeMerge :: "actor \<Rightarrow> string option \<Rightarrow> string \<Rightarrow> unit run" where
  "beforeMerge a claim i = (case claim of None \<Rightarrow> returns ()
     | Some att \<Rightarrow> engine (\<lambda>db. rows_after (transaction (heartbeat taskLifecycle a i att LEASE_MS) db)))"

text \<open>Only work on main is finished: that it landed is recorded first.\<close>

definition finish :: "actor \<Rightarrow> string option \<Rightarrow> string \<Rightarrow> string \<Rightarrow> string \<Rightarrow> unit run" where
  "finish a claim i why req = andThen
     (\<lambda>db. case attemptFor claim db i of None \<Rightarrow> returns () db | Some att \<Rightarrow> putEvidence att None [(''landed'', JBool True)] db)
     (\<lambda>_. moveTask a claim i ''finish'' why req)"

definition deferForPr :: "actor \<Rightarrow> string option \<Rightarrow> string \<Rightarrow> string \<Rightarrow> string \<Rightarrow> unit run" where
  "deferForPr a claim i url req db = (case attemptFor claim db i of
       None \<Rightarrow> fails_with (Fatal (''taskgraph: '' @ i @ '' has no attempt to record its PR on'')) db
     | Some att \<Rightarrow> andThen (putEvidence att (Some url) []) (\<lambda>_. moveTask a claim i ''submit'' (''PR opened: '' @ url) req) db)"

definition waitingFilter :: task_filter where
  "waitingFilter = noFilter\<lparr>fl_states := Some [''waiting''], fl_orderBy := Some ByCreated\<rparr>"

definition listAwaitingMerge :: "merge_task list run" where
  "listAwaitingMerge = reads (\<lambda>db. bindE (tasks_list db waitingFilter)
     (\<lambda>ts. Inr (map (\<lambda>t. \<lparr>mt_id = t_id t, mt_title = t_title t, mt_slug = toSlug (t_title t)\<rparr>) ts)))"

definition prDeclined :: "actor \<Rightarrow> string option \<Rightarrow> string \<Rightarrow> string \<Rightarrow> string \<Rightarrow> unit run" where
  "prDeclined a claim i why req = moveTask a claim i ''flag'' why req"

definition needsFollowup :: "actor \<Rightarrow> string option \<Rightarrow> string \<Rightarrow> string \<Rightarrow> unit run" where
  "needsFollowup a claim i req = moveTask a claim i ''followUp'' ''the PR has unaddressed feedback'' req"

text \<open>The round's attempt takes the recorded PR, which hasOpenPr reads, and acceptance, which checksPassed reads later.\<close>

definition resubmit :: "actor \<Rightarrow> string option \<Rightarrow> string \<Rightarrow> string \<Rightarrow> string \<Rightarrow> unit run" where
  "resubmit a claim i why req = andThen
     (\<lambda>db. let pr = lastPr db i; acceptance = lastAcceptance db i in
        case attemptFor claim db i of None \<Rightarrow> returns () db
        | Some att \<Rightarrow> if (pr \<noteq> None \<and> pr \<noteq> Some '''') \<or> acceptance \<noteq> None
            then putEvidence att pr (case acceptance of None \<Rightarrow> [] | Some j \<Rightarrow> [(''acceptance'', j)]) db else returns () db)
     (\<lambda>_. moveTask a claim i ''submit'' why req)"

definition flag :: "actor \<Rightarrow> string option \<Rightarrow> string \<Rightarrow> string \<Rightarrow> string \<Rightarrow> unit run" where
  "flag a claim i why req = moveTask a claim i ''flag'' why req"

definition add_note :: "actor \<Rightarrow> string \<Rightarrow> string \<Rightarrow> unit run" where
  "add_note a i text = engine (\<lambda>db. rows_after (call_note_add taskLifecycle a i text None db db))"

text \<open>The watermark is a member of the gates; its three fields as JSON.\<close>

definition watermark_json :: "watermark \<Rightarrow> json" where
  "watermark_json m = JObj [(''head'', jopt (wm_head m)), (''round'', JNum (int (wm_round m))), (''at'', jopt (wm_at m))]"

fun text_of :: "json option \<Rightarrow> string option" where
  "text_of (Some (JStr s)) = Some s"
| "text_of _ = None"

fun count_of :: "json option \<Rightarrow> nat" where
  "count_of (Some (JNum n)) = nat n"
| "count_of _ = 0"

definition json_watermark :: "json \<Rightarrow> watermark" where
  "json_watermark j = \<lparr>wm_head = text_of (jget ''head'' (Some j)), wm_round = count_of (jget ''round'' (Some j)), wm_at = text_of (jget ''at'' (Some j))\<rparr>"

definition NO_WATERMARK :: watermark where
  "NO_WATERMARK = \<lparr>wm_head = None, wm_round = 0, wm_at = None\<rparr>"

definition readWatermark :: "rows \<Rightarrow> string \<Rightarrow> watermark" where
  "readWatermark db i = (case lastOf (\<lambda>e. jget ''prFollowup'' (Some (ve_gates e))) db i of None \<Rightarrow> NO_WATERMARK | Some j \<Rightarrow> json_watermark j)"

definition writeWatermark :: "string option \<Rightarrow> string \<Rightarrow> watermark \<Rightarrow> unit run" where
  "writeWatermark claim i m db = (case attemptFor claim db i of None \<Rightarrow> returns () db
     | Some att \<Rightarrow> putEvidence att None [(''prFollowup'', watermark_json m)] db)"

text \<open>Green gates and an approval pass the auto checks only; a manual check waits for the developer.\<close>

definition manualChecks :: "rows \<Rightarrow> string \<Rightarrow> acceptance_check list" where
  "manualChecks db i = filter (\<lambda>c. ck_projectId c = d_projectId db \<and> ck_taskId c = Some i \<and> ck_mode c = ''manual'') (sr_checks (d_caller db))"

definition recordAcceptance :: "string option \<Rightarrow> string \<Rightarrow> bool \<Rightarrow> unit run" where
  "recordAcceptance claim i passed db = (case attemptFor claim db i of None \<Rightarrow> returns () db
     | Some att \<Rightarrow> putEvidence att None [(''acceptance'', JObj [(''passed'', JBool (passed \<and> manualChecks db i = []))])] db)"

subsection \<open>Filing tasks\<close>

text \<open>A write of the engine that answers with a value.\<close>

definition answers :: "(rows \<Rightarrow> tg_error + ('a \<times> rows)) \<Rightarrow> 'a run" where
  "answers f db = (case f db of Inl e \<Rightarrow> (Inl e, db) | Inr (x, db') \<Rightarrow> (Inr x, db'))"

definition HEALTH_STATES :: "string list" where
  "HEALTH_STATES = [''proposed'', ''open'', ''claimed'', ''waiting'', ''blocked'', ''parked'']"

definition newTask :: "string \<Rightarrow> int \<Rightarrow> string list \<Rightarrow> string \<Rightarrow> new_task" where
  "newTask title priority tags key = \<lparr>nt_title = title, nt_description = None, nt_kind = None, nt_category = Some ''bug'',
     nt_priority = Some priority, nt_parent = None, nt_plan = None, nt_key = Some key, nt_spec = None,
     nt_tags = Some tags, nt_holdUntil = None\<rparr>"

text \<open>One repair task per red episode: an unclosed one is enough, and the episode's key files it once.\<close>

definition ensureHealthTask :: "actor \<Rightarrow> (nat \<Rightarrow> nat) \<Rightarrow> string \<Rightarrow> int \<Rightarrow> bool run" where
  "ensureHealthTask a rand title priority = andThen
     (reads (\<lambda>db. tasks_list db (noFilter\<lparr>fl_tags := Some [''shreni-health''], fl_states := Some HEALTH_STATES\<rparr>)))
     (\<lambda>unclosed. if unclosed \<noteq> [] then returns False
       else andThen (reads (\<lambda>db. tasks_count db (noFilter\<lparr>fl_tags := Some [''shreni-health'']\<rparr>)))
         (\<lambda>episode. let key = ''shreni-health:'' @ show_nat (episode + 1) in
           andThen (reads (\<lambda>db. tasks_list db (noFilter\<lparr>fl_key := Some key\<rparr>)))
             (\<lambda>before. andThen (answers (\<lambda>db. call_create taskLifecycle a (newTask title priority [''shreni-health''] key) rand (Some key) db db))
               (\<lambda>created. returns (\<not> (\<exists>t \<in> set before. t_id t = t_id created))))))"

record gap =
  gp_title :: string
  gp_description :: string
  gp_priority :: int
  gp_key :: string
  gp_sourceTaskId :: "string option"

datatype filed = Filed | Exists

definition filled :: "string option \<Rightarrow> string option" where
  "filled x = (if x = Some '''' then None else x)"

definition gapTask :: "gap \<Rightarrow> string option \<Rightarrow> new_task" where
  "gapTask g parent = (newTask (gp_title g) (gp_priority g) [''parikshaka''] (gp_key g))
     \<lparr>nt_description := Some (gp_description g), nt_parent := parent\<rparr>"

definition gap_link :: "actor \<Rightarrow> gap \<Rightarrow> string \<Rightarrow> unit run" where
  "gap_link a g i = (case filled (gp_sourceTaskId g) of None \<Rightarrow> returns ()
     | Some source \<Rightarrow> engine (\<lambda>db. rows_after (call_link_add taskLifecycle a i source ''discovered-from'' None db db)))"

text \<open>Under the source task's container while that is open, on its own once it has closed.\<close>

definition gap_parent :: "gap \<Rightarrow> string option run" where
  "gap_parent g = (case filled (gp_sourceTaskId g) of None \<Rightarrow> returns None
     | Some source \<Rightarrow> andThen (reads (\<lambda>db. tasks_get db source)) (\<lambda>(t, _, _).
         case filled (t_parentId t) of None \<Rightarrow> returns None
         | Some p \<Rightarrow> andThen (reads (\<lambda>db. tasks_get db p)) (\<lambda>(epic, _, _).
             returns (if t_state epic \<in> {''done'', ''cancelled''} then None else filled (Some (t_id epic))))))"

definition gap_create :: "actor \<Rightarrow> (nat \<Rightarrow> nat) \<Rightarrow> gap \<Rightarrow> string option \<Rightarrow> task run" where
  "gap_create a rand g parent = answers (\<lambda>db. call_create taskLifecycle a (gapTask g parent) rand None db db)"

text \<open>A container that closed since it was read: the gap is filed on its own.\<close>

definition fileGap :: "actor \<Rightarrow> (nat \<Rightarrow> nat) \<Rightarrow> (nat \<Rightarrow> nat) \<Rightarrow> gap \<Rightarrow> filed run" where
  "fileGap a rand rand' g = andThen (reads (\<lambda>db. tasks_list db (noFilter\<lparr>fl_key := Some (gp_key g)\<rparr>)))
     (\<lambda>found. case found of
         t # _ \<Rightarrow> andThen (gap_link a g (t_id t)) (\<lambda>_. returns Exists)
       | [] \<Rightarrow> andThen (gap_parent g) (\<lambda>parent.
           andThen (orCatch (gap_create a rand g parent)
               (\<lambda>e. if parent = None \<or> error_code e \<noteq> Some ''InvalidRequest'' then fails_with e else gap_create a rand' g None))
             (\<lambda>t. andThen (gap_link a g (t_id t)) (\<lambda>_. returns Filed))))"

subsection \<open>A move with a fresh request id\<close>

definition fresh :: "rows \<Rightarrow> string \<Rightarrow> bool" where
  "fresh db r \<longleftrightarrow> r \<noteq> '''' \<and> Some r \<notin> set (map e_requestId (d_events db))"

lemma fresh_prior: "fresh db r \<Longrightarrow> priorWrite db r = None"
  by (force simp: fresh_def priorWrite_def find_None_iff)

lemma writeEvents_ok:
  assumes "\<And>r. n_requestId e = Some r \<Longrightarrow> Some r \<notin> set (map e_requestId (d_events db))" and "\<forall>x \<in> set es. n_requestId x = None"
  shows "\<exists>db'. writeEvents (e # es) db = Inr db' \<and> same_rows db db'"
proof -
  have rest: "\<exists>db'. insertEvents es db1 = Inr db'" for db1
    using assms(2)
  proof (induction es arbitrary: db1)
    case (Cons x xs)
    then show ?case by (auto simp: insertEvent_def)
  qed simp
  have "\<exists>db1. insertEvent e db = Inr db1"
    using assms(1) by (cases "n_requestId e") (auto simp: insertEvent_def)
  then obtain db1 db2 where "insertEvents (e # es) db = Inr db2" using rest by fastforce
  then have "\<exists>db'. writeEvents (e # es) db = Inr db'" unfolding writeEvents_def by (simp only: list.distinct if_False bindE.simps) blast
  then show ?thesis using writeEvents_rows by blast
qed

text \<open>Only the first event of a move carries its request id.\<close>

lemma move_events:
  assumes "move lc a i nm opts fence db = Inr (row, db', evs)"
  shows "\<exists>e es. evs = e # es \<and> n_requestId e = mo_requestId opts \<and> (\<forall>x \<in> set es. n_requestId x = None)"
proof -
  have [simp]: "n_requestId (dep_removed_event a w j why) = None" "n_requestId (settled_event a j) = None"
    "n_requestId (move_event a nm t to p req) = req" for a w j why nm t to p req
    by (simp_all add: dep_removed_event_def settled_event_def move_event_def ev_def)
  show ?thesis
    using assms by (auto simp: move_def Let_def split: if_split_asm option.split_asm)
qed

lemma call_move_fresh:
  assumes "fresh db r" and "mo_requestId opts = Some r"
  shows "case move lc a i nm opts fence db of
      Inl e \<Rightarrow> rows_after (call_move lc a i nm opts fence db db) = Inl e
    | Inr (row, db1, evs) \<Rightarrow> \<exists>db2. rows_after (call_move lc a i nm opts fence db db) = Inr db2 \<and> same_rows db1 db2"
proof -
  have none: "replayed r kind ex replay db = Inr None" for kind ex and replay :: "prior_write \<Rightarrow> rows \<Rightarrow> tg_error + task"
    by (simp add: replayed_def fresh_prior[OF assms(1)])
  show ?thesis
  proof (cases "move lc a i nm opts fence db")
    case (Inl e)
    then show ?thesis
      using assms(1,2) none by (simp add: call_move_def once_def transaction_def fresh_def rows_after_def)
  next
    case (Inr b)
    obtain row db1 evs where b: "b = (row, db1, evs)" by (cases b)
    obtain e es where evs: "evs = e # es" "n_requestId e = Some r" "\<forall>x \<in> set es. n_requestId x = None"
      using move_events[OF Inr[unfolded b]] assms(2) by auto
    have "d_events db1 = d_events db" using move_log[OF Inr[unfolded b]] by (simp add: same_log_def)
    then obtain db2 where w: "writeEvents evs db1 = Inr db2" "same_rows db1 db2"
      using writeEvents_ok[of e db1 es] evs assms(1) by (auto simp: fresh_def)
    then show ?thesis
      using Inr b assms(1,2) none by (simp add: call_move_def once_def transaction_def fresh_def rows_after_def)
  qed
qed

lemma moveTask_cases:
  assumes "fresh db req"
  obtains (refused) e where "move taskLifecycle a i nm (reasoned why req) claim db = Inl e" "moveTask a claim i nm why req db = (Inl e, db)"
  | (made) m row db1 evs db2 where "move taskLifecycle a i nm (reasoned why req) claim db = Inr (row, db1, evs)"
      "moveTask a claim i nm why req db = (Inr (), db2)" "same_rows db1 db2" "moveNamed taskLifecycle nm = Some m"
      "find_task i db2 = Some row" "t_state row = m_to m"
proof (cases "move taskLifecycle a i nm (reasoned why req) claim db")
  case (Inl e)
  then show thesis
    using call_move_fresh[of db req "reasoned why req" taskLifecycle a i nm claim] assms refused
    by (auto simp: moveTask_def engine_def reasoned_def)
next
  case (Inr b)
  obtain row db1 evs where b: "b = (row, db1, evs)" by (cases b)
  obtain m where m: "moveNamed taskLifecycle nm = Some m" "find_task i db1 = Some row" "t_state row = m_to m"
    using move_result[OF Inr[unfolded b]] by blast
  obtain db2 where "moveTask a claim i nm why req db = (Inr (), db2)" "same_rows db1 db2"
    using call_move_fresh[of db req "reasoned why req" taskLifecycle a i nm claim] assms Inr b
    by (auto simp: moveTask_def engine_def reasoned_def)
  then show thesis using made Inr b m same_rowsD(1)[of db1 db2] by (metis)
qed

subsection \<open>Evidence does not touch the engine's rows\<close>

lemma putEvidence_rows [simp]:
  "fst (putEvidence att url gates db) = Inr ()"
  "d_tasks (snd (putEvidence att url gates db)) = d_tasks db" "d_deps (snd (putEvidence att url gates db)) = d_deps db"
  "d_attempts (snd (putEvidence att url gates db)) = d_attempts db" "d_events (snd (putEvidence att url gates db)) = d_events db"
  "d_projectId (snd (putEvidence att url gates db)) = d_projectId db"
  "d_lifecycleName (snd (putEvidence att url gates db)) = d_lifecycleName db"
  "d_lifecycleVersion (snd (putEvidence att url gates db)) = d_lifecycleVersion db"
  "sr_checks (d_caller (snd (putEvidence att url gates db))) = sr_checks (d_caller db)"
  "fresh (snd (putEvidence att url gates db)) r \<longleftrightarrow> fresh db r"
  "wf lc (snd (putEvidence att url gates db)) \<longleftrightarrow> wf lc db"
  by (simp_all add: putEvidence_def fresh_def wf_def)

lemma map_of_put: "map_of (put_member k v ms) = (map_of ms)(k \<mapsto> v)"
proof (cases "k \<in> set (map fst ms)")
  case True
  have "map_of (map (\<lambda>(x, y). if x = k then (x, v) else (x, y)) ms) j = (if j = k then (if k \<in> fst ` set ms then Some v else None) else map_of ms j)" for j
    by (induction ms) (auto simp: rev_image_eqI)
  then show ?thesis using True by (auto simp: put_member_def fun_eq_iff)
next
  case False
  then have "map_of ms k = None" by (simp add: map_of_eq_None_iff)
  then show ?thesis using False by (simp add: put_member_def fun_eq_iff map_add_def split: option.split)
qed

lemma jget_jmerge: "jget x (Some (jmerge j [(k, v)])) = (if x = k then Some v else jget x (Some j))"
  by (cases j) (auto simp: jmerge_def map_of_put)

lemma evidence_upsert:
  "find_row ve_attemptId att' (upsertEvidence att url gates es) = (if att' = att
     then Some (case find_row ve_attemptId att es of
         None \<Rightarrow> \<lparr>ve_attemptId = att, ve_prUrl = url, ve_gates = JObj gates\<rparr>
       | Some e \<Rightarrow> e\<lparr>ve_prUrl := (case url of Some u \<Rightarrow> Some u | None \<Rightarrow> ve_prUrl e), ve_gates := jmerge (ve_gates e) gates\<rparr>)
     else find_row ve_attemptId att' es)"
  by (auto simp: upsertEvidence_def find_row_upd find_row_append split: option.splits)

lemma assertVersion_put [simp]: "assertVersion lc (snd (putEvidence att url gates db)) = assertVersion lc db"
  unfolding assertVersion_def putEvidence_rows ..

text \<open>The current attempt, as the guards and the store see it.\<close>

lemma newestFirst_put [simp]: "newestFirst (snd (putEvidence att url gates db)) i = newestFirst db i"
  by (simp add: newestFirst_def)

lemma evidenceOf_put:
  "evidenceOf (snd (putEvidence att url gates db)) x = (if x = att
     then Some (case evidenceOf db att of
         None \<Rightarrow> \<lparr>ve_attemptId = att, ve_prUrl = url, ve_gates = JObj gates\<rparr>
       | Some e \<Rightarrow> e\<lparr>ve_prUrl := (case url of Some u \<Rightarrow> Some u | None \<Rightarrow> ve_prUrl e), ve_gates := jmerge (ve_gates e) gates\<rparr>)
     else evidenceOf db x)"
  by (simp add: evidenceOf_def putEvidence_def evidence_upsert)

lemma checksOf_put [simp]: "Policy.checksOf (snd (putEvidence att url gates db)) t = Policy.checksOf db t"
  by (simp add: checksOf_def)

lemma currentAttempt_put [simp]: "currentAttempt (snd (putEvidence att url gates db)) t = currentAttempt db t"
  by (simp add: currentAttempt_def)

text \<open>The gates' members, after one of them was recorded on the current attempt or another.\<close>

lemma gates_member_put:
  "jget x (currentGates (snd (putEvidence att url [(k, v)] db)) t) =
     (if (\<exists>a. currentAttempt db t = Some a \<and> a_id a = att) \<and> x = k then Some v else jget x (currentGates db t))"
  by (cases "currentAttempt db t") (auto simp: currentGates_def evidenceOf_put jget_jmerge split: option.splits)

subsection \<open>Landed work is finished, or handed to a human\<close>

definition finishOrFlag :: "actor \<Rightarrow> string option \<Rightarrow> string \<Rightarrow> string \<Rightarrow> string \<Rightarrow> string \<Rightarrow> string \<Rightarrow> unit run" where
  "finishOrFlag a claim i why req why' req' = orCatch (finish a claim i why req) (\<lambda>_. flag a claim i why' req')"

text \<open>The worker's hold on a task: its claim's lease, or none on a task that waits.\<close>

definition holds :: "string option \<Rightarrow> task \<Rightarrow> bool" where
  "holds claim t \<longleftrightarrow> (case claim of Some att \<Rightarrow> t_leaseAttemptId t = Some att | None \<Rightarrow> t_state t = ''waiting'')"

lemma finish_rows:
  "\<exists>db1. finish a claim i why req db = moveTask a claim i ''finish'' why req db1 \<and>
     d_tasks db1 = d_tasks db \<and> wf taskLifecycle db1 = wf taskLifecycle db \<and> (\<forall>r. fresh db1 r = fresh db r) \<and>
     assertVersion taskLifecycle db1 = assertVersion taskLifecycle db \<and> d_deps db1 = d_deps db \<and>
     (\<forall>t. checksPassedFn t a db1 = checksPassedFn t a db)"
proof (cases "attemptFor claim db i")
  case None
  then show ?thesis by (intro exI[of _ db]) (simp add: finish_def andThen_def returns_def)
next
  case (Some att)
  obtain d where d: "putEvidence att None [(''landed'', JBool True)] db = (Inr (), d)" by (simp add: putEvidence_def)
  then have snd: "d = snd (putEvidence att None [(''landed'', JBool True)] db)" by simp
  have "finish a claim i why req db = moveTask a claim i ''finish'' why req d"
    using Some d by (simp add: finish_def andThen_def)
  moreover have "checksPassedFn t a d = checksPassedFn t a db" for t
    by (simp add: snd checksPassedFn_def acceptancePassed_def gates_member_put)
  moreover have "assertVersion taskLifecycle d = assertVersion taskLifecycle db" by (simp add: snd assertVersion_def)
  ultimately show ?thesis by (intro exI[of _ d]) (simp add: snd)
qed

lemma held_state:
  assumes "wf taskLifecycle db" and "find_task i db = Some t" and "holds claim t"
  shows "t_state t = ''claimed'' \<or> t_state t = ''waiting''" and "\<forall>x. claim = Some x \<longrightarrow> t_leaseAttemptId t = Some x"
proof -
  have "t_leaseAttemptId t \<noteq> None \<longrightarrow> stateFlag sf_leased taskLifecycle (t_state t)"
    using wfD(3)[OF assms(1)] find_row_Some[OF assms(2)] by (auto simp: states_ok_def)
  then show "t_state t = ''claimed'' \<or> t_state t = ''waiting''"
    using assms(3) by (auto simp: holds_def flag_simps split: option.splits)
  show "\<forall>x. claim = Some x \<longrightarrow> t_leaseAttemptId t = Some x" using assms(3) by (auto simp: holds_def)
qed

lemma finish_isOk:
  assumes w: "wf taskLifecycle db" and ver: "assertVersion taskLifecycle db = Inr ()" and t: "find_task i db = Some t"
    and h: "holds claim t" and a: "ac_role a = ''orchestrator''"
  shows "isOk (move taskLifecycle a i ''finish'' (reasoned why req) claim db) \<longleftrightarrow>
    liveChildren taskLifecycle db i = [] \<and> checksPassedFn t a db = None"
  using held_state[OF w t h] ver t a
  by (auto simp: move_isOk[OF w] moveNamed_simp move_defs flag_simps)

lemma flag_isOk:
  assumes w: "wf taskLifecycle db" and ver: "assertVersion taskLifecycle db = Inr ()" and t: "find_task i db = Some t"
    and h: "holds claim t" and a: "ac_role a = ''orchestrator''"
  shows "isOk (move taskLifecycle a i ''flag'' (reasoned why req) claim db)"
  using held_state[OF w t h] ver t a
  by (auto simp: move_isOk[OF w] moveNamed_simp move_defs flag_simps)

lemma named_target: "moveNamed taskLifecycle ''finish'' = Some m \<Longrightarrow> m_to m = ''done''" "moveNamed taskLifecycle ''flag'' = Some m \<Longrightarrow> m_to m = ''blocked''"
  by (auto simp: moveNamed_simp move_defs)

end
