(* ===== verification/ByHand.thy ===== *)
theory ByHand
  imports Store
begin

text \<open>
  Working by hand (src/policy/task/by-hand.ts): the developer claims a task by id, notes, finishes or releases it, confirms a
  landed task's manual checks, and cancels tasks. Every function is calls of the engine one after another, as in Store; the
  error texts are those of src/taskgraph/errors.ts. An error that is no engine error is \<open>Fatal\<close> with its message.
\<close>

subsection \<open>The text of an error (errors.ts)\<close>

fun error_text :: "tg_error \<Rightarrow> string" where
  "error_text (CycleError i j why) = i @ '' can't depend on '' @ j @ '': '' @ orElse why (j @ '' already depends on '' @ i)"
| "error_text (NotFound entity i) = entity @ '' '' @ i @ '' not found''"
| "error_text (InvalidRequest m) = m"
| "error_text (InvalidInput m) = m"
| "error_text (NotPermitted c role st) = ''role '' @ role @ '' may not call '' @ c @ (case st of None \<Rightarrow> '''' | Some s \<Rightarrow> '' on a task in '' @ s)"
| "error_text (ValidationError fs) = validation_message fs"
| "error_text (MoveRefused i st why waiting children) = ''move refused on '' @ i @ '' in '' @ st @ '': '' @ why @
     (if waiting = [] then '''' else '' (waiting: '' @ joined '', '' waiting @ '')'') @
     (if children = [] then '''' else '' (live children: '' @ joined '', '' children @ '')'')"
| "error_text (LeaseLost i att) = ''attempt '' @ att @ '' no longer holds '' @ i"
| "error_text (LeaseHeld i holder) = i @ '' is held by '' @ holder"
| "error_text (VersionMismatch m) = m"
| "error_text (SchemaBehind m) = ''the database schema is behind: migration '' @ m @ '' has not run (run migrate)''"
| "error_text (Unavailable m) = m"
| "error_text (LifecycleInvalid nm vs) = ''lifecycle '' @ nm @ '' refused: '' @ joined ''; '' (map (\<lambda>v. ''['' @ v_rule v @ ''] '' @ v_message v) vs)"
| "error_text (Fatal m) = m"
| "error_text (TypeErr m) = m"
| "error_text (DbError c m) = m"

subsection \<open>Claiming\<close>

definition BY_HAND_LEASE_MS :: int where
  "BY_HAND_LEASE_MS = 8 * 3600000"

definition CLAIMABLE :: "string list" where
  "CLAIMABLE = (case moveNamed taskLifecycle (l_onClaim taskLifecycle) of Some m \<Rightarrow> m_from m | None \<Rightarrow> [])"

record hands =
  ha_call :: string
  ha_kshetraId :: string
  ha_interactive :: bool
  ha_paused :: bool
  ha_lockHolder :: "string option"
  ha_localWorker :: "string option"

definition assertHandsOnKshetra :: "hands \<Rightarrow> string + unit" where
  "assertHandsOnKshetra s = (let k = ha_kshetraId s in
     if \<not> ha_interactive s then
       Inl (k @ '' is a Kshetra: its worker works its tasks, and shreni task '' @ ha_call s @ '' there needs an interactive terminal'')
     else if ha_lockHolder s \<noteq> None \<and> ha_lockHolder s \<noteq> ha_localWorker s then
       Inl (''a worker on '' @ (if ha_lockHolder s = Some '''' then ''another machine'' else orElse (ha_lockHolder s) '''') @ '' runs '' @ k @ ''; stop or pause it there first'')
     else if \<not> ha_paused s then
       Inl (k @ '' isn't paused; pause it first (shreni pause --kshetra '' @ k @ ''), so its worker leaves the work to you'')
     else Inr ())"

definition unfinished :: "(string \<times> string) list \<Rightarrow> (string \<times> string) list" where
  "unfinished deps = filter (\<lambda>(_, s). \<not> isSatisfying taskLifecycle s) deps"

definition listed :: "(string \<times> string) list \<Rightarrow> string" where
  "listed deps = joined '', '' (map (\<lambda>(i, s). i @ '' ('' @ s @ '')'') deps)"

text \<open>
  The containers above the task, innermost first; \<open>n\<close> bounds the walk, which on an acyclic project reads
  each task once at most. \<open>None\<close>: none of them holds it.
\<close>

fun held_above :: "rows \<Rightarrow> string \<Rightarrow> nat \<Rightarrow> string option \<Rightarrow> tg_error option" where
  "held_above db i n None = None"
| "held_above db i 0 (Some p) = None"
| "held_above db i (Suc n) (Some p) = (if p = '''' then None else (case tasks_get db p of
       Inl e \<Rightarrow> Some e
     | Inr (c, deps, _) \<Rightarrow>
         if t_state c \<notin> set CLAIMABLE then Some (InvalidRequest (i @ '' is under '' @ t_id c @ '', which is '' @ t_state c))
         else if unfinished deps \<noteq> [] then Some (InvalidRequest (i @ '' is under '' @ t_id c @ '', which waits on '' @ listed (unfinished deps)))
         else held_above db i n (t_parentId c)))"

text \<open>Why the task could not be claimed. \<open>now\<close> is this process's clock, \<open>clock_text\<close> its text of a time.\<close>

definition why_unclaimed :: "int \<Rightarrow> (int \<Rightarrow> string) \<Rightarrow> actor \<Rightarrow> string \<Rightarrow> rows \<Rightarrow> tg_error" where
  "why_unclaimed now clock_text me i db = (case tasks_get db i of
       Inl e \<Rightarrow> e
     | Inr (t, deps, held) \<Rightarrow> (case held of
         Some h \<Rightarrow> if lv_actor h = ac_id me then InvalidRequest (''you already hold '' @ i @ '', until '' @ clock_text (lv_expiresAt h))
                   else LeaseHeld i (lv_actor h)
       | None \<Rightarrow>
           if t_kind t = Container then InvalidRequest (i @ '' is an epic: it isn't claimed, and is finished once its tasks are done'')
           else if t_state t \<notin> set CLAIMABLE then InvalidRequest (i @ '' is '' @ t_state t @ '', not '' @ joined '' or '' CLAIMABLE)
           else if unfinished deps \<noteq> [] then InvalidRequest (i @ '' waits on '' @ listed (unfinished deps))
           else (case t_holdUntil t of
               Some until \<Rightarrow> if now < until then InvalidRequest (i @ '' is held until '' @ clock_text until)
                             else orElse (held_above db i (length (d_tasks db)) (t_parentId t)) (InvalidRequest (i @ '' isn't ready: a worker may have claimed it first''))
             | None \<Rightarrow> orElse (held_above db i (length (d_tasks db)) (t_parentId t)) (InvalidRequest (i @ '' isn't ready: a worker may have claimed it first'')))))"

definition claimByHand ::
  "actor \<Rightarrow> string \<Rightarrow> string \<Rightarrow> int option \<Rightarrow> string list \<Rightarrow> string list \<Rightarrow> string \<Rightarrow> int \<Rightarrow> (int \<Rightarrow> string) \<Rightarrow> claim run" where
  "claimByHand me i worker ms swept taken uuid now clock_text = andThen
     (answers (\<lambda>db. call_claim taskLifecycle me
        \<lparr>co_worker = worker, co_leaseMs = orElse ms BY_HAND_LEASE_MS, co_filter = noFilter\<lparr>fl_ids := Some [i]\<rparr>, co_requestId = None\<rparr>
        swept taken uuid db db))
     (\<lambda>c db. case c of Some claim \<Rightarrow> (Inr claim, db) | None \<Rightarrow> (Inl (why_unclaimed now clock_text me i db), db))"

text \<open>The developer's live claim, renewed; none when no one holds the task, an error when someone else does.\<close>

definition heldClaim :: "actor \<Rightarrow> string \<Rightarrow> claim option run" where
  "heldClaim me i db = (case claims_resume taskLifecycle me i db of
       Inl (NotFound entity x) \<Rightarrow> (if entity = ''claim'' then (Inr None, db) else (Inl (NotFound entity x), db))
     | Inl e \<Rightarrow> (Inl e, db)
     | Inr c \<Rightarrow> andThen (answers (transaction (heartbeat taskLifecycle me i (cl_attemptId c) BY_HAND_LEASE_MS)))
         (\<lambda>c'. returns (Some c')) db)"

definition noteByHand :: "actor \<Rightarrow> string \<Rightarrow> string \<Rightarrow> unit run" where
  "noteByHand me i text = andThen (heldClaim me i) (\<lambda>_. add_note me i text)"

subsection \<open>Finishing\<close>

definition because :: "string \<Rightarrow> move_options" where
  "because why = \<lparr>mo_reason = Some why, mo_payload = [], mo_requestId = None, mo_dropDeps = False\<rparr>"

definition moves_task :: "actor \<Rightarrow> string \<Rightarrow> string \<Rightarrow> move_options \<Rightarrow> string option \<Rightarrow> unit run" where
  "moves_task me i nm opts fence = engine (\<lambda>db. rows_after (call_move taskLifecycle me i nm opts fence db db))"

definition checks_of :: "rows \<Rightarrow> string \<Rightarrow> acceptance_check list" where
  "checks_of db i = filter (\<lambda>c. ck_projectId c = d_projectId db \<and> ck_taskId c = Some i) (sr_checks (d_caller db))"

definition confirmation :: "actor \<Rightarrow> acceptance_check list \<Rightarrow> (string \<times> json) list" where
  "confirmation me checks =
     [(''acceptance'', JObj [(''passed'', JBool True), (''confirmedBy'', JStr (ac_id me)), (''checks'', JNum (int (length checks)))])]"

text \<open>\<open>line\<close> is the text of a check (its given, when and then, which the model's row leaves out).\<close>

definition unconfirmed :: "(acceptance_check \<Rightarrow> string) \<Rightarrow> string \<Rightarrow> acceptance_check list \<Rightarrow> tg_error" where
  "unconfirmed line i checks = Fatal (i @ '' has acceptance checks; confirm that each holds with --checks-passed:'' @ [CHR 0x0A] @
     joined [CHR 0x0A] (map line checks))"

definition finishByHand :: "actor \<Rightarrow> string \<Rightarrow> string \<Rightarrow> bool \<Rightarrow> (acceptance_check \<Rightarrow> string) \<Rightarrow> unit run" where
  "finishByHand me i why confirmed line = andThen (reads (\<lambda>db. tasks_get db i)) (\<lambda>(t, _, _).
     if t_kind t = Container then moves_task me i ''completeContainer'' (because why) None
     else andThen (heldClaim me i) (\<lambda>c. case c of
         None \<Rightarrow> fails_with (InvalidRequest (if t_state t = ''waiting'' then i @ '' is waiting on its PR; it finishes when the PR merges''
                   else i @ '' isn't claimed; claim it first (shreni task claim '' @ i @ '')''))
       | Some claim \<Rightarrow> (\<lambda>db. let checks = checks_of db i in
           if checks \<noteq> [] \<and> \<not> confirmed then fails_with (unconfirmed line i checks) db
           else andThen (if checks = [] then returns () else putEvidence (cl_attemptId claim) None (confirmation me checks))
             (\<lambda>_. moves_task me i ''finish'' (because why) (Some (cl_attemptId claim))) db)))"

text \<open>The landed mark is read on the task's newest attempt.\<close>

definition confirmable :: "string \<Rightarrow> rows \<Rightarrow> tg_error + (acceptance_check list \<times> string)" where
  "confirmable i db = bindE (tasks_get db i) (\<lambda>(t, _, _).
     if t_state t \<noteq> ''blocked'' then Inl (InvalidRequest (i @ '' is '' @ t_state t @ ''; confirm finishes a task flagged for its manual checks''))
     else let checks = checks_of db i in
       if filter (\<lambda>c. ck_mode c = ''manual'') checks = [] then
         Inl (InvalidRequest (i @ '' has no manual check to confirm; it was flagged for something else (shreni task show '' @ i @ '')''))
       else (case newestFirst db i of
           a # _ \<Rightarrow> if jget ''landed'' (map_option ve_gates (evidenceOf db (a_id a))) = Some (JBool True) then Inr (checks, a_id a)
                    else Inl (InvalidRequest (i @ '''s work never landed on main, so there is nothing to confirm (shreni task show '' @ i @ '')''))
         | [] \<Rightarrow> Inl (InvalidRequest (i @ '''s work never landed on main, so there is nothing to confirm (shreni task show '' @ i @ '')''))))"

definition confirmByHand :: "actor \<Rightarrow> string \<Rightarrow> string \<Rightarrow> unit run" where
  "confirmByHand me i why = andThen (reads (confirmable i)) (\<lambda>(checks, att).
     andThen (putEvidence att None (confirmation me checks)) (\<lambda>_. moves_task me i ''confirm'' (because why) None))"

subsection \<open>Giving a task back\<close>

definition releaseByHand :: "actor \<Rightarrow> string \<Rightarrow> bool \<Rightarrow> string option \<Rightarrow> unit run" where
  "releaseByHand me i force why = orCatch
     (andThen (heldClaim me i) (\<lambda>c. case c of
         None \<Rightarrow> fails_with (InvalidRequest (i @ '' isn't claimed''))
       | Some claim \<Rightarrow> moves_task me i ''release'' (because (orElse why ''released by hand'')) (Some (cl_attemptId claim))))
     (\<lambda>e. case e of
         LeaseHeld x holder \<Rightarrow> if \<not> force then fails_with e
           else andThen (reads (\<lambda>db. tasks_get db i)) (\<lambda>(_, _, held). case held of
               Some h \<Rightarrow> if lv_actor h \<noteq> holder then fails_with (InvalidRequest (i @ '' changed hands meanwhile; look again (shreni task show '' @ i @ '')''))
                 else moves_task me i ''release''
                   ((because (orElse why (''taken back from '' @ lv_actor h @ '' with --force'')))\<lparr>mo_payload := [(''forcedFrom'', JStr (lv_actor h))]\<rparr>)
                   (Some (lv_attemptId h))
             | None \<Rightarrow> fails_with (InvalidRequest (i @ '' changed hands meanwhile; look again (shreni task show '' @ i @ '')'')))
       | _ \<Rightarrow> fails_with e)"

subsection \<open>Calls without a request id\<close>

lemma call_move_plain:
  assumes "mo_requestId opts = None"
  shows "case move lc a i nm opts fence db of
      Inl e \<Rightarrow> rows_after (call_move lc a i nm opts fence db db) = Inl e
    | Inr (row, db1, evs) \<Rightarrow> \<exists>db2. rows_after (call_move lc a i nm opts fence db db) = Inr db2 \<and> same_rows db1 db2"
proof (cases "move lc a i nm opts fence db")
  case (Inl e)
  then show ?thesis using assms by (simp add: call_move_def once_def transaction_def rows_after_def)
next
  case (Inr b)
  obtain row db1 evs where b: "b = (row, db1, evs)" by (cases b)
  obtain e es where evs: "evs = e # es" "n_requestId e = None" "\<forall>x \<in> set es. n_requestId x = None"
    using move_events[OF Inr[unfolded b]] assms by auto
  then obtain db2 where "writeEvents evs db1 = Inr db2" "same_rows db1 db2" using writeEvents_ok[of e db1 es] by auto
  then show ?thesis using Inr b assms by (simp add: call_move_def once_def transaction_def rows_after_def)
qed

lemma moves_task_cases:
  assumes "mo_requestId opts = None"
  obtains (refused) e where "move taskLifecycle a i nm opts fence db = Inl e" "moves_task a i nm opts fence db = (Inl e, db)"
  | (made) m row db1 evs db2 where "move taskLifecycle a i nm opts fence db = Inr (row, db1, evs)"
      "moves_task a i nm opts fence db = (Inr (), db2)" "same_rows db1 db2" "moveNamed taskLifecycle nm = Some m"
      "find_task i db2 = Some row" "t_state row = m_to m"
proof (cases "move taskLifecycle a i nm opts fence db")
  case (Inl e)
  then show thesis
    using call_move_plain[OF assms, of taskLifecycle a i nm fence db] refused
    by (auto simp: moves_task_def engine_def)
next
  case (Inr b)
  obtain row db1 evs where b: "b = (row, db1, evs)" by (cases b)
  obtain m where m: "moveNamed taskLifecycle nm = Some m" "find_task i db1 = Some row" "t_state row = m_to m"
    using move_result[OF Inr[unfolded b]] by blast
  obtain db2 where "moves_task a i nm opts fence db = (Inr (), db2)" "same_rows db1 db2"
    using call_move_plain[OF assms, of taskLifecycle a i nm fence db] Inr b
    by (auto simp: moves_task_def engine_def)
  then show thesis using made Inr b m same_rowsD(1)[of db1 db2] by metis
qed

lemma tasks_get_fst: "find_task i db = Some t \<Longrightarrow> \<exists>x. tasks_get db i = Inr (t, x)"
  by (simp add: tasks_get_def)

subsection \<open>Moves keep the invariant\<close>

lemma call_move_wf: "wf taskLifecycle db \<Longrightarrow> rows_after (call_move taskLifecycle a i nm opts fence db db) = Inr db' \<Longrightarrow> wf taskLifecycle db'"
proof -
  assume w: "wf taskLifecycle db" and c: "rows_after (call_move taskLifecycle a i nm opts fence db db) = Inr db'"
  then obtain x where "call_move taskLifecycle a i nm opts fence db db = Inr (x, db')" by (auto simp: rows_after_def)
  then consider "db' = db" | y where "transaction (move taskLifecycle a i nm opts fence) db = Inr (y, db')"
    unfolding call_move_def by (blast dest: once_steps)
  then show ?thesis
  proof cases
    case 2
    show ?thesis by (rule wf_transaction[OF 2]) (rule move_wf[OF taskLifecycle_valid w])
  qed (use w in simp)
qed

lemma moveTask_wf: "wf taskLifecycle db \<Longrightarrow> wf taskLifecycle (snd (moveTask a claim i nm why req db))"
  using call_move_wf by (fastforce simp: moveTask_def engine_def split: sum.split)

lemma moves_task_wf: "wf taskLifecycle db \<Longrightarrow> wf taskLifecycle (snd (moves_task me i nm opts fence db))"
  using call_move_wf by (fastforce simp: moves_task_def engine_def split: sum.split)

lemma finishOrFlag_wf: "wf taskLifecycle db \<Longrightarrow> wf taskLifecycle (snd (finishOrFlag a claim i why req why' req' db))"
proof -
  assume w: "wf taskLifecycle db"
  obtain d where d: "finish a claim i why req db = moveTask a claim i ''finish'' why req d" "wf taskLifecycle d"
    using finish_rows[of a claim i why req db] w by auto
  have "wf taskLifecycle (snd (finish a claim i why req db))" unfolding d by (rule moveTask_wf[OF d(2)])
  then show ?thesis
    using moveTask_wf by (auto simp: finishOrFlag_def orCatch_def flag_def split: prod.split sum.split)
qed

subsection \<open>Cancelling\<close>

record cancel_options =
  cn_withChildren :: bool
  cn_dropDeps :: bool
  cn_reason :: string

text \<open>A refusal, with the flag that gets past it.\<close>

definition refusal :: "cancel_options \<Rightarrow> string \<Rightarrow> tg_error \<Rightarrow> tg_error" where
  "refusal opts i e = (case e of
       MoveRefused _ _ why waiting children \<Rightarrow>
         if why = ''ChildrenLive'' \<and> \<not> cn_withChildren opts then
           InvalidRequest (i @ '' has live tasks under it ('' @ joined '', '' children @ ''); cancel them too with --with-children'')
         else if why = ''DependentsLive'' \<and> \<not> cn_dropDeps opts then
           InvalidRequest (''live tasks wait on '' @ i @ '' ('' @ joined '', '' waiting @ ''); remove those dependencies with --drop-deps'')
         else e
     | _ \<Rightarrow> e)"

text \<open>Refused because of tasks that are themselves to be cancelled.\<close>

definition inside :: "string list \<Rightarrow> tg_error \<Rightarrow> bool" where
  "inside batch e = (case e of
       MoveRefused _ _ why waiting children \<Rightarrow>
         why = ''DependentsLive'' \<and> set waiting \<subseteq> set batch \<or> why = ''ChildrenLive'' \<and> set children \<subseteq> set batch
     | _ \<Rightarrow> False)"

definition cancel_move :: "cancel_options \<Rightarrow> move_options" where
  "cancel_move opts = \<lparr>mo_reason = Some (cn_reason opts), mo_payload = [], mo_requestId = None, mo_dropDeps = cn_dropDeps opts\<rparr>"

text \<open>
  One pass over the tasks still to cancel: those cancelled so far, those left for the next pass with the last refusal;
  or the refusal that ends it, with those already cancelled.
\<close>

fun cancel_pass ::
  "actor \<Rightarrow> cancel_options \<Rightarrow> string list \<Rightarrow> string list \<Rightarrow> string list \<Rightarrow> string list \<Rightarrow> tg_error option \<Rightarrow> rows \<Rightarrow>
   ((tg_error \<times> string list) + (string list \<times> string list \<times> tg_error option)) \<times> rows" where
  "cancel_pass me opts batch [] gone left final db = (Inr (gone, left, final), db)"
| "cancel_pass me opts batch (t # ts) gone left final db = (case moves_task me t ''cancel'' (cancel_move opts) None db of
       (Inr _, db') \<Rightarrow> cancel_pass me opts batch ts (gone @ [t]) left final db'
     | (Inl e, db') \<Rightarrow> if inside batch e then cancel_pass me opts batch ts gone (left @ [t]) (Some e) db'
                     else (Inl (refusal opts t e, gone), db'))"

lemma cancel_pass_length:
  "cancel_pass me opts batch ts gone left final db = (Inr (gone', left', final'), db') \<Longrightarrow>
     length gone' + length left' = length gone + length left + length ts \<and> length gone \<le> length gone'"
proof (induction ts arbitrary: gone left final db)
  case (Cons t ts)
  obtain r db1 where m: "moves_task me t ''cancel'' (cancel_move opts) None db = (r, db1)" by fastforce
  show ?case
  proof (cases r)
    case (Inl e)
    then have "inside batch e" using Cons.prems m by (simp split: if_split_asm)
    then show ?thesis using Cons.prems Cons.IH[of gone "left @ [t]" "Some e" db1] m Inl by simp
  next
    case (Inr u)
    then show ?thesis using Cons.prems Cons.IH[of "gone @ [t]" left final db1] m by auto
  qed
qed simp

function cancelInPasses ::
  "actor \<Rightarrow> cancel_options \<Rightarrow> string list \<Rightarrow> string list \<Rightarrow> string list \<Rightarrow> rows \<Rightarrow> ((tg_error \<times> string list) + string list) \<times> rows" where
  "cancelInPasses me opts batch pending gone db = (if pending = [] then (Inr gone, db)
     else (case cancel_pass me opts batch pending gone [] None db of
         (Inl stop, db') \<Rightarrow> (Inl stop, db')
       | (Inr (gone', left, final), db') \<Rightarrow>
           if left \<noteq> [] \<and> length gone' = length gone
           then (Inl (case final of Some e \<Rightarrow> refusal opts (hd left) e | None \<Rightarrow> TypeErr ''undefined refusal'', gone'), db')
           else cancelInPasses me opts batch left gone' db'))"
  by pat_completeness auto

termination
  by (relation "measure (\<lambda>(me, opts, batch, pending, gone, db). length pending)") (auto dest!: cancel_pass_length[OF sym])

declare cancelInPasses.simps [simp del]

text \<open>How far a task of the set is below the root, along its parents in the set.\<close>

fun depthOf :: "(string \<Rightarrow> string option) \<Rightarrow> string \<Rightarrow> nat \<Rightarrow> string \<Rightarrow> nat" where
  "depthOf parentOf root 0 t = 0"
| "depthOf parentOf root (Suc n) t = (if t = root then 0 else (case parentOf t of None \<Rightarrow> 0 | Some p \<Rightarrow> Suc (depthOf parentOf root n p)))"

definition deepest_first :: "rows \<Rightarrow> string \<Rightarrow> task list \<Rightarrow> string list" where
  "deepest_first db i ts = sort_key (\<lambda>x. - int (depthOf (\<lambda>x. Option.bind (find_row t_id x ts) t_parentId) i (length (d_tasks db)) x)) (map t_id ts)"

text \<open>The live tasks outside the set that wait on one of it.\<close>

definition waiting_outside :: "rows \<Rightarrow> string list \<Rightarrow> dep list" where
  "waiting_outside db batch = concat (map (\<lambda>(x, y). map (\<lambda>t. (x, y))
     (filter (\<lambda>t. t_id t = x \<and> y \<in> set batch \<and> x \<notin> set batch \<and> t_state t \<notin> set (terminalStates taskLifecycle)) (d_tasks db))) (d_deps db))"

definition cancelByHand :: "actor \<Rightarrow> string \<Rightarrow> cancel_options \<Rightarrow> string list run" where
  "cancelByHand me i opts = andThen (reads (\<lambda>db. tasks_get db i)) (\<lambda>(root, _, _).
     if isTerminal taskLifecycle (t_state root) then fails_with (InvalidRequest (i @ '' is already '' @ t_state root))
     else andThen (if cn_withChildren opts then reads (\<lambda>db. tasks_subtree db i) else returns []) (\<lambda>subtree db.
       let batch = deepest_first db i (filter (\<lambda>t. t_id t \<noteq> i \<and> \<not> isTerminal taskLifecycle (t_state t)) subtree) @ [i];
           outside = waiting_outside db batch in
       if \<not> cn_dropDeps opts \<and> outside \<noteq> [] then
         (Inl (InvalidRequest (''live tasks wait on what would be cancelled ('' @ joined '', '' (map (\<lambda>(x, y). x @ '' on '' @ y) outside) @
            ''); remove those dependencies with --drop-deps'')), db)
       else (case cancelInPasses me opts batch batch [] db of
           (Inr gone, db') \<Rightarrow> (Inr gone, db')
         | (Inl (e, gone), db') \<Rightarrow> (Inl (if gone = [] then e
             else Fatal (error_text e @ '' (already cancelled: '' @ joined '', '' gone @ '')'')), db'))))"

end
