(* ===== verification/StoreProperties.thy ===== *)
theory StoreProperties
  imports Scenarios ByHand
begin

text \<open>
  What the merge and the store promise together: work that has landed is finished or handed to a human, and a flagged task's
  manual checks wait for the developer; and how tasks are cancelled by hand.
\<close>

subsection \<open>The merge\<close>

lemma in_turn_stops:
  "in_turn (map (call w) cs) es = (Inr (), es @ cs) \<or>
   (\<exists>m k. in_turn (map (call w) cs) es = (Inl m, es @ take (Suc k) cs) \<and> k < length cs \<and> w (es @ take k cs) (cs ! k) = Some m)"
proof (induction cs arbitrary: es)
  case (Cons c cs)
  show ?case
  proof (cases "w es c")
    case (Some m)
    then show ?thesis by (intro disjI2 exI[of _ m] exI[of _ 0]) (simp add: act_simps)
  next
    case None
    have "in_turn (map (call w) (c # cs)) es = in_turn (map (call w) cs) (es @ [c])" using None by (simp add: act_simps)
    then show ?thesis using Cons[of "es @ [c]"] by fastforce
  qed
qed (simp add: finished_def)

lemma ending_calls:
  "snd (in_turn [noted a, noted b, (if p then noted c else finished), or_catch (call w f) (\<lambda>m. call w (g m)), noted d, call w e, call w x] es) =
     (let landed = es @ [a, b] @ (if p then [c] else []); ending = \<lambda>did. [d, e] @ (if w (did @ [d]) e = None then [x] else []) in
      case w landed f of None \<Rightarrow> landed @ [f] @ ending (landed @ [f])
      | Some m \<Rightarrow> landed @ [f, g m] @ (if w (landed @ [f]) (g m) = None then ending (landed @ [f, g m]) else []))"
  by (cases p) (simp_all add: act_simps Let_def split: option.split)

text \<open>
  C33: A merge either stops at the first of its landing calls that fails (the lease renewed, main checked out, the squash,
  the commit, the push), and then neither finishes nor flags the task; or all five succeed, and then the task is finished, and
  flagged for a human exactly when that fails; and unless the flag fails too, its recovery attempts are cleared, and unless that
  fails, which leaves the branch, its branch is deleted last.
\<close>

theorem merge_finishes_or_flags:
  "case squashMergeAndClose w main t out sha parikshaka [] of (r, es) \<Rightarrow>
     (\<exists>m k. k < 5 \<and> r = Inl m \<and> es = take (Suc k) (landing main t out) \<and> w (take k (landing main t out)) (landing main t out ! k) = Some m) \<or>
     (let landed = landing main t out @ [MergeDone PushPolicy sha, RefreshRepoMap] @ (if parikshaka then [Parikshaka] else []);
          ending = \<lambda>did. [TaskMerged PushPolicy, ClearAttemptsFor] @
            (if w (did @ [TaskMerged PushPolicy]) ClearAttemptsFor = None then [DeleteBranch (branchOf t)] else []) in
      case w landed (Finish (merge_note out)) of
        None \<Rightarrow> es = landed @ [Finish (merge_note out)] @ ending (landed @ [Finish (merge_note out)])
      | Some m \<Rightarrow>
          let flagging = FlagTaskFor (''merged to '' @ main @ '' but finish failed: '' @ m @ ''. Check it and finish by hand.'') in
          es = landed @ [Finish (merge_note out), flagging] @
            (if w (landed @ [Finish (merge_note out)]) flagging = None then ending (landed @ [Finish (merge_note out), flagging]) else []))"
proof -
  let ?L = "landing main t out"
  let ?flag = "\<lambda>m. FlagTaskFor (''merged to '' @ main @ '' but finish failed: '' @ m @ ''. Check it and finish by hand.'')"
  let ?rest = "in_turn [noted (MergeDone PushPolicy sha), noted RefreshRepoMap, (if parikshaka then noted Parikshaka else finished),
     or_catch (call w (Finish (merge_note out))) (\<lambda>m. call w (?flag m)),
     noted (TaskMerged PushPolicy), call w ClearAttemptsFor, call w (DeleteBranch (branchOf t))]"
  have split: "squashMergeAndClose w main t out sha parikshaka = and_then (in_turn (map (call w) ?L)) ?rest"
    unfolding squashMergeAndClose_def in_turn_append[symmetric] by (simp add: landing_def)
  have len: "length ?L = 5" by (simp add: landing_def)
  show ?thesis
  proof (cases "in_turn (map (call w) ?L) [] = (Inr (), ?L)")
    case True
    then have run: "squashMergeAndClose w main t out sha parikshaka [] = ?rest ?L" unfolding split by (simp add: and_then_def)
    show ?thesis unfolding run case_prod_beta ending_calls Let_def by (intro disjI2) (simp split: option.split)
  next
    case False
    then obtain m k where "in_turn (map (call w) ?L) [] = (Inl m, take (Suc k) ?L)" "k < 5" "w (take k ?L) (?L ! k) = Some m"
      using in_turn_stops[of w ?L "[]"] by (auto simp: len)
    then show ?thesis unfolding split and_then_def by (intro case_prodI2 disjI1) auto
  qed
qed

subsection \<open>Landed work\<close>

text \<open>
  C34: The orchestrator's finish of work that has landed, and the flag it falls back on, always leave a task it holds settled:
  done when it has no live child and its acceptance checks, if any, have passed, and blocked, for a human, otherwise.
\<close>

theorem landed_work_settles:
  assumes w: "wf taskLifecycle db" and ver: "assertVersion taskLifecycle db = Inr ()" and t: "find_task i db = Some t"
    and h: "holds claim t" and a: "ac_role a = ''orchestrator''" and r: "fresh db req" "fresh db req'"
  shows "\<exists>db' t'. finishOrFlag a claim i why req why' req' db = (Inr (), db') \<and> find_task i db' = Some t' \<and>
    t_state t' = (if liveChildren taskLifecycle db i = [] \<and> (Policy.checksOf db t = [] \<or> acceptancePassed db t) then ''done'' else ''blocked'')"
proof -
  obtain d where d: "finish a claim i why req db = moveTask a claim i ''finish'' why req d"
    "d_tasks d = d_tasks db" "wf taskLifecycle d = wf taskLifecycle db" "\<And>r. fresh d r = fresh db r"
    "assertVersion taskLifecycle d = assertVersion taskLifecycle db" "d_deps d = d_deps db"
    "\<And>t. checksPassedFn t a d = checksPassedFn t a db"
    using finish_rows[of a claim i why req db] by auto
  have wd: "wf taskLifecycle d" "assertVersion taskLifecycle d = Inr ()" "find_task i d = Some t" "fresh d req" "fresh d req'"
    using w ver t r by (auto simp: d)
  have live: "liveChildren taskLifecycle d i = liveChildren taskLifecycle db i" by (simp add: liveChildren_def childrenOf_def d)
  have ok: "isOk (move taskLifecycle a i ''finish'' (reasoned why req) claim d) \<longleftrightarrow>
      liveChildren taskLifecycle db i = [] \<and> (Policy.checksOf db t = [] \<or> acceptancePassed db t)"
    unfolding finish_isOk[OF wd(1,2,3) h a] live d(7) by (auto simp: checksPassedFn_def)
  from wd(4) show ?thesis
  proof (cases rule: moveTask_cases[of d req a i "''finish''" why claim])
    case (refused e)
    then have no: "\<not> (liveChildren taskLifecycle db i = [] \<and> (Policy.checksOf db t = [] \<or> acceptancePassed db t))"
      using ok by (simp add: isOk_def)
    have fl: "finishOrFlag a claim i why req why' req' db = moveTask a claim i ''flag'' why' req' d"
      using refused(2) by (simp add: finishOrFlag_def orCatch_def d(1) flag_def)
    have "isOk (move taskLifecycle a i ''flag'' (reasoned why' req') claim d)"
      by (rule flag_isOk[OF wd(1,2,3) h a])
    with wd(5) show ?thesis
      by (cases rule: moveTask_cases[of d req' a i "''flag''" why' claim]) (use no fl named_target(2) in \<open>auto simp: isOk_def\<close>)
  next
    case (made m row db1 evs db2)
    then have "liveChildren taskLifecycle db i = [] \<and> (Policy.checksOf db t = [] \<or> acceptancePassed db t)"
      using ok by (simp add: isOk_def)
    then show ?thesis using made named_target(1) by (auto simp: finishOrFlag_def orCatch_def d(1))
  qed
qed

theorem landed_work_settles_witness:
  "\<exists>db' t'. finishOrFlag orch (Some ''u1'') ''k-111.1'' ''merged'' ''q1'' ''finish failed'' ''q2'' (at_step 7) = (Inr (), db') \<and>
     find_task ''k-111.1'' db' = Some t' \<and> t_state t' = ''done''"
proof -
  let ?t = "case find_task ''k-111.1'' (at_step 7) of Some t \<Rightarrow> t | None \<Rightarrow> undefined"
  have t: "find_task ''k-111.1'' (at_step 7) = Some ?t" and h: "holds (Some ''u1'') ?t"
    and cond: "liveChildren taskLifecycle (at_step 7) ''k-111.1'' = []" "Policy.checksOf (at_step 7) ?t = []"
    by code_simp+
  have v: "assertVersion taskLifecycle (at_step 7) = Inr ()" by code_simp
  have f: "fresh (at_step 7) ''q1''" "fresh (at_step 7) ''q2''" by code_simp+
  show ?thesis
    using landed_work_settles[OF at_wf v t h _ f, of orch] cond by (simp add: orch_def)
qed

subsection \<open>A manual check waits for the developer\<close>

lemma sort_key_mono_eq: "(\<And>x y. f x \<le> f y \<longleftrightarrow> g x \<le> g y) \<Longrightarrow> sort_key f xs = sort_key g xs"
proof (induction xs)
  case (Cons x xs)
  have "insort_key f x ys = insort_key g x ys" for ys using Cons.prems by (induction ys) auto
  then show ?case using Cons by simp
qed simp

text \<open>A task that holds no lease: the guards and the confirmation read the same attempt.\<close>

lemma currentAttempt_newest:
  "t_leaseAttemptId t = None \<Longrightarrow> currentAttempt db t = (case newestFirst db (t_id t) of [] \<Rightarrow> None | a # _ \<Rightarrow> Some a)"
proof -
  assume "t_leaseAttemptId t = None"
  then have "sort_key (attempt_key t) xs = sort_key (\<lambda>a. (a_startedAt a, a_id a)) xs" for xs
    by (intro sort_key_mono_eq) (simp add: attempt_key_def less_eq_prod_def)
  then show ?thesis by (simp add: currentAttempt_def newestFirst_def)
qed

definition landed_newest :: "rows \<Rightarrow> string \<Rightarrow> bool" where
  "landed_newest db i \<longleftrightarrow> (case newestFirst db i of
     a # _ \<Rightarrow> jget ''landed'' (map_option ve_gates (evidenceOf db (a_id a))) = Some (JBool True) | [] \<Rightarrow> False)"

definition manual_check :: "rows \<Rightarrow> string \<Rightarrow> bool" where
  "manual_check db i \<longleftrightarrow> filter (\<lambda>c. ck_mode c = ''manual'') (checks_of db i) \<noteq> []"

lemma confirmable_iff:
  assumes "find_task i db = Some t"
  shows "(\<exists>e. confirmable i db = Inl e) \<and> \<not> (t_state t = ''blocked'' \<and> manual_check db i \<and> landed_newest db i) \<or>
    (\<exists>a. confirmable i db = Inr (checks_of db i, a_id a) \<and> newestFirst db i \<noteq> [] \<and> hd (newestFirst db i) = a) \<and>
      t_state t = ''blocked'' \<and> manual_check db i \<and> landed_newest db i"
  using tasks_get_fst[OF assms]
  by (auto simp: confirmable_def manual_check_def landed_newest_def Let_def split: list.split)

lemma confirm_guard:
  assumes t: "t_leaseAttemptId t = None" "t_id t = i" "t_projectId t = d_projectId db"
    and new: "newestFirst db i = att # rest" and c: "manual_check db i" and l: "landed_newest db i"
  shows "checksConfirmedFn t me (snd (putEvidence (a_id att) None (confirmation me (checks_of db i)) db)) = None"
proof -
  have cur: "currentAttempt db t = Some att" using t new by (simp add: currentAttempt_newest)
  have "Policy.checksOf db t = checks_of db i" using t by (simp add: Policy.checksOf_def checks_of_def)
  moreover have "jget ''landed'' (currentGates db t) = Some (JBool True)"
    using l new cur by (cases "evidenceOf db (a_id att)") (simp_all add: landed_newest_def currentGates_def)
  ultimately show ?thesis
    using c cur by (simp add: checksConfirmedFn_def workLanded_def acceptancePassed_def confirmation_def gates_member_put manual_check_def)
qed

text \<open>
  C35: A landed task that was flagged is finished by the developer's confirmation, and by nothing less: the confirmation
  succeeds exactly when the task is blocked, has a manual check, has no live child, its newest attempt is recorded as landed, and
  a developer confirms; then the task is done. Refused before that, it changes no row.
\<close>

theorem confirm_exact:
  assumes w: "wf taskLifecycle db" and ver: "assertVersion taskLifecycle db = Inr ()"
    and t: "find_task i db = Some t" "t_projectId t = d_projectId db"
  shows "case confirmByHand me i why db of (r, db') \<Rightarrow>
    if t_state t = ''blocked'' \<and> manual_check db i \<and> landed_newest db i
    then if ac_role me = ''developer'' \<and> liveChildren taskLifecycle db i = []
         then r = Inr () \<and> (\<exists>t'. find_task i db' = Some t' \<and> t_state t' = ''done'')
         else r \<noteq> Inr () \<and> d_tasks db' = d_tasks db
    else r \<noteq> Inr () \<and> db' = db"
proof (cases "t_state t = ''blocked'' \<and> manual_check db i \<and> landed_newest db i")
  case False
  then show ?thesis
    using confirmable_iff[OF t(1)] by (auto simp: confirmByHand_def andThen_def reads_def)
next
  case True
  then obtain att rest where new: "newestFirst db i = att # rest" by (auto simp: landed_newest_def split: list.splits)
  then have c: "confirmable i db = Inr (checks_of db i, a_id att)" using confirmable_iff[OF t(1)] True by auto
  obtain d where d: "putEvidence (a_id att) None (confirmation me (checks_of db i)) db = (Inr (), d)" by (simp add: putEvidence_def)
  then have sd: "d = snd (putEvidence (a_id att) None (confirmation me (checks_of db i)) db)" by simp
  have run: "confirmByHand me i why db = moves_task me i ''confirm'' (because why) None d"
    using c d by (simp add: confirmByHand_def andThen_def reads_def)
  have wd: "wf taskLifecycle d" "assertVersion taskLifecycle d = Inr ()" "find_task i d = Some t" "d_tasks d = d_tasks db"
    using w ver t by (simp_all add: sd)
  have lease: "t_leaseAttemptId t = None"
    using wfD(3)[OF w] find_row_Some[OF t(1)] True by (auto simp: states_ok_def flag_simps)
  have g: "checksConfirmedFn t me d = None"
    unfolding sd by (rule confirm_guard[OF lease _ t(2) new]) (use True find_row_Some[OF t(1)] in auto)
  have ok: "isOk (move taskLifecycle me i ''confirm'' (because why) None d) \<longleftrightarrow>
      ac_role me = ''developer'' \<and> liveChildren taskLifecycle db i = []"
    using wd g True
    by (auto simp: move_isOk[OF wd(1)] moveNamed_simp move_defs flag_simps liveChildren_def childrenOf_def)
  have "mo_requestId (because why) = None" by (simp add: because_def)
  then show ?thesis
  proof (cases rule: moves_task_cases[of "because why" me i "''confirm''" None d])
    case (refused e)
    then show ?thesis using ok True run wd(4) by (auto simp: isOk_def)
  next
    case (made m row db1 evs db2)
    then have "m_to m = ''done''" by (auto simp: moveNamed_simp move_defs)
    then show ?thesis using made ok True run by (auto simp: isOk_def)
  qed
qed


text \<open>The same task, landed and flagged for its manual check.\<close>

definition flagged_db :: "rows" where
  "flagged_db = (let db = (at_step 7)\<lparr>d_caller := demo_rows\<lparr>sr_checks := [\<lparr>ck_projectId = ''p'', ck_taskId = Some ''k-111.1'', ck_mode = ''manual''\<rparr>]\<rparr>\<rparr> in
     snd (finishOrFlag orch (Some ''u1'') ''k-111.1'' ''merged'' ''q1'' ''a manual check waits'' ''q2'' db))"

definition ready_to_confirm :: "rows \<Rightarrow> string \<Rightarrow> bool" where
  "ready_to_confirm db i \<longleftrightarrow> (case find_task i db of None \<Rightarrow> False
     | Some t \<Rightarrow> t_projectId t = d_projectId db \<and> t_state t = ''blocked'' \<and> manual_check db i \<and> landed_newest db i \<and>
         liveChildren taskLifecycle db i = [] \<and> isOk (assertVersion taskLifecycle db))"

lemma flagged_ready: "ready_to_confirm flagged_db ''k-111.1''"
  by code_simp

theorem confirm_exact_witness:
  "\<exists>t' db'. confirmByHand ana ''k-111.1'' ''seen'' flagged_db = (Inr (), db') \<and> find_task ''k-111.1'' db' = Some t' \<and> t_state t' = ''done''"
proof -
  obtain t where t: "find_task ''k-111.1'' flagged_db = Some t" "t_projectId t = d_projectId flagged_db"
    and s: "t_state t = ''blocked''" "manual_check flagged_db ''k-111.1''" "landed_newest flagged_db ''k-111.1''"
      "liveChildren taskLifecycle flagged_db ''k-111.1'' = []"
    and v: "assertVersion taskLifecycle flagged_db = Inr ()"
    using flagged_ready by (auto simp: ready_to_confirm_def isOk_iff split: option.splits)
  have w: "wf taskLifecycle flagged_db"
    unfolding flagged_db_def Let_def by (rule finishOrFlag_wf) (use at_wf[of 7] in \<open>simp add: wf_def\<close>)
  have "ac_role ana = ''developer''" by (simp add: ana_def)
  then show ?thesis
    using confirm_exact[OF w v t, of ana "''seen''"] s by (auto split: prod.splits)
qed

end
