(* ===== verification/CancelProperties.thy ===== *)
theory CancelProperties
  imports StoreProperties Paths
begin

text \<open>
  Cancelling by hand (src/policy/task/by-hand.ts): a whole subtree goes in one pass, each container after what is under it.
\<close>

subsection \<open>One cancel\<close>

definition cancels_all :: "actor \<Rightarrow> cancel_options \<Rightarrow> bool" where
  "cancels_all me opts \<longleftrightarrow> ac_role me = ''developer'' \<and> cn_withChildren opts \<and> cn_dropDeps opts"

definition steady :: "rows \<Rightarrow> bool" where
  "steady db \<longleftrightarrow> wf taskLifecycle db \<and> assertVersion taskLifecycle db = Inr ()"

definition live_task :: "rows \<Rightarrow> string \<Rightarrow> bool" where
  "live_task db i \<longleftrightarrow> (case find_task i db of Some t \<Rightarrow> \<not> isTerminal taskLifecycle (t_state t) | None \<Rightarrow> False)"

definition is_cancelled :: "rows \<Rightarrow> string \<Rightarrow> bool" where
  "is_cancelled db i \<longleftrightarrow> (case find_task i db of Some t \<Rightarrow> t_state t = ''cancelled'' | None \<Rightarrow> False)"

lemma moved_version [simp]:
  "d_lifecycleName (endHeld att nm db) = d_lifecycleName db" "d_lifecycleVersion (endHeld att nm db) = d_lifecycleVersion db"
  "d_lifecycleName (dropEdges i ds db) = d_lifecycleName db" "d_lifecycleVersion (dropEdges i ds db) = d_lifecycleVersion db"
  "d_projectId (endHeld att nm db) = d_projectId db" "d_projectId (dropEdges i ds db) = d_projectId db"
  by (simp_all add: endHeld_def endAttempt_def upd_attempt_def dropEdges_def split: option.split)

lemma assertVersion_ok: "assertVersion lc db = Inr () \<longleftrightarrow> d_lifecycleName db = l_name lc \<and> d_lifecycleVersion db = l_version lc"
  by (auto simp: assertVersion_def)

lemma cancel_one:
  assumes s: "steady db" and o: "cancels_all me opts" and l: "live_task db i" and c: "liveChildren taskLifecycle db i = []"
  shows "\<exists>db'. moves_task me i ''cancel'' (cancel_move opts) None db = (Inr (), db') \<and> steady db' \<and> is_cancelled db' i \<and>
    (\<forall>k. k \<noteq> i \<longrightarrow> find_task k db' = find_task k db) \<and> parents (d_tasks db') = parents (d_tasks db)"
proof -
  have w: "wf taskLifecycle db" and v: "assertVersion taskLifecycle db = Inr ()" using s by (auto simp: steady_def)
  obtain t where t: "find_task i db = Some t" "\<not> isTerminal taskLifecycle (t_state t)"
    using l by (auto simp: live_task_def split: option.splits)
  then have "t_state t \<in> set nonTerminal"
    using wfD(3)[OF w] find_row_Some[OF t(1)] by (auto simp: states_ok_def isState_simp flag_simps nonTerminal_def)
  then have ok: "isOk (move taskLifecycle me i ''cancel'' (cancel_move opts) None db)"
    using v t(1) c o by (auto simp: move_isOk[OF w] moveNamed_simp move_defs cancels_all_def cancel_move_def)
  have "mo_requestId (cancel_move opts) = None" by (simp add: cancel_move_def)
  then show ?thesis
  proof (cases rule: moves_task_cases[of "cancel_move opts" me i "''cancel''" None db])
    case (refused e)
    then show ?thesis using ok by (simp add: isOk_def)
  next
    case (made m row db1 evs db2)
    have "d_tasks db1 = upd_row t_id i (moved_row taskLifecycle m (d_now db)) (d_tasks db) \<and> assertVersion taskLifecycle db1 = Inr ()"
      by (rule move_Inr[OF made(1)]) (use made(4) v in \<open>simp add: assertVersion_ok\<close>)
    then have tasks: "d_tasks db2 = upd_row t_id i (moved_row taskLifecycle m (d_now db)) (d_tasks db)"
      and v2: "assertVersion taskLifecycle db2 = Inr ()"
      using made(3) by (auto simp: same_rowsD assertVersion_ok)
    have "wf taskLifecycle db2" using moves_task_wf[OF w, of me i "''cancel''" "cancel_move opts" None] made(2) by simp
    moreover have "m_to m = ''cancelled''" using made(4) by (auto simp: moveNamed_simp move_defs)
    moreover have "parents (d_tasks db2) = parents (d_tasks db)" unfolding tasks by (rule parents_upd) (simp_all add: moved_row_def)
    moreover have "find_task k db2 = find_task k db" if "k \<noteq> i" for k
      using that by (simp add: tasks find_row_upd moved_row_def)
    ultimately show ?thesis using made v2 by (auto simp: steady_def is_cancelled_def)
  qed
qed

subsection \<open>One pass\<close>

text \<open>Every live task under one of the list comes before it.\<close>

fun children_first :: "rows \<Rightarrow> string list \<Rightarrow> string list \<Rightarrow> bool" where
  "children_first db before [] \<longleftrightarrow> True"
| "children_first db before (x # xs) \<longleftrightarrow> set (liveChildren taskLifecycle db x) \<subseteq> set before \<and> children_first db (x # before) xs"

lemma live_child:
  "wf taskLifecycle db \<Longrightarrow> c \<in> set (liveChildren taskLifecycle db x) \<longleftrightarrow> live_task db c \<and> (c, x) \<in> parents (d_tasks db)"
proof -
  assume w: "wf taskLifecycle db"
  have "find_task (t_id t) db = Some t" if "t \<in> set (d_tasks db)" for t
    using wfD(1)[OF w] that find_row_unique by (fastforce simp: forest_ok_def)
  then show ?thesis
    using find_row_Some[of t_id c "d_tasks db"]
    by (fastforce simp: set_liveChildren[OF taskLifecycle_valid] live_task_def parents_def split: option.splits)
qed

lemma cancel_pass_all:
  assumes "steady db" and "cancels_all me opts" and "distinct xs" and "\<forall>x \<in> set xs. live_task db x"
    and "children_first db before xs" and "\<forall>x \<in> set before. \<not> live_task db x"
  shows "\<exists>db'. cancel_pass me opts batch xs gone left final db = (Inr (gone @ xs, left, final), db') \<and>
    (\<forall>k. k \<notin> set xs \<longrightarrow> find_task k db' = find_task k db) \<and> (\<forall>k \<in> set xs. is_cancelled db' k)"
  using assms
proof (induction xs arbitrary: gone db before)
  case (Cons x xs)
  have w: "wf taskLifecycle db" using Cons.prems(1) by (simp add: steady_def)
  have none: "liveChildren taskLifecycle db x = []"
    using Cons.prems(5,6) live_child[OF w] by (metis children_first.simps(2) list.set_intros(1) neq_Nil_conv subsetD)
  obtain d where d: "moves_task me x ''cancel'' (cancel_move opts) None db = (Inr (), d)" "steady d" "is_cancelled d x"
      "\<And>k. k \<noteq> x \<Longrightarrow> find_task k d = find_task k db" "parents (d_tasks d) = parents (d_tasks db)"
    using cancel_one[OF Cons.prems(1,2) _ none] Cons.prems(4) by auto
  have wd: "wf taskLifecycle d" using d(2) by (simp add: steady_def)
  have dead: "\<not> live_task d x" using d(3) by (auto simp: is_cancelled_def live_task_def flag_simps split: option.splits)
  have live: "live_task d k \<longleftrightarrow> live_task db k" if "k \<noteq> x" for k using d(4)[OF that] by (simp add: live_task_def)
  have fewer: "set (liveChildren taskLifecycle d y) \<subseteq> set (liveChildren taskLifecycle db y)" for y
    using live_child[OF wd] live_child[OF w] d(5) dead live by fastforce
  have "children_first d b ys" if "children_first db b ys" for b ys
    using that fewer by (induction ys arbitrary: b) (auto dest: subset_trans)
  then have "children_first d (x # before) xs" using Cons.prems(5) by simp
  moreover have "\<forall>k \<in> set xs. live_task d k" using Cons.prems(3,4) live by (metis distinct.simps(2) list.set_intros(2))
  moreover have "\<forall>k \<in> set (x # before). \<not> live_task d k" using Cons.prems(6) dead live by (metis set_ConsD)
  ultimately obtain db' where db': "cancel_pass me opts batch xs (gone @ [x]) left final d = (Inr ((gone @ [x]) @ xs, left, final), db')"
      "\<forall>k. k \<notin> set xs \<longrightarrow> find_task k db' = find_task k d" "\<forall>k \<in> set xs. is_cancelled db' k"
    using Cons.IH[OF d(2) Cons.prems(2), of "x # before" "gone @ [x]"] Cons.prems(3) by auto
  have "is_cancelled db' x" using db'(2) d(3) Cons.prems(3) by (simp add: is_cancelled_def)
  then show ?case using d db' by (intro exI[of _ db']) auto
qed simp

lemma cancelInPasses_all:
  assumes "steady db" and "cancels_all me opts" and "distinct xs" and "\<forall>x \<in> set xs. live_task db x" and "children_first db [] xs"
  shows "\<exists>db'. cancelInPasses me opts batch xs [] db = (Inr xs, db') \<and>
    (\<forall>k. k \<notin> set xs \<longrightarrow> find_task k db' = find_task k db) \<and> (\<forall>k \<in> set xs. is_cancelled db' k)"
proof (cases "xs = []")
  case False
  obtain db' where "cancel_pass me opts batch xs [] [] None db = (Inr (xs, [], None), db')"
      "\<forall>k. k \<notin> set xs \<longrightarrow> find_task k db' = find_task k db" "\<forall>k \<in> set xs. is_cancelled db' k"
    using cancel_pass_all[OF assms, of batch "[]" "[]" None] by auto
  then show ?thesis using False by (subst cancelInPasses.simps) (simp add: cancelInPasses.simps[of _ _ _ "[]"])
qed (simp add: cancelInPasses.simps)

subsection \<open>Deepest first\<close>

lemma find_map_id: "distinct (map t_id ts) \<Longrightarrow> t \<in> set ts \<Longrightarrow> find_row t_id (t_id t) ts = Some t"
  by (rule find_row_unique) auto

text \<open>The live tasks below one, as the cancel reads them.\<close>

definition live_below :: "rows \<Rightarrow> string \<Rightarrow> task set" where
  "live_below db i = {t \<in> set (d_tasks db). (t_id t, i) \<in> (parents (d_tasks db))\<^sup>+ \<and> \<not> isTerminal taskLifecycle (t_state t)}"

lemma depth_exact:
  assumes w: "wf taskLifecycle db" and ts: "set ts = live_below db i" "distinct (map t_id ts)"
  shows "(x, i) \<in> parents (d_tasks db) ^^ k \<Longrightarrow> live_task db x \<Longrightarrow> k \<le> n \<Longrightarrow>
    depthOf (\<lambda>x. Option.bind (find_row t_id x ts) t_parentId) i n x = k"
proof (induction k arbitrary: x n)
  case 0
  then show ?case by (cases n) auto
next
  case (Suc k)
  obtain p where p: "(x, p) \<in> parents (d_tasks db)" "(p, i) \<in> parents (d_tasks db) ^^ k"
    using relpow_Suc_D2[OF Suc.prems(1)] by blast
  obtain m where m: "n = Suc m" "k \<le> m" using Suc.prems(3) by (cases n) auto
  from p have up: "(x, i) \<in> (parents (d_tasks db))\<^sup>+" by (meson relpow_imp_rtrancl rtrancl_into_trancl2)
  obtain t where t: "find_task x db = Some t" "\<not> isTerminal taskLifecycle (t_state t)"
    using Suc.prems(2) by (auto simp: live_task_def split: option.splits)
  have tx: "t \<in> set (d_tasks db)" "t_id t = x" using find_row_Some[OF t(1)] by auto
  then have "t \<in> set ts" using t up by (simp add: ts live_below_def)
  then have row: "find_row t_id x ts = Some t" using find_map_id[OF ts(2)] tx by auto
  have "distinct (map t_id (d_tasks db))" using wfD(1)[OF w] by (simp add: forest_ok_def)
  then have tp: "t_parentId t = Some p" using p(1) tx by (force simp: parents_def dest: distinct_key_eq)
  obtain u where u: "u \<in> set (d_tasks db)" "t_id u = p"
    using p(1) wfD(1)[OF w] by (force simp: forest_ok_def ids_def)
  then have "\<not> isTerminal taskLifecycle (t_state u)" using wfD(4)[OF w] tx(1) tp t(2) by (auto simp: closed_ok_def)
  then have "live_task db p"
    using u \<open>distinct (map t_id (d_tasks db))\<close> find_map_id by (fastforce simp: live_task_def)
  then have "depthOf (\<lambda>x. Option.bind (find_row t_id x ts) t_parentId) i m p = k" using Suc.IH p(2) m(2) by blast
  moreover have "x \<noteq> i" using up wfD(1)[OF w] by (auto simp: forest_ok_def acyclic_def)
  ultimately show ?case using m row tp by simp
qed

lemma children_firstI:
  "(\<And>ys x zs. xs = ys @ x # zs \<Longrightarrow> set (liveChildren taskLifecycle db x) \<subseteq> set before \<union> set ys) \<Longrightarrow> children_first db before xs"
proof (induction xs arbitrary: before)
  case (Cons x xs)
  have "set (liveChildren taskLifecycle db x) \<subseteq> set before" using Cons.prems[of "[]" x xs] by simp
  moreover have "children_first db (x # before) xs"
  proof (rule Cons.IH)
    fix ys y zs assume "xs = ys @ y # zs"
    then show "set (liveChildren taskLifecycle db y) \<subseteq> set (x # before) \<union> set ys" using Cons.prems[of "x # ys" y zs] by auto
  qed
  ultimately show ?case by simp
qed simp

lemma sorted_before:
  assumes "sorted (map f (ys @ x # zs))" and "c \<in> set (ys @ x # zs)" and "f c < f x"
  shows "c \<in> set ys"
  using assms by (auto simp: sorted_append)

lemma live_below_ids:
  assumes w: "wf taskLifecycle db"
  shows "t_id ` live_below db i = {k. live_task db k \<and> (k, i) \<in> (parents (d_tasks db))\<^sup>+}"
proof (intro equalityI subsetI)
  fix k assume "k \<in> t_id ` live_below db i"
  then show "k \<in> {k. live_task db k \<and> (k, i) \<in> (parents (d_tasks db))\<^sup>+}"
    using wfD(1)[OF w] find_map_id[of "d_tasks db"] by (auto simp: live_below_def live_task_def forest_ok_def)
next
  fix k assume "k \<in> {k. live_task db k \<and> (k, i) \<in> (parents (d_tasks db))\<^sup>+}"
  then show "k \<in> t_id ` live_below db i"
    using find_row_Some[of t_id k "d_tasks db"] by (force simp: live_below_def live_task_def split: option.splits)
qed

lemma deepest_children_first:
  assumes w: "wf taskLifecycle db" and ts: "set ts = live_below db i" "distinct (map t_id ts)" and i: "live_task db i"
  shows "children_first db [] (deepest_first db i ts @ [i])"
proof (rule children_firstI)
  let ?d = "depthOf (\<lambda>x. Option.bind (find_row t_id x ts) t_parentId) i (length (d_tasks db))"
  let ?R = "parents (d_tasks db)"
  fix ys x zs assume split: "deepest_first db i ts @ [i] = ys @ x # zs"
  have fin: "finite ?R" "card ?R \<le> length (d_tasks db)" "acyclic ?R"
    using card_parents[of db] wfD(1)[OF w] by (auto simp: forest_ok_def)
  have mem: "set (ys @ x # zs) = {k. live_task db k \<and> (k, i) \<in> ?R\<^sup>*}"
  proof -
    have "set (deepest_first db i ts @ [i]) = {k. live_task db k \<and> (k, i) \<in> ?R\<^sup>+} \<union> {i}"
      by (simp add: deepest_first_def ts(1) live_below_ids[OF w])
    then show ?thesis using i unfolding split by (auto simp: rtrancl_eq_or_trancl)
  qed
  have depth: "(k, i) \<in> ?R ^^ ?d k" if l: "live_task db k" and up: "(k, i) \<in> ?R\<^sup>*" for k
  proof -
    obtain n where n: "(k, i) \<in> ?R ^^ n" using up by (auto simp: rtrancl_power)
    then have "n \<le> length (d_tasks db)" using relpow_bound[OF fin(1,3)] fin(2) by fastforce
    then show ?thesis using depth_exact[OF w ts n l] n by simp
  qed
  have sorted: "sorted (map (\<lambda>x. - int (?d x)) (ys @ x # zs))"
    unfolding split[symmetric] deepest_first_def by (cases "length (d_tasks db)") (simp_all add: sorted_append)
  show "set (liveChildren taskLifecycle db x) \<subseteq> set [] \<union> set ys"
  proof
    fix c assume "c \<in> set (liveChildren taskLifecycle db x)"
    then have c: "live_task db c" "(c, x) \<in> ?R" using live_child[OF w] by auto
    have x: "live_task db x" "(x, i) \<in> ?R\<^sup>*" using mem by auto
    then have ci: "(c, i) \<in> ?R\<^sup>*" using c(2) by (meson converse_rtrancl_into_rtrancl)
    have "(c, i) \<in> ?R ^^ Suc (?d x)" using c(2) depth[OF x] by (rule relpow_Suc_I2)
    then have "?d c = Suc (?d x)"
      using depth_exact[OF w ts _ c(1), of "Suc (?d x)" "length (d_tasks db)"] relpow_bound[OF fin(1,3)] fin(2) by fastforce
    moreover have "c \<in> set (ys @ x # zs)" unfolding mem using c(1) ci by simp
    ultimately have "c \<in> set ys" using sorted_before[OF sorted, of c] by simp
    then show "c \<in> set [] \<union> set ys" by simp
  qed
qed

lemma subtree_rows:
  assumes w: "wf taskLifecycle db" and t: "find_task i db = Some t"
  shows "\<exists>ts. tasks_subtree db i = Inr ts \<and> distinct (map t_id ts) \<and>
    set (filter (\<lambda>u. t_id u \<noteq> i \<and> \<not> isTerminal taskLifecycle (t_state u)) ts) = live_below db i"
proof -
  let ?R = "parents (d_tasks db)"
  have below: "set (below db i) = {k. (k, i) \<in> ?R\<^sup>+}"
  proof -
    have "t_id ` set (childrenOf db i) = {k. (k, i) \<in> ?R}" by (force simp: childrenOf_def parents_def)
    then show ?thesis
      by (auto simp: below_def set_reach set_flipped set_parent_edges rtrancl_converse trancl_unfold_right)
  qed
  have i: "(i, i) \<notin> ?R\<^sup>+" using wfD(1)[OF w] by (auto simp: forest_ok_def acyclic_def)
  let ?ts = "listWhere db (filterWhere db (noFilter\<lparr>fl_within := Some i\<rparr>)) (noFilter\<lparr>fl_orderBy := Some ByCreated\<rparr>)"
  have "?ts = sort_key created_key (filter (\<lambda>u. t_id u \<in> set (below db i)) (d_tasks db))"
    by (simp add: listWhere_def filterWhere_def[abs_def] noFilter_def given_def limited_def orElse_def)
  moreover have "distinct (map t_id (sort_key created_key (filter P (d_tasks db))))" for P
    using wfD(1)[OF w] by (auto simp: forest_ok_def distinct_map intro: inj_on_subset)
  ultimately have "set ?ts = {u \<in> set (d_tasks db). t_id u \<in> set (below db i)}" and "distinct (map t_id ?ts)"
    by simp_all
  moreover have "tasks_subtree db i = Inr ?ts" using t by (simp add: tasks_subtree_def)
  ultimately show ?thesis
    using i by (intro exI[of _ ?ts]) (auto simp: live_below_def below)
qed

text \<open>
  C36: A developer who cancels a task with its children and drops the edges onto them always succeeds: on a sound project,
  every live task of the subtree is cancelled, each exactly once and reported, and no other task changes.
\<close>

theorem cancel_takes_the_subtree:
  assumes w: "wf taskLifecycle db" and ver: "assertVersion taskLifecycle db = Inr ()" and l: "live_task db i"
    and o: "ac_role me = ''developer''" "cn_withChildren opts" "cn_dropDeps opts"
  shows "\<exists>gone db'. cancelByHand me i opts db = (Inr gone, db') \<and> distinct gone \<and>
    set gone = {k. live_task db k \<and> (k, i) \<in> (parents (d_tasks db))\<^sup>*} \<and>
    (\<forall>k. if k \<in> set gone then is_cancelled db' k else find_task k db' = find_task k db)"
proof -
  have s: "steady db" and co: "cancels_all me opts" using w ver o by (auto simp: steady_def cancels_all_def)
  obtain t where t: "find_task i db = Some t" "\<not> isTerminal taskLifecycle (t_state t)"
    using l by (auto simp: live_task_def split: option.splits)
  obtain sub where sub: "tasks_subtree db i = Inr sub" "distinct (map t_id sub)"
      "set (filter (\<lambda>u. t_id u \<noteq> i \<and> \<not> isTerminal taskLifecycle (t_state u)) sub) = live_below db i"
    using subtree_rows[OF w t(1)] by blast
  define ts where "ts = filter (\<lambda>u. t_id u \<noteq> i \<and> \<not> isTerminal taskLifecycle (t_state u)) sub"
  have ts: "set ts = live_below db i" "distinct (map t_id ts)" "i \<notin> t_id ` set ts"
    using sub by (auto simp: ts_def distinct_map intro: inj_on_subset)
  let ?all = "deepest_first db i ts @ [i]"
  have all: "set ?all = {k. live_task db k \<and> (k, i) \<in> (parents (d_tasks db))\<^sup>*}" "distinct ?all"
    using live_below_ids[OF w, of i] ts l by (auto simp: deepest_first_def rtrancl_eq_or_trancl)
  have "\<forall>k \<in> set ?all. live_task db k" unfolding all(1) by simp
  then obtain db' where run: "cancelInPasses me opts ?all ?all [] db = (Inr ?all, db')"
      and rest: "\<forall>k. k \<notin> set ?all \<longrightarrow> find_task k db' = find_task k db" "\<forall>k \<in> set ?all. is_cancelled db' k"
    using cancelInPasses_all[OF s co all(2) _ deepest_children_first[OF w ts(1,2) l]] by blast
  obtain x where "tasks_get db i = Inr (t, x)" using tasks_get_fst[OF t(1)] by blast
  then have "cancelByHand me i opts db = (Inr ?all, db')"
    using t(2) o sub(1) run by (cases x) (simp add: cancelByHand_def andThen_def reads_def ts_def Let_def)
  then show ?thesis using all rest by (intro exI[of _ ?all] exI[of _ db']) (simp split: if_split)
qed

theorem cancel_takes_the_subtree_witness:
  "\<exists>gone db'. cancelByHand ana ''k-111'' \<lparr>cn_withChildren = True, cn_dropDeps = True, cn_reason = ''dropped''\<rparr> (at_step 7) = (Inr gone, db') \<and>
     ''k-111.2'' \<in> set gone \<and> is_cancelled db' ''k-111.2''"
proof -
  let ?o = "\<lparr>cn_withChildren = True, cn_dropDeps = True, cn_reason = ''dropped''\<rparr>"
  have v: "assertVersion taskLifecycle (at_step 7) = Inr ()" and l: "live_task (at_step 7) ''k-111''" and c: "live_task (at_step 7) ''k-111.2''"
    and p: "(''k-111.2'', ''k-111'') \<in> set (parent_edges (at_step 7))"
    by code_simp+
  have "ac_role ana = ''developer''" by (simp add: ana_def)
  from cancel_takes_the_subtree[OF at_wf v l this, of ?o] obtain gone db' where g:
      "cancelByHand ana ''k-111'' ?o (at_step 7) = (Inr gone, db')"
      "set gone = {k. live_task (at_step 7) k \<and> (k, ''k-111'') \<in> (parents (d_tasks (at_step 7)))\<^sup>*}"
      "\<forall>k. if k \<in> set gone then is_cancelled db' k else find_task k db' = find_task k (at_step 7)"
    by auto
  have "''k-111.2'' \<in> set gone" using c p by (auto simp: g(2) set_parent_edges)
  with g show ?thesis by auto
qed

end
