(* ===== verification/Bundle.thy ===== *)
theory Bundle
  imports Paths Claims Validators Retry
begin

text \<open>
  Import, export and purge of a whole project (src/src/taskgraph/bundle.ts). A bundle is every row of one project; an
  import checks it as a graph before it writes a row, and the tables' constraints and the task trigger
  (migrations/0001_core.ts, 0003_activation.ts) check each row as it is written.

  A bundle's tasks are task rows whose project id is not looked at, its events are event rows to write. What the database
  already holds of other projects is an argument: their ids and their attempts' ids, both unique across projects.
\<close>

subsection \<open>The bundle\<close>

record project_bundle =
  b_id :: "string option"
  b_name :: string
  b_idPrefix :: string
  b_lifecycleName :: string
  b_lifecycleVersion :: nat
  b_createdAt :: int
  b_plans :: "plan list"
  b_tasks :: "task list"
  b_deps :: "dep list"
  b_links :: "link list"
  b_attempts :: "attempt list"
  b_events :: "new_event list"

definition is_hex :: "char \<Rightarrow> bool" where
  "is_hex c \<longleftrightarrow> CHR ''0'' \<le> c \<and> c \<le> CHR ''9'' \<or> CHR ''a'' \<le> c \<and> c \<le> CHR ''f'' \<or> CHR ''A'' \<le> c \<and> c \<le> CHR ''F''"

definition is_uuid :: "string \<Rightarrow> bool" where
  "is_uuid s \<longleftrightarrow> length s = 36 \<and>
     list_all (\<lambda>(i, c). if i \<in> {8, 13, 18, 23} then c = CHR ''-'' else is_hex c) (enumerate 0 s)"

definition given_uuid :: "string option \<Rightarrow> bool" where
  "given_uuid x = (case x of None \<Rightarrow> True | Some s \<Rightarrow> is_uuid s)"

fun json_object :: "json \<Rightarrow> bool" where
  "json_object (JObj _) = True"
| "json_object _ = False"

text \<open>The parts of the bundle its schema refuses, by path; the types of the fields are those of the model's records.\<close>

definition bundle_issues :: "project_bundle \<Rightarrow> string list" where
  "bundle_issues b =
     issue (given_uuid (b_id b)) ''project.id'' @
     issue (b_name b \<noteq> '''') ''project.name'' @
     issue (b_idPrefix b \<noteq> '''') ''project.idPrefix'' @
     issue (b_lifecycleName b \<noteq> '''') ''project.lifecycleName'' @
     issue (list_all (\<lambda>p. p_id p \<noteq> '''' \<and> json_object (p_meta p)) (b_plans b)) ''plans'' @
     issue (list_all (\<lambda>t. t_id t \<noteq> '''' \<and> t_state t \<noteq> '''' \<and> json_object (t_spec t) \<and> 1 \<le> t_nextChild t \<and> given_uuid (t_leaseAttemptId t)) (b_tasks b)) ''tasks'' @
     issue (list_all (\<lambda>(x, y). x \<noteq> '''' \<and> y \<noteq> '''') (b_deps b)) ''deps'' @
     issue (list_all (\<lambda>(x, y, k). x \<noteq> '''' \<and> y \<noteq> '''' \<and> k \<noteq> '''') (b_links b)) ''links'' @
     issue (list_all (\<lambda>a. is_uuid (a_id a) \<and> a_taskId a \<noteq> '''') (b_attempts b)) ''attempts'' @
     issue (list_all (\<lambda>e. n_kind e \<noteq> '''' \<and> given_uuid (n_attemptId e) \<and> json_object (n_payload e) \<and> n_at e \<noteq> None) (b_events b)) ''events''"

definition parseBundle :: "project_bundle \<Rightarrow> tg_error + unit" where
  "parseBundle b = (if bundle_issues b = [] then Inr ()
     else Inl (InvalidRequest (''not a taskgraph.bundle v1: '' @ joined ''; '' (take 5 (bundle_issues b)))))"

subsection \<open>The checks on the graph\<close>

fun each :: "('a \<Rightarrow> tg_error + unit) \<Rightarrow> 'a list \<Rightarrow> tg_error + unit" where
  "each f [] = Inr ()"
| "each f (x # xs) = bindE (f x) (\<lambda>_. each f xs)"

lemma each_Inr: "each f xs = Inr () \<longleftrightarrow> (\<forall>x \<in> set xs. f x = Inr ())"
  by (induction xs) auto

fun unique_from :: "string \<Rightarrow> ('a \<Rightarrow> string option) \<Rightarrow> string list \<Rightarrow> 'a list \<Rightarrow> tg_error + unit" where
  "unique_from what key seen [] = Inr ()"
| "unique_from what key seen (x # xs) = (case key x of
       None \<Rightarrow> unique_from what key seen xs
     | Some k \<Rightarrow> if k \<in> set seen then Inl (InvalidRequest (''the bundle repeats '' @ what @ '' '' @ k))
                else unique_from what key (k # seen) xs)"

definition unique :: "string \<Rightarrow> ('a \<Rightarrow> string option) \<Rightarrow> 'a list \<Rightarrow> tg_error + unit" where
  "unique what key xs = unique_from what key [] xs"

definition refuse_if :: "bool \<Rightarrow> tg_error \<Rightarrow> tg_error + unit" where
  "refuse_if c e = (if c then Inl e else Inr ())"

definition missing :: "project_bundle \<Rightarrow> string \<Rightarrow> string option \<Rightarrow> tg_error + unit" where
  "missing b what x = (case x of None \<Rightarrow> Inr ()
     | Some i \<Rightarrow> refuse_if (i \<notin> t_id ` set (b_tasks b)) (InvalidRequest (what @ '' names task '' @ i @ '', which the bundle doesn't have'')))"

definition parentOf :: "project_bundle \<Rightarrow> string \<Rightarrow> string option" where
  "parentOf b i = Option.bind (find_row t_id i (b_tasks b)) t_parentId"

text \<open>\<open>out.keys()\<close>: the tasks that depend on something, in the order the bundle first names them.\<close>

fun first_seen :: "string list \<Rightarrow> string list \<Rightarrow> string list" where
  "first_seen seen [] = []"
| "first_seen seen (x # xs) = (if x \<in> set seen then first_seen seen xs else x # first_seen (x # seen) xs)"

text \<open>
  The depth-first search for a cycle. It is the search of the plan validator (\<open>Validators.visit\<close>): a grey node is one
  on the path, a black one is finished. The edge that closes a cycle goes from the path's last node.
\<close>

definition refuse_cycle :: "dep list \<Rightarrow> tg_error + unit" where
  "refuse_cycle ds = (case visit ds (2 * length ds) (first_seen [] (map fst ds)) [] [] of
     Inr _ \<Rightarrow> Inr () | Inl cycle \<Rightarrow> Inl (CycleError (last (butlast cycle)) (last cycle) None))"

definition refuse_nested :: "project_bundle \<Rightarrow> dep \<Rightarrow> tg_error + unit" where
  "refuse_nested b d = (let n = length (b_tasks b); above = (\<lambda>x. set (walk_up (parentOf b) n (parentOf b x))) in
     refuse_if (snd d \<in> above (fst d) \<or> fst d \<in> above (snd d))
       (CycleError (fst d) (snd d) (Some ''one contains the other, and a container settles only after its children'')))"

text \<open>The open attempts by task; \<open>None\<close> when a task has two.\<close>

fun open_map :: "attempt list \<Rightarrow> (string \<times> string) list \<Rightarrow> tg_error + (string \<times> string) list" where
  "open_map [] acc = Inr acc"
| "open_map (a # as) acc = (if a_endedAt a \<noteq> None then open_map as acc
     else if a_taskId a \<in> fst ` set acc then Inl (InvalidRequest (''task '' @ a_taskId a @ '' has more than one open attempt''))
     else open_map as ((a_taskId a, a_id a) # acc))"

definition check_lease :: "'x lifecycle \<Rightarrow> (string \<times> string) list \<Rightarrow> task \<Rightarrow> tg_error + unit" where
  "check_lease lc opened t = (let leased = stateFlag sf_leased lc (t_state t) in
     bindE (refuse_if (leased \<noteq> (t_leaseAttemptId t \<noteq> None))
       (InvalidRequest (''task '' @ t_id t @ '' is '' @ t_state t @ '' '' @ (if leased then ''without a lease'' else ''but holds a lease'')))) (\<lambda>_.
     refuse_if (t_leaseAttemptId t \<noteq> map_of opened (t_id t))
       (InvalidRequest (''task '' @ t_id t @ '''s lease and its open attempt don't match''))))"

definition state_of :: "project_bundle \<Rightarrow> string \<Rightarrow> string" where
  "state_of b i = (case find_row t_id i (b_tasks b) of Some t \<Rightarrow> t_state t | None \<Rightarrow> '''')"

definition check_container :: "'x lifecycle \<Rightarrow> project_bundle \<Rightarrow> task \<Rightarrow> tg_error + unit" where
  "check_container lc b t = (case t_parentId t of None \<Rightarrow> Inr ()
     | Some p \<Rightarrow> refuse_if (isTerminal lc (state_of b p) \<and> \<not> isTerminal lc (t_state t))
         (InvalidRequest (''task '' @ p @ '' is '' @ state_of b p @ '' with a live child, '' @ t_id t)))"

definition check_dependent :: "'x lifecycle \<Rightarrow> project_bundle \<Rightarrow> dep \<Rightarrow> tg_error + unit" where
  "check_dependent lc b d = (let target = state_of b (snd d) in
     refuse_if (\<not> isTerminal lc (state_of b (fst d)) \<and> isTerminal lc target \<and> \<not> isSatisfying lc target)
       (InvalidRequest (''task '' @ fst d @ '' waits on '' @ snd d @ '', which is '' @ target)))"

definition check_names :: "project_bundle \<Rightarrow> tg_error + unit" where
  "check_names b =
     bindE (unique ''task id'' (\<lambda>t. Some (t_id t)) (b_tasks b)) (\<lambda>_.
     bindE (unique ''task key'' t_key (b_tasks b)) (\<lambda>_.
     bindE (unique ''plan id'' (\<lambda>p. Some (p_id p)) (b_plans b)) (\<lambda>_.
     bindE (unique ''attempt id'' (\<lambda>a. Some (a_id a)) (b_attempts b)) (\<lambda>_.
     bindE (unique ''dependency'' (\<lambda>d. Some (fst d @ '' -> '' @ snd d)) (b_deps b)) (\<lambda>_.
     bindE (unique ''link'' (\<lambda>l. Some (fst l @ '' -'' @ snd (snd l) @ ''-> '' @ fst (snd l))) (b_links b)) (\<lambda>_.
     unique ''request id'' n_requestId (b_events b)))))))"

definition check_plan :: "project_bundle \<Rightarrow> task \<Rightarrow> tg_error + unit" where
  "check_plan b t = (case t_planId t of None \<Rightarrow> Inr ()
     | Some p \<Rightarrow> refuse_if (p \<notin> p_id ` set (b_plans b)) (InvalidRequest (''task '' @ t_id t @ '' names plan '' @ p @ '', which the bundle doesn't have'')))"

definition both_there :: "project_bundle \<Rightarrow> string \<Rightarrow> string \<Rightarrow> string \<Rightarrow> tg_error + unit" where
  "both_there b what x y = bindE (missing b what (Some x)) (\<lambda>_. missing b what (Some y))"

definition check_refs :: "project_bundle \<Rightarrow> tg_error + unit" where
  "check_refs b =
     bindE (each (\<lambda>t. missing b (''task '' @ t_id t @ '''s parent'') (t_parentId t)) (b_tasks b)) (\<lambda>_.
     bindE (each (\<lambda>d. both_there b ''a dependency'' (fst d) (snd d)) (b_deps b)) (\<lambda>_.
     bindE (each (\<lambda>l. both_there b ''a link'' (fst l) (fst (snd l))) (b_links b)) (\<lambda>_.
     bindE (each (\<lambda>a. missing b (''attempt '' @ a_id a) (Some (a_taskId a))) (b_attempts b)) (\<lambda>_.
     each (check_plan b) (b_tasks b)))))"

definition refuse_loop :: "project_bundle \<Rightarrow> task \<Rightarrow> tg_error + unit" where
  "refuse_loop b t = refuse_if (loops (parentOf b) (length (b_tasks b)) [] (Some (t_id t)))
     (InvalidRequest (''task '' @ t_id t @ '''s parents loop back on themselves''))"

definition refuse_self :: "dep \<Rightarrow> tg_error + unit" where
  "refuse_self d = refuse_if (fst d = snd d) (CycleError (fst d) (snd d) None)"

definition check_leases :: "'x lifecycle \<Rightarrow> project_bundle \<Rightarrow> tg_error + unit" where
  "check_leases lc b = bindE (open_map (b_attempts b) []) (\<lambda>opened. each (check_lease lc opened) (b_tasks b))"

definition checkGraph :: "'x lifecycle \<Rightarrow> project_bundle \<Rightarrow> tg_error + unit" where
  "checkGraph lc b =
     bindE (check_names b) (\<lambda>_. bindE (check_refs b) (\<lambda>_.
     bindE (each (refuse_loop b) (b_tasks b)) (\<lambda>_.
     bindE (each refuse_self (b_deps b)) (\<lambda>_.
     bindE (refuse_cycle (b_deps b)) (\<lambda>_.
     bindE (each (refuse_nested b) (b_deps b)) (\<lambda>_.
     bindE (check_leases lc b) (\<lambda>_.
     bindE (each (check_container lc b) (b_tasks b)) (\<lambda>_.
     each (check_dependent lc b) (b_deps b)))))))))"

subsection \<open>Import\<close>

text \<open>
  \<open>/^(.+)\.(\d+)$/\<close>: the last dot, with something before it and only digits after it. The number is exact here;
  \<open>next_child\<close> is a 32-bit column, which an id's number is assumed to fit.
\<close>

definition one_line :: "string \<Rightarrow> bool" where
  "one_line s \<longleftrightarrow> CHR 0x0A \<notin> set s \<and> CHR 0x0D \<notin> set s"

text \<open>The pattern \<open>/^(.+)\.(\d+)$/\<close>, whose \<open>.\<close> stops at a line break.\<close>

definition child_number :: "string \<Rightarrow> (string \<times> nat) option" where
  "child_number i = (let ds = takeWhile is_digit (rev i); rest = dropWhile is_digit (rev i) in
     if ds \<noteq> [] \<and> 2 \<le> length rest \<and> hd rest = CHR ''.'' \<and> one_line (tl rest)
     then Some (rev (tl rest), decimal (rev ds)) else None)"

definition highestChild :: "task list \<Rightarrow> string \<Rightarrow> nat" where
  "highestChild ts i = fold max (List.map_filter (\<lambda>t. case child_number (t_id t) of
     Some (p, n) \<Rightarrow> if p = i then Some n else None | None \<Rightarrow> None) ts) 0"

definition insert_plan :: "plan \<Rightarrow> 'x db \<Rightarrow> tg_error + 'x db" where
  "insert_plan p db = bindE (refuse_if (p_approvedAt p \<noteq> None \<and> p_discardedAt p \<noteq> None) (DbError ''23514'' ''plans_check''))
     (\<lambda>_. Inr (db\<lparr>d_plans := d_plans db @ [p]\<rparr>))"

text \<open>The task trigger comes before the table's constraints. Parents are set in a second pass.\<close>

definition insert_task :: "'x lifecycle \<Rightarrow> task list \<Rightarrow> task \<Rightarrow> 'x db \<Rightarrow> tg_error + 'x db" where
  "insert_task lc ts t db =
     bindE (refuse_if (\<not> isState lc (t_state t))
       (DbError ''TG002'' (t_state t @ '' is not a state of lifecycle '' @ l_name lc @ ''@'' @ show_nat (l_version lc)))) (\<lambda>_.
     bindE (refuse_if (t_leaseAttemptId t \<noteq> None \<and> Some (t_state t) \<noteq> leasedState lc)
       (DbError ''TG002'' (''a lease is only held in the leased state, not '' @ t_state t))) (\<lambda>_.
     bindE (refuse_if (\<not> (length (t_title t) \<le> 500 \<and> 0 \<le> t_priority t \<and> t_priority t \<le> 4 \<and>
         (t_leaseAttemptId t = None \<longleftrightarrow> t_leaseExpiresAt t = None) \<and> (t_origin t = PlanOrigin \<longleftrightarrow> t_planId t \<noteq> None)))
       (DbError ''23514'' ''tasks_check'')) (\<lambda>_.
     Inr (db\<lparr>d_tasks := d_tasks db @ [t\<lparr>t_projectId := d_projectId db, t_parentId := None,
        t_nextChild := max (t_nextChild t) (highestChild ts (t_id t) + 1)\<rparr>]\<rparr>))))"

definition set_parent_row :: "task \<Rightarrow> 'x db \<Rightarrow> tg_error + 'x db" where
  "set_parent_row t db = (case t_parentId t of None \<Rightarrow> Inr db
     | Some p \<Rightarrow> if p = '''' then Inr db else Inr (upd_task (t_id t) (\<lambda>r. r\<lparr>t_parentId := Some p\<rparr>) db))"

definition insert_dep :: "dep \<Rightarrow> 'x db \<Rightarrow> tg_error + 'x db" where
  "insert_dep d db = Inr (if d \<in> set (d_deps db) then db else db\<lparr>d_deps := d_deps db @ [d]\<rparr>)"

definition insert_link :: "link \<Rightarrow> 'x db \<Rightarrow> tg_error + 'x db" where
  "insert_link l db = Inr (if l \<in> set (d_links db) then db else db\<lparr>d_links := d_links db @ [l]\<rparr>)"

definition insert_attempt :: "string list \<Rightarrow> attempt \<Rightarrow> 'x db \<Rightarrow> tg_error + 'x db" where
  "insert_attempt taken a db = bindE (refuse_if (a_id a \<in> set taken) (DbError ''23505'' ''attempts_pkey'')) (\<lambda>_. insertAttempt a db)"

fun insert_all :: "('a \<Rightarrow> 'x db \<Rightarrow> tg_error + 'x db) \<Rightarrow> 'a list \<Rightarrow> 'x db \<Rightarrow> tg_error + 'x db" where
  "insert_all f [] db = Inr db"
| "insert_all f (x # xs) db = bindE (f x db) (insert_all f xs)"

definition import_rows :: "'x lifecycle \<Rightarrow> string list \<Rightarrow> project_bundle \<Rightarrow> 'x db \<Rightarrow> tg_error + 'x db" where
  "import_rows lc taken b db =
     bindE (insert_all insert_plan (b_plans b) db) (\<lambda>db.
     bindE (insert_all (insert_task lc (b_tasks b)) (b_tasks b) db) (\<lambda>db.
     bindE (insert_all set_parent_row (b_tasks b) db) (\<lambda>db.
     bindE (insert_all insert_dep (b_deps b) db) (\<lambda>db.
     bindE (insert_all insert_link (b_links b) db) (\<lambda>db.
     insert_all (insert_attempt taken) (b_attempts b) db)))))"

definition import_error :: "tg_error \<Rightarrow> tg_error" where
  "import_error e = (case tx_surface e of
       DbError code m \<Rightarrow> if code = ''23505'' then InvalidRequest (''the import clashes with rows already in the database: '' @ m)
         else if code = ''23503'' \<or> code = ''23514'' then InvalidRequest (''the bundle breaks a constraint: '' @ m)
         else DbError code m
     | e' \<Rightarrow> e')"

definition bundle_counts :: "project_bundle \<Rightarrow> (string \<times> nat) list" where
  "bundle_counts b = [(''plans'', length (b_plans b)), (''tasks'', length (b_tasks b)), (''deps'', length (b_deps b)),
     (''links'', length (b_links b)), (''attempts'', length (b_attempts b)), (''events'', length (b_events b))]"

definition json_counts :: "(string \<times> nat) list \<Rightarrow> json" where
  "json_counts cs = JObj (map (\<lambda>(k, n). (k, JNum (int n))) cs)"

definition imported_event :: "actor \<Rightarrow> string \<Rightarrow> string \<Rightarrow> project_bundle \<Rightarrow> new_event" where
  "imported_event a name prefix b = (ev a ''project.imported'')
     \<lparr>n_payload := JObj [(''name'', JStr name), (''idPrefix'', JStr prefix), (''counts'', json_counts (bundle_counts b))]\<rparr>"

text \<open>What the database holds besides the new project: the other projects, their attempts, and the caller's rows.\<close>

record 'x others =
  ot_projects :: "string list"
  ot_attempts :: "string list"
  ot_newId :: string
  ot_nextEventId :: nat
  ot_now :: int
  ot_caller :: 'x

definition empty_project :: "'x lifecycle \<Rightarrow> 'x others \<Rightarrow> string \<Rightarrow> string \<Rightarrow> 'x db" where
  "empty_project lc o' pid prefix = \<lparr>d_projectId = pid, d_idPrefix = prefix, d_lifecycleName = l_name lc, d_lifecycleVersion = l_version lc,
     d_tasks = [], d_deps = [], d_links = [], d_attempts = [], d_plans = [], d_events = [], d_nextEventId = ot_nextEventId o',
     d_notified = [], d_now = ot_now o', d_caller = ot_caller o'\<rparr>"

text \<open>\<open>inTx\<close> is the caller's own part of the import; its error is passed on untouched.\<close>

definition importProject ::
  "'x lifecycle \<Rightarrow> 'x others \<Rightarrow> actor \<Rightarrow> string option \<Rightarrow> string option \<Rightarrow> ('x db \<Rightarrow> tg_error + 'x) \<Rightarrow> project_bundle \<Rightarrow> tg_error + ((string \<times> nat) list \<times> 'x db)" where
  "importProject lc o' a name prefix inTx b =
     bindE (parseBundle b) (\<lambda>_.
     bindE (refuse_if (b_lifecycleName b \<noteq> l_name lc \<or> b_lifecycleVersion b \<noteq> l_version lc)
       (VersionMismatch (''the bundle is on lifecycle '' @ b_lifecycleName b @ ''@'' @ show_nat (b_lifecycleVersion b) @
          ''; this process runs '' @ l_name lc @ ''@'' @ show_nat (l_version lc)))) (\<lambda>_.
     bindE (checkGraph lc b) (\<lambda>_.
     let name' = orElse name (b_name b); prefix' = orElse prefix (b_idPrefix b); pid = orElse (b_id b) (ot_newId o') in
     if pid \<in> set (ot_projects o') then Inl (import_error (DbError ''23505'' ''projects_pkey''))
     else (case import_rows lc (ot_attempts o') b (empty_project lc o' pid prefix') of
         Inl e \<Rightarrow> Inl (import_error e)
       | Inr db \<Rightarrow> bindE (inTx db) (\<lambda>c.
           case writeEvents (b_events b @ [imported_event a name' prefix' b]) (db\<lparr>d_caller := c\<rparr>) of
             Inl e \<Rightarrow> Inl (import_error e)
           | Inr db' \<Rightarrow> Inr (bundle_counts b, db'))))))"

subsection \<open>Export and purge\<close>

record project_row =
  pj_name :: string
  pj_createdAt :: int

definition bundle_event :: "event \<Rightarrow> new_event" where
  "bundle_event e = \<lparr>n_kind = e_kind e, n_actor = e_actor e, n_actorRole = e_actorRole e, n_taskId = e_taskId e, n_planId = e_planId e,
     n_attemptId = e_attemptId e, n_fromState = e_fromState e, n_toState = e_toState e, n_payload = e_payload e,
     n_requestId = e_requestId e, n_at = Some (e_at e)\<rparr>"

definition export_bundle :: "project_row \<Rightarrow> 'x db \<Rightarrow> project_bundle" where
  "export_bundle p db = \<lparr>b_id = Some (d_projectId db), b_name = pj_name p, b_idPrefix = d_idPrefix db,
     b_lifecycleName = d_lifecycleName db, b_lifecycleVersion = d_lifecycleVersion db, b_createdAt = pj_createdAt p,
     b_plans = sort_key (\<lambda>p. (p_createdAt p, p_id p)) (d_plans db),
     b_tasks = sort_key t_id (d_tasks db),
     b_deps = sort (d_deps db), b_links = sort (d_links db),
     b_attempts = sort_key (\<lambda>a. (a_startedAt a, a_id a)) (d_attempts db),
     b_events = map bundle_event (sort_key e_id (d_events db))\<rparr>"

definition exportProject :: "string \<Rightarrow> project_row option \<Rightarrow> 'x db \<Rightarrow> tg_error + project_bundle" where
  "exportProject pid row db = (case row of None \<Rightarrow> Inl (NotFound ''project'' pid) | Some p \<Rightarrow> Inr (export_bundle p db))"

record purge_row =
  pu_projectId :: string
  pu_name :: string
  pu_actor :: string
  pu_counts :: "(string \<times> nat) list"

text \<open>The rows are gone afterwards, the project's own included; \<open>shown_name\<close> is the name as JSON.\<close>

definition purgeProject :: "string \<Rightarrow> project_row option \<Rightarrow> actor \<Rightarrow> string \<Rightarrow> string \<Rightarrow> 'x db \<Rightarrow> tg_error + purge_row" where
  "purgeProject pid row a confirmName shown_name db = (case row of None \<Rightarrow> Inl (NotFound ''project'' pid)
     | Some p \<Rightarrow> if confirmName \<noteq> pj_name p then Inl (InvalidRequest (''type the project's name, '' @ shown_name @ '', to purge it''))
       else Inr \<lparr>pu_projectId = pid, pu_name = pj_name p, pu_actor = ac_id a,
         pu_counts = [(''deps'', length (d_deps db)), (''links'', length (d_links db)), (''attempts'', length (d_attempts db)),
           (''tasks'', length (d_tasks db)), (''plans'', length (d_plans db)), (''events'', length (d_events db)), (''projects'', 1)]\<rparr>)"

end
