(* ===== verification/BundleChecks.thy ===== *)
theory BundleChecks
  imports Bundle
begin

text \<open>
  The checks of an import as conditions on the bundle, and the rows its inserts write: what an accepted bundle may be
  relied on for (src/src/taskgraph/bundle.ts).
\<close>

subsection \<open>Each check, as a condition\<close>

lemma refuse_if_Inr [simp]: "refuse_if c e = Inr () \<longleftrightarrow> \<not> c"
  by (simp add: refuse_if_def)

lemma bindE_unit [simp]: "bindE m (\<lambda>_ :: unit. n) = Inr () \<longleftrightarrow> m = Inr () \<and> n = Inr ()"
  by (cases m) auto

lemma unique_from_Inr:
  "unique_from what key seen xs = Inr () \<longleftrightarrow>
     distinct (filter (\<lambda>k. k \<noteq> None) (map key xs)) \<and> Some ` set seen \<inter> set (map key xs) = {}"
  by (induction xs arbitrary: seen) (auto split: option.split)

lemma unique_Inr: "unique what key xs = Inr () \<longleftrightarrow> distinct (filter (\<lambda>k. k \<noteq> None) (map key xs))"
  by (simp add: unique_def unique_from_Inr)

lemma unique_Some: "unique what (\<lambda>x. Some (f x)) xs = Inr () \<longleftrightarrow> distinct (map f xs)"
proof -
  have "filter (\<lambda>k. k \<noteq> None) (map (\<lambda>x. Some (f x)) xs) = map Some (map f xs)" by (induction xs) auto
  moreover have "distinct (map Some ys) = distinct ys" for ys :: "string list" by (simp add: distinct_map)
  ultimately show ?thesis by (simp only: unique_Inr)
qed

lemma missing_Inr: "missing b what x = Inr () \<longleftrightarrow> (\<forall>i. x = Some i \<longrightarrow> i \<in> ids (b_tasks b))"
  by (simp add: missing_def ids_def split: option.split)

lemma set_first_seen: "set (first_seen seen xs) = set xs - set seen"
  by (induction seen xs rule: first_seen.induct) auto

lemma refuse_cycle_Inr: "refuse_cycle ds = Inr () \<longleftrightarrow> acyclic (set ds)"
proof -
  have "set (first_seen [] (map fst ds)) = fst ` set ds" by (simp add: set_first_seen)
  then show ?thesis using visit_roots(1)[of "first_seen [] (map fst ds)" ds] by (auto simp: refuse_cycle_def split: sum.splits)
qed

lemma parentOf_iff: "distinct (map t_id (b_tasks b)) \<Longrightarrow> parentOf b x = Some y \<longleftrightarrow> (x, y) \<in> parents (b_tasks b)"
proof
  assume d: "distinct (map t_id (b_tasks b))" and "(x, y) \<in> parents (b_tasks b)"
  then obtain t where t: "t \<in> set (b_tasks b)" "t_id t = x" "t_parentId t = Some y" by (auto simp: parents_def)
  then show "parentOf b x = Some y" using find_row_unique[OF d t(1)] by (simp add: parentOf_def)
next
  assume "parentOf b x = Some y"
  then show "(x, y) \<in> parents (b_tasks b)"
    using find_row_Some[of t_id x "b_tasks b"] by (auto simp: parentOf_def parents_def Option.bind_eq_Some_conv)
qed

text \<open>What the graph checks assume of a bundle that its schema and the checks before them have passed.\<close>

definition rows_named :: "project_bundle \<Rightarrow> bool" where
  "rows_named b \<longleftrightarrow> [] \<notin> ids (b_tasks b) \<and> distinct (map t_id (b_tasks b)) \<and> snd ` parents (b_tasks b) \<subseteq> ids (b_tasks b)"

lemma parents_finite: "finite (parents ts) \<and> card (parents ts) \<le> length ts"
  using card_parents[of "(undefined :: unit db)\<lparr>d_tasks := ts\<rparr>"] by simp

lemma loops_iff:
  assumes n: "rows_named b"
  shows "(\<forall>t \<in> set (b_tasks b). \<not> loops (parentOf b) (length (b_tasks b)) [] (Some (t_id t))) \<longleftrightarrow> acyclic (parents (b_tasks b))"
proof
  let ?R = "parents (b_tasks b)"
  have d: "distinct (map t_id (b_tasks b))" using n by (simp add: rows_named_def)
  have R: "{(x, y). parentOf b x = Some y} = ?R" using parentOf_iff[OF d] by auto
  assume l: "\<forall>t \<in> set (b_tasks b). \<not> loops (parentOf b) (length (b_tasks b)) [] (Some (t_id t))"
  show "acyclic ?R" unfolding acyclic_def
  proof (rule allI, rule notI)
    fix x assume c: "(x, x) \<in> ?R\<^sup>+"
    then obtain t where t: "t \<in> set (b_tasks b)" "t_id t = x" by (auto simp: parents_def dest: tranclD)
    have "card (ids (b_tasks b) - set []) \<le> length (b_tasks b)" by (simp add: ids_def card_image_le order_trans[OF card_image_le card_length])
    moreover have "parentOf b a = Some y \<Longrightarrow> y \<in> ids (b_tasks b)" for a y
      using n parentOf_iff[OF d] by (force simp: rows_named_def)
    moreover have "[] \<notin> ids (b_tasks b)" "finite (ids (b_tasks b))" "x \<in> ids (b_tasks b)"
      using n t by (auto simp: rows_named_def ids_def)
    ultimately have "(x, x) \<notin> {(a, y). parentOf b a = Some y}\<^sup>+"
      using loops_sound[of "ids (b_tasks b)" "parentOf b" "length (b_tasks b)" "[]" x x] l t by auto
    then show False using c R by simp
  qed
next
  let ?R = "parents (b_tasks b)"
  assume "acyclic ?R"
  then show "\<forall>t \<in> set (b_tasks b). \<not> loops (parentOf b) (length (b_tasks b)) [] (Some (t_id t))"
    using loops_complete[of ?R "parentOf b" "[]"] parentOf_iff n by (auto simp: rows_named_def)
qed

lemma walk_up_above:
  assumes n: "rows_named b" and a: "acyclic (parents (b_tasks b))"
  shows "y \<in> set (walk_up (parentOf b) (length (b_tasks b)) (parentOf b x)) \<longleftrightarrow> (x, y) \<in> (parents (b_tasks b))\<^sup>+"
proof (cases "parentOf b x")
  case None
  then have "\<not> (\<exists>z. (x, z) \<in> parents (b_tasks b))" using parentOf_iff[of b x] n by (auto simp: rows_named_def)
  then show ?thesis using None by (auto dest: tranclD)
next
  case (Some p)
  let ?R = "parents (b_tasks b)"
  have d: "distinct (map t_id (b_tasks b))" using n by (simp add: rows_named_def)
  have xp: "(x, p) \<in> ?R" using Some parentOf_iff[OF d] by simp
  have only: "(x, y) \<in> ?R\<^sup>+ \<longleftrightarrow> (p, y) \<in> ?R\<^sup>*"
  proof
    assume "(x, y) \<in> ?R\<^sup>+"
    then obtain z where "(x, z) \<in> ?R" "(z, y) \<in> ?R\<^sup>*" by (auto dest: tranclD)
    then show "(p, y) \<in> ?R\<^sup>*" using parents_unique[OF d xp] by simp
  qed (use xp in auto)
  show ?thesis unfolding only Some
  proof
    assume "y \<in> set (walk_up (parentOf b) (length (b_tasks b)) (Some p))"
    then show "(p, y) \<in> ?R\<^sup>*" by (rule walk_up_in) (use parentOf_iff[OF d] in simp)
  next
    assume py: "(p, y) \<in> ?R\<^sup>*"
    then obtain k where k: "(p, y) \<in> ?R ^^ k" by (auto simp: rtrancl_power)
    have "(x, y) \<in> ?R ^^ Suc k" using xp k by (rule relpow_Suc_I2)
    then have "k < length (b_tasks b)" using relpow_bound[OF _ a] parents_finite[of "b_tasks b"] by fastforce
    moreover have "y \<noteq> []" using py xp n by (cases rule: rtranclE) (force simp: rows_named_def)+
    moreover have "a \<noteq> []" if "(a, c) \<in> ?R" for a c
    proof -
      have "a \<in> ids (b_tasks b)" using that by (auto simp: parents_def ids_def)
      then show ?thesis using n by (auto simp: rows_named_def)
    qed
    ultimately show "y \<in> set (walk_up (parentOf b) (length (b_tasks b)) (Some p))"
      using walk_up_all[OF k, of "length (b_tasks b)" "parentOf b"] parentOf_iff[OF d] by blast
  qed
qed

lemma refuse_nested_Inr:
  assumes "rows_named b" and "acyclic (parents (b_tasks b))"
  shows "refuse_nested b d = Inr () \<longleftrightarrow> d \<notin> (parents (b_tasks b))\<^sup>+ \<and> (snd d, fst d) \<notin> (parents (b_tasks b))\<^sup>+"
  using walk_up_above[OF assms] by (simp add: refuse_nested_def Let_def)

text \<open>The open attempts, as the map the leases are checked against.\<close>

definition opt_list :: "'a option \<Rightarrow> 'a list" where
  "opt_list x = (case x of None \<Rightarrow> [] | Some y \<Rightarrow> [y])"

lemma open_map_Inr:
  "open_map as acc = Inr m \<Longrightarrow> opt_list (map_of m i) = opt_list (map_of acc i) @ open_attempts as i"
proof (induction as acc rule: open_map.induct)
  case (2 a as acc)
  then show ?case
    by (cases "a_taskId a = i")
      (auto simp: open_attempts_def opt_list_def map_of_eq_None_iff split: if_splits option.splits)
qed (simp add: open_attempts_def)

lemma open_map_ok: "(\<And>i. length (opt_list (map_of acc i) @ open_attempts as i) \<le> 1) \<Longrightarrow> \<exists>m. open_map as acc = Inr m"
proof (induction as acc rule: open_map.induct)
  case (2 a as acc)
  show ?case
  proof (cases "a_endedAt a = None")
    case True
    have "length (opt_list (map_of acc (a_taskId a))) \<le> 0" using 2(3)[of "a_taskId a"] True by (simp add: open_attempts_def)
    then have new: "map_of acc (a_taskId a) = None" by (cases "map_of acc (a_taskId a)") (simp_all add: opt_list_def)
    then have out: "a_taskId a \<notin> fst ` set acc" by (simp add: map_of_eq_None_iff)
    have "length (opt_list (map_of ((a_taskId a, a_id a) # acc) i) @ open_attempts as i) \<le> 1" for i
      using 2(3)[of i] True new by (cases "a_taskId a = i") (auto simp: open_attempts_def opt_list_def)
    then show ?thesis using 2(2)[OF _ out] True out by simp
  next
    case False
    have "length (opt_list (map_of acc i) @ open_attempts as i) \<le> 1" for i using 2(3)[of i] False by (simp add: open_attempts_def)
    then show ?thesis using 2(1) False by simp
  qed
qed simp

lemma check_lease_Inr:
  "check_lease lc m t = Inr () \<longleftrightarrow> (stateFlag sf_leased lc (t_state t) \<longleftrightarrow> t_leaseAttemptId t \<noteq> None) \<and> t_leaseAttemptId t = map_of m (t_id t)"
  by (auto simp: check_lease_def Let_def)

lemma leases_iff:
  "(\<exists>m. open_map ats [] = Inr m \<and> each (check_lease lc m) ts = Inr ()) \<and> a_taskId ` set ats \<subseteq> ids ts \<longleftrightarrow>
     (\<forall>t \<in> set ts. stateFlag sf_leased lc (t_state t) \<longleftrightarrow> t_leaseAttemptId t \<noteq> None) \<and>
     (\<forall>t \<in> set ts. open_attempts ats (t_id t) = lease_list t) \<and> a_taskId ` set ats \<subseteq> ids ts"
proof -
  have list: "lease_list t = opt_list (t_leaseAttemptId t)" for t by (simp add: lease_list_def opt_list_def)
  have inj: "opt_list x = opt_list y \<longleftrightarrow> x = y" for x y :: "string option" by (simp add: opt_list_def split: option.splits)
  have "\<exists>m. open_map ats [] = Inr m"
    if o: "\<forall>t \<in> set ts. open_attempts ats (t_id t) = lease_list t" and s: "a_taskId ` set ats \<subseteq> ids ts"
  proof (rule open_map_ok)
    fix i
    show "length (opt_list (map_of [] i) @ open_attempts ats i) \<le> 1"
    proof (cases "i \<in> ids ts")
      case True
      then show ?thesis using o by (auto simp: ids_def list opt_list_def split: option.split)
    next
      case False
      then have "open_attempts ats i = []" using s by (auto simp: open_attempts_def filter_empty_conv)
      then show ?thesis by (simp add: opt_list_def)
    qed
  qed
  moreover have "open_map ats [] = Inr m \<Longrightarrow> open_attempts ats i = opt_list (map_of m i)" for m i
    using open_map_Inr[of ats "[]" m i] by (simp add: opt_list_def)
  ultimately show ?thesis by (auto simp: each_Inr check_lease_Inr list inj)
qed

lemma state_of_task: "distinct (map t_id (b_tasks b)) \<Longrightarrow> t \<in> set (b_tasks b) \<Longrightarrow> state_of b (t_id t) = t_state t"
  by (simp add: state_of_def find_row_unique)

lemma containers_iff:
  assumes n: "rows_named b"
  shows "each (check_container lc b) (b_tasks b) = Inr () \<longleftrightarrow> closed_ok lc (b_tasks b)"
proof -
  have d: "distinct (map t_id (b_tasks b))" using n by (simp add: rows_named_def)
  have up: "\<exists>u \<in> set (b_tasks b). t_id u = p" if "t \<in> set (b_tasks b)" "t_parentId t = Some p" for t p
    
  proof -
    have "(t_id t, p) \<in> parents (b_tasks b)" using that by (auto simp: parents_def)
    then have "p \<in> ids (b_tasks b)" using n by (force simp: rows_named_def)
    then show ?thesis by (auto simp: ids_def)
  qed
  show ?thesis
  proof
    assume "each (check_container lc b) (b_tasks b) = Inr ()"
    then have c: "check_container lc b t = Inr ()" if "t \<in> set (b_tasks b)" for t using that by (simp add: each_Inr)
    show "closed_ok lc (b_tasks b)" unfolding closed_ok_def
    proof (intro ballI impI)
      fix t u assume t: "t \<in> set (b_tasks b)" and u: "u \<in> set (b_tasks b)" and p: "t_parentId t = Some (t_id u)" "isTerminal lc (t_state u)"
      show "isTerminal lc (t_state t)" using c[OF t] p state_of_task[OF d u] by (simp add: check_container_def)
    qed
  next
    assume c: "closed_ok lc (b_tasks b)"
    have "check_container lc b t = Inr ()" if t: "t \<in> set (b_tasks b)" for t
    proof (cases "t_parentId t")
      case (Some p)
      then obtain u where u: "u \<in> set (b_tasks b)" "t_id u = p" using up[OF t] by blast
      then have "isTerminal lc (t_state u) \<Longrightarrow> isTerminal lc (t_state t)" using c t Some unfolding closed_ok_def by metis
      then show ?thesis using Some u(2) state_of_task[OF d u(1)] by (auto simp: check_container_def)
    qed (simp add: check_container_def)
    then show "each (check_container lc b) (b_tasks b) = Inr ()" by (simp add: each_Inr)
  qed
qed

lemma dependents_iff:
  assumes d: "distinct (map t_id (b_tasks b))" and s: "set (b_deps b) \<subseteq> ids (b_tasks b) \<times> ids (b_tasks b)"
  shows "each (check_dependent lc b) (b_deps b) = Inr () \<longleftrightarrow> waits_ok lc (b_tasks b) (set (b_deps b))"
proof
  assume "each (check_dependent lc b) (b_deps b) = Inr ()"
  then have c: "check_dependent lc b e = Inr ()" if "e \<in> set (b_deps b)" for e using that by (simp add: each_Inr)
  show "waits_ok lc (b_tasks b) (set (b_deps b))" unfolding waits_ok_def
  proof (intro ballI impI)
    fix t u assume t: "t \<in> set (b_tasks b)" and u: "u \<in> set (b_tasks b)" and e: "(t_id t, t_id u) \<in> set (b_deps b)"
      and l: "\<not> isTerminal lc (t_state t)" "isTerminal lc (t_state u)"
    show "isSatisfying lc (t_state u)"
      using c[OF e] l state_of_task[OF d t] state_of_task[OF d u] by (simp add: check_dependent_def Let_def)
  qed
next
  assume w: "waits_ok lc (b_tasks b) (set (b_deps b))"
  have "check_dependent lc b (x, y) = Inr ()" if e: "(x, y) \<in> set (b_deps b)" for x y
  proof -
    obtain t u where rows: "t \<in> set (b_tasks b)" "t_id t = x" "u \<in> set (b_tasks b)" "t_id u = y" using s e by (auto simp: ids_def)
    have "state_of b x = t_state t" "state_of b y = t_state u"
      using rows state_of_task[OF d] by auto
    then show ?thesis using w e rows unfolding waits_ok_def check_dependent_def Let_def refuse_if_Inr fst_conv snd_conv by metis
  qed
  then show "each (check_dependent lc b) (b_deps b) = Inr ()" by (auto simp: each_Inr)
qed

text \<open>What an accepted bundle's graph is.\<close>

definition names_ok :: "project_bundle \<Rightarrow> bool" where
  "names_ok b \<longleftrightarrow> distinct (map t_id (b_tasks b)) \<and> distinct (filter (\<lambda>k. k \<noteq> None) (map t_key (b_tasks b))) \<and>
     distinct (map p_id (b_plans b)) \<and> distinct (map a_id (b_attempts b)) \<and>
     distinct (map (\<lambda>d. fst d @ '' -> '' @ snd d) (b_deps b)) \<and> distinct (map (\<lambda>l. fst l @ '' -'' @ snd (snd l) @ ''-> '' @ fst (snd l)) (b_links b)) \<and>
     distinct (filter (\<lambda>k. k \<noteq> None) (map n_requestId (b_events b)))"

definition refs_ok :: "project_bundle \<Rightarrow> bool" where
  "refs_ok b \<longleftrightarrow> snd ` parents (b_tasks b) \<subseteq> ids (b_tasks b) \<and> set (b_deps b) \<subseteq> ids (b_tasks b) \<times> ids (b_tasks b) \<and>
     (\<forall>l \<in> set (b_links b). fst l \<in> ids (b_tasks b) \<and> fst (snd l) \<in> ids (b_tasks b)) \<and> a_taskId ` set (b_attempts b) \<subseteq> ids (b_tasks b) \<and>
     (\<forall>t \<in> set (b_tasks b). \<forall>p. t_planId t = Some p \<longrightarrow> p \<in> p_id ` set (b_plans b))"

definition graph_ok :: "'x lifecycle \<Rightarrow> project_bundle \<Rightarrow> bool" where
  "graph_ok lc b \<longleftrightarrow> acyclic (parents (b_tasks b)) \<and> acyclic (set (b_deps b)) \<and>
     (\<forall>d \<in> set (b_deps b). d \<notin> (parents (b_tasks b))\<^sup>+ \<and> (snd d, fst d) \<notin> (parents (b_tasks b))\<^sup>+) \<and>
     (\<forall>t \<in> set (b_tasks b). stateFlag sf_leased lc (t_state t) \<longleftrightarrow> t_leaseAttemptId t \<noteq> None) \<and>
     (\<forall>t \<in> set (b_tasks b). open_attempts (b_attempts b) (t_id t) = lease_list t) \<and>
     closed_ok lc (b_tasks b) \<and> waits_ok lc (b_tasks b) (set (b_deps b))"

lemma names_Inr: "check_names b = Inr () \<longleftrightarrow> names_ok b"
  by (simp only: check_names_def bindE_unit unique_Some names_ok_def unique_Inr)

lemma refs_Inr: "check_refs b = Inr () \<longleftrightarrow> refs_ok b"
proof -
  have plans: "check_plan b t = Inr () \<longleftrightarrow> (\<forall>p. t_planId t = Some p \<longrightarrow> p \<in> p_id ` set (b_plans b))" for t
    by (simp add: check_plan_def split: option.split)
  have pars: "(\<forall>t \<in> set (b_tasks b). \<forall>i. t_parentId t = Some i \<longrightarrow> i \<in> V) \<longleftrightarrow> snd ` parents (b_tasks b) \<subseteq> V" for V
    by (force simp: parents_def)
  have both: "both_there b w x y = Inr () \<longleftrightarrow> x \<in> ids (b_tasks b) \<and> y \<in> ids (b_tasks b)" for w x y
    by (simp add: both_there_def missing_Inr)
  have deps: "(\<forall>d \<in> set (b_deps b). fst d \<in> V \<and> snd d \<in> V) \<longleftrightarrow> set (b_deps b) \<subseteq> V \<times> V" for V
    by (auto simp: mem_Times_iff)
  have atts: "(\<forall>a \<in> set (b_attempts b). \<forall>i. Some (a_taskId a) = Some i \<longrightarrow> i \<in> V) \<longleftrightarrow> a_taskId ` set (b_attempts b) \<subseteq> V" for V
    by auto
  show ?thesis
    by (simp only: check_refs_def bindE_unit each_Inr refs_ok_def plans both deps missing_Inr pars atts)
qed

lemma checkGraph_Inr:
  assumes e: "[] \<notin> ids (b_tasks b)"
  shows "checkGraph lc b = Inr () \<longleftrightarrow> names_ok b \<and> refs_ok b \<and> graph_ok lc b"
proof (cases "names_ok b \<and> refs_ok b \<and> acyclic (parents (b_tasks b))")
  case True
  then have n: "rows_named b" using e by (simp add: rows_named_def names_ok_def refs_ok_def)
  have l: "check_leases lc b = Inr () \<longleftrightarrow> (\<forall>t \<in> set (b_tasks b). stateFlag sf_leased lc (t_state t) \<longleftrightarrow> t_leaseAttemptId t \<noteq> None) \<and>
      (\<forall>t \<in> set (b_tasks b). open_attempts (b_attempts b) (t_id t) = lease_list t)"
    using leases_iff[of "b_attempts b" lc "b_tasks b"] True by (auto simp: check_leases_def refs_ok_def bindE_Inr_iff)
  have s: "acyclic (set (b_deps b)) \<Longrightarrow> each refuse_self (b_deps b) = Inr ()"
    by (force simp: each_Inr refuse_self_def acyclic_def)
  have loop: "each (refuse_loop b) (b_tasks b) = Inr ()"
    using loops_iff[OF n] True by (simp add: each_Inr refuse_loop_def)
  have c: "each (check_container lc b) (b_tasks b) = Inr () \<longleftrightarrow> closed_ok lc (b_tasks b)" by (rule containers_iff[OF n])
  have d: "each (check_dependent lc b) (b_deps b) = Inr () \<longleftrightarrow> waits_ok lc (b_tasks b) (set (b_deps b))"
    by (rule dependents_iff) (use True in \<open>simp_all add: names_ok_def refs_ok_def\<close>)
  have nest: "each (refuse_nested b) (b_deps b) = Inr () \<longleftrightarrow>
      (\<forall>d \<in> set (b_deps b). d \<notin> (parents (b_tasks b))\<^sup>+ \<and> (snd d, fst d) \<notin> (parents (b_tasks b))\<^sup>+)"
    unfolding each_Inr using refuse_nested_Inr[OF n] True by simp
  show ?thesis
    unfolding checkGraph_def bindE_unit names_Inr refs_Inr refuse_cycle_Inr l c d nest graph_ok_def using loop s True by blast
next
  case False
  have "names_ok b \<Longrightarrow> refs_ok b \<Longrightarrow> each (refuse_loop b) (b_tasks b) = Inr () \<Longrightarrow> acyclic (parents (b_tasks b))"
    using loops_iff[of b] e by (simp add: each_Inr refuse_loop_def rows_named_def names_ok_def refs_ok_def)
  then show ?thesis
    unfolding checkGraph_def bindE_unit names_Inr refs_Inr graph_ok_def using False by blast
qed

subsection \<open>The rows an import writes\<close>

lemma insert_plans: "insert_all insert_plan ps db = Inr db' \<longleftrightarrow>
    (\<forall>p \<in> set ps. p_approvedAt p = None \<or> p_discardedAt p = None) \<and> db' = db\<lparr>d_plans := d_plans db @ ps\<rparr>"
  by (induction ps arbitrary: db) (auto simp: insert_plan_def bindE_Inr_iff)

definition written_task :: "string \<Rightarrow> task list \<Rightarrow> task \<Rightarrow> task" where
  "written_task pid ts t = t\<lparr>t_projectId := pid, t_nextChild := max (t_nextChild t) (highestChild ts (t_id t) + 1)\<rparr>"

definition task_ok :: "'x lifecycle \<Rightarrow> task \<Rightarrow> bool" where
  "task_ok lc t \<longleftrightarrow> isState lc (t_state t) \<and> (t_leaseAttemptId t \<noteq> None \<longrightarrow> Some (t_state t) = leasedState lc) \<and>
     length (t_title t) \<le> 500 \<and> 0 \<le> t_priority t \<and> t_priority t \<le> 4 \<and>
     (t_leaseAttemptId t = None \<longleftrightarrow> t_leaseExpiresAt t = None) \<and> (t_origin t = PlanOrigin \<longleftrightarrow> t_planId t \<noteq> None)"

lemma insert_tasks: "insert_all (insert_task lc all) ts db = Inr db' \<longleftrightarrow> (\<forall>t \<in> set ts. task_ok lc t) \<and>
    db' = db\<lparr>d_tasks := d_tasks db @ map (\<lambda>t. (written_task (d_projectId db) all t)\<lparr>t_parentId := None\<rparr>) ts\<rparr>"
  by (induction ts arbitrary: db) (auto simp: insert_task_def task_ok_def written_task_def bindE_Inr_iff)

lemma upd_row_at:
  "key x \<notin> key ` set xs \<Longrightarrow> key x \<notin> key ` set ys \<Longrightarrow> upd_row key (key x) f (xs @ x # ys) = xs @ f x # ys"
proof -
  have "key x \<notin> key ` set zs \<Longrightarrow> upd_row key (key x) f zs = zs" for zs by (induction zs) auto
  moreover have "upd_row key k f (as @ bs) = upd_row key k f as @ upd_row key k f bs" for k as bs by (induction as) auto
  moreover assume "key x \<notin> key ` set xs" "key x \<notin> key ` set ys"
  ultimately show ?thesis by simp
qed

lemma set_parents:
  assumes "distinct (map t_id (xs @ ys))" and "\<forall>t \<in> set ys. t_parentId t \<noteq> Some []"
    and "d_tasks db = map (written_task pid all) xs @ map (\<lambda>t. (written_task pid all t)\<lparr>t_parentId := None\<rparr>) ys"
  shows "insert_all set_parent_row ys db = Inr (db\<lparr>d_tasks := map (written_task pid all) (xs @ ys)\<rparr>)"
  using assms
proof (induction ys arbitrary: xs db)
  case (Cons y ys)
  let ?w = "written_task pid all"
  have "set_parent_row y db = Inr (db\<lparr>d_tasks := map ?w xs @ ?w y # map (\<lambda>t. (?w t)\<lparr>t_parentId := None\<rparr>) ys\<rparr>)"
  proof (cases "t_parentId y")
    case None
    then have "(?w y)\<lparr>t_parentId := None\<rparr> = ?w y" by (simp add: written_task_def)
    then show ?thesis using Cons.prems(3) None by (simp add: set_parent_row_def)
  next
    case (Some p)
    have "upd_row t_id (t_id y) (\<lambda>r. r\<lparr>t_parentId := Some p\<rparr>) (map ?w xs @ (?w y)\<lparr>t_parentId := None\<rparr> # map (\<lambda>t. (?w t)\<lparr>t_parentId := None\<rparr>) ys) =
        map ?w xs @ ((?w y)\<lparr>t_parentId := None\<rparr>)\<lparr>t_parentId := Some p\<rparr> # map (\<lambda>t. (?w t)\<lparr>t_parentId := None\<rparr>) ys"
      using upd_row_at[of t_id "(?w y)\<lparr>t_parentId := None\<rparr>" "map ?w xs" "map (\<lambda>t. (?w t)\<lparr>t_parentId := None\<rparr>) ys" "\<lambda>r. r\<lparr>t_parentId := Some p\<rparr>"]
        Cons.prems(1) by (auto simp: written_task_def image_image)
    moreover have "((?w y)\<lparr>t_parentId := None\<rparr>)\<lparr>t_parentId := Some p\<rparr> = ?w y" using Some by (simp add: written_task_def)
    ultimately show ?thesis using Cons.prems(2,3) Some by (simp add: set_parent_row_def upd_task_def)
  qed
  then show ?case
    using Cons.IH[of "xs @ [y]" "db\<lparr>d_tasks := map ?w xs @ ?w y # map (\<lambda>t. (?w t)\<lparr>t_parentId := None\<rparr>) ys\<rparr>"] Cons.prems by simp
qed simp

lemma insert_deps: "distinct (d_deps db @ ds) \<Longrightarrow> insert_all insert_dep ds db = Inr (db\<lparr>d_deps := d_deps db @ ds\<rparr>)"
  by (induction ds arbitrary: db) (auto simp: insert_dep_def)

lemma insert_links: "distinct (d_links db @ ls) \<Longrightarrow> insert_all insert_link ls db = Inr (db\<lparr>d_links := d_links db @ ls\<rparr>)"
  by (induction ls arbitrary: db) (auto simp: insert_link_def)

lemma insert_attempts:
  "distinct (map a_id (d_attempts db @ as)) \<Longrightarrow> insert_all (insert_attempt taken) as db = Inr db' \<longleftrightarrow>
     a_id ` set as \<inter> set taken = {} \<and> db' = db\<lparr>d_attempts := d_attempts db @ as\<rparr>"
  by (induction as arbitrary: db) (auto simp: insert_attempt_def insertAttempt_def bindE_Inr_iff)

definition importable :: "'x lifecycle \<Rightarrow> string list \<Rightarrow> project_bundle \<Rightarrow> bool" where
  "importable lc taken b \<longleftrightarrow> (\<forall>p \<in> set (b_plans b). p_approvedAt p = None \<or> p_discardedAt p = None) \<and>
     (\<forall>t \<in> set (b_tasks b). task_ok lc t) \<and> a_id ` set (b_attempts b) \<inter> set taken = {}"

definition written :: "project_bundle \<Rightarrow> 'x db \<Rightarrow> 'x db" where
  "written b db = db\<lparr>d_plans := b_plans b, d_tasks := map (written_task (d_projectId db) (b_tasks b)) (b_tasks b),
     d_deps := b_deps b, d_links := b_links b, d_attempts := b_attempts b\<rparr>"

lemma import_rows_Inr:
  assumes n: "names_ok b" and e: "[] \<notin> ids (b_tasks b)" and r: "refs_ok b"
  shows "import_rows lc taken b (empty_project lc o' pid prefix) = Inr db' \<longleftrightarrow>
    importable lc taken b \<and> db' = written b (empty_project lc o' pid prefix)"
proof -
  have d: "distinct (b_deps b)" "distinct (b_links b)" "distinct (map a_id (b_attempts b))" "distinct (map t_id (b_tasks b))"
    using n unfolding names_ok_def by (blast dest: distinct_map[THEN iffD1])+
  have p: "\<forall>t \<in> set (b_tasks b). t_parentId t \<noteq> Some []"
  proof (intro ballI notI)
    fix t assume "t \<in> set (b_tasks b)" "t_parentId t = Some []"
    then have "(t_id t, []) \<in> parents (b_tasks b)" by (auto simp: parents_def)
    then have "[] \<in> snd ` parents (b_tasks b)" by force
    then show False using e r by (auto simp: refs_ok_def)
  qed
  let ?w = "written_task pid (b_tasks b)"
  define d0 where "d0 = empty_project lc o' pid prefix"
  have d0: "d_plans d0 = []" "d_tasks d0 = []" "d_deps d0 = []" "d_links d0 = []" "d_attempts d0 = []" "d_projectId d0 = pid"
    by (simp_all add: d0_def empty_project_def)
  define d1 where "d1 = d0\<lparr>d_plans := b_plans b\<rparr>"
  define d2 where "d2 = d1\<lparr>d_tasks := map (\<lambda>t. (?w t)\<lparr>t_parentId := None\<rparr>) (b_tasks b)\<rparr>"
  define d3 where "d3 = d2\<lparr>d_tasks := map ?w (b_tasks b)\<rparr>"
  define d4 where "d4 = d3\<lparr>d_deps := b_deps b\<rparr>"
  define d5 where "d5 = d4\<lparr>d_links := b_links b\<rparr>"
  note defs = d1_def d2_def d3_def d4_def d5_def
  have f: "d_deps d3 = []" "d_links d4 = []" "d_attempts d5 = []" "d_tasks d1 = []" "d_projectId d1 = pid" by (simp_all add: defs d0)
  have last_rows: "written b d0 = d5\<lparr>d_attempts := b_attempts b\<rparr>" by (simp add: defs d0 written_def)
  have 1: "insert_all insert_plan (b_plans b) d0 = Inr x \<longleftrightarrow> (\<forall>p \<in> set (b_plans b). p_approvedAt p = None \<or> p_discardedAt p = None) \<and> x = d1" for x
    using insert_plans[of "b_plans b" d0] by (simp add: d0 d1_def)
  have 2: "insert_all (insert_task lc (b_tasks b)) (b_tasks b) d1 = Inr x \<longleftrightarrow> (\<forall>t \<in> set (b_tasks b). task_ok lc t) \<and> x = d2" for x
    using insert_tasks[of lc "b_tasks b" "b_tasks b" d1] by (simp add: f d2_def)
  have t2: "d_tasks d2 = map ?w [] @ map (\<lambda>t. (?w t)\<lparr>t_parentId := None\<rparr>) (b_tasks b)" by (simp add: d2_def)
  have 3: "insert_all set_parent_row (b_tasks b) d2 = Inr d3"
    using set_parents[OF _ p t2] d(4) unfolding d3_def append_Nil by blast
  have 4: "insert_all insert_dep (b_deps b) d3 = Inr d4"
    using insert_deps[of d3 "b_deps b"] d(1) by (simp add: f d4_def)
  have 5: "insert_all insert_link (b_links b) d4 = Inr d5"
    using insert_links[of d4 "b_links b"] d(2) by (simp add: f d5_def)
  have 6: "insert_all (insert_attempt taken) (b_attempts b) d5 = Inr x \<longleftrightarrow> a_id ` set (b_attempts b) \<inter> set taken = {} \<and> x = written b d0" for x
    using insert_attempts[of d5 "b_attempts b" taken x] d(3) by (simp add: f last_rows)
  have run: "import_rows lc taken b d0 = bindE (insert_all insert_plan (b_plans b) d0) (\<lambda>x.
      bindE (insert_all (insert_task lc (b_tasks b)) (b_tasks b) x) (\<lambda>y.
      bindE (insert_all set_parent_row (b_tasks b) y) (\<lambda>z.
      bindE (insert_all insert_dep (b_deps b) z) (\<lambda>u.
      bindE (insert_all insert_link (b_links b) u) (insert_all (insert_attempt taken) (b_attempts b))))))"
    by (simp only: import_rows_def)
  show ?thesis unfolding d0_def[symmetric]
  proof
    assume "import_rows lc taken b d0 = Inr db'"
    then obtain x y z u v where s: "insert_all insert_plan (b_plans b) d0 = Inr x" "insert_all (insert_task lc (b_tasks b)) (b_tasks b) x = Inr y"
        "insert_all set_parent_row (b_tasks b) y = Inr z" "insert_all insert_dep (b_deps b) z = Inr u" "insert_all insert_link (b_links b) u = Inr v"
        "insert_all (insert_attempt taken) (b_attempts b) v = Inr db'"
      unfolding run bindE_Inr_iff by blast
    have x: "\<forall>p \<in> set (b_plans b). p_approvedAt p = None \<or> p_discardedAt p = None" "x = d1" using iffD1[OF 1 s(1)] by simp_all
    have y: "\<forall>t \<in> set (b_tasks b). task_ok lc t" "y = d2" using iffD1[OF 2 s(2)[unfolded x(2)]] by simp_all
    have "v = d5" using s(3-5) 3 4 5 unfolding y(2) by simp
    then have "a_id ` set (b_attempts b) \<inter> set taken = {} \<and> db' = written b d0" using iffD1[OF 6] s(6) by simp
    then show "importable lc taken b \<and> db' = written b d0" using x(1) y(1) by (simp only: importable_def simp_thms)
  next
    assume a: "importable lc taken b \<and> db' = written b d0"
    then have "insert_all insert_plan (b_plans b) d0 = Inr d1" "insert_all (insert_task lc (b_tasks b)) (b_tasks b) d1 = Inr d2"
      "insert_all (insert_attempt taken) (b_attempts b) d5 = Inr db'"
      unfolding importable_def by (intro iffD2[OF 1] iffD2[OF 2] iffD2[OF 6]; simp)+
    then show "import_rows lc taken b d0 = Inr db'" unfolding run by (simp only: bindE.simps 3 4 5)
  qed
qed

end
