(* ===== verification/BundleProperties.thy ===== *)
theory BundleProperties
  imports BundleChecks Scenarios "HOL-Library.Multiset"
begin

text \<open>
  What an import may rely on and what it gives: an accepted bundle makes a sound project, and a project the engine keeps
  exports as a bundle that is accepted again with the same rows.
\<close>

subsection \<open>The rows of an accepted bundle are sound\<close>

lemma parseBundle_Inr: "parseBundle b = Inr () \<longleftrightarrow> bundle_issues b = []"
  by (simp add: parseBundle_def)

lemma parseBundle_ids: "parseBundle b = Inr () \<Longrightarrow> [] \<notin> ids (b_tasks b)"
  unfolding parseBundle_Inr bundle_issues_def append_is_Nil_conv issue_Nil list_all_iff by (auto simp: ids_def)

lemma written_fields [simp]:
  "t_id (written_task pid all t) = t_id t" "t_key (written_task pid all t) = t_key t" "t_parentId (written_task pid all t) = t_parentId t"
  "t_state (written_task pid all t) = t_state t" "t_leaseAttemptId (written_task pid all t) = t_leaseAttemptId t"
  "t_leaseExpiresAt (written_task pid all t) = t_leaseExpiresAt t" "t_planId (written_task pid all t) = t_planId t"
  "t_origin (written_task pid all t) = t_origin t" "t_title (written_task pid all t) = t_title t"
  "t_priority (written_task pid all t) = t_priority t"
  by (simp_all add: written_task_def)

lemma written_tasks:
  "ids (map (written_task pid all) ts) = ids ts" "parents (map (written_task pid all) ts) = parents ts"
  "map t_id (map (written_task pid all) ts) = map t_id ts" "map t_key (map (written_task pid all) ts) = map t_key ts"
  by (simp_all add: parents_map ids_map)

lemma written_wf:
  assumes n: "names_ok b" and r: "refs_ok b" and g: "graph_ok lc b" and i: "importable lc taken b"
    and db: "d_tasks db = []" "d_deps db = []" "d_attempts db = []" "d_plans db = []"
  shows "wf lc (written b db)"
proof -
  have d: "distinct (b_deps b)" using n unfolding names_ok_def by (blast dest: distinct_map[THEN iffD1])
  have "states_ok lc (map (written_task (d_projectId db) (b_tasks b)) (b_tasks b))"
    using g i by (simp add: states_ok_def graph_ok_def importable_def task_ok_def)
  moreover have "closed_ok lc (map (written_task (d_projectId db) (b_tasks b)) (b_tasks b))"
    using g by (auto simp: closed_ok_def graph_ok_def)
  moreover have "waits_ok lc (map (written_task (d_projectId db) (b_tasks b)) (b_tasks b)) (set (b_deps b))"
    using g by (auto simp: waits_ok_def graph_ok_def)
  moreover have "attempts_ok (map (written_task (d_projectId db) (b_tasks b)) (b_tasks b)) (b_attempts b)"
    using n r g unfolding attempts_ok_def written_tasks
    by (simp add: names_ok_def refs_ok_def graph_ok_def lease_list_def)
  moreover have "rows_ok (b_plans b) (map (written_task (d_projectId db) (b_tasks b)) (b_tasks b))"
    using n r i unfolding rows_ok_def written_tasks
    by (simp add: names_ok_def refs_ok_def importable_def task_ok_def row_ok_def split: option.split)
  moreover have "forest_ok (b_tasks b)" "deps_ok (b_tasks b) (set (b_deps b))"
    using n r g by (auto simp: names_ok_def refs_ok_def graph_ok_def forest_ok_def deps_ok_def)
  ultimately show ?thesis
    using d by (simp add: wf_def written_def forest_ok_def deps_ok_def written_tasks del: map_map)
qed

text \<open>An import that returns, step by step.\<close>

lemma importProject_Inr:
  assumes "importProject lc o' a name prefix inTx b = Inr (counts, db)"
  obtains c db1 where "parseBundle b = Inr ()" "b_lifecycleName b = l_name lc" "b_lifecycleVersion b = l_version lc"
    "checkGraph lc b = Inr ()" "orElse (b_id b) (ot_newId o') \<notin> set (ot_projects o')"
    "import_rows lc (ot_attempts o') b (empty_project lc o' (orElse (b_id b) (ot_newId o')) (orElse prefix (b_idPrefix b))) = Inr db1"
    "inTx db1 = Inr c" "counts = bundle_counts b"
    "writeEvents (b_events b @ [imported_event a (orElse name (b_name b)) (orElse prefix (b_idPrefix b)) b]) (db1\<lparr>d_caller := c\<rparr>) = Inr db"
proof -
  let ?pid = "orElse (b_id b) (ot_newId o')" and ?name = "orElse name (b_name b)" and ?prefix = "orElse prefix (b_idPrefix b)"
  let ?evs = "b_events b @ [imported_event a ?name ?prefix b]"
  have 1: "parseBundle b = Inr ()" "b_lifecycleName b = l_name lc" "b_lifecycleVersion b = l_version lc" "checkGraph lc b = Inr ()"
      "?pid \<notin> set (ot_projects o')"
    using assms unfolding importProject_def Let_def by (auto simp: bindE_Inr_iff split: if_splits)
  then obtain db1 c where 2: "import_rows lc (ot_attempts o') b (empty_project lc o' ?pid ?prefix) = Inr db1" "inTx db1 = Inr c"
    using assms unfolding importProject_def Let_def
    by (cases "import_rows lc (ot_attempts o') b (empty_project lc o' ?pid ?prefix)") (auto simp: bindE_Inr_iff)
  have "counts = bundle_counts b \<and> writeEvents ?evs (db1\<lparr>d_caller := c\<rparr>) = Inr db"
    using assms 1 2 unfolding importProject_def Let_def by (cases "writeEvents ?evs (db1\<lparr>d_caller := c\<rparr>)") simp_all
  then show thesis using that[OF 1 2] by blast
qed

text \<open>The number of a child whose id the bundle uses is below the next one its parent gives out.\<close>

lemma le_fold_max: "x \<in> set xs \<Longrightarrow> x \<le> fold max xs (k :: nat)"
proof -
  have up: "k \<le> fold max xs k" for k :: nat and xs
  proof (induction xs arbitrary: k)
    case (Cons y ys)
    show ?case using Cons[of "max y k"] by simp
  qed simp
  show "x \<in> set xs \<Longrightarrow> x \<le> fold max xs k"
  proof (induction xs arbitrary: k)
    case (Cons y ys)
    then show ?case using up[of "max y k" ys] by auto
  qed simp
qed

lemma highest_child:
  assumes "u \<in> set ts" and "child_number (t_id u) = Some (i, n)"
  shows "n \<le> highestChild ts i"
proof -
  have "n \<in> set (List.map_filter (\<lambda>t. case child_number (t_id t) of
     Some (p, n) \<Rightarrow> if p = i then Some n else None | None \<Rightarrow> None) ts)"
    using assms by (force simp: List.map_filter_def)
  then show ?thesis unfolding highestChild_def by (rule le_fold_max)
qed

lemma child_number_show:
  assumes "p \<noteq> []" and "one_line p"
  shows "child_number (p @ ''.'' @ show_nat n) = Some (p, n)"
proof -
  have d: "\<forall>c \<in> set (rev (show_nat n)). is_digit c" using show_digits[of n] by (simp add: list_all_iff)
  have dot: "\<not> is_digit (CHR ''.'')" by (simp add: is_digit_def)
  have rev: "rev (p @ ''.'' @ show_nat n) = rev (show_nat n) @ CHR ''.'' # rev p" by simp
  have "takeWhile is_digit (rev (show_nat n) @ CHR ''.'' # rev p) = rev (show_nat n)"
    and "dropWhile is_digit (rev (show_nat n) @ CHR ''.'' # rev p) = CHR ''.'' # rev p"
    using d dot by ((subst takeWhile_append2, simp, simp)[1], subst dropWhile_append2, simp, simp add: dot)
  then show ?thesis using assms unfolding child_number_def Let_def rev
    by (cases p) (simp_all add: one_line_def)
qed

lemma import_written:
  assumes "importProject lc o' a name prefix inTx b = Inr (counts, db)"
  shows "names_ok b" "refs_ok b" "graph_ok lc b" "importable lc (ot_attempts o') b" "[] \<notin> ids (b_tasks b)"
    "log_ok db" "orElse (b_id b) (ot_newId o') \<notin> set (ot_projects o')" "assertVersion lc db = Inr ()"
    "same_rows (written b (empty_project lc o' (orElse (b_id b) (ot_newId o')) (orElse prefix (b_idPrefix b)))\<lparr>d_caller := d_caller db\<rparr>) db"
proof -
  let ?e = "empty_project lc o' (orElse (b_id b) (ot_newId o')) (orElse prefix (b_idPrefix b))"
  obtain c db1 where s: "parseBundle b = Inr ()" "checkGraph lc b = Inr ()" "orElse (b_id b) (ot_newId o') \<notin> set (ot_projects o')"
      "import_rows lc (ot_attempts o') b ?e = Inr db1"
      "writeEvents (b_events b @ [imported_event a (orElse name (b_name b)) (orElse prefix (b_idPrefix b)) b]) (db1\<lparr>d_caller := c\<rparr>) = Inr db"
    using assms by (rule importProject_Inr)
  show e: "[] \<notin> ids (b_tasks b)" by (rule parseBundle_ids[OF s(1)])
  have "names_ok b \<and> refs_ok b \<and> graph_ok lc b" using iffD1[OF checkGraph_Inr[OF e] s(2)] .
  then show n: "names_ok b" "refs_ok b" "graph_ok lc b" by simp_all
  have r: "importable lc (ot_attempts o') b \<and> db1 = written b ?e" using iffD1[OF import_rows_Inr[OF n(1) e n(2)] s(4)] .
  then show "importable lc (ot_attempts o') b" by simp
  show "orElse (b_id b) (ot_newId o') \<notin> set (ot_projects o')" by (rule s(3))
  have "same_rows (written b ?e\<lparr>d_caller := c\<rparr>) db" using writeEvents_rows[OF s(5)] r by simp
  moreover from this have "d_caller db = c" by (simp add: same_rowsD)
  ultimately show rows: "same_rows (written b ?e\<lparr>d_caller := d_caller db\<rparr>) db" by simp
  show "assertVersion lc db = Inr ()"
    using same_rowsD[OF rows] by (simp add: assertVersion_def written_def empty_project_def)
  have "log_ok (written b ?e\<lparr>d_caller := c\<rparr>)" by (simp add: log_ok_def written_def empty_project_def)
  then show "log_ok db" using writeEvents_log[OF s(5)] r by simp
qed

subsection \<open>An exported project can be imported again\<close>

text \<open>
  What the tables keep besides the engine's invariant: links are keyed and between tasks of the project, every row is the
  project's own and its next child number is above those in use. Ids come without spaces (\<open>ID_PREFIX\<close>, client.ts).
\<close>

definition links_keyed :: "'x db \<Rightarrow> bool" where
  "links_keyed db \<longleftrightarrow> distinct (d_links db) \<and>
     list_all (\<lambda>(x, y, k). x \<in> t_id ` set (d_tasks db) \<and> y \<in> t_id ` set (d_tasks db)) (d_links db)"

definition rows_numbered :: "'x db \<Rightarrow> bool" where
  "rows_numbered db \<longleftrightarrow> list_all (\<lambda>t. t_projectId t = d_projectId db \<and> highestChild (d_tasks db) (t_id t) < t_nextChild t) (d_tasks db)"

definition plain_ids :: "'x db \<Rightarrow> bool" where
  "plain_ids db \<longleftrightarrow> list_all (\<lambda>t. CHR '' '' \<notin> set (t_id t)) (d_tasks db)"

lemma sort_key_idem: "sort_key k (sort_key k xs) = sort_key k xs"
  by (rule sort_key_id_if_sorted) simp

lemma distinct_sorted_by: "distinct (map f (sort_key k xs)) \<longleftrightarrow> distinct (map f xs)"
  by (rule mset_eq_imp_distinct_iff) simp

lemma distinct_sorted_filter: "distinct (filter P (map f (sort_key k xs))) \<longleftrightarrow> distinct (filter P (map f xs))"
  by (rule mset_eq_imp_distinct_iff) simp

lemma append_space_inj: "CHR '' '' \<notin> set x \<Longrightarrow> CHR '' '' \<notin> set x' \<Longrightarrow> x @ CHR '' '' # y = x' @ CHR '' '' # y' \<Longrightarrow> x = x' \<and> y = y'"
  by (induction x arbitrary: x') (auto simp: Cons_eq_append_conv append_eq_Cons_conv)

lemma space_append_inj: "CHR '' '' \<notin> set y \<Longrightarrow> CHR '' '' \<notin> set y' \<Longrightarrow> x @ CHR '' '' # y = x' @ CHR '' '' # y' \<Longrightarrow> x = x' \<and> y = y'"
proof -
  assume s: "CHR '' '' \<notin> set y" "CHR '' '' \<notin> set y'" and e: "x @ CHR '' '' # y = x' @ CHR '' '' # y'"
  have "rev y @ CHR '' '' # rev x = rev y' @ CHR '' '' # rev x'" using arg_cong[OF e, of rev] by simp
  then have "rev y = rev y' \<and> rev x = rev x'" by (intro append_space_inj) (use s in auto)
  then show "x = x' \<and> y = y'" by simp
qed

lemma plain_names:
  assumes p: "\<forall>i \<in> V. CHR '' '' \<notin> set i"
  shows "set ds \<subseteq> V \<times> V \<Longrightarrow> distinct ds \<Longrightarrow> distinct (map (\<lambda>d. fst d @ '' -> '' @ snd d) ds)"
    and "(\<forall>l \<in> set ls. fst l \<in> V \<and> fst (snd l) \<in> V) \<Longrightarrow> distinct ls \<Longrightarrow>
      distinct (map (\<lambda>l. fst l @ '' -'' @ snd (snd l) @ ''-> '' @ fst (snd l)) ls)"
proof -
  assume s: "set ds \<subseteq> V \<times> V" and d: "distinct ds"
  have "d = e" if "d \<in> set ds" "e \<in> set ds" and n: "fst d @ '' -> '' @ snd d = fst e @ '' -> '' @ snd e" for d e
  proof -
    have "fst d = fst e \<and> ''-> '' @ snd d = ''-> '' @ snd e"
      by (rule append_space_inj) (use that p s in auto)
    then show ?thesis by (simp add: prod_eq_iff)
  qed
  then show "distinct (map (\<lambda>d. fst d @ '' -> '' @ snd d) ds)" using d by (auto simp: distinct_map inj_on_def)
next
  assume s: "\<forall>l \<in> set ls. fst l \<in> V \<and> fst (snd l) \<in> V" and d: "distinct ls"
  have "l = m" if "l \<in> set ls" "m \<in> set ls"
    and n: "fst l @ '' -'' @ snd (snd l) @ ''-> '' @ fst (snd l) = fst m @ '' -'' @ snd (snd m) @ ''-> '' @ fst (snd m)" for l m
  proof -
    have 1: "fst l = fst m \<and> ''-'' @ snd (snd l) @ ''-> '' @ fst (snd l) = ''-'' @ snd (snd m) @ ''-> '' @ fst (snd m)"
      by (rule append_space_inj) (use that p s in auto)
    then have "(snd (snd l) @ ''->'') @ '' '' @ fst (snd l) = (snd (snd m) @ ''->'') @ '' '' @ fst (snd m)" by simp
    then have "snd (snd l) @ ''->'' = snd (snd m) @ ''->'' \<and> fst (snd l) = fst (snd m)"
      by (intro space_append_inj) (use that p s in auto)
    then show ?thesis using 1 by (simp add: prod_eq_iff)
  qed
  then show "distinct (map (\<lambda>l. fst l @ '' -'' @ snd (snd l) @ ''-> '' @ fst (snd l)) ls)" using d by (auto simp: distinct_map inj_on_def)
qed

lemma open_attempts_sorted:
  assumes "open_attempts ats i = lease_list t"
  shows "open_attempts (sort_key k ats) i = lease_list t"
proof -
  have "mset (open_attempts (sort_key k ats) i) = mset (lease_list t)" by (simp flip: assms add: open_attempts_def)
  then show ?thesis by (cases "t_leaseAttemptId t") (auto simp: lease_list_def)
qed

lemma export_checks:
  assumes w: "wf lc db" and v: "valid_lifecycle lc" and l: "log_ok db" and k: "links_keyed db" and p: "plain_ids db"
  shows "names_ok (export_bundle row db)" and "refs_ok (export_bundle row db)" and "graph_ok lc (export_bundle row db)"
    and "\<forall>t \<in> set (d_tasks db). task_ok lc t" and "\<forall>q \<in> set (d_plans db). p_approvedAt q = None \<or> p_discardedAt q = None"
proof -
  let ?b = "export_bundle row db"
  have ids: "ids (b_tasks ?b) = ids (d_tasks db)" and pars: "parents (b_tasks ?b) = parents (d_tasks db)"
    by (simp_all add: export_bundle_def ids_def parents_def)
  have sets: "set (b_tasks ?b) = set (d_tasks db)" "set (b_deps ?b) = set (d_deps db)" "set (b_links ?b) = set (d_links db)"
      "set (b_attempts ?b) = set (d_attempts db)" "set (b_plans ?b) = set (d_plans db)" by (simp_all add: export_bundle_def)
  have plain: "\<forall>i \<in> ids (d_tasks db). CHR '' '' \<notin> set i" using p by (auto simp: plain_ids_def ids_def list_all_iff)
  have links: "\<forall>l \<in> set (d_links db). fst l \<in> ids (d_tasks db) \<and> fst (snd l) \<in> ids (d_tasks db)"
    using k by (auto simp: links_keyed_def ids_def list_all_iff)
  have events: "map n_requestId (b_events ?b) = map e_requestId (sort_key e_id (d_events db))"
    by (simp add: export_bundle_def bundle_event_def)
  have deps: "distinct (map (\<lambda>d. fst d @ '' -> '' @ snd d) (b_deps ?b))"
    by (rule plain_names(1)[OF plain]) (use wfD(2,8)[OF w] in \<open>auto simp: export_bundle_def deps_ok_def\<close>)
  have lks: "distinct (map (\<lambda>l. fst l @ '' -'' @ snd (snd l) @ ''-> '' @ fst (snd l)) (b_links ?b))"
    by (rule plain_names(2)[OF plain]) (use links k in \<open>auto simp: export_bundle_def links_keyed_def\<close>)
  show "names_ok ?b" unfolding names_ok_def events distinct_sorted_filter
    using wfD(1,6,7)[OF w] l deps lks
    by (simp add: export_bundle_def forest_ok_def rows_ok_def attempts_ok_def log_ok_def distinct_sorted_by distinct_sorted_filter)
  show "refs_ok ?b" unfolding refs_ok_def ids pars sets
    using wfD(1,2,6,7)[OF w] links by (auto simp: forest_ok_def deps_ok_def attempts_ok_def rows_ok_def row_ok_def split: option.splits)
  have open_ok: "open_attempts (b_attempts ?b) (t_id t) = lease_list t" if "t \<in> set (d_tasks db)" for t
    using wfD(6)[OF w] that by (simp add: export_bundle_def attempts_ok_def open_attempts_sorted)
  show "graph_ok lc ?b" unfolding graph_ok_def pars sets
    using wfD(1,2,3,4,5)[OF w] open_ok by (auto simp: forest_ok_def deps_ok_def states_ok_def closed_ok_def waits_ok_def sets)
  have "Some s = leasedState lc \<longleftrightarrow> stateFlag sf_leased lc s" for s by (metis leasedState_iff[OF v])
  then show "\<forall>t \<in> set (d_tasks db). task_ok lc t"
    using wfD(3,7)[OF w] by (auto simp: states_ok_def rows_ok_def row_ok_def task_ok_def)
  show "\<forall>q \<in> set (d_plans db). p_approvedAt q = None \<or> p_discardedAt q = None" using wfD(7)[OF w] by (simp add: rows_ok_def)
qed

text \<open>Writing an exported log again.\<close>

lemma insertEvents_ok:
  assumes "distinct (filter (\<lambda>r. r \<noteq> None) (map n_requestId es))"
    and "\<forall>e \<in> set es. n_requestId e \<noteq> None \<longrightarrow> n_requestId e \<notin> set (map e_requestId (d_events db))"
  shows "\<exists>db'. insertEvents es db = Inr db' \<and> map bundle_event (d_events db') = map bundle_event (d_events db) @
    map (\<lambda>e. e\<lparr>n_at := Some (orElse (n_at e) (d_now db))\<rparr>) es"
  using assms
proof (induction es arbitrary: db)
  case (Cons e es)
  let ?db = "db\<lparr>d_events := d_events db @ [toEvent (d_nextEventId db) (d_now db) e], d_nextEventId := Suc (d_nextEventId db)\<rparr>"
  have 1: "insertEvent e db = Inr ?db" using Cons.prems(2) by (auto simp: insertEvent_def)
  have 2: "e_requestId (toEvent i n e) = n_requestId e" for i n by (simp add: toEvent_def)
  have fresh: "\<forall>e' \<in> set es. n_requestId e' \<noteq> None \<longrightarrow> n_requestId e' \<notin> set (map e_requestId (d_events ?db))"
  proof (intro ballI impI)
    fix e' assume e': "e' \<in> set es" "n_requestId e' \<noteq> None"
    have "n_requestId e' \<noteq> n_requestId e" using Cons.prems(1) e' by (force split: if_splits)
    then show "n_requestId e' \<notin> set (map e_requestId (d_events ?db))" using Cons.prems(2) e' by (auto simp: 2)
  qed
  have "distinct (filter (\<lambda>r. r \<noteq> None) (map n_requestId es))" using Cons.prems(1) by (simp split: if_splits)
  then obtain db' where "insertEvents es ?db = Inr db'" and ev: "map bundle_event (d_events db') = map bundle_event (d_events ?db) @
      map (\<lambda>e. e\<lparr>n_at := Some (orElse (n_at e) (d_now ?db))\<rparr>) es"
    using Cons.IH[of ?db] fresh by blast
  moreover have "bundle_event (toEvent i n e) = e\<lparr>n_at := Some (orElse (n_at e) n)\<rparr>" for i n
    by (simp add: bundle_event_def toEvent_def orElse_def split: option.split)
  ultimately show ?case using 1 by simp
qed simp

lemma highestChild_written:
  assumes "rows_numbered db" and "t \<in> set (d_tasks db)"
  shows "written_task (d_projectId db) (sort_key t_id (d_tasks db)) t = t"
proof -
  let ?f = "\<lambda>t'. case child_number (t_id t') of Some (p, n) \<Rightarrow> if p = t_id t then Some n else None | None \<Rightarrow> None"
  have fold: "fold max xs k \<le> m \<longleftrightarrow> k \<le> m \<and> (\<forall>x \<in> set xs. x \<le> m)" for xs and k m :: nat
    by (induction xs arbitrary: k) auto
  have "set (List.map_filter ?f (sort_key t_id (d_tasks db))) = set (List.map_filter ?f (d_tasks db))" by (simp add: List.map_filter_def)
  then have "highestChild (sort_key t_id (d_tasks db)) (t_id t) \<le> m \<longleftrightarrow> highestChild (d_tasks db) (t_id t) \<le> m" for m
    unfolding highestChild_def fold by simp
  then have "highestChild (sort_key t_id (d_tasks db)) (t_id t) < t_nextChild t"
    using assms by (auto simp: rows_numbered_def list_all_iff intro: le_less_trans)
  then show ?thesis using assms by (auto simp: written_task_def rows_numbered_def list_all_iff)
qed

lemma export_imports:
  assumes g: "good lc db" and v: "assertVersion lc db = Inr ()" and k: "links_keyed db" and n: "rows_numbered db" and p: "plain_ids db"
    and i: "bundle_issues (export_bundle row db) = []"
    and free: "d_projectId db \<notin> set (ot_projects o')" "a_id ` set (d_attempts db) \<inter> set (ot_attempts o') = {}"
  shows "\<exists>db'. importProject lc o' a None None (\<lambda>_. Inr (d_caller db)) (export_bundle row db) =
       Inr (bundle_counts (export_bundle row db), db') \<and>
     export_bundle row db' = export_bundle row db\<lparr>b_events := b_events (export_bundle row db) @
       [(imported_event a (pj_name row) (d_idPrefix db) (export_bundle row db))\<lparr>n_at := Some (ot_now o')\<rparr>]\<rparr>"
proof -
  let ?b = "export_bundle row db"
  let ?e = "empty_project lc o' (d_projectId db) (d_idPrefix db)"
  let ?im = "imported_event a (pj_name row) (d_idPrefix db) ?b"
  have w: "wf lc db" and vl: "valid_lifecycle lc" and l: "log_ok db" using g by (auto simp: good_def dest: sound_valid)
  note c = export_checks(1-3)[OF w vl l k p, of row] export_checks(4,5)[OF w vl l k p]
  have parsed: "parseBundle ?b = Inr ()" using i by (simp add: parseBundle_Inr)
  have e: "[] \<notin> ids (b_tasks ?b)" by (rule parseBundle_ids[OF parsed])
  have graph: "checkGraph lc ?b = Inr ()" using checkGraph_Inr[OF e] c(1-3) by blast
  have imp: "importable lc (ot_attempts o') ?b" using c(4,5) free(2) by (simp add: importable_def export_bundle_def)
  have rows: "import_rows lc (ot_attempts o') ?b ?e = Inr (written ?b ?e)"
    by (intro iffD2[OF import_rows_Inr[OF c(1) e c(2)]] conjI imp refl)
  define db1 where "db1 = written ?b ?e\<lparr>d_caller := d_caller db\<rparr>"
  have none: "d_events db1 = []" "d_now db1 = ot_now o'" by (simp_all add: db1_def written_def empty_project_def)
  have reqs: "distinct (filter (\<lambda>r. r \<noteq> None) (map n_requestId (b_events ?b @ [?im])))"
    using c(1) by (simp add: names_ok_def imported_event_def ev_def)
  obtain db2 where ins: "insertEvents (b_events ?b @ [?im]) db1 = Inr db2"
      and evs: "map bundle_event (d_events db2) = map (\<lambda>e. e\<lparr>n_at := Some (orElse (n_at e) (ot_now o'))\<rparr>) (b_events ?b @ [?im])"
    using insertEvents_ok[OF reqs, of db1] none by auto
  define db' where "db' = db2\<lparr>d_notified := d_notified db2 @ [d_nextEventId db2 - 1]\<rparr>"
  have wr: "writeEvents (b_events ?b @ [?im]) db1 = Inr db'" using ins by (simp add: writeEvents_def db'_def)
  have ver: "b_lifecycleName ?b = l_name lc" "b_lifecycleVersion ?b = l_version lc"
    using v by (simp_all add: export_bundle_def assertVersion_def split: if_splits)
  have ok: "importProject lc o' a None None (\<lambda>_. Inr (d_caller db)) ?b = Inr (bundle_counts ?b, db')"
    unfolding importProject_def Let_def parsed graph bindE.simps
    using ver free(1) rows wr by (simp add: refuse_if_def export_bundle_def orElse_def db1_def)
  have same: "same_rows db1 db'" by (rule writeEvents_rows[OF wr])
  have sorted_log: "sort_key e_id (d_events db') = d_events db'"
  proof -
    have "log_ok db1" by (simp add: log_ok_def none)
    then have "sorted_wrt (<) (map e_id (d_events db'))" using writeEvents_log[OF wr] by (simp add: log_ok_def)
    then show ?thesis by (intro sort_key_id_if_sorted) (simp add: strict_sorted_iff)
  qed
  have events: "b_events (export_bundle row db') = b_events ?b @ [?im\<lparr>n_at := Some (ot_now o')\<rparr>]"
  proof -
    have "e\<lparr>n_at := Some (orElse (n_at e) (ot_now o'))\<rparr> = e" if "e \<in> set (b_events ?b)" for e
      using that by (auto simp: export_bundle_def bundle_event_def orElse_def)
    moreover have "b_events (export_bundle row db') = map bundle_event (d_events db2)"
      using sorted_log by (simp add: export_bundle_def db'_def)
    ultimately show ?thesis using evs by (simp add: map_idI imported_event_def ev_def orElse_def)
  qed
  have tasks: "map (written_task (d_projectId db) (b_tasks ?b)) (b_tasks ?b) = b_tasks ?b"
    using highestChild_written[OF n] by (intro map_idI) (simp add: export_bundle_def)
  have "export_bundle row db' = ?b\<lparr>b_events := b_events (export_bundle row db')\<rparr>"
    using same_rowsD[OF same] ver tasks
    by (simp add: export_bundle_def db1_def written_def empty_project_def sort_key_idem)
  then show ?thesis using ok events by auto
qed

subsection \<open>A run to export\<close>

definition uuid_1 :: string where "uuid_1 = ''11111111-2222-3333-4444-555555555555''"
definition uuid_2 :: string where "uuid_2 = ''aaaaaaaa-2222-3333-4444-555555555555''"

definition kept_run :: "tg_error + shreni_rows db" where
  "kept_run = runs taskLifecycle [] (\<lambda>_. JNull) (take 6 demo_ops @ [(orch, Claim demo_claim [] [] uuid_2)]) (demo_db\<lparr>d_projectId := uuid_1\<rparr>)"

definition kept_db :: "shreni_rows db" where
  "kept_db = (case kept_run of Inr db \<Rightarrow> db | Inl _ \<Rightarrow> demo_db)"

definition kept_row :: project_row where
  "kept_row = \<lparr>pj_name = ''k'', pj_createdAt = 0\<rparr>"

definition elsewhere :: "shreni_rows others" where
  "elsewhere = \<lparr>ot_projects = [''q''], ot_attempts = [''u9''], ot_newId = uuid_2, ot_nextEventId = 50, ot_now = 2000, ot_caller = demo_rows\<rparr>"

definition kept_ready :: "shreni_rows db \<Rightarrow> bool" where
  "kept_ready db \<longleftrightarrow> assertVersion taskLifecycle db = Inr () \<and> links_keyed db \<and> rows_numbered db \<and> plain_ids db \<and>
     bundle_issues (export_bundle kept_row db) = [] \<and> d_projectId db = uuid_1 \<and> map a_id (d_attempts db) = [uuid_2]"

lemma kept_good: "good taskLifecycle kept_db"
proof -
  have "isOk kept_run" by code_simp
  then obtain db where r: "kept_run = Inr db" unfolding isOk_iff by blast
  have "kept_db = db" unfolding kept_db_def r by (rule sum.case)
  then have "kept_run = Inr kept_db" using r by (rule ssubst)
  moreover have "new_project (demo_db\<lparr>d_projectId := uuid_1\<rparr>)"
    by (simp add: new_project_def demo_db_def log_ok_def)
  ultimately show ?thesis unfolding kept_run_def by (intro reachable_good[OF taskLifecycle_sound] runs_reachable)
qed

lemma kept_ready: "kept_ready kept_db"
  by code_simp

lemma kept_conditions:
  "assertVersion taskLifecycle kept_db = Inr ()" "links_keyed kept_db" "rows_numbered kept_db" "plain_ids kept_db"
  "bundle_issues (export_bundle kept_row kept_db) = []" "d_projectId kept_db \<notin> set (ot_projects elsewhere)"
  "a_id ` set (d_attempts kept_db) \<inter> set (ot_attempts elsewhere) = {}"
proof -
  have "map a_id (d_attempts kept_db) = [uuid_2]" using kept_ready by (simp add: kept_ready_def)
  then have "a_id ` set (d_attempts kept_db) = set [uuid_2]" by (metis set_map)
  then show "a_id ` set (d_attempts kept_db) \<inter> set (ot_attempts elsewhere) = {}" by (simp add: elsewhere_def uuid_2_def)
qed (use kept_ready in \<open>simp_all add: kept_ready_def elsewhere_def uuid_1_def\<close>)

subsection \<open>An id with a line break\<close>

text \<open>
  The schema takes any text as a task's id. Of a task whose id has a line break, the children's numbers are not read: the
  import leaves its next child number at one, which is taken.
\<close>

definition broken_id :: string where
  "broken_id = [CHR ''a'', CHR 0x0A, CHR ''b'']"

definition broken_bundle :: project_bundle where
  "broken_bundle = (let row = \<lambda>i p. (hd (b_tasks (export_bundle kept_row kept_db)))\<lparr>t_id := i, t_key := None, t_parentId := p, t_planId := None, t_origin := Manual,
       t_state := ''open'', t_nextChild := 1, t_leaseAttemptId := None, t_leaseExpiresAt := None\<rparr>
     in (export_bundle kept_row kept_db)\<lparr>b_tasks := [row broken_id None, row (broken_id @ ''.1'') (Some broken_id)],
       b_deps := [], b_links := [], b_attempts := [], b_plans := [], b_events := []\<rparr>)"

lemma broken_id_is_reused:
  "case importProject taskLifecycle elsewhere ana None None (\<lambda>_. Inr (d_caller kept_db)) broken_bundle of
     Inl _ \<Rightarrow> False
   | Inr (_, db) \<Rightarrow> (case nextChildId db broken_id of Inl _ \<Rightarrow> False | Inr (i, _) \<Rightarrow> i \<in> t_id ` set (d_tasks db))"
  by code_simp

subsection \<open>The property\<close>

text \<open>
  C37: Importing a bundle either refuses or makes a sound project: whatever rows the bundle holds, and whatever lifecycle
  it is read with, an import that returns leaves a project whose rows hold together (parents a forest, dependencies acyclic
  and never across a container, every lease its task's one open attempt, no closed container with a live child, no live
  task waiting on failed work) and a sound log, on the version of the lifecycle that runs. The tasks are the bundle's, all
  moved into the new project, whose id no other project has. The number a task will give its next child is above that of
  every id that names one of its children, so no id it gives out is already used, where the task's own id has no line
  break; the pattern that reads the numbers does not see the children of one that has (\<open>broken_id_is_reused\<close>).\<close>

theorem import_sound:
  assumes "importProject lc o' a name prefix inTx b = Inr (counts, db)"
  shows "wf lc db \<and> log_ok db \<and> assertVersion lc db = Inr () \<and> d_projectId db \<notin> set (ot_projects o') \<and>
    map (\<lambda>t. t\<lparr>t_projectId := '''', t_nextChild := 0\<rparr>) (d_tasks db) = map (\<lambda>t. t\<lparr>t_projectId := '''', t_nextChild := 0\<rparr>) (b_tasks b) \<and>
    d_plans db = b_plans b \<and> d_deps db = b_deps b \<and> d_links db = b_links b \<and> d_attempts db = b_attempts b \<and>
    (\<forall>t \<in> set (d_tasks db). t_projectId t = d_projectId db \<and>
       (one_line (t_id t) \<longrightarrow> (\<forall>u \<in> set (d_tasks db). \<forall>n. t_id u = t_id t @ ''.'' @ show_nat n \<longrightarrow> n < t_nextChild t)))"
proof -
  let ?e = "empty_project lc o' (orElse (b_id b) (ot_newId o')) (orElse prefix (b_idPrefix b))"
  note i = import_written[OF assms]
  have db: "d_tasks db = map (written_task (d_projectId ?e) (b_tasks b)) (b_tasks b)" "d_plans db = b_plans b" "d_deps db = b_deps b"
      "d_links db = b_links b" "d_attempts db = b_attempts b" "d_projectId db = d_projectId ?e"
    using same_rowsD[OF i(9)] by (simp_all add: written_def empty_project_def)
  have "wf lc (written b ?e)" by (rule written_wf[OF i(1-4)]) (simp_all add: empty_project_def)
  then have "wf lc db" by (simp add: wf_def db) (simp add: written_def)
  moreover have "n < t_nextChild t" if t: "t \<in> set (d_tasks db)" and o: "one_line (t_id t)" and u: "u \<in> set (d_tasks db)"
      and n: "t_id u = t_id t @ ''.'' @ show_nat n" for t u n
  proof -
    have "t_id t \<noteq> []" using i(5) t by (force simp: db ids_def)
    then have c: "child_number (t_id u) = Some (t_id t, n)" unfolding n using o by (rule child_number_show)
    obtain u' where "u' \<in> set (b_tasks b)" "t_id u' = t_id u" using u by (auto simp: db)
    then have "n \<le> highestChild (b_tasks b) (t_id t)" using highest_child[of u' "b_tasks b"] c by simp
    then show ?thesis using t by (auto simp: db written_task_def)
  qed
  moreover have "d_projectId db \<notin> set (ot_projects o')" using i(7) by (simp add: db empty_project_def)
  moreover have "map (\<lambda>t. t\<lparr>t_projectId := '''', t_nextChild := 0\<rparr>) (d_tasks db) = map (\<lambda>t. t\<lparr>t_projectId := '''', t_nextChild := 0\<rparr>) (b_tasks b)"
    by (simp add: db written_task_def)
  moreover have "\<forall>t \<in> set (d_tasks db). t_projectId t = d_projectId db" by (auto simp: db written_task_def)
  ultimately show ?thesis using i(6,8) db(2-5) by blast
qed

theorem import_sound_witness:
  "\<exists>counts db. importProject taskLifecycle elsewhere ana None None (\<lambda>_. Inr (d_caller kept_db)) (export_bundle kept_row kept_db) = Inr (counts, db) \<and>
     wf taskLifecycle db \<and> log_ok db"
  using export_imports[OF kept_good kept_conditions, of ana] import_sound by blast

end
