(* ===== verification/Tracker.thy ===== *)
theory Tracker
  imports Store
begin

text \<open>
  Shreni's reads on the engine (src/src/policy/sthapathi/reads.ts): each task as the row that show, logs, export, status,
  drain and the dashboard read, in beads' words, and what pickup makes of a list of such rows
  (src/src/sthapathi/pickup.ts). A JSON row is a record; the text of the acceptance checks, which the model's rows do not
  hold, and the text of a timestamp are parameters or left out. Times stay in milliseconds.
\<close>

subsection \<open>Statuses\<close>

definition BD_STATUS :: "(string \<times> string) list" where
  "BD_STATUS = [(''proposed'', ''proposed''), (''open'', ''open''), (''claimed'', ''in_progress''), (''waiting'', ''in_progress''),
     (''blocked'', ''blocked''), (''parked'', ''deferred''), (''done'', ''closed''), (''cancelled'', ''closed'')]"

fun split_on :: "char \<Rightarrow> string \<Rightarrow> string list" where
  "split_on c [] = [[]]"
| "split_on c (x # xs) = (if x = c then [] # split_on c xs
     else (case split_on c xs of [] \<Rightarrow> [[x]] | y # ys \<Rightarrow> (x # y) # ys))"

definition wanted_statuses :: "string option \<Rightarrow> string list" where
  "wanted_statuses status = (case status of
       Some s \<Rightarrow> if s = '''' then [''proposed'', ''open'', ''in_progress'', ''blocked'', ''deferred'']
         else filter (\<lambda>w. w \<noteq> '''') (map trim (split_on CHR '','' s))
     | None \<Rightarrow> [''proposed'', ''open'', ''in_progress'', ''blocked'', ''deferred''])"

definition statesFor :: "string option \<Rightarrow> string list" where
  "statesFor status = (if status = Some ''all'' then map fst BD_STATUS
     else map fst (filter (\<lambda>(st, bd). bd \<in> set (wanted_statuses status)) BD_STATUS))"

definition bd_status :: "string \<Rightarrow> string" where
  "bd_status s = orElse (map_of BD_STATUS s) s"

text \<open>A cancelled dependency still blocks, so it does not read as closed.\<close>

definition depStatus :: "string \<Rightarrow> string" where
  "depStatus s = (if isSatisfying taskLifecycle s then ''closed''
     else if map_of BD_STATUS s = Some ''closed'' then s else bd_status s)"

subsection \<open>Rows\<close>

record tracker_dep =
  td_id :: string
  td_title :: string
  td_status :: string
  td_type :: string
  td_issue :: string

record tracker_row =
  tr_id :: string
  tr_title :: string
  tr_description :: string
  tr_status :: string
  tr_state :: string
  tr_priority :: int
  tr_type :: string
  tr_labels :: "string list"
  tr_parent :: "string option"
  tr_notes :: "string option"
  tr_acceptance :: "string option"
  tr_design :: "string option"
  tr_createdAt :: int
  tr_updatedAt :: int
  tr_closedAt :: "int option"
  tr_closeReason :: "string option"
  tr_followupRound :: "nat option"
  tr_dependencies :: "tracker_dep list"

definition event_text :: "string \<Rightarrow> event \<Rightarrow> string option" where
  "event_text k e = text_of (jget k (Some (e_payload e)))"

text \<open>A task's events that carry a note or the reason of a move, in the order of the log.\<close>

definition told :: "rows \<Rightarrow> string \<Rightarrow> event list" where
  "told db i = filter (\<lambda>e. e_taskId e = Some i \<and> (e_kind e = ''note'' \<or>
     take 5 (e_kind e) = ''move:'' \<and> jget ''reason'' (Some (e_payload e)) \<noteq> None)) (sort_key e_id (d_events db))"

text \<open>The line an event adds to the notes: a note's text, a flag's reason; an empty one adds none.\<close>

definition note_line :: "event \<Rightarrow> string option" where
  "note_line e = filled (if e_kind e = ''note'' then event_text ''text'' e
     else if e_kind e = ''move:flag'' then event_text ''reason'' e else None)"

definition NEWLINE :: char where
  "NEWLINE = CHR 0x0A"

definition notesOf :: "rows \<Rightarrow> string \<Rightarrow> string option" where
  "notesOf db i = (let ls = List.map_filter note_line (told db i) in
     if ls = [] then None else Some (joined [NEWLINE] ls))"

definition closing_reason :: "event \<Rightarrow> string option" where
  "closing_reason e = (if e_kind e = ''note'' then None
     else case (filled (event_text ''reason'' e), e_toState e) of
       (Some r, Some s) \<Rightarrow> if s \<noteq> '''' \<and> isTerminal taskLifecycle s then Some r else None | _ \<Rightarrow> None)"

definition closeReasonOf :: "rows \<Rightarrow> string \<Rightarrow> string option" where
  "closeReasonOf db i = (case rev (List.map_filter closing_reason (told db i)) of [] \<Rightarrow> None | r # _ \<Rightarrow> Some r)"

definition depsOf :: "rows \<Rightarrow> string \<Rightarrow> task list" where
  "depsOf db i = sort_key t_id (List.map_filter (\<lambda>(a, b). if a = i then find_task b db else None) (d_deps db))"

definition AWAITING_MERGE :: string where
  "AWAITING_MERGE = ''awaiting-merge''"

definition PR_NEEDS_FOLLOWUP_LABEL :: string where
  "PR_NEEDS_FOLLOWUP_LABEL = ''pr-needs-followup''"

definition labelsOf :: "task \<Rightarrow> string list" where
  "labelsOf t = t_tags t @ (if t_state t = ''waiting'' then [AWAITING_MERGE] else []) @
     (if t_boosted t \<and> t_state t \<in> {''open'', ''claimed''} then [PR_NEEDS_FOLLOWUP_LABEL] else [])"

text \<open>The round of a boosted task's follow-up: the newest attempt's watermark that has one.\<close>

definition followupRoundOf :: "rows \<Rightarrow> task \<Rightarrow> nat option" where
  "followupRoundOf db t = (if t_boosted t then Option.bind (lastOf (\<lambda>e. jget ''prFollowup'' (Some (ve_gates e))) db (t_id t))
     (\<lambda>w. case jget ''round'' (Some w) of Some (JNum n) \<Rightarrow> Some (nat n) | _ \<Rightarrow> None) else None)"

definition dep_row :: "string \<Rightarrow> task \<Rightarrow> tracker_dep" where
  "dep_row i d = \<lparr>td_id = t_id d, td_title = t_title d, td_status = depStatus (t_state d), td_type = ''blocks'', td_issue = i\<rparr>"

text \<open>\<open>checks\<close> is the text of a task's acceptance checks, if it has any.\<close>

definition tracker_row :: "(string \<Rightarrow> string option) \<Rightarrow> rows \<Rightarrow> task \<Rightarrow> tracker_row" where
  "tracker_row checks db t = \<lparr>tr_id = t_id t, tr_title = t_title t, tr_description = orElse (t_description t) '''',
     tr_status = bd_status (t_state t), tr_state = t_state t, tr_priority = t_priority t,
     tr_type = (if t_kind t = Container then ''epic'' else orElse (t_category t) ''task''), tr_labels = labelsOf t,
     tr_parent = filled (t_parentId t), tr_notes = notesOf db (t_id t),
     tr_acceptance = (case checks (t_id t) of Some c \<Rightarrow> Some c | None \<Rightarrow> text_of (jget ''acceptanceCriteria'' (Some (t_spec t)))),
     tr_design = text_of (jget ''design'' (Some (t_spec t))), tr_createdAt = t_createdAt t, tr_updatedAt = t_updatedAt t,
     tr_closedAt = t_closedAt t, tr_closeReason = closeReasonOf db (t_id t), tr_followupRound = followupRoundOf db t,
     tr_dependencies = map (dep_row (t_id t)) (depsOf db (t_id t))\<rparr>"

subsection \<open>The reads\<close>

record list_filter =
  lf_status :: "string option"
  lf_label :: "string option"
  lf_type :: "string option"

definition list_rows :: "(string \<Rightarrow> string option) \<Rightarrow> rows \<Rightarrow> list_filter \<Rightarrow> tg_error + tracker_row list" where
  "list_rows checks db f = bindE (tasks_list db (noFilter\<lparr>fl_states := Some (statesFor (lf_status f)), fl_orderBy := Some ByCreated,
       fl_kind := (if lf_type f = Some ''epic'' then Some Container else None)\<rparr>)) (\<lambda>ts.
     Inr (map (tracker_row checks db) (case filled (lf_label f) of None \<Rightarrow> ts | Some l \<Rightarrow> filter (\<lambda>t. l \<in> set (labelsOf t)) ts)))"

definition ready_rows :: "(string \<Rightarrow> string option) \<Rightarrow> rows \<Rightarrow> tg_error + tracker_row list" where
  "ready_rows checks db = bindE (ready taskLifecycle db (noFilter\<lparr>fl_kind := Some Work\<rparr>)) (\<lambda>ts. Inr (map (tracker_row checks db) ts))"

definition show_row :: "(string \<Rightarrow> string option) \<Rightarrow> rows \<Rightarrow> string \<Rightarrow> tg_error + tracker_row list" where
  "show_row checks db i = bindE (tasks_list db (noFilter\<lparr>fl_ids := Some [i]\<rparr>)) (\<lambda>ts. case ts of
       [] \<Rightarrow> Inl (Fatal (''no task '' @ i)) | t # _ \<Rightarrow> Inr [tracker_row checks db t])"

definition children_rows :: "(string \<Rightarrow> string option) \<Rightarrow> rows \<Rightarrow> string \<Rightarrow> tg_error + tracker_row list" where
  "children_rows checks db i = bindE (tasks_list db (noFilter\<lparr>fl_parent := Some i, fl_orderBy := Some ByCreated\<rparr>)) (\<lambda>ts.
     Inr (map (tracker_row checks db) ts))"

definition BEADS_INTERACTION_EVENT :: string where
  "BEADS_INTERACTION_EVENT = ''beads.interaction''"

definition interactions :: "rows \<Rightarrow> (int \<times> string \<times> string \<times> string) list" where
  "interactions db = List.map_filter (\<lambda>e. case e_taskId e of None \<Rightarrow> None
     | Some i \<Rightarrow> if e_actorRole e = ''developer'' \<or> e_kind e = BEADS_INTERACTION_EVENT then Some (e_at e, i, e_kind e, e_actor e) else None)
     (sort_key e_id (d_events db))"

subsection \<open>What pickup takes (pickup.ts)\<close>

text \<open>\<open>parseReadyOutput\<close> keeps a row that has an id, a title, a status and a priority from 0 to 4.\<close>

definition parseReadyOutput :: "tracker_row list \<Rightarrow> tracker_row list" where
  "parseReadyOutput rs = filter (\<lambda>r. 0 \<le> tr_priority r \<and> tr_priority r \<le> 4) rs"

definition SUTHRADHARA_SESSION_TYPE :: string where
  "SUTHRADHARA_SESSION_TYPE = ''suthradhara-session''"

definition EPIC_TYPE :: string where
  "EPIC_TYPE = ''epic''"

definition rankCandidates :: "tracker_row list \<Rightarrow> tracker_row list" where
  "rankCandidates rs = sort_key tr_priority (filter (\<lambda>r. tr_type r \<noteq> SUTHRADHARA_SESSION_TYPE \<and> tr_type r \<noteq> EPIC_TYPE) rs)"

end
