(* ===== verification/Drain.thy ===== *)
theory Drain
  imports Tracker Scheduler
begin

text \<open>
  \<open>shreni drain\<close>: the foreground run of the worker that ends by itself (src/src/cli/drain.ts) and why each task it leaves
  open was left (src/src/cli/drain-classify.ts). The worker runtime is a record of operations on a world \<open>'w\<close>, with
  the signal of the process in it; a call that rejects ends the drain with its error. The two loops may run for ever, so
  they are partial functions and ending is a theorem. The reads of one exit sequence are taken on one state of the rows. A dash
  outside ASCII in a message is written as a hyphen.
\<close>

subsection \<open>Why a task was left (drain-classify.ts)\<close>

datatype stall_category = Budget | NeedsHuman | BlockedBy | Exhausted | StallBlocked | StallPaused | ReadyButUnworked |
  NotReached | StallOpen

record stalled_bead =
  sb_beadId :: string
  sb_category :: stall_category
  sb_reason :: string

record bead_detail =
  bt_notes :: string
  bt_status :: string
  bt_openBlockers :: "string list"

text \<open>\<open>[...new Set(xs)]\<close>: each element once, where it first stands.\<close>

fun add_new :: "'a list \<Rightarrow> 'a list \<Rightarrow> 'a list" where
  "add_new seen [] = []"
| "add_new seen (x # xs) = (if x \<in> set seen then add_new seen xs else x # add_new (x # seen) xs)"

text \<open>The rows that follow the task's own in a show carry no dependency type here, so only its nested dependencies count.\<close>

definition parseBeadDetail :: "tracker_row list \<Rightarrow> string \<Rightarrow> bead_detail option" where
  "parseBeadDetail rs i = map_option (\<lambda>b. \<lparr>bt_notes = orElse (tr_notes b) '''', bt_status = tr_status b,
       bt_openBlockers = add_new [] (map td_id (filter (\<lambda>d. td_type d = ''blocks'' \<and> td_status d \<noteq> ''closed'') (tr_dependencies b)))\<rparr>)
     (find (\<lambda>r. tr_id r = i) rs)"

definition BUDGET_RE :: "string \<Rightarrow> bool" where
  "BUDGET_RE s \<longleftrightarrow> hasText (toLower s) ''budget cap''"

definition starts_with :: "string \<Rightarrow> string \<Rightarrow> bool" where
  "starts_with p s \<longleftrightarrow> take (length p) s = p"

text \<open>The text after one or more digits and a space, if the text starts so.\<close>

definition after_number :: "string \<Rightarrow> string option" where
  "after_number s = (if takeWhile is_digit s = [] then None else Some (dropWhile is_digit s))"

definition exhausted_here :: "string \<Rightarrow> bool" where
  "exhausted_here s \<longleftrightarrow>
     starts_with ''after '' s \<and> given (starts_with '' rounds'') (after_number (drop 6 s)) \<and> after_number (drop 6 s) \<noteq> None \<or>
     starts_with ''exceeded '' s \<and> (case after_number (drop 9 s) of None \<Rightarrow> False
        | Some r \<Rightarrow> starts_with '' '' r \<and> hasText (takeWhile (\<lambda>c. c \<noteq> NEWLINE \<and> c \<noteq> CHR 0x0D) (drop 1 r)) ''attempt'')"

definition EXHAUSTED_RE :: "string \<Rightarrow> bool" where
  "EXHAUSTED_RE s \<longleftrightarrow> list_ex (\<lambda>n. exhausted_here (drop n (toLower s))) [0..<length s]"

definition budgetCapLine :: "string \<Rightarrow> string" where
  "budgetCapLine notes = trim (orElse (find BUDGET_RE (split_on NEWLINE notes)) notes)"

definition classifyBeadDetail :: "string \<Rightarrow> bead_detail \<Rightarrow> bool \<Rightarrow> bool \<Rightarrow> stalled_bead" where
  "classifyBeadDetail i d paused is_ready = (let stall = (\<lambda>c r. \<lparr>sb_beadId = i, sb_category = c, sb_reason = r\<rparr>) in
     if BUDGET_RE (bt_notes d) then stall Budget (budgetCapLine (bt_notes d))
     else if hasText (bt_notes d) ''[needs-human]'' then stall NeedsHuman ''needs-human''
     else if bt_openBlockers d \<noteq> [] then stall BlockedBy (''blocked-by '' @ joined '', '' (bt_openBlockers d))
     else if EXHAUSTED_RE (bt_notes d) then stall Exhausted ''exhausted (round/attempt cap reached)''
     else if bt_status d = ''blocked'' then stall StallBlocked ''blocked (flagged - see bead notes)''
     else if paused then stall StallPaused ''kshetra paused''
     else if is_ready then stall ReadyButUnworked ''READY BUT UNWORKED - investigate (should not happen)''
     else stall StallOpen (''open (status '' @ (if bt_status d = '''' then ''unknown'' else bt_status d) @ '')''))"

text \<open>A task whose read fails, or whose show doesn't hold it, is still open and unexplained.\<close>

definition classify_one :: "(string \<Rightarrow> 'e + tracker_row list) \<Rightarrow> bool \<Rightarrow> string list \<Rightarrow> string \<Rightarrow> stalled_bead" where
  "classify_one shows paused readyIds i =
     (case (case shows i of Inl _ \<Rightarrow> None | Inr rs \<Rightarrow> parseBeadDetail rs i) of
        Some d \<Rightarrow> classifyBeadDetail i d paused (i \<in> set readyIds)
      | None \<Rightarrow> \<lparr>sb_beadId = i, sb_category = StallOpen, sb_reason = ''open (details unavailable)''\<rparr>)"

definition classifyOpenBeads :: "(string \<Rightarrow> 'e + tracker_row list) \<Rightarrow> string list \<Rightarrow> bool \<Rightarrow> string list \<Rightarrow> stalled_bead list" where
  "classifyOpenBeads shows openIds paused readyIds = map (classify_one shows paused readyIds) openIds"

subsection \<open>The scope of an epic\<close>

text \<open>Breadth-first from the epic; each child is queued once, when first seen.\<close>

partial_function (option) scope_walk :: "(string \<Rightarrow> string list) \<Rightarrow> string list \<Rightarrow> string list \<Rightarrow> string list option" where
  "scope_walk kids scope queue = (case queue of [] \<Rightarrow> Some scope
     | parent # rest \<Rightarrow> (let new = add_new scope (kids parent) in scope_walk kids (scope @ new) (rest @ new)))"

text \<open>A read of a task's children that fails contributes none.\<close>

definition child_ids :: "(string \<Rightarrow> string option) \<Rightarrow> rows \<Rightarrow> string \<Rightarrow> string list" where
  "child_ids checks db parent = (case children_rows checks db parent of Inl _ \<Rightarrow> []
     | Inr rs \<Rightarrow> map tr_id (parseReadyOutput rs))"

definition collectEpicScope :: "(string \<Rightarrow> string option) \<Rightarrow> rows \<Rightarrow> string \<Rightarrow> string list option" where
  "collectEpicScope checks db epicId = scope_walk (child_ids checks db) [epicId] [epicId]"

subsection \<open>The driver's reads\<close>

text \<open>Each read opens the engine and asks it: any of them may fail, in any world. \<open>asked\<close> is a read with that in it.\<close>

datatype drain_read = ReadList string | ReadReady | OpenShows | ReadShow string

definition asked :: "(drain_read \<Rightarrow> 'e option) \<Rightarrow> drain_read \<Rightarrow> 'e + 'a \<Rightarrow> 'e + 'a" where
  "asked down r x = (case down r of Some e \<Rightarrow> Inl e | None \<Rightarrow> x)"

lemma asked_simps [simp]: "down r = None \<Longrightarrow> asked down r x = x" "down r = Some e \<Longrightarrow> asked down r x = Inl e"
  by (simp_all add: asked_def)

lemma asked_Inr [simp]: "asked down r x = Inr y \<longleftrightarrow> down r = None \<and> x = Inr y"
  by (simp add: asked_def split: option.split)

definition open_statuses :: string where
  "open_statuses = ''open,in_progress,blocked,deferred''"

definition in_scope :: "string list option \<Rightarrow> string \<Rightarrow> bool" where
  "in_scope scope i \<longleftrightarrow> given (\<lambda>s. i \<in> set s) scope"

definition idsInScope :: "string list option \<Rightarrow> tracker_row list \<Rightarrow> string list" where
  "idsInScope scope rs = filter (in_scope scope) (map tr_id rs)"

definition open_filter :: "string \<Rightarrow> list_filter" where
  "open_filter statuses = \<lparr>lf_status = Some statuses, lf_label = None, lf_type = None\<rparr>"

definition openBeadIds :: "tracker_row list \<Rightarrow> string list option \<Rightarrow> string list" where
  "openBeadIds rs scope = filter (in_scope scope) (map tr_id (filter (\<lambda>r. tr_type r \<noteq> EPIC_TYPE) (parseReadyOutput rs)))"

definition open_in_scope :: "(drain_read \<Rightarrow> tg_error option) \<Rightarrow> (string \<Rightarrow> string option) \<Rightarrow> string list option \<Rightarrow> rows \<Rightarrow> tg_error + string list" where
  "open_in_scope down checks scope db = bindE (asked down (ReadList open_statuses) (list_rows checks db (open_filter open_statuses)))
     (\<lambda>rs. Inr (idsInScope scope (filter (\<lambda>r. tr_type r \<noteq> EPIC_TYPE) (parseReadyOutput rs))))"

text \<open>The parents of tasks not yet closed; a failed list excludes none.\<close>

definition open_parents :: "(drain_read \<Rightarrow> tg_error option) \<Rightarrow> (string \<Rightarrow> string option) \<Rightarrow> rows \<Rightarrow> string list" where
  "open_parents down checks db = (let unclosed = ''proposed,'' @ open_statuses in
     case asked down (ReadList unclosed) (list_rows checks db (open_filter unclosed)) of
       Inl _ \<Rightarrow> [] | Inr rs \<Rightarrow> List.map_filter tr_parent rs)"

definition drain_ready :: "(drain_read \<Rightarrow> tg_error option) \<Rightarrow> (string \<Rightarrow> string option) \<Rightarrow> string list option \<Rightarrow> rows \<Rightarrow> tg_error + string list" where
  "drain_ready down checks scope db = bindE (asked down ReadReady (ready_rows checks db)) (\<lambda>rs.
     Inr (filter (\<lambda>i. i \<notin> set (open_parents down checks db)) (idsInScope scope (rankCandidates (parseReadyOutput rs)))))"

definition drain_classify :: "(drain_read \<Rightarrow> tg_error option) \<Rightarrow> (string \<Rightarrow> string option) \<Rightarrow> string list option \<Rightarrow> bool \<Rightarrow> rows \<Rightarrow> string list \<Rightarrow>
  tg_error + stalled_bead list" where
  "drain_classify down checks scope paused db openIds = bindE (drain_ready down checks scope db) (\<lambda>readyIds.
     asked down OpenShows (Inr (classifyOpenBeads (\<lambda>i. asked down (ReadShow i) (show_row checks db i)) openIds paused readyIds)))"

record drain_counts =
  dn_filed :: nat
  dn_merged :: nat
  dn_outOfScope :: "string list"

text \<open>Times are compared as the milliseconds the text of a timestamp parses to.\<close>

definition drain_counts_of :: "(drain_read \<Rightarrow> tg_error option) \<Rightarrow> (string \<Rightarrow> string option) \<Rightarrow> string list option \<Rightarrow> rows \<Rightarrow> int \<Rightarrow> tg_error + drain_counts" where
  "drain_counts_of down checks scope db sinceMs = bindE (asked down (ReadList (open_statuses @ '',closed''))
       (list_rows checks db (open_filter (open_statuses @ '',closed''))))
     (\<lambda>rs. let created = filter (\<lambda>r. sinceMs \<le> tr_createdAt r) (filter (\<lambda>r. tr_id r \<noteq> '''') rs) in
       Inr \<lparr>dn_filed = length (filter (\<lambda>r. in_scope scope (tr_id r)) created),
         dn_merged = length (filter (\<lambda>r. tr_id r \<noteq> '''' \<and> given (\<lambda>at. sinceMs \<le> at) (tr_closedAt r) \<and> tr_closedAt r \<noteq> None \<and>
           in_scope scope (tr_id r) \<and> tr_type r \<noteq> EPIC_TYPE) rs),
         dn_outOfScope = map tr_id (filter (\<lambda>r. \<not> in_scope scope (tr_id r)) created)\<rparr>)"

subsection \<open>The driving loop\<close>

datatype drain_signal = SIGINT | SIGTERM

record ('w, 'e) drain_driver =
  dd_startup :: "'w \<Rightarrow> 'e + 'w"
  dd_runCycle :: "'w \<Rightarrow> 'e + cycle_outcome \<times> 'w"
  dd_delay :: "'w \<Rightarrow> 'w"
  dd_isInFlight :: "'w \<Rightarrow> bool"
  dd_isHealing :: "'w \<Rightarrow> bool"
  dd_signalled :: "'w \<Rightarrow> drain_signal option"
  dd_openInScope :: "'w \<Rightarrow> 'e + string list"
  dd_classify :: "'w \<Rightarrow> string list \<Rightarrow> 'e + stalled_bead list"
  dd_counts :: "'w \<Rightarrow> 'e + drain_counts"
  dd_sweepEpics :: "'w \<Rightarrow> 'w"

definition settling :: "('w, 'e) drain_driver \<Rightarrow> 'w \<Rightarrow> bool" where
  "settling dr w \<longleftrightarrow> dd_isInFlight dr w \<or> dd_isHealing dr w"

definition atCap :: "nat option \<Rightarrow> nat \<Rightarrow> bool" where
  "atCap maxCycles cycles \<longleftrightarrow> (case maxCycles of None \<Rightarrow> False | Some m \<Rightarrow> m \<le> cycles)"

text \<open>How a turn of the loop ends: at once to the next one, after the interval, or out of the loop.\<close>

datatype drain_turn = Continue | DelayThen | CapStop | Break

text \<open>What an outcome asks for when neither a signal nor the cap ends the loop; a quiet \<open>NoWork\<close> asks for nothing.\<close>

definition after_cycle :: "('w, 'e) drain_driver \<Rightarrow> cycle_outcome \<Rightarrow> 'w \<Rightarrow> drain_turn option" where
  "after_cycle dr outcome w = (if outcome = Ran then Some Continue else if settling dr w then Some DelayThen
     else if outcome = Declined then Some DelayThen else None)"

text \<open>One cycle, counted, and what follows it.\<close>

definition run_one :: "('w, 'e) drain_driver \<Rightarrow> nat option \<Rightarrow> nat \<times> 'w \<Rightarrow> 'e + drain_turn option \<times> nat \<times> 'w" where
  "run_one dr maxCycles s = bindE (dd_runCycle dr (snd s)) (\<lambda>(outcome, w). Inr
     (if dd_signalled dr w \<noteq> None then Some Break else if atCap maxCycles (Suc (fst s)) then Some CapStop
        else after_cycle dr outcome w, Suc (fst s), w))"

text \<open>A turn: a cycle, and after a quiet \<open>NoWork\<close> one probe.\<close>

definition drain_turn_of :: "('w, 'e) drain_driver \<Rightarrow> nat option \<Rightarrow> nat \<times> 'w \<Rightarrow> 'e + drain_turn \<times> nat \<times> 'w" where
  "drain_turn_of dr maxCycles s = bindE (run_one dr maxCycles s) (\<lambda>(v, s1). case v of Some t \<Rightarrow> Inr (t, s1)
     | None \<Rightarrow> bindE (run_one dr maxCycles s1) (\<lambda>(v2, s2). Inr (orElse v2 Break, s2)))"

text \<open>The result holds whether the cap ended the loop, and how many cycles ran.\<close>

partial_function (option) drain_loop :: "('w, 'e) drain_driver \<Rightarrow> nat option \<Rightarrow> nat \<times> 'w \<Rightarrow> ('e + bool \<times> nat \<times> 'w) option" where
  "drain_loop dr maxCycles s = (if dd_signalled dr (snd s) \<noteq> None then Some (Inr (False, s))
     else (case drain_turn_of dr maxCycles s of
         Inl e \<Rightarrow> Some (Inl e)
       | Inr (t, s1) \<Rightarrow> (case t of
           Continue \<Rightarrow> drain_loop dr maxCycles s1
         | DelayThen \<Rightarrow> drain_loop dr maxCycles (fst s1, dd_delay dr (snd s1))
         | CapStop \<Rightarrow> Some (Inr (True, s1))
         | Break \<Rightarrow> Some (Inr (False, s1)))))"

partial_function (option) settle_loop :: "('w, 'e) drain_driver \<Rightarrow> 'w \<Rightarrow> 'w option" where
  "settle_loop dr w = (if dd_signalled dr w = None \<and> settling dr w then settle_loop dr (dd_delay dr w) else Some w)"

subsection \<open>The exit sequence\<close>

datatype drain_reason = Complete | Stalled | BudgetStop | CappedStop | SignalStop

record drain_core =
  dc_exitCode :: nat
  dc_reason :: drain_reason
  dc_signal :: "drain_signal option"
  dc_openInScope :: "string list"
  dc_stalled :: "stalled_bead list"

definition not_reached :: "stalled_bead \<Rightarrow> stalled_bead" where
  "not_reached s = (if sb_category s = ReadyButUnworked
     then s\<lparr>sb_category := NotReached, sb_reason := ''ready - not reached before the --max-cycles cap''\<rparr> else s)"

definition drain_reason_of :: "stalled_bead list \<Rightarrow> drain_reason" where
  "drain_reason_of stalled = (if list_ex (\<lambda>s. sb_category s = Budget) stalled then BudgetStop
     else if list_ex (\<lambda>s. sb_category s = NotReached) stalled then CappedStop else Stalled)"

definition exit_sequence :: "('w, 'e) drain_driver \<Rightarrow> bool \<Rightarrow> 'w \<Rightarrow> 'e + drain_core" where
  "exit_sequence dr capped w = (case dd_signalled dr w of
       Some sig \<Rightarrow> Inr \<lparr>dc_exitCode = (if sig = SIGINT then 130 else 143), dc_reason = SignalStop, dc_signal = Some sig,
         dc_openInScope = [], dc_stalled = []\<rparr>
     | None \<Rightarrow> bindE (dd_openInScope dr w) (\<lambda>openIds.
         if openIds = [] then Inr \<lparr>dc_exitCode = 0, dc_reason = Complete, dc_signal = None, dc_openInScope = [], dc_stalled = []\<rparr>
         else bindE (dd_classify dr w openIds) (\<lambda>classified.
           let stalled = (if capped then map not_reached classified else classified);
               reason = drain_reason_of stalled in
           Inr \<lparr>dc_exitCode = (if reason = BudgetStop then 11 else if reason = CappedStop then 12 else 10),
             dc_reason = reason, dc_signal = None, dc_openInScope = openIds, dc_stalled = stalled\<rparr>)))"

text \<open>The world the drain ends in is part of its result. A drain that never ends is \<open>None\<close>.\<close>

definition driveDrain :: "('w, 'e) drain_driver \<Rightarrow> nat option \<Rightarrow> 'w \<Rightarrow> ('e + drain_core \<times> nat \<times> 'w) option" where
  "driveDrain dr maxCycles w0 = (case dd_startup dr w0 of
       Inl e \<Rightarrow> Some (Inl e)
     | Inr w1 \<Rightarrow> (case drain_loop dr maxCycles (0, w1) of
         None \<Rightarrow> None
       | Some (Inl e) \<Rightarrow> Some (Inl e)
       | Some (Inr (capped, n, w2)) \<Rightarrow> (case settle_loop dr w2 of
           None \<Rightarrow> None
         | Some w3 \<Rightarrow> Some (bindE (exit_sequence dr capped w3) (\<lambda>core. Inr (core, n, w3))))))"

subsection \<open>The command\<close>

record drain_result =
  dz_core :: drain_core
  dz_kshetra :: string
  dz_scope :: "string option"
  dz_maxCycles :: "int option"
  dz_counts :: "nat \<times> nat \<times> nat"
  dz_outOfScopeFiled :: "string list"

datatype 'e drain_error = DrainError string | DrainRejected 'e

definition lift_drain :: "'e + 'a \<Rightarrow> 'e drain_error + 'a" where
  "lift_drain r = (case r of Inl e \<Rightarrow> Inl (DrainRejected e) | Inr x \<Rightarrow> Inr x)"

text \<open>
  \<open>runOwnedDrain\<close>: unless a signal ended it, the settled containers are completed and the counts taken before the result is
  recorded in the event log; \<open>sink\<close> is that record.
\<close>

definition runOwnedDrain :: "('w, 'e) drain_driver \<Rightarrow> string \<Rightarrow> string option \<Rightarrow> int option \<Rightarrow> 'w \<Rightarrow>
  ('e drain_error + drain_result \<times> drain_result list) option" where
  "runOwnedDrain dr k epic maxCycles w0 = map_option (\<lambda>r. bindE (lift_drain r) (\<lambda>(core, n, w).
     let signal = (dc_reason core = SignalStop);
         res = (\<lambda>c. \<lparr>dz_core = core, dz_kshetra = k, dz_scope = epic, dz_maxCycles = maxCycles,
           dz_counts = (dn_filed c, dn_merged c, length (dc_openInScope core)), dz_outOfScopeFiled = dn_outOfScope c\<rparr>) in
     if signal then Inr (res \<lparr>dn_filed = 0, dn_merged = 0, dn_outOfScope = []\<rparr>, [])
     else bindE (lift_drain (dd_counts dr (dd_sweepEpics dr w))) (\<lambda>c. Inr (res c, [res c]))))
     (driveDrain dr (map_option nat maxCycles) w0)"

text \<open>\<open>runDrain\<close>: what is checked before this process takes the Kshetra; \<open>claim\<close> refuses one that another process works.\<close>

definition runDrain :: "bool \<Rightarrow> string option \<Rightarrow> (unit \<Rightarrow> 'e + unit) \<Rightarrow> ('w, 'e) drain_driver \<Rightarrow> string \<Rightarrow> string option \<Rightarrow>
  int option \<Rightarrow> 'w \<Rightarrow> ('e drain_error + drain_result \<times> drain_result list) option" where
  "runDrain registered precondition claim dr k epic maxCycles w0 =
     (if \<not> registered then Some (Inl (DrainError (''Kshetra not found: '' @ k)))
      else case precondition of Some e \<Rightarrow> Some (Inl (DrainError (k @ '': '' @ e)))
      | None \<Rightarrow> if \<not> given (\<lambda>m. 1 \<le> m) maxCycles then Some (Inl (DrainError ''Invalid max cycles: expected a positive integer.''))
        else case lift_drain (claim ()) of Inl e \<Rightarrow> Some (Inl e)
        | Inr u \<Rightarrow> runOwnedDrain dr k epic maxCycles w0)"

text \<open>The real driver: the worker's runtime with the reads on the engine's rows, which \<open>down\<close> may make fail.\<close>

definition engine_driver :: "('w \<Rightarrow> drain_read \<Rightarrow> tg_error option) \<Rightarrow> (string \<Rightarrow> string option) \<Rightarrow> string list option \<Rightarrow> ('w \<Rightarrow> rows) \<Rightarrow> ('w \<Rightarrow> bool) \<Rightarrow> int \<Rightarrow>
  ('w, tg_error) drain_driver \<Rightarrow> ('w, tg_error) drain_driver" where
  "engine_driver down checks scope rows_of paused sinceMs runtime = runtime\<lparr>
     dd_openInScope := (\<lambda>w. open_in_scope (down w) checks scope (rows_of w)),
     dd_classify := (\<lambda>w openIds. drain_classify (down w) checks scope (paused w) (rows_of w) openIds),
     dd_counts := (\<lambda>w. drain_counts_of (down w) checks scope (rows_of w) sinceMs)\<rparr>"

end
