(* ===== verification/DrainProperties.thy ===== *)
theory DrainProperties
  imports Drain Scenarios
begin

text \<open>
  What a drain guarantees: it ends, within its cap; the scope it works in is the epic's subtree as the engine sees it; and
  its exit code says what its tasks' states are.
\<close>

subsection \<open>The scope\<close>

lemma set_add_new: "set (add_new seen xs) = set xs - set seen" "distinct (add_new seen xs)"
  by (induction seen xs rule: add_new.induct) auto

text \<open>What the walk keeps: the scope holds the queue and is closed under children outside it.\<close>

lemma scope_walk_ends:
  assumes kids: "\<And>i. set (kids i) \<subseteq> U" and U: "finite U"
    and q: "set queue \<subseteq> set scope"
    and closed: "\<And>i. i \<in> set scope \<Longrightarrow> i \<notin> set queue \<Longrightarrow> set (kids i) \<subseteq> set scope"
    and sound: "set scope \<subseteq> R" "\<And>i. i \<in> R \<Longrightarrow> set (kids i) \<subseteq> R"
  shows "\<exists>s. scope_walk kids scope queue = Some s \<and> set scope \<subseteq> set s \<and> set s \<subseteq> R \<and> (\<forall>i \<in> set s. set (kids i) \<subseteq> set s)"
  using q closed sound(1)
proof (induction "length queue + card (U - set scope)" arbitrary: scope queue rule: less_induct)
  case less
  show ?case
  proof (cases queue)
    case Nil
    then show ?thesis using less.prems by (simp add: scope_walk.simps)
  next
    case (Cons p rest)
    let ?new = "add_new scope (kids p)"
    have new: "set ?new = set (kids p) - set scope" "distinct ?new" by (simp_all add: set_add_new)
    have sub: "set ?new \<subseteq> U - set scope" using kids[of p] new(1) by blast
    have "U - set (scope @ ?new) = (U - set scope) - set ?new" by auto
    then have card: "card (U - set (scope @ ?new)) + length ?new = card (U - set scope)"
      using card_Diff_subset[OF finite_subset[OF sub] sub] card_mono[OF _ sub] U distinct_card[OF new(2)] by auto
    have "length (rest @ ?new) + card (U - set (scope @ ?new)) < length queue + card (U - set scope)"
      using card Cons by simp
    moreover have "set (rest @ ?new) \<subseteq> set (scope @ ?new)" using less.prems(1) Cons by auto
    moreover have "set (kids i) \<subseteq> set (scope @ ?new)" if "i \<in> set (scope @ ?new)" "i \<notin> set (rest @ ?new)" for i
      using that less.prems(2)[of i] new(1) Cons by (cases "i = p") auto
    moreover have "set (scope @ ?new) \<subseteq> R" using less.prems(1,3) sound(2)[of p] new(1) Cons by auto
    ultimately have "\<exists>s. scope_walk kids (scope @ ?new) (rest @ ?new) = Some s \<and> set (scope @ ?new) \<subseteq> set s \<and> set s \<subseteq> R \<and>
        (\<forall>i \<in> set s. set (kids i) \<subseteq> set s)"
      using less.hyps[of "rest @ ?new" "scope @ ?new"] by blast
    moreover have "scope_walk kids scope queue = scope_walk kids (scope @ ?new) (rest @ ?new)"
      using Cons by (simp add: scope_walk.simps[of kids scope "p # rest"] Let_def)
    ultimately show ?thesis by auto
  qed
qed

lemma tracker_row_simps [simp]:
  "tr_id (tracker_row checks db t) = t_id t" "tr_priority (tracker_row checks db t) = t_priority t"
  "tr_state (tracker_row checks db t) = t_state t" "tr_status (tracker_row checks db t) = bd_status (t_state t)"
  "tr_createdAt (tracker_row checks db t) = t_createdAt t" "tr_closedAt (tracker_row checks db t) = t_closedAt t"
  "tr_notes (tracker_row checks db t) = notesOf db (t_id t)" "tr_dependencies (tracker_row checks db t) = map (dep_row (t_id t)) (depsOf db (t_id t))"
  by (simp_all add: tracker_row_def)

text \<open>A sound project's tasks all pass what pickup asks of a row.\<close>

lemma parsed_rows:
  assumes "wf lc db" and "set ts \<subseteq> set (d_tasks db)"
  shows "parseReadyOutput (map (tracker_row checks db) ts) = map (tracker_row checks db) ts"
proof -
  have "\<forall>t \<in> set ts. 0 \<le> t_priority t \<and> t_priority t \<le> 4"
    using wfD(7)[OF assms(1)] assms(2) by (auto simp: rows_ok_def row_ok_def)
  then show ?thesis by (simp add: parseReadyOutput_def)
qed

lemma set_child_ids:
  assumes w: "wf lc db"
  shows "set (child_ids checks db p) = (if p = '''' then {} else {k. (k, p) \<in> parents (d_tasks db)})"
proof (cases "p = ''''")
  case True
  then show ?thesis by (simp add: child_ids_def children_rows_def tasks_list_def parseTaskFilter_def parsed_def issue_def given_def
      nonEmpty_def noFilter_def)
next
  case False
  let ?ts = "listWhere db (filterWhere db (noFilter\<lparr>fl_parent := Some p, fl_orderBy := Some ByCreated\<rparr>))
     (noFilter\<lparr>fl_parent := Some p, fl_orderBy := Some ByCreated\<rparr>)"
  have ts: "set ?ts = {t \<in> set (d_tasks db). t_parentId t = Some p}"
    by (auto simp: listWhere_def filterWhere_def noFilter_def given_def limited_def orElse_def)
  then have "children_rows checks db p = Inr (map (tracker_row checks db) ?ts)" and "set ?ts \<subseteq> set (d_tasks db)"
    using False by (auto simp: children_rows_def tasks_list_def parseTaskFilter_def parsed_def issue_def given_def
      nonEmpty_def noFilter_def)
  then have "set (child_ids checks db p) = t_id ` set ?ts" using parsed_rows[OF w] by (simp add: child_ids_def image_image)
  then show ?thesis using False unfolding ts by (auto simp: parents_def)
qed

text \<open>
  C25: The scope of an epic is what the engine's own filter calls the epic and everything below it: the walk over children's
  lists ends, and its tasks are those, so what a drain waits for is what its worker takes work from.
\<close>

theorem epic_scope_exact:
  assumes w: "wf lc db" and named: "'''' \<notin> ids (d_tasks db)"
  shows "\<exists>s. collectEpicScope checks db e = Some s \<and> set s = insert e (set (below db e))"
proof -
  let ?P = "parents (d_tasks db)"
  have kids: "set (child_ids checks db p) = {k. (k, p) \<in> ?P}" for p
    using set_child_ids[OF w, of checks p] named wfD(1)[OF w] by (auto simp: forest_ok_def)
  have below: "set (below db e) = {k. (k, e) \<in> ?P\<^sup>+}"
  proof -
    have "t_id ` set (childrenOf db e) = {k. (k, e) \<in> ?P}" by (force simp: childrenOf_def parents_def)
    then show ?thesis
      by (auto simp: below_def set_reach set_flipped set_parent_edges rtrancl_converse trancl_unfold_right)
  qed
  have "\<exists>s. scope_walk (child_ids checks db) [e] [e] = Some s \<and> set [e] \<subseteq> set s \<and> set s \<subseteq> {k. (k, e) \<in> ?P\<^sup>*} \<and>
      (\<forall>i \<in> set s. set (child_ids checks db i) \<subseteq> set s)"
    by (rule scope_walk_ends[where U = "ids (d_tasks db)"]) (auto simp: kids ids_def parents_def intro: converse_rtrancl_into_rtrancl)
  then obtain s where s: "scope_walk (child_ids checks db) [e] [e] = Some s" "e \<in> set s" "set s \<subseteq> {k. (k, e) \<in> ?P\<^sup>*}"
    "\<forall>i \<in> set s. set (child_ids checks db i) \<subseteq> set s" by auto
  have "k \<in> set s" if "(k, e) \<in> ?P\<^sup>*" for k
    using that by (induction rule: converse_rtrancl_induct) (use s(2,4) kids in auto)
  then have "set s = {k. (k, e) \<in> ?P\<^sup>*}" using s(3) by blast
  then show ?thesis using s(1) below by (auto simp: collectEpicScope_def rtrancl_eq_or_trancl)
qed

lemma at_named: "'''' \<notin> ids (d_tasks (at_step 7))"
  by code_simp

theorem epic_scope_exact_witness:
  "\<exists>s. collectEpicScope (\<lambda>_. None) (at_step 7) ''k-111'' = Some s \<and> set s = insert ''k-111'' (set (below (at_step 7) ''k-111''))"
  by (rule epic_scope_exact[OF at_wf at_named])

subsection \<open>The loop\<close>

lemma run_one_Inr:
  assumes "run_one dr m s = Inr (v, s1)"
  shows "fst s1 = Suc (fst s)"
    and "v = None \<Longrightarrow> dd_signalled dr (snd s1) = None \<and> dd_runCycle dr (snd s) = Inr (NoWork, snd s1) \<and> \<not> settling dr (snd s1)"
    and "v = Some Break \<Longrightarrow> dd_signalled dr (snd s1) \<noteq> None"
    and "v = Some CapStop \<longleftrightarrow> dd_signalled dr (snd s1) = None \<and> atCap m (fst s1)"
    and "v \<in> {None, Some Continue, Some DelayThen} \<Longrightarrow> \<not> atCap m (fst s1)"
proof -
  obtain outcome w where c: "dd_runCycle dr (snd s) = Inr (outcome, w)" and s1: "s1 = (Suc (fst s), w)"
    and v: "v = (if dd_signalled dr w \<noteq> None then Some Break else if atCap m (Suc (fst s)) then Some CapStop
        else after_cycle dr outcome w)"
    using assms by (auto simp: run_one_def)
  show "fst s1 = Suc (fst s)" using s1 by simp
  show "v = None \<Longrightarrow> dd_signalled dr (snd s1) = None \<and> dd_runCycle dr (snd s) = Inr (NoWork, snd s1) \<and> \<not> settling dr (snd s1)"
    using c s1 v by (cases outcome) (auto simp: after_cycle_def split: if_splits)
  show "v = Some Break \<Longrightarrow> dd_signalled dr (snd s1) \<noteq> None" "v = Some CapStop \<longleftrightarrow> dd_signalled dr (snd s1) = None \<and> atCap m (fst s1)"
    "v \<in> {None, Some Continue, Some DelayThen} \<Longrightarrow> \<not> atCap m (fst s1)"
    using s1 v by (auto simp: after_cycle_def split: if_splits)
qed

lemma turn_Inr:
  assumes "drain_turn_of dr m s = Inr (t, s2)"
  shows "fst s < fst s2" and "fst s2 \<le> fst s + 2"
    and "t \<in> {Continue, DelayThen} \<Longrightarrow> \<not> atCap m (fst s2)"
    and "t = CapStop \<Longrightarrow> atCap m (fst s2)"
    and "\<not> atCap m (fst s) \<Longrightarrow> m = Some k \<Longrightarrow> fst s2 \<le> k"
    and "t = Break \<Longrightarrow> dd_signalled dr (snd s2) = None \<Longrightarrow> \<exists>w0 w1. dd_runCycle dr w0 = Inr (NoWork, w1) \<and> \<not> settling dr w1 \<and>
       dd_runCycle dr w1 = Inr (NoWork, snd s2) \<and> \<not> settling dr (snd s2)"
proof -
  obtain v s1 where r: "run_one dr m s = Inr (v, s1)" using assms by (auto simp: drain_turn_of_def)
  note r1 = run_one_Inr[OF r]
  consider (one) "v = Some t" "s2 = s1" | (two) v2 where "v = None" "run_one dr m s1 = Inr (v2, s2)" "t = orElse v2 Break"
    using assms r by (cases v) (auto simp: drain_turn_of_def)
  then have "fst s < fst s2 \<and> fst s2 \<le> fst s + 2 \<and> (t \<in> {Continue, DelayThen} \<longrightarrow> \<not> atCap m (fst s2)) \<and>
    (t = CapStop \<longrightarrow> atCap m (fst s2)) \<and> (\<not> atCap m (fst s) \<longrightarrow> m = Some k \<longrightarrow> fst s2 \<le> k) \<and>
    (t = Break \<longrightarrow> dd_signalled dr (snd s2) = None \<longrightarrow> (\<exists>w0 w1. dd_runCycle dr w0 = Inr (NoWork, w1) \<and> \<not> settling dr w1 \<and>
       dd_runCycle dr w1 = Inr (NoWork, snd s2) \<and> \<not> settling dr (snd s2)))"
  proof cases
    case one
    then show ?thesis using r1 by (auto simp: atCap_def)
  next
    case two
    note r2 = run_one_Inr[OF two(2)]
    have "\<not> atCap m (fst s1)" using r1(5) two(1) by simp
    then show ?thesis using r1(1,2) r2 two by (cases v2) (auto simp: atCap_def orElse_def)
  qed
  then show "fst s < fst s2" "fst s2 \<le> fst s + 2" "t \<in> {Continue, DelayThen} \<Longrightarrow> \<not> atCap m (fst s2)"
    "t = CapStop \<Longrightarrow> atCap m (fst s2)" "\<not> atCap m (fst s) \<Longrightarrow> m = Some k \<Longrightarrow> fst s2 \<le> k"
    "t = Break \<Longrightarrow> dd_signalled dr (snd s2) = None \<Longrightarrow> \<exists>w0 w1. dd_runCycle dr w0 = Inr (NoWork, w1) \<and> \<not> settling dr w1 \<and>
       dd_runCycle dr w1 = Inr (NoWork, snd s2) \<and> \<not> settling dr (snd s2)"
    by blast+
qed

text \<open>One unfolding of the loop.\<close>

lemma drain_loop_step:
  "dd_signalled dr (snd s) \<noteq> None \<Longrightarrow> drain_loop dr m s = Some (Inr (False, s))"
  "dd_signalled dr (snd s) = None \<Longrightarrow> drain_turn_of dr m s = Inl e \<Longrightarrow> drain_loop dr m s = Some (Inl e)"
  "dd_signalled dr (snd s) = None \<Longrightarrow> drain_turn_of dr m s = Inr (Continue, s1) \<Longrightarrow> drain_loop dr m s = drain_loop dr m s1"
  "dd_signalled dr (snd s) = None \<Longrightarrow> drain_turn_of dr m s = Inr (DelayThen, s1) \<Longrightarrow>
     drain_loop dr m s = drain_loop dr m (fst s1, dd_delay dr (snd s1))"
  "dd_signalled dr (snd s) = None \<Longrightarrow> drain_turn_of dr m s = Inr (CapStop, s1) \<Longrightarrow> drain_loop dr m s = Some (Inr (True, s1))"
  "dd_signalled dr (snd s) = None \<Longrightarrow> drain_turn_of dr m s = Inr (Break, s1) \<Longrightarrow> drain_loop dr m s = Some (Inr (False, s1))"
  by (simp_all add: drain_loop.simps[of dr m s])

text \<open>
  A loop that a rank bounds: each cycle that asks for another turn lowers it, and nothing raises it.
\<close>

definition works_off :: "('w, 'e) drain_driver \<Rightarrow> ('w \<Rightarrow> nat) \<Rightarrow> bool" where
  "works_off dr f \<longleftrightarrow> (\<forall>w outcome w'. dd_runCycle dr w = Inr (outcome, w') \<longrightarrow>
     f w' \<le> f w \<and> (after_cycle dr outcome w' \<noteq> None \<longrightarrow> f w' < f w)) \<and> (\<forall>w. f (dd_delay dr w) \<le> f w)"

lemma turn_works_off:
  assumes f: "works_off dr f" and t: "drain_turn_of dr m s = Inr (t, s2)"
  shows "f (snd s2) \<le> f (snd s)" and "t \<in> {Continue, DelayThen} \<Longrightarrow> f (snd s2) < f (snd s)"
proof -
  have one: "f (snd b) \<le> f (snd a) \<and> (v \<in> {Some Continue, Some DelayThen} \<longrightarrow> f (snd b) < f (snd a))"
    if r: "run_one dr m a = Inr (v, b)" for a b v
  proof -
    obtain outcome w where c: "dd_runCycle dr (snd a) = Inr (outcome, w)" and b: "b = (Suc (fst a), w)"
      and v: "v = (if dd_signalled dr w \<noteq> None then Some Break else if atCap m (Suc (fst a)) then Some CapStop
          else after_cycle dr outcome w)"
      using r by (auto simp: run_one_def)
    have "v \<in> {Some Continue, Some DelayThen} \<Longrightarrow> after_cycle dr outcome w \<noteq> None" using v by (auto split: if_splits)
    then show ?thesis using f c b unfolding works_off_def by fastforce
  qed
  obtain v s1 where r: "run_one dr m s = Inr (v, s1)" using t by (auto simp: drain_turn_of_def)
  consider "v = Some t" "s2 = s1" | v2 where "v = None" "run_one dr m s1 = Inr (v2, s2)" "t = orElse v2 Break"
    using t r by (cases v) (auto simp: drain_turn_of_def)
  then have "f (snd s2) \<le> f (snd s) \<and> (t \<in> {Continue, DelayThen} \<longrightarrow> f (snd s2) < f (snd s))"
  proof cases
    case 1
    then show ?thesis using one[OF r] by auto
  next
    case 2
    then show ?thesis using one[OF r] one[OF 2(2)] by (cases v2) (auto simp: orElse_def)
  qed
  then show "f (snd s2) \<le> f (snd s)" "t \<in> {Continue, DelayThen} \<Longrightarrow> f (snd s2) < f (snd s)" by blast+
qed

lemma capped_loop_ends:
  assumes "fst s < k"
  shows "\<exists>r. drain_loop dr (Some k) s = Some r \<and> (\<forall>capped n w. r = Inr (capped, n, w) \<longrightarrow> n \<le> k \<and> (capped \<longrightarrow> n = k))"
  using assms
proof (induction "k - fst s" arbitrary: s rule: less_induct)
  case less
  let ?E = "\<lambda>r. \<forall>capped n w. r = Inr (capped, n, w) \<longrightarrow> n \<le> k \<and> (capped \<longrightarrow> n = k)"
  have on: "\<exists>r. drain_loop dr (Some k) s' = Some r \<and> ?E r" if "fst s < fst s'" "\<not> atCap (Some k) (fst s')" for s'
    using that less.hyps[of s'] less.prems by (auto simp: atCap_def)
  show ?case
  proof (cases "dd_signalled dr (snd s) \<noteq> None")
    case True
    then show ?thesis using less.prems by (auto simp: drain_loop_step(1))
  next
    case False
    show ?thesis
    proof (cases "drain_turn_of dr (Some k) s")
      case (Inl e)
      then show ?thesis using False by (simp add: drain_loop_step(2))
    next
      case (Inr ts)
      then obtain t s1 where t: "drain_turn_of dr (Some k) s = Inr (t, s1)" by (cases ts) auto
      have le: "fst s1 \<le> k" using turn_Inr(5)[OF t, of k] less.prems by (simp add: atCap_def)
      show ?thesis
      proof (cases t)
        case Continue
        then show ?thesis using False t turn_Inr(1,3)[OF t] on[of s1] by (simp add: drain_loop_step(3))
      next
        case DelayThen
        then show ?thesis using False t turn_Inr(1,3)[OF t] on[of "(fst s1, dd_delay dr (snd s1))"]
          by (simp add: drain_loop_step(4))
      next
        case CapStop
        then show ?thesis using False t turn_Inr(4)[OF t] le by (cases s1) (auto simp: drain_loop_step(5) atCap_def)
      next
        case Break
        then show ?thesis using False t le by (cases s1) (auto simp: drain_loop_step(6))
      qed
    qed
  qed
qed

lemma working_loop_ends:
  assumes f: "works_off dr f"
  shows "\<exists>r. drain_loop dr m s = Some r \<and> (\<forall>capped n w. r = Inr (capped, n, w) \<longrightarrow> n \<le> fst s + 2 * f (snd s) + 2)"
proof (induction "f (snd s)" arbitrary: s rule: less_induct)
  case less
  let ?E = "\<lambda>s r. \<forall>capped n w. r = Inr (capped, n, w) \<longrightarrow> n \<le> fst s + 2 * f (snd s) + 2"
  show ?case
  proof (cases "dd_signalled dr (snd s) \<noteq> None")
    case True
    then show ?thesis by (cases s) (auto simp: drain_loop_step(1))
  next
    case False
    show ?thesis
    proof (cases "drain_turn_of dr m s")
      case (Inl e)
      then show ?thesis using False by (simp add: drain_loop_step(2))
    next
      case (Inr ts)
      then obtain t s1 where t: "drain_turn_of dr m s = Inr (t, s1)" by (cases ts) auto
      note c = turn_Inr(2)[OF t] and w = turn_works_off[OF f t]
      have on: "\<exists>r. drain_loop dr m s' = Some r \<and> ?E s r" if "fst s' = fst s1" "f (snd s') \<le> f (snd s1)" "t \<in> {Continue, DelayThen}" for s'
        using less.hyps[of s'] that w(2) c by fastforce
      show ?thesis
      proof (cases t)
        case Continue
        then show ?thesis using False t on[of s1] by (simp add: drain_loop_step(3))
      next
        case DelayThen
        then show ?thesis using False t on[of "(fst s1, dd_delay dr (snd s1))"] f by (simp add: drain_loop_step(4) works_off_def)
      next
        case CapStop
        then show ?thesis using False t c by (cases s1) (auto simp: drain_loop_step(5))
      next
        case Break
        then show ?thesis using False t c by (cases s1) (auto simp: drain_loop_step(6))
      qed
    qed
  qed
qed

lemma settle_loop_ends:
  "dd_signalled dr ((dd_delay dr ^^ n) w) \<noteq> None \<or> \<not> settling dr ((dd_delay dr ^^ n) w) \<Longrightarrow> \<exists>w'. settle_loop dr w = Some w'"
proof (induction n arbitrary: w)
  case (Suc n)
  then have "\<exists>w'. settle_loop dr (dd_delay dr w) = Some w'" by (simp add: funpow_swap1)
  then show ?case by (subst settle_loop.simps) simp
qed (subst settle_loop.simps, auto)

text \<open>
  C24: A drain ends. Under a cap it runs at most that many cycles, whatever its worker does; with none, a worker whose cycles
  that ask for another turn use up some bounded amount of work runs at most twice that many cycles and two. What it then
  waits for is only that work in flight settles or a signal comes, as every wait of the interval brings nearer.
\<close>

theorem drain_ends:
  assumes "(\<exists>k \<ge> 1. m = Some k \<and> bound = k) \<or> (works_off dr f \<and> dd_startup dr w0 = Inr w1 \<and> bound = 2 * f w1 + 2)"
    and "\<forall>w. \<exists>i. dd_signalled dr ((dd_delay dr ^^ i) w) \<noteq> None \<or> \<not> settling dr ((dd_delay dr ^^ i) w)"
  shows "\<exists>r. driveDrain dr m w0 = Some r \<and> (\<forall>core n w. r = Inr (core, n, w) \<longrightarrow> n \<le> bound)"
proof (cases "dd_startup dr w0")
  case (Inl e)
  then show ?thesis by (simp add: driveDrain_def)
next
  case (Inr w)
  have "\<exists>r. drain_loop dr m (0, w) = Some r \<and> (\<forall>capped n w. r = Inr (capped, n, w) \<longrightarrow> n \<le> bound)"
    using assms(1)
  proof
    assume "\<exists>k \<ge> 1. m = Some k \<and> bound = k"
    then show ?thesis using capped_loop_ends[of "(0, w)" bound dr] by auto
  next
    assume "works_off dr f \<and> dd_startup dr w0 = Inr w1 \<and> bound = 2 * f w1 + 2"
    then show ?thesis using working_loop_ends[of dr f m "(0, w)"] Inr by auto
  qed
  then obtain r where r: "drain_loop dr m (0, w) = Some r" "\<And>capped n w. r = Inr (capped, n, w) \<Longrightarrow> n \<le> bound" by blast
  show ?thesis
  proof (cases r)
    case Inl
    then show ?thesis using Inr r by (simp add: driveDrain_def)
  next
    case (Inr x)
    then obtain capped n w2 where x: "r = Inr (capped, n, w2)" by (cases x) auto
    obtain i where "dd_signalled dr ((dd_delay dr ^^ i) w2) \<noteq> None \<or> \<not> settling dr ((dd_delay dr ^^ i) w2)"
      using assms(2)[rule_format, of w2] by (elim exE)
    then obtain w3 where "settle_loop dr w2 = Some w3" by (rule settle_loop_ends[THEN exE])
    then have "driveDrain dr m w0 = Some (bindE (exit_sequence dr capped w3) (\<lambda>core. Inr (core, n, w3)))"
      using \<open>dd_startup dr w0 = Inr w\<close> r(1) x by (simp add: driveDrain_def)
    then show ?thesis using r(2)[OF x] by (cases "exit_sequence dr capped w3") simp_all
  qed
qed

text \<open>A worker with some tasks to run, and nothing else.\<close>

definition demo_runtime :: "(nat, tg_error) drain_driver" where
  "demo_runtime = \<lparr>dd_startup = Inr, dd_runCycle = (\<lambda>w. Inr (if w = 0 then (NoWork, 0) else (Ran, w - 1))), dd_delay = id,
     dd_isInFlight = (\<lambda>_. False), dd_isHealing = (\<lambda>_. False), dd_signalled = (\<lambda>_. None), dd_openInScope = (\<lambda>_. Inr []),
     dd_classify = (\<lambda>_ _. Inr []), dd_counts = (\<lambda>_. Inr \<lparr>dn_filed = 0, dn_merged = 0, dn_outOfScope = []\<rparr>), dd_sweepEpics = id\<rparr>"

lemma demo_works_off: "works_off demo_runtime id"
  by (auto simp: works_off_def demo_runtime_def after_cycle_def settling_def)

theorem drain_ends_witness:
  "\<exists>r. driveDrain demo_runtime None 3 = Some r \<and> (\<forall>core n w. r = Inr (core, n, w) \<longrightarrow> n \<le> 8)"
  by (rule drain_ends[of None 8 demo_runtime id 3 3]) (use demo_works_off in \<open>auto simp: demo_runtime_def settling_def\<close>)

subsection \<open>The exit code\<close>

lemma loop_stops:
  assumes "drain_loop dr m s = Some (Inr (capped, n, w))"
  shows "(capped \<longrightarrow> m \<noteq> None) \<and> (\<not> capped \<longrightarrow> dd_signalled dr w = None \<longrightarrow>
    (\<exists>w0 w1. dd_runCycle dr w0 = Inr (NoWork, w1) \<and> \<not> settling dr w1 \<and> dd_runCycle dr w1 = Inr (NoWork, w) \<and> \<not> settling dr w))"
    (is "?P capped w")
proof -
  have "\<forall>capped n w. r = Inr (capped, n, w) \<longrightarrow> (capped \<longrightarrow> m \<noteq> None) \<and> (\<not> capped \<longrightarrow> dd_signalled dr w = None \<longrightarrow>
      (\<exists>w0 w1. dd_runCycle dr w0 = Inr (NoWork, w1) \<and> \<not> settling dr w1 \<and> dd_runCycle dr w1 = Inr (NoWork, w) \<and> \<not> settling dr w))"
    if "drain_loop dr m s = Some r" for r
    using that
  proof (rule drain_loop.raw_induct[rotated], goal_cases)
    case (1 loop dr m s r)
    show ?case
    proof (cases "dd_signalled dr (snd s) \<noteq> None \<or> (\<exists>e. drain_turn_of dr m s = Inl e)")
      case True
      then show ?thesis using 1(2) by (cases s) (auto split: if_splits)
    next
      case False
      then obtain t s1 where t: "drain_turn_of dr m s = Inr (t, s1)" by (cases "drain_turn_of dr m s") auto
      show ?thesis
      proof (cases t)
        case Continue
        then have "loop dr m s1 = Some r" using 1(2) False t by simp
        then show ?thesis by (rule 1(1))
      next
        case DelayThen
        then have "loop dr m (fst s1, dd_delay dr (snd s1)) = Some r" using 1(2) False t by simp
        then show ?thesis by (rule 1(1))
      next
        case CapStop
        then have "r = Inr (True, s1)" using 1(2) False t by simp
        then show ?thesis using turn_Inr(4)[OF t CapStop] by (auto simp: atCap_def split: option.splits)
      next
        case Break
        then have "r = Inr (False, s1)" using 1(2) False t by simp
        then show ?thesis using turn_Inr(6)[OF t Break] by auto
      qed
    qed
  qed
  then show ?thesis using assms by blast
qed

lemma settled_already: "dd_signalled dr w \<noteq> None \<or> \<not> settling dr w \<Longrightarrow> settle_loop dr w = Some w"
  by (subst settle_loop.simps) auto

lemma driveDrain_Inr:
  assumes "driveDrain dr m w0 = Some (Inr (core, n, w))"
  shows "\<exists>capped. exit_sequence dr capped w = Inr core \<and> (capped \<longrightarrow> m \<noteq> None) \<and> (\<not> capped \<longrightarrow> dd_signalled dr w = None \<longrightarrow>
    (\<exists>w0 w1. dd_runCycle dr w0 = Inr (NoWork, w1) \<and> \<not> settling dr w1 \<and> dd_runCycle dr w1 = Inr (NoWork, w) \<and> \<not> settling dr w))"
proof -
  obtain w1 capped w2 where l: "drain_loop dr m (0, w1) = Some (Inr (capped, n, w2))" and s: "settle_loop dr w2 = Some w"
    and x: "exit_sequence dr capped w = Inr core"
    using assms by (auto simp: driveDrain_def split: sum.splits option.splits)
  note st = loop_stops[OF l]
  have "w = w2" if "\<not> capped"
    using st that s settled_already[of dr w2] by (cases "dd_signalled dr w2") auto
  then show ?thesis using x st by (intro exI[of _ capped]) (cases capped; simp)
qed

lemma in_lifecycle_states:
  "isState taskLifecycle s \<longleftrightarrow> s \<in> {''proposed'', ''open'', ''claimed'', ''waiting'', ''blocked'', ''parked'', ''done'', ''cancelled''}"
proof -
  have "isState taskLifecycle s \<longleftrightarrow> s \<in> set (map fst (l_states taskLifecycle))"
    by (auto simp: isState_def map_of_eq_None_iff split: option.splits)
  moreover have "map fst (l_states taskLifecycle) = [''proposed'', ''open'', ''claimed'', ''waiting'', ''blocked'', ''parked'', ''done'', ''cancelled'']"
    by code_simp
  ultimately show ?thesis by simp
qed

text \<open>A task pickup never takes: a container, or one whose free category is that of an epic.\<close>

definition reads_as_epic :: "task \<Rightarrow> bool" where
  "reads_as_epic t \<longleftrightarrow> t_kind t = Container \<or> t_category t = Some EPIC_TYPE"

lemma tr_type_epic: "tr_type (tracker_row checks db t) = EPIC_TYPE \<longleftrightarrow> reads_as_epic t"
  by (auto simp: tracker_row_def reads_as_epic_def EPIC_TYPE_def orElse_def split: option.split)

text \<open>A list by statuses is the tasks in those states, in the order they were created.\<close>

lemma list_rows_open:
  assumes "statesFor (Some st) = ss" and "list_all nonEmpty ss"
  shows "list_rows checks db (open_filter st) =
    Inr (map (tracker_row checks db) (sort_key created_key (filter (\<lambda>t. t_state t \<in> set ss) (d_tasks db))))"
  using assms by (simp add: list_rows_def open_filter_def tasks_list_def parseTaskFilter_def parsed_def issue_def given_def
      noFilter_def listWhere_def filterWhere_def[abs_def] limited_def orElse_def filled_def)

lemma open_states: "statesFor (Some ''open,in_progress,blocked,deferred'') = [''open'', ''claimed'', ''waiting'', ''blocked'', ''parked'']"
  by code_simp

lemma open_in_scope_exact:
  assumes w: "wf taskLifecycle db"
    and r: "open_in_scope down checks scope db = Inr ks"
  shows "down (ReadList open_statuses) = None" and "(\<forall>i. i \<in> set ks \<longleftrightarrow> (\<exists>t. find_task i db = Some t \<and> in_scope scope i \<and>
    \<not> reads_as_epic t \<and> t_state t \<notin> {''proposed'', ''done'', ''cancelled''}))"
proof -
  let ?ts = "sort_key created_key (filter (\<lambda>t. t_state t \<in> {''open'', ''claimed'', ''waiting'', ''blocked'', ''parked''}) (d_tasks db))"
  have rows: "list_rows checks db (open_filter open_statuses) = Inr (map (tracker_row checks db) ?ts)"
    using list_rows_open[OF open_states] by (simp add: nonEmpty_def open_statuses_def)
  show up: "down (ReadList open_statuses) = None" using r by (auto simp: open_in_scope_def)
  have p: "parseReadyOutput (map (tracker_row checks db) ?ts) = map (tracker_row checks db) ?ts"
    by (rule parsed_rows[OF w]) auto
  have o: "open_in_scope down checks scope db = Inr (filter (in_scope scope) (map t_id (filter (\<lambda>t. \<not> reads_as_epic t) ?ts)))"
  proof -
    have a: "asked down (ReadList open_statuses) x = x" for x :: "tg_error + tracker_row list" using up by simp
    show ?thesis unfolding open_in_scope_def a rows bindE.simps p idsInScope_def by (simp add: filter_map o_def tr_type_epic)
  qed
  have st: "t_state t \<in> {''open'', ''claimed'', ''waiting'', ''blocked'', ''parked''} \<longleftrightarrow> t_state t \<notin> {''proposed'', ''done'', ''cancelled''}"
    if "t \<in> set (d_tasks db)" for t
  proof -
    have "isState taskLifecycle (t_state t)" using wfD(3)[OF w] that by (simp add: states_ok_def)
    then show ?thesis unfolding in_lifecycle_states by auto
  qed
  have d: "distinct (map t_id (d_tasks db))" using wfD(1)[OF w] by (simp add: forest_ok_def)
  have f: "find_task (t_id t) db = Some t" if "t \<in> set (d_tasks db)" for t
    by (rule find_row_unique[OF d that])
  have "i \<in> set (filter (in_scope scope) (map t_id (filter (\<lambda>t. \<not> reads_as_epic t) ?ts))) \<longleftrightarrow> (\<exists>t. find_task i db = Some t \<and>
      in_scope scope i \<and> \<not> reads_as_epic t \<and> t_state t \<notin> {''proposed'', ''done'', ''cancelled''})" for i
  proof -
    have "find_task i db = Some t \<longleftrightarrow> t \<in> set (d_tasks db) \<and> t_id t = i" for t
      using f by (auto dest: find_row_Some)
    then show ?thesis using st by (auto simp del: insert_iff)
  qed
  then show "\<forall>i. i \<in> set ks \<longleftrightarrow> (\<exists>t. find_task i db = Some t \<and> in_scope scope i \<and>
    \<not> reads_as_epic t \<and> t_state t \<notin> {''proposed'', ''done'', ''cancelled''})" using o r by simp
qed

lemma show_row_exact:
  assumes "find_task i db = Some t" and "distinct (map t_id (d_tasks db))" and "i \<noteq> ''''"
  shows "show_row checks db i = Inr [tracker_row checks db t]"
proof -
  have t: "t \<in> set (d_tasks db)" "t_id t = i" using find_row_Some[OF assms(1)] by simp_all
  let ?ts = "sort_key CLAIM_ORDER (filter (\<lambda>u. t_id u = i) (d_tasks db))"
  have l: "tasks_list db (noFilter\<lparr>fl_ids := Some [i]\<rparr>) = Inr ?ts"
    using assms(3) by (simp add: tasks_list_def parseTaskFilter_def parsed_def issue_def given_def noFilter_def listWhere_def
      filterWhere_def[abs_def] limited_def orElse_def nonEmpty_def)
  have one: "u = t" if "u \<in> set (d_tasks db)" "t_id u = i" for u
    using find_row_unique[OF assms(2) that(1)] unfolding that(2) assms(1) by simp
  have "set ?ts = {u \<in> set (d_tasks db). t_id u = i}" by simp
  then have ts: "set ?ts = {t}" using t one by blast
  then show ?thesis
  proof (cases ?ts)
    case (Cons u us)
    then have "u = t" using ts by auto
    then show ?thesis unfolding show_row_def l using Cons by simp
  qed simp
qed

lemma detail_of_row:
  "parseBeadDetail [tracker_row checks db t] (t_id t) = Some \<lparr>bt_notes = orElse (notesOf db (t_id t)) '''', bt_status = bd_status (t_state t),
     bt_openBlockers = add_new [] (map td_id (filter (\<lambda>d. td_type d = ''blocks'' \<and> td_status d \<noteq> ''closed'')
       (map (dep_row (t_id t)) (depsOf db (t_id t)))))\<rparr>"
  by (simp add: parseBeadDetail_def)

lemma classified_as:
  "sb_beadId (classifyBeadDetail i d paused is_ready) = i"
  "sb_category (classifyBeadDetail i d paused is_ready) = Budget \<longleftrightarrow> BUDGET_RE (bt_notes d)"
  "sb_category (classifyBeadDetail i d paused is_ready) = ReadyButUnworked \<Longrightarrow> is_ready"
  "sb_category (classifyBeadDetail i d paused is_ready) \<noteq> NotReached"
  by (auto simp: classifyBeadDetail_def Let_def split: if_splits)

lemma classified_one:
  "sb_beadId (classify_one shows paused readyIds i) = i"
  "sb_category (classify_one shows paused readyIds i) = ReadyButUnworked \<Longrightarrow> i \<in> set readyIds"
  "sb_category (classify_one shows paused readyIds i) \<noteq> NotReached"
  using classified_as by (auto simp: classify_one_def split: option.splits)

lemma not_reached_simps [simp]:
  "sb_beadId (not_reached s) = sb_beadId s" "sb_category (not_reached s) = Budget \<longleftrightarrow> sb_category s = Budget"
  "sb_category (not_reached s) = NotReached \<longleftrightarrow> sb_category s \<in> {ReadyButUnworked, NotReached}"
  by (auto simp: not_reached_def)

lemma drain_ready_exact:
  assumes "drain_ready down checks scope db = Inr ks"
  shows "set ks \<subseteq> {t_id t | t. t \<in> set (d_tasks db) \<and> readyWhere taskLifecycle db t}"
proof -
  let ?ts = "sort_key CLAIM_ORDER (filter (\<lambda>t. t_kind t = Work \<and> readyWhere taskLifecycle db t) (d_tasks db))"
  have "ready taskLifecycle db (noFilter\<lparr>fl_kind := Some Work\<rparr>) = Inr ?ts"
    by (simp add: ready_def listWhere_def parseTaskFilter_def parsed_def noFilter_def filterWhere_def given_def issue_def
        limited_def orElse_def)
  then have "ready_rows checks db = Inr (map (tracker_row checks db) ?ts)" by (simp add: ready_rows_def)
  then have "set ks \<subseteq> t_id ` {t \<in> set (d_tasks db). readyWhere taskLifecycle db t}" using assms
    by (auto simp: drain_ready_def idsInScope_def rankCandidates_def parseReadyOutput_def intro!: imageI)
  then show ?thesis by blast
qed

text \<open>How the exit sequence ends without a signal: by what is open and how it was classified.\<close>

lemma exit_sequence_quiet:
  assumes "exit_sequence dr capped w = Inr core" and "dd_signalled dr w = None"
  obtains ks cs where "dd_openInScope dr w = Inr ks" and "if ks = [] then cs = [] else dd_classify dr w ks = Inr cs"
    and "dc_openInScope core = ks" and "dc_stalled core = (if capped then map not_reached cs else cs)"
    and "dc_exitCode core = (if ks = [] then 0 else case drain_reason_of (dc_stalled core) of BudgetStop \<Rightarrow> 11 | CappedStop \<Rightarrow> 12 | _ \<Rightarrow> 10)"
proof -
  have r: "drain_reason_of ss \<in> {BudgetStop, CappedStop, Stalled}" for ss by (simp add: drain_reason_of_def)
  obtain ks where ks: "dd_openInScope dr w = Inr ks" using assms by (auto simp: exit_sequence_def)
  show thesis
  proof (cases "ks = []")
    case True
    then show thesis using assms ks by (intro that[of "[]" "[]"]) (auto simp: exit_sequence_def)
  next
    case False
    then obtain cs where "dd_classify dr w ks = Inr cs" using assms ks by (auto simp: exit_sequence_def)
    then show thesis using assms ks False r by (intro that[of ks cs]) (auto simp: exit_sequence_def Let_def split: drain_reason.splits)
  qed
qed

text \<open>What the classification of the open tasks of a sound project says.\<close>

lemma drain_classify_exact:
  assumes w: "wf taskLifecycle db" and named: "'''' \<notin> ids (d_tasks db)" and known: "set ks \<subseteq> ids (d_tasks db)"
    and c: "drain_classify down checks scope paused db ks = Inr cs"
  shows "map sb_beadId cs = ks" and "x \<in> set cs \<Longrightarrow>
    (sb_category x = Budget \<longleftrightarrow> down (ReadShow (sb_beadId x)) = None \<and> BUDGET_RE (orElse (notesOf db (sb_beadId x)) '''')) \<and>
    sb_category x \<noteq> NotReached \<and> (down (ReadShow (sb_beadId x)) \<noteq> None \<longrightarrow> sb_category x = StallOpen) \<and>
    (sb_category x = ReadyButUnworked \<longrightarrow> (\<exists>t. find_task (sb_beadId x) db = Some t \<and> readyWhere taskLifecycle db t))"
proof -
  have d: "distinct (map t_id (d_tasks db))" using wfD(1)[OF w] by (simp add: forest_ok_def)
  obtain rs where rs: "drain_ready down checks scope db = Inr rs"
    and cs: "cs = map (classify_one (\<lambda>i. asked down (ReadShow i) (show_row checks db i)) paused rs) ks"
    using c by (auto simp: drain_classify_def classifyOpenBeads_def)
  let ?one = "classify_one (\<lambda>i. asked down (ReadShow i) (show_row checks db i)) paused rs"
  show "map sb_beadId cs = ks" by (simp add: cs o_def classified_one(1))
  assume x: "x \<in> set cs"
  then obtain i where i: "i \<in> set ks" "x = ?one i" "sb_beadId x = i" by (auto simp: cs classified_one(1))
  from known i(1) obtain t where t: "t \<in> set (d_tasks db)" "t_id t = i" by (auto simp: ids_def)
  have f: "find_task i db = Some t" using find_row_unique[OF d t(1)] t(2) by simp
  have "i \<noteq> ''''" using named known i(1) by auto
  note row = show_row_exact[OF f d this]
  have "(sb_category x = Budget \<longleftrightarrow> down (ReadShow i) = None \<and> BUDGET_RE (orElse (notesOf db i) '''')) \<and>
      (down (ReadShow i) \<noteq> None \<longrightarrow> sb_category x = StallOpen)"
  proof (cases "down (ReadShow i)")
    case None
    then show ?thesis using row detail_of_row[of checks db t] t(2) by (simp add: i(2) classify_one_def classified_as)
  next
    case (Some e)
    then show ?thesis by (simp add: i(2) classify_one_def)
  qed
  moreover have "\<exists>t. find_task i db = Some t \<and> readyWhere taskLifecycle db t" if "sb_category x = ReadyButUnworked"
  proof -
    have "i \<in> set rs" using that unfolding i(2) by (rule classified_one(2))
    then obtain u where "u \<in> set (d_tasks db)" "readyWhere taskLifecycle db u" "i = t_id u" using drain_ready_exact[OF rs] by blast
    then show ?thesis using find_row_unique[OF d] by blast
  qed
  moreover have "sb_category x \<noteq> NotReached" unfolding i(2) by (rule classified_one(3))
  ultimately show "(sb_category x = Budget \<longleftrightarrow> down (ReadShow (sb_beadId x)) = None \<and> BUDGET_RE (orElse (notesOf db (sb_beadId x)) '''')) \<and>
    sb_category x \<noteq> NotReached \<and> (down (ReadShow (sb_beadId x)) \<noteq> None \<longrightarrow> sb_category x = StallOpen) \<and>
    (sb_category x = ReadyButUnworked \<longrightarrow> (\<exists>t. find_task (sb_beadId x) db = Some t \<and> readyWhere taskLifecycle db t))" by (simp add: i(3))
qed

text \<open>
  C23: What a drain's exit code says, on a project whose rows are sound when it exits and whatever of its reads fail. A signal
  gives 130 or 143. Otherwise a drain with no cap has just had two quiet cycles with no work; the tasks it reports open are
  exactly those of its scope, epics apart, in any state but proposed, done and cancelled, each with one reason; it exits 0
  exactly when there are none, 11 exactly when the notes of one that could be read name a budget cap, 12 only when
  capped with one of them still ready, and 10 for any other; and a task that could not be read is reported open, its details
  unavailable. So 0 does not say that every task of the scope is closed: a proposed one, or one of category epic, is not counted.
\<close>

theorem drain_exit_exact:
  assumes w: "wf taskLifecycle (rows_of w)" and named: "'''' \<notin> ids (d_tasks (rows_of w))"
    and dr: "driveDrain (engine_driver down checks scope rows_of paused since rt) m w0 = Some (Inr (core, n, w))"
  shows "case dd_signalled rt w of
      Some sig \<Rightarrow> dc_exitCode core = (if sig = SIGINT then 130 else 143)
    | None \<Rightarrow>
       (m = None \<longrightarrow> (\<exists>w0 w1. dd_runCycle rt w0 = Inr (NoWork, w1) \<and> \<not> settling rt w1 \<and> dd_runCycle rt w1 = Inr (NoWork, w) \<and> \<not> settling rt w)) \<and>
       (\<forall>i. i \<in> set (dc_openInScope core) \<longleftrightarrow> (\<exists>t. find_task i (rows_of w) = Some t \<and> in_scope scope i \<and> \<not> reads_as_epic t \<and>
          t_state t \<notin> {''proposed'', ''done'', ''cancelled''})) \<and>
       map sb_beadId (dc_stalled core) = dc_openInScope core \<and>
       (dc_exitCode core = 0 \<longleftrightarrow> dc_openInScope core = []) \<and>
       (dc_exitCode core = 11 \<longleftrightarrow> (\<exists>i \<in> set (dc_openInScope core). down w (ReadShow i) = None \<and> BUDGET_RE (orElse (notesOf (rows_of w) i) ''''))) \<and>
       (dc_exitCode core = 12 \<longrightarrow> m \<noteq> None \<and> (\<exists>i \<in> set (dc_openInScope core). \<exists>t. find_task i (rows_of w) = Some t \<and>
          readyWhere taskLifecycle (rows_of w) t)) \<and>
       (\<forall>c \<in> set (dc_stalled core). down w (ReadShow (sb_beadId c)) \<noteq> None \<longrightarrow> sb_category c = StallOpen) \<and>
       dc_exitCode core \<in> {0, 10, 11, 12}"
proof -
  let ?dr = "engine_driver down checks scope rows_of paused since rt"
  have sig: "dd_signalled ?dr = dd_signalled rt" and cyc: "dd_runCycle ?dr = dd_runCycle rt" and stl: "settling ?dr = settling rt"
    by (simp_all add: engine_driver_def settling_def fun_eq_iff)
  have dr_reads: "dd_openInScope ?dr w = open_in_scope (down w) checks scope (rows_of w)"
    "dd_classify ?dr w = drain_classify (down w) checks scope (paused w) (rows_of w)" by (simp_all add: engine_driver_def fun_eq_iff)
  from driveDrain_Inr[OF dr] obtain capped where x: "exit_sequence ?dr capped w = Inr core" and cap: "capped \<Longrightarrow> m \<noteq> None"
    and quiet: "\<not> capped \<Longrightarrow> dd_signalled rt w = None \<Longrightarrow> \<exists>w0 w1. dd_runCycle rt w0 = Inr (NoWork, w1) \<and> \<not> settling rt w1 \<and>
       dd_runCycle rt w1 = Inr (NoWork, w) \<and> \<not> settling rt w" unfolding sig cyc stl by (elim exE conjE) simp
  show ?thesis
  proof (cases "dd_signalled rt w")
    case (Some s)
    then show ?thesis using x by (auto simp: exit_sequence_def sig)
  next
    case None
    note q = exit_sequence_quiet[OF x, unfolded sig dr_reads, OF None]
    obtain ks cs where
      o: "open_in_scope (down w) checks scope (rows_of w) = Inr ks"
      and c: "if ks = [] then cs = [] else drain_classify (down w) checks scope (paused w) (rows_of w) ks = Inr cs"
      and e: "dc_openInScope core = ks" "dc_stalled core = (if capped then map not_reached cs else cs)"
        "dc_exitCode core = (if ks = [] then 0 else case drain_reason_of (dc_stalled core) of BudgetStop \<Rightarrow> 11 | CappedStop \<Rightarrow> 12 | _ \<Rightarrow> 10)"
      by (rule q)
    note isI = open_in_scope_exact(2)[OF w o, THEN spec]
    have known: "set ks \<subseteq> ids (d_tasks (rows_of w))" using isI find_row_Some by (fastforce simp: ids_def)
    have ids0: "map sb_beadId cs = ks" using c drain_classify_exact(1)[OF w named known] by (auto split: if_splits)
    have cs: "(sb_category x = Budget \<longleftrightarrow> down w (ReadShow (sb_beadId x)) = None \<and> BUDGET_RE (orElse (notesOf (rows_of w) (sb_beadId x)) '''')) \<and>
        sb_category x \<noteq> NotReached \<and> (down w (ReadShow (sb_beadId x)) \<noteq> None \<longrightarrow> sb_category x = StallOpen) \<and>
        (sb_category x = ReadyButUnworked \<longrightarrow> (\<exists>t. find_task (sb_beadId x) (rows_of w) = Some t \<and> readyWhere taskLifecycle (rows_of w) t))"
      if "x \<in> set cs" for x
      using drain_classify_exact(2)[OF w named known _ that] c that by (auto split: if_splits)
    let ?bud = "\<exists>i \<in> set ks. down w (ReadShow i) = None \<and> BUDGET_RE (orElse (notesOf (rows_of w) i) '''')"
    have mapped: "x \<in> set (dc_stalled core) \<longleftrightarrow> (\<exists>c \<in> set cs. x = (if capped then not_reached c else c))" for x
      by (auto simp: e(2))
    have bud: "list_ex (\<lambda>s. sb_category s = Budget) (dc_stalled core) \<longleftrightarrow> ?bud"
    proof -
      have "list_ex (\<lambda>s. sb_category s = Budget) (dc_stalled core) \<longleftrightarrow> (\<exists>c \<in> set cs. sb_category c = Budget)"
        by (auto simp: list_ex_iff e(2))
      also have "\<dots> \<longleftrightarrow> (\<exists>c \<in> set cs. down w (ReadShow (sb_beadId c)) = None \<and> BUDGET_RE (orElse (notesOf (rows_of w) (sb_beadId c)) ''''))"
        using cs by blast
      also have "\<dots> \<longleftrightarrow> ?bud" unfolding ids0[symmetric] by simp
      finally show ?thesis .
    qed
    have nr: "capped \<and> (\<exists>i \<in> set ks. \<exists>t. find_task i (rows_of w) = Some t \<and> readyWhere taskLifecycle (rows_of w) t)"
      if n: "list_ex (\<lambda>s. sb_category s = NotReached) (dc_stalled core)"
    proof -
      from n obtain c0 where c0: "c0 \<in> set cs" "capped" "sb_category c0 = ReadyButUnworked"
        using cs unfolding e(2) by (auto simp: list_ex_iff split: if_splits)
      then have "sb_beadId c0 \<in> set ks" using ids0 by auto
      then show ?thesis using cs[OF c0(1)] c0(2,3) by blast
    qed
    have ids: "map sb_beadId (dc_stalled core) = ks" using ids0 unfolding e(2) by (auto simp: o_def)
    have unread: "\<forall>c \<in> set (dc_stalled core). down w (ReadShow (sb_beadId c)) \<noteq> None \<longrightarrow> sb_category c = StallOpen"
    proof (intro ballI impI)
      fix x assume "x \<in> set (dc_stalled core)" and d: "down w (ReadShow (sb_beadId x)) \<noteq> None"
      then obtain c where c: "c \<in> set cs" "x = (if capped then not_reached c else c)" unfolding mapped by blast
      then have "sb_category c = StallOpen" using cs[OF c(1)] d by (auto split: if_splits)
      then show "sb_category x = StallOpen" using c(2) by (simp add: not_reached_def)
    qed
    define costly where "costly \<longleftrightarrow> ?bud"
    have code: "dc_exitCode core = (if ks = [] then 0 else if costly then 11
        else if list_ex (\<lambda>s. sb_category s = NotReached) (dc_stalled core) then 12 else 10)"
      unfolding e(3) drain_reason_of_def bud costly_def[symmetric] by simp
    have "dc_exitCode core = 12 \<Longrightarrow> list_ex (\<lambda>s. sb_category s = NotReached) (dc_stalled core)" unfolding code by (simp split: if_splits)
    then have twelve: "dc_exitCode core = 12 \<longrightarrow> m \<noteq> None \<and> (\<exists>i \<in> set ks. \<exists>t. find_task i (rows_of w) = Some t \<and> readyWhere taskLifecycle (rows_of w) t)"
      using nr cap by blast
    have none: "m = None \<longrightarrow> (\<exists>w0 w1. dd_runCycle rt w0 = Inr (NoWork, w1) \<and> \<not> settling rt w1 \<and> dd_runCycle rt w1 = Inr (NoWork, w) \<and> \<not> settling rt w)"
      using quiet[OF _ None] cap by blast
    have zero: "dc_exitCode core = 0 \<longleftrightarrow> ks = []" and range: "dc_exitCode core \<in> {0, 10, 11, 12}"
      unfolding code by simp_all
    have eleven: "dc_exitCode core = 11 \<longleftrightarrow> ?bud" unfolding costly_def[symmetric] code using costly_def by auto
    have all: "\<forall>i. i \<in> set ks \<longleftrightarrow> (\<exists>t. find_task i (rows_of w) = Some t \<and> in_scope scope i \<and> \<not> reads_as_epic t \<and>
        t_state t \<notin> {''proposed'', ''done'', ''cancelled''})" using isI by blast
    show ?thesis unfolding None option.case e(1) by (intro conjI none all ids zero eleven twelve unread range)
  qed
qed

text \<open>The demonstration's worker on the rows of the demonstration run.\<close>

definition demo_drain :: "(nat, tg_error) drain_driver" where
  "demo_drain = engine_driver (\<lambda>_ _. None) (\<lambda>_. None) None (\<lambda>_. at_step 7) (\<lambda>_. False) 0 demo_runtime"

lemma demo_drain_simps [simp]:
  "dd_startup demo_drain w = Inr w" "dd_signalled demo_drain w = None" "settling demo_drain w \<longleftrightarrow> False"
  "dd_runCycle demo_drain w = Inr (if w = 0 then (NoWork, 0) else (Ran, w - 1))"
  by (simp_all add: demo_drain_def engine_driver_def demo_runtime_def settling_def)

lemma demo_loop: "drain_loop demo_drain None (k, n) = Some (Inr (False, k + n + 2, 0))"
proof (induction n arbitrary: k)
  case 0
  have "drain_turn_of demo_drain None (k, 0) = Inr (Break, k + 2, 0)"
    by (simp add: drain_turn_of_def run_one_def after_cycle_def atCap_def orElse_def)
  then show ?case by (simp add: drain_loop_step(6))
next
  case (Suc n)
  have "drain_turn_of demo_drain None (k, Suc n) = Inr (Continue, Suc k, n)"
    by (simp add: drain_turn_of_def run_one_def after_cycle_def atCap_def)
  then show ?case using Suc[of "Suc k"] by (simp add: drain_loop_step(3))
qed

theorem drain_exit_exact_witness:
  "\<exists>core. driveDrain demo_drain None 3 = Some (Inr (core, 5, 0)) \<and> dc_openInScope core = [''k-111.1'', ''k-111.2''] \<and>
     dc_exitCode core \<noteq> 0 \<and> dc_exitCode core \<in> {0, 10, 11, 12}"
proof -
  have "case exit_sequence demo_drain False 0 of Inr core \<Rightarrow> dc_openInScope core = [''k-111.1'', ''k-111.2''] | Inl _ \<Rightarrow> False"
    by code_simp
  then obtain core where x: "exit_sequence demo_drain False 0 = Inr core" and o: "dc_openInScope core = [''k-111.1'', ''k-111.2'']"
    by (auto split: sum.splits)
  have d: "driveDrain demo_drain None 3 = Some (Inr (core, 5, 0))"
    by (simp add: driveDrain_def demo_loop settled_already x)
  have sig: "dd_signalled demo_runtime 0 = None" by (simp add: demo_runtime_def)
  have "(dc_exitCode core = 0 \<longleftrightarrow> dc_openInScope core = []) \<and> dc_exitCode core \<in> {0, 10, 11, 12}"
    using drain_exit_exact[OF at_wf at_named d[unfolded demo_drain_def]] unfolding sig option.case by blast
  then show ?thesis using d o by auto
qed

end
