(* ===== verification/Accounting.thy ===== *)
theory Accounting
  imports Store Complex_Main
begin

text \<open>
  What a run costs and who may spend (src/src/ext): the price of a run (pricing.ts), the entry its meter writes
  (types.ts, defaults.ts), the spend read back (spend.ts) and the budget policy over it (budget-policy.ts); the ledger of
  decisions, its audiences and its sink (ledger.ts, ledger-sink.ts) and the fan-out of events (sink-registry.ts). A file of
  lines is the list of its entries, without the lines a reader skips. A dollar amount is a rational; the code's doubles
  are exact here, and its rounding is kept.
\<close>

subsection \<open>Prices (pricing.ts)\<close>

record model_price =
  inputPerMTok :: rat
  outputPerMTok :: rat
  cacheReadPerMTok :: rat
  cacheWritePerMTok :: rat

definition price4 :: "rat \<Rightarrow> rat \<Rightarrow> rat \<Rightarrow> rat \<Rightarrow> model_price" where
  "price4 a b c d = \<lparr>inputPerMTok = a, outputPerMTok = b, cacheReadPerMTok = c, cacheWritePerMTok = d\<rparr>"

type_synonym price_table = "(string \<times> (string \<times> model_price) list) list"

definition BUILT_IN_PRICES :: price_table where
  "BUILT_IN_PRICES = [(''anthropic'',
     [(''claude-sonnet-4-6'', price4 3 15 (3 / 10) (375 / 100)), (''claude-sonnet-4-5'', price4 3 15 (3 / 10) (375 / 100)),
      (''claude-opus-4-1'', price4 15 75 (15 / 10) (1875 / 100)), (''claude-haiku-4-5'', price4 1 5 (1 / 10) (125 / 100))])]"

text \<open>An entry of the override file: each lane that is a finite number has it. A price needs all four, none negative.\<close>

record price_entry =
  pe_input :: "rat option"
  pe_output :: "rat option"
  pe_cacheRead :: "rat option"
  pe_cacheWrite :: "rat option"

fun non_negative :: "rat option \<Rightarrow> bool" where
  "non_negative None \<longleftrightarrow> False"
| "non_negative (Some x) \<longleftrightarrow> 0 \<le> x"

definition isValidModelPrice :: "price_entry \<Rightarrow> bool" where
  "isValidModelPrice p \<longleftrightarrow> non_negative (pe_input p) \<and> non_negative (pe_output p) \<and> non_negative (pe_cacheRead p) \<and> non_negative (pe_cacheWrite p)"

definition price_of :: "price_entry \<Rightarrow> model_price" where
  "price_of p = price4 (orElse (pe_input p) 0) (orElse (pe_output p) 0) (orElse (pe_cacheRead p) 0) (orElse (pe_cacheWrite p) 0)"

text \<open>The file's providers and models in its order; a file that is missing or malformed has none.\<close>

definition loadOverrides :: "(string \<times> (string \<times> price_entry) list) list \<Rightarrow> price_table" where
  "loadOverrides file = map (\<lambda>(provider, models). (provider, map (\<lambda>(m, p). (m, price_of p))
     (filter (\<lambda>(m, p). isValidModelPrice p) models))) file"

text \<open>The merge by model: an override wins over a built-in price.\<close>

definition priceFor :: "price_table \<Rightarrow> string \<Rightarrow> string \<Rightarrow> model_price option" where
  "priceFor overrides provider model = (case map_of (orElse (map_of overrides provider) []) model of
       Some p \<Rightarrow> Some p | None \<Rightarrow> map_of (orElse (map_of BUILT_IN_PRICES provider) []) model)"

record token_usage =
  tu_input :: nat
  tu_output :: nat
  tu_cacheRead :: nat
  tu_cacheCreation :: nat

record usage_record =
  us_kshetra :: string
  us_beadId :: string
  us_runId :: string
  us_agent :: string
  us_provider :: string
  us_model :: string
  us_tokens :: token_usage
  us_toolCalls :: nat
  us_ok :: bool
  us_sessionId :: "string option"

text \<open>\<open>Math.round(n * 1000000) / 1000000\<close>.\<close>

definition roundCost :: "rat \<Rightarrow> rat" where
  "roundCost n = of_int \<lfloor>n * 1000000 + 1 / 2\<rfloor> / 1000000"

definition costFor :: "price_table \<Rightarrow> usage_record \<Rightarrow> rat \<times> bool" where
  "costFor overrides u = (case priceFor overrides (us_provider u) (us_model u) of
       None \<Rightarrow> (0, False)
     | Some p \<Rightarrow> (let t = us_tokens u in
         (roundCost (of_nat (tu_input t) / 1000000 * inputPerMTok p + of_nat (tu_output t) / 1000000 * outputPerMTok p +
            of_nat (tu_cacheRead t) / 1000000 * cacheReadPerMTok p + of_nat (tu_cacheCreation t) / 1000000 * cacheWritePerMTok p), True)))"

subsection \<open>Metering (defaults.ts)\<close>

record usage_entry =
  ue_usage :: usage_record
  ue_costUsd :: rat
  ue_priced :: bool

definition toUsageEntry :: "price_table \<Rightarrow> usage_record \<Rightarrow> usage_entry" where
  "toUsageEntry overrides u = \<lparr>ue_usage = u, ue_costUsd = fst (costFor overrides u), ue_priced = snd (costFor overrides u)\<rparr>"

subsection \<open>Spend so far (spend.ts)\<close>

record spend_so_far =
  beadUsd :: rat
  kshetraUsd :: rat
  beadUnpricedRuns :: nat
  kshetraUnpricedRuns :: nat

definition spend_add :: "string \<Rightarrow> usage_entry \<Rightarrow> spend_so_far \<Rightarrow> spend_so_far" where
  "spend_add beadId e s = (let mine = us_beadId (ue_usage e) = beadId; unpriced = (if ue_priced e then 0 else 1) in
     \<lparr>beadUsd = beadUsd s + (if mine then ue_costUsd e else 0), kshetraUsd = kshetraUsd s + ue_costUsd e,
      beadUnpricedRuns = beadUnpricedRuns s + (if mine then unpriced else 0),
      kshetraUnpricedRuns = kshetraUnpricedRuns s + unpriced\<rparr>)"

definition computeSpend :: "usage_entry list \<Rightarrow> string \<Rightarrow> spend_so_far" where
  "computeSpend entries beadId = (let s = fold (spend_add beadId) entries
       \<lparr>beadUsd = 0, kshetraUsd = 0, beadUnpricedRuns = 0, kshetraUnpricedRuns = 0\<rparr> in
     s\<lparr>beadUsd := roundCost (beadUsd s), kshetraUsd := roundCost (kshetraUsd s)\<rparr>)"

subsection \<open>The budget policy (budget-policy.ts)\<close>

record budget_config =
  perBeadUsd :: "rat option"
  perKshetraUsd :: "rat option"

datatype policy_decision = Allowed | Denied string

definition isUncapped :: "budget_config option \<Rightarrow> bool" where
  "isUncapped b \<longleftrightarrow> (case b of None \<Rightarrow> True | Some c \<Rightarrow> perBeadUsd c = None \<and> perKshetraUsd c = None)"

definition at_cap :: "rat option \<Rightarrow> rat \<Rightarrow> bool" where
  "at_cap cap spent \<longleftrightarrow> (case cap of None \<Rightarrow> False | Some c \<Rightarrow> c \<le> spent)"

text \<open>The wording of a denial without its amounts, whose decimals are the caller's; it names the cap.\<close>

definition budget_mayProceed :: "policy_decision \<Rightarrow> budget_config option \<Rightarrow> usage_entry list \<Rightarrow> string \<Rightarrow> string \<Rightarrow> policy_decision" where
  "budget_mayProceed inner budget entries kshetra beadId =
     (if inner \<noteq> Allowed then inner
      else case budget of None \<Rightarrow> Allowed | Some caps \<Rightarrow>
        if isUncapped budget then Allowed
        else let spend = computeSpend entries beadId in
          if at_cap (perBeadUsd caps) (beadUsd spend) then Denied (''bead '' @ beadId @ '' has spent its per-bead budget cap'')
          else if at_cap (perKshetraUsd caps) (kshetraUsd spend) then Denied (''Kshetra '' @ kshetra @ '' has spent its per-Kshetra budget cap'')
          else Allowed)"

subsection \<open>The ledger of decisions (ledger.ts)\<close>

datatype audience = AgentAudience | OperatorAudience | AuditAudience

definition LEDGER_SCHEMA_VERSION :: nat where
  "LEDGER_SCHEMA_VERSION = 1"

record logged_event =
  le_ts :: int
  le_kshetra :: string
  le_beadId :: "string option"
  le_runId :: "string option"
  le_lotId :: "string option"
  le_sessionId :: "string option"
  le_type :: string
  le_rest :: "(string \<times> json) list"

record ledger_entry =
  lg_ts :: int
  lg_schemaVersion :: nat
  lg_kshetra :: string
  lg_beadId :: string
  lg_runId :: "string option"
  lg_lotId :: "string option"
  lg_sessionId :: "string option"
  lg_kind :: string
  lg_payload :: "(string \<times> json) list"

definition DECISION_KINDS :: "string list" where
  "DECISION_KINDS = [''task_claimed'', ''silpi_done'', ''viharapala_done'', ''task_done'', ''run_started'', ''policy_decision'',
     ''gate_result'', ''merge_done'', ''run_usage'', ''run_unmetered'', ''context_compacted'', ''worker_started'', ''review_ablated'',
     ''drain_finished'', ''state_frozen'', ''state_restored'', ''epic_closed'']"

definition RUN_LOG_KINDS :: "string list" where
  "RUN_LOG_KINDS = [''round_start'', ''agent_text'', ''agent_tool_call'', ''turn_usage'', ''phase_changed'', ''beads_synced'', ''error'',
     ''suthradhara_launched'', ''suthradhara_plan_filed'', ''suthradhara_doc_pushed'', ''suthradhara_menu_choice'',
     ''suthradhara_plan_decision'', ''suthradhara_session_ended'']"

text \<open>Both switches cover every kind of event; \<open>None\<close> is their assertion that no other comes.\<close>

definition isDecisionGrade :: "string \<Rightarrow> bool option" where
  "isDecisionGrade k = (if k \<in> set DECISION_KINDS then Some True else if k \<in> set RUN_LOG_KINDS then Some False else None)"

definition audienceFor :: "string \<Rightarrow> audience option" where
  "audienceFor k =
     (if k \<in> {''task_claimed'', ''silpi_done'', ''viharapala_done'', ''task_done''} then Some AgentAudience
      else if k \<in> {''run_started'', ''policy_decision'', ''gate_result'', ''run_usage'', ''run_unmetered'', ''phase_changed''}
      then Some OperatorAudience
      else if k \<in> {''merge_done'', ''epic_closed'', ''context_compacted'', ''worker_started'', ''review_ablated'', ''drain_finished'',
        ''state_frozen'', ''state_restored'', ''round_start'', ''agent_text'', ''agent_tool_call'', ''turn_usage'', ''beads_synced'', ''error'',
        ''suthradhara_launched'', ''suthradhara_plan_filed'', ''suthradhara_doc_pushed'', ''suthradhara_menu_choice'',
        ''suthradhara_plan_decision'', ''suthradhara_session_ended''}
      then Some AuditAudience else None)"

fun AUDIENCE_RANK :: "audience \<Rightarrow> nat" where
  "AUDIENCE_RANK AgentAudience = 0"
| "AUDIENCE_RANK OperatorAudience = 1"
| "AUDIENCE_RANK AuditAudience = 2"

definition rankOf :: "string \<Rightarrow> nat" where
  "rankOf kind = (case audienceFor kind of Some a \<Rightarrow> AUDIENCE_RANK a | None \<Rightarrow> AUDIENCE_RANK AuditAudience)"

definition readLedger :: "ledger_entry list \<Rightarrow> string \<Rightarrow> audience \<Rightarrow> ledger_entry list" where
  "readLedger entries beadId clearance = filter (\<lambda>e. lg_beadId e = beadId \<and> rankOf (lg_kind e) \<le> AUDIENCE_RANK clearance) entries"

definition toLedgerEntry :: "logged_event \<Rightarrow> ledger_entry" where
  "toLedgerEntry evt = \<lparr>lg_ts = le_ts evt, lg_schemaVersion = LEDGER_SCHEMA_VERSION, lg_kshetra = le_kshetra evt,
     lg_beadId = orElse (le_beadId evt) '''', lg_runId = filled (le_runId evt), lg_lotId = filled (le_lotId evt),
     lg_sessionId = filled (le_sessionId evt), lg_kind = le_type evt, lg_payload = le_rest evt\<rparr>"

subsection \<open>Events out to the sinks (sink-registry.ts, ledger-sink.ts)\<close>

text \<open>
  What the sinks write: the activity log and the ledger, and what was reported of a sink that failed. A sink is what it
  does to them, or the failure it throws.
\<close>

record files =
  fs_activity :: "logged_event list"
  fs_ledger :: "ledger_entry list"
  fs_reports :: "(string \<times> string) list"

record event_sink =
  sk_name :: string
  sk_handle :: "logged_event \<Rightarrow> files \<Rightarrow> string + files"

fun registry_handle :: "event_sink list \<Rightarrow> logged_event \<Rightarrow> files \<Rightarrow> files" where
  "registry_handle [] evt fs = fs"
| "registry_handle (s # ss) evt fs = registry_handle ss evt (case sk_handle s evt fs of
     Inr fs1 \<Rightarrow> fs1 | Inl err \<Rightarrow> fs\<lparr>fs_reports := fs_reports fs @ [(sk_name s, err)]\<rparr>)"

text \<open>\<open>disk\<close> says whether an append fails; one that fails leaves the file as it was.\<close>

definition localFileSink :: "string option \<Rightarrow> event_sink" where
  "localFileSink disk = \<lparr>sk_name = ''local-file'', sk_handle = (\<lambda>evt fs. case disk of Some e \<Rightarrow> Inl e
     | None \<Rightarrow> Inr (fs\<lparr>fs_activity := fs_activity fs @ [evt]\<rparr>))\<rparr>"

definition writeLedgerEntry :: "string option \<Rightarrow> logged_event \<Rightarrow> files \<Rightarrow> string + files" where
  "writeLedgerEntry disk evt fs = (case isDecisionGrade (le_type evt) of
       None \<Rightarrow> Inl ''unclassified ledger event kind''
     | Some False \<Rightarrow> Inr fs
     | Some True \<Rightarrow> (case disk of Some e \<Rightarrow> Inl e | None \<Rightarrow> Inr (fs\<lparr>fs_ledger := fs_ledger fs @ [toLedgerEntry evt]\<rparr>)))"

definition makeLedgerSink :: "string \<Rightarrow> string option \<Rightarrow> event_sink" where
  "makeLedgerSink kshetraId disk = \<lparr>sk_name = ''ledger'', sk_handle = (\<lambda>evt fs. if le_kshetra evt \<noteq> kshetraId then Inr fs
     else writeLedgerEntry disk evt fs)\<rparr>"

text \<open>
  A command's own entry (\<open>shreni freeze\<close>, \<open>restore\<close>), outside the fan-out. It stamps the time; what it throws is its
  caller's, whose operation stands without the entry.
\<close>

definition appendLedgerEvent :: "string option \<Rightarrow> int \<Rightarrow> logged_event \<Rightarrow> files \<Rightarrow> string + files" where
  "appendLedgerEvent disk now evt fs = writeLedgerEntry disk (evt\<lparr>le_ts := now\<rparr>) fs"

subsection \<open>The envelope (activity-log.ts)\<close>

text \<open>One Kshetra's ids: the run's, minted when a task is claimed, and the lot's, minted when the worker starts.\<close>

record correlation =
  co_runId :: "string option"
  co_lotId :: "string option"

definition runIdFor :: "string \<Rightarrow> string \<Rightarrow> correlation \<Rightarrow> correlation" where
  "runIdFor uuid type co = (if type = ''task_claimed'' then co\<lparr>co_runId := Some uuid\<rparr> else co)"

definition getCurrentRunId :: "correlation \<Rightarrow> string" where
  "getCurrentRunId co = orElse (co_runId co) ''''"

definition emit_event :: "event_sink list \<Rightarrow> string \<Rightarrow> int \<Rightarrow> logged_event \<Rightarrow> correlation \<times> files \<Rightarrow> correlation \<times> files" where
  "emit_event sinks uuid now evt w = (let co = runIdFor uuid (le_type evt) (fst w) in
     (co, registry_handle sinks (evt\<lparr>le_ts := now, le_runId := filled (co_runId co), le_lotId := filled (co_lotId co)\<rparr>) (snd w)))"

definition emitLotManifest :: "event_sink list \<Rightarrow> string \<Rightarrow> int \<Rightarrow> string \<Rightarrow> (string \<times> json) list \<Rightarrow> correlation \<times> files \<Rightarrow> correlation \<times> files" where
  "emitLotManifest sinks uuid now kshetra rest w = emit_event sinks uuid now
     \<lparr>le_ts = 0, le_kshetra = kshetra, le_beadId = None, le_runId = None, le_lotId = None, le_sessionId = None,
      le_type = ''worker_started'', le_rest = rest\<rparr> ((fst w)\<lparr>co_lotId := Some uuid\<rparr>, snd w)"

end
