(* ===== verification/Runner.thy ===== *)
theory Runner
  imports Accounting Retry
begin

text \<open>
  An agent's run (src/src/agents/runner.ts): the policy's go or no-go, up to four attempts over transient failures, each its
  own session, and what each attempt is metered as. The process of an attempt, the ids, the clock and the abort signal are
  inputs by the attempt's number; what the run does is the list of its effects in order. An entry's duration and window size
  are left out.
\<close>

subsection \<open>Attempts\<close>

datatype run_error = NotPermitted string string | Aborted | SpawnFailed string | RunFailed string "(token_usage \<times> nat) option"

fun run_message :: "run_error \<Rightarrow> string" where
  "run_message (NotPermitted agent reason) = agent @ '': run not permitted - '' @ reason"
| "run_message Aborted = ''agent run aborted for self-heal''"
| "run_message (SpawnFailed m) = m"
| "run_message (RunFailed m u) = m"

text \<open>The usage a failure carries, with its tool calls, if the provider surfaced any.\<close>

fun error_usage :: "run_error \<Rightarrow> (token_usage \<times> nat) option" where
  "error_usage (RunFailed m u) = u"
| "error_usage _ = None"

record attempt_result =
  ar_usage :: "token_usage option"
  ar_toolCalls :: nat
  ar_output :: json

definition TRANSIENT_MARKERS :: "string list" where
  "TRANSIENT_MARKERS = [''overloaded'', ''api error: 429'', ''api error: 500'', ''api error: 502'', ''api error: 503'', ''api error: 504'',
     ''api error: 529'', ''rate limit'', ''rate_limit'', ''service unavailable'', ''internal server error'']"

definition MAX_ATTEMPTS :: nat where
  "MAX_ATTEMPTS = 4"

definition RETRY_BACKOFF_MS :: "nat list" where
  "RETRY_BACKOFF_MS = [10000, 30000, 60000]"

definition looksTransient :: "string \<Rightarrow> bool" where
  "looksTransient text \<longleftrightarrow> list_ex (hasText (toLower text)) TRANSIENT_MARKERS"

record run_opts =
  ro_kshetra :: string
  ro_beadId :: string
  ro_agent :: string
  ro_provider :: string
  ro_model :: string
  ro_runId :: string

text \<open>What is given from outside, by attempt from 1.\<close>

record run_world =
  rw_session :: "nat \<Rightarrow> string"
  rw_attempt :: "nat \<Rightarrow> run_error + attempt_result"
  rw_aborted :: "nat \<Rightarrow> bool"
  rw_abortedAsleep :: "nat \<Rightarrow> bool"
  rw_meterFails :: "nat \<Rightarrow> bool"

datatype cause = CauseAborted | CauseSpawnFailed | CauseError

datatype run_effect =
    ModelSelected string string
  | PolicyChecked policy_decision
  | RunStarted string nat
  | Recorded usage_entry
  | RunUsage string bool rat bool
  | RunUnmetered string cause
  | RetryNotice string nat
  | Slept nat

definition NO_TOKENS :: token_usage where
  "NO_TOKENS = \<lparr>tu_input = 0, tu_output = 0, tu_cacheRead = 0, tu_cacheCreation = 0\<rparr>"

definition usage_of :: "run_opts \<Rightarrow> string \<Rightarrow> bool \<Rightarrow> token_usage option \<Rightarrow> nat \<Rightarrow> usage_record" where
  "usage_of opts session isok u calls = \<lparr>us_kshetra = ro_kshetra opts, us_beadId = ro_beadId opts, us_runId = ro_runId opts,
     us_agent = ro_agent opts, us_provider = ro_provider opts, us_model = ro_model opts, us_tokens = orElse u NO_TOKENS,
     us_toolCalls = calls, us_ok = isok, us_sessionId = filled (Some session)\<rparr>"

text \<open>A meter that fails loses its entry and nothing else.\<close>

definition reportUsage :: "price_table \<Rightarrow> run_opts \<Rightarrow> string \<Rightarrow> bool \<Rightarrow> bool \<Rightarrow> token_usage option \<Rightarrow> nat \<Rightarrow> run_effect list" where
  "reportUsage prices opts session meter_fails isok u calls = (let r = usage_of opts session isok u calls; c = costFor prices r in
     (if meter_fails then [] else [Recorded (toUsageEntry prices r)]) @ [RunUsage session isok (fst c) (snd c)])"

definition reportUnmetered :: "string \<Rightarrow> run_error \<Rightarrow> bool \<Rightarrow> run_effect list" where
  "reportUnmetered session e aborted = [RunUnmetered session (if e = Aborted \<or> aborted then CauseAborted
     else case e of SpawnFailed m \<Rightarrow> CauseSpawnFailed | _ \<Rightarrow> CauseError)]"

text \<open>What an attempt that failed is reported as.\<close>

definition reportFailure :: "price_table \<Rightarrow> run_opts \<Rightarrow> run_world \<Rightarrow> nat \<Rightarrow> run_error \<Rightarrow> run_effect list" where
  "reportFailure prices opts w n e = (case error_usage e of
       Some (u, calls) \<Rightarrow> reportUsage prices opts (rw_session w n) (rw_meterFails w n) False (Some u) calls
     | None \<Rightarrow> reportUnmetered (rw_session w n) e (rw_aborted w n))"

function runAttempts :: "price_table \<Rightarrow> run_opts \<Rightarrow> run_world \<Rightarrow> nat \<Rightarrow> (run_error + attempt_result) \<times> run_effect list" where
  "runAttempts prices opts w n =
     (let session = rw_session w n; start = RunStarted session n in
      case rw_attempt w n of
        Inr r \<Rightarrow> (Inr r, start # reportUsage prices opts session (rw_meterFails w n) True (ar_usage r) (ar_toolCalls r))
      | Inl e \<Rightarrow>
          let report = start # reportFailure prices opts w n e in
          if e = Aborted \<or> rw_aborted w n then (Inl e, report)
          else if looksTransient (run_message e) \<and> n < MAX_ATTEMPTS then
            let waited = report @ [RetryNotice session (n + 1), Slept (RETRY_BACKOFF_MS ! (n - 1))] in
            if rw_abortedAsleep w n then (Inl Aborted, waited)
            else (let rest = runAttempts prices opts w (n + 1) in (fst rest, waited @ snd rest))
          else (Inl e, report))"
  by pat_completeness auto
termination
  by (relation "measure (\<lambda>(prices, opts, w, n). MAX_ATTEMPTS - n)") auto

declare runAttempts.simps [simp del]

text \<open>The whole run: the model the policy selected is the one of \<open>opts\<close>, and its decision comes before anything starts.\<close>

definition runAgent :: "price_table \<Rightarrow> policy_decision \<Rightarrow> run_opts \<Rightarrow> run_world \<Rightarrow> (run_error + attempt_result) \<times> run_effect list" where
  "runAgent prices decision opts w = (let asked = [ModelSelected (ro_provider opts) (ro_model opts), PolicyChecked decision] in
     case decision of
       Denied reason \<Rightarrow> (Inl (NotPermitted (ro_agent opts) reason), asked)
     | Allowed \<Rightarrow> (let r = runAttempts prices opts w 1 in (fst r, asked @ snd r)))"

subsection \<open>Runs one after another\<close>

definition recorded :: "run_effect list \<Rightarrow> usage_entry list" where
  "recorded effs = List.map_filter (\<lambda>e. case e of Recorded u \<Rightarrow> Some u | _ \<Rightarrow> None) effs"

text \<open>A run under the budget: the policy reads the spend recorded before it, and its meter appends to that.\<close>

definition budgeted_run :: "price_table \<Rightarrow> budget_config option \<Rightarrow> run_opts \<times> run_world \<Rightarrow> usage_entry list \<Rightarrow> usage_entry list" where
  "budgeted_run prices budget rw entries = entries @ recorded (snd (runAgent prices
     (budget_mayProceed Allowed budget entries (ro_kshetra (fst rw)) (ro_beadId (fst rw))) (fst rw) (snd rw)))"

definition budgeted_runs :: "price_table \<Rightarrow> budget_config option \<Rightarrow> (run_opts \<times> run_world) list \<Rightarrow> usage_entry list \<Rightarrow> usage_entry list" where
  "budgeted_runs prices budget rws entries = fold (budgeted_run prices budget) rws entries"

end
