(* ===== verification/AccountingProperties.thy ===== *)
theory AccountingProperties
  imports Runner
begin

text \<open>
  What the accounting guarantees: each session a run starts is closed once, a budget is overspent by less than one run, and
  the ledger keeps every decision of its Kshetra whose append did not fail, read only at the caller's clearance.
\<close>

subsection \<open>Sessions\<close>

text \<open>The marks a reader of the ledger joins by session: its start, and its end metered or not.\<close>

fun session_mark :: "run_effect \<Rightarrow> (bool \<times> string) option" where
  "session_mark (RunStarted s n) = Some (True, s)"
| "session_mark (RunUsage s isok c p) = Some (False, s)"
| "session_mark (RunUnmetered s c) = Some (False, s)"
| "session_mark _ = None"

definition marks :: "run_effect list \<Rightarrow> (bool \<times> string) list" where
  "marks effs = List.map_filter session_mark effs"

definition sessions :: "run_world \<Rightarrow> nat \<Rightarrow> nat \<Rightarrow> (bool \<times> string) list" where
  "sessions w n k = concat (map (\<lambda>i. [(True, rw_session w i), (False, rw_session w i)]) [n..<Suc k])"

lemma map_filter_append: "List.map_filter f (xs @ ys) = List.map_filter f xs @ List.map_filter f ys"
  by (simp add: List.map_filter_def)

lemma marks_simps [simp]:
  "marks [] = []" "marks (e # es) = (case session_mark e of None \<Rightarrow> [] | Some m \<Rightarrow> [m]) @ marks es" "marks (xs @ ys) = marks xs @ marks ys"
  by (auto simp: marks_def List.map_filter_simps map_filter_append split: option.split)

lemma marks_reports:
  "marks (reportUsage prices opts s f isok u calls) = [(False, s)]" "marks (reportUnmetered s e a) = [(False, s)]"
  "marks (reportFailure prices opts w n e) = [(False, rw_session w n)]"
  by (auto simp: reportUsage_def reportUnmetered_def reportFailure_def Let_def split: option.split)

definition transient_at :: "run_world \<Rightarrow> nat \<Rightarrow> bool" where
  "transient_at w n \<longleftrightarrow> (case rw_attempt w n of Inl e \<Rightarrow> e \<noteq> Aborted \<and> looksTransient (run_message e) | Inr r \<Rightarrow> False) \<and>
     \<not> rw_aborted w n \<and> \<not> rw_abortedAsleep w n"

lemma sessions_Cons: "n \<le> k \<Longrightarrow> sessions w n k = (True, rw_session w n) # (False, rw_session w n) # sessions w (Suc n) k"
  by (cases "n = k") (auto simp: sessions_def upt_conv_Cons)

lemma attempts_closed:
  "n \<le> MAX_ATTEMPTS \<Longrightarrow> \<exists>k. n \<le> k \<and> k \<le> MAX_ATTEMPTS \<and> marks (snd (runAttempts prices opts w n)) = sessions w n k \<and>
     (\<forall>i. n \<le> i \<and> i < k \<longrightarrow> transient_at w i) \<and>
     fst (runAttempts prices opts w n) \<in> {rw_attempt w k, Inl Aborted}"
proof (induction prices opts w n rule: runAttempts.induct)
  case (1 prices opts w n)
  have one: "sessions w n n = [(True, rw_session w n), (False, rw_session w n)]" by (simp add: sessions_def)
  show ?case
  proof (cases "rw_attempt w n")
    case (Inr r)
    then show ?thesis using "1.prems"
      by (intro exI[of _ n]) (auto simp: runAttempts.simps[of prices opts w n] Let_def marks_reports one)
  next
    case (Inl e)
    show ?thesis
    proof (cases "e \<noteq> Aborted \<and> \<not> rw_aborted w n \<and> looksTransient (run_message e) \<and> n < MAX_ATTEMPTS \<and> \<not> rw_abortedAsleep w n")
      case True
      then have r: "runAttempts prices opts w n = (fst (runAttempts prices opts w (n + 1)), (RunStarted (rw_session w n) n #
          reportFailure prices opts w n e @ [RetryNotice (rw_session w n) (n + 1), Slept (RETRY_BACKOFF_MS ! (n - 1))]) @
          snd (runAttempts prices opts w (n + 1)))"
        using Inl by (simp add: runAttempts.simps[of prices opts w n] Let_def)
      have "\<exists>k. n + 1 \<le> k \<and> k \<le> MAX_ATTEMPTS \<and> marks (snd (runAttempts prices opts w (n + 1))) = sessions w (n + 1) k \<and>
          (\<forall>i. n + 1 \<le> i \<and> i < k \<longrightarrow> transient_at w i) \<and> fst (runAttempts prices opts w (n + 1)) \<in> {rw_attempt w k, Inl Aborted}"
        using "1.IH"[OF refl refl Inl refl] True by simp
      then obtain k where k: "n + 1 \<le> k" "k \<le> MAX_ATTEMPTS" "marks (snd (runAttempts prices opts w (n + 1))) = sessions w (n + 1) k"
        "\<forall>i. n + 1 \<le> i \<and> i < k \<longrightarrow> transient_at w i" "fst (runAttempts prices opts w (n + 1)) \<in> {rw_attempt w k, Inl Aborted}" by blast
      have "transient_at w n" using True Inl by (simp add: transient_at_def)
      then have "\<forall>i. n \<le> i \<and> i < k \<longrightarrow> transient_at w i" using k(4) by (metis Suc_eq_plus1 Suc_leI le_neq_implies_less)
      moreover have "marks (snd (runAttempts prices opts w n)) = sessions w n k"
        using k(1,3) by (simp add: r marks_reports sessions_Cons)
      moreover have "fst (runAttempts prices opts w n) \<in> {rw_attempt w k, Inl Aborted}" using k(5) unfolding r by simp
      ultimately show ?thesis using k(1,2) by (intro exI[of _ k]) simp
    next
      case False
      then have "marks (snd (runAttempts prices opts w n)) = sessions w n n \<and> fst (runAttempts prices opts w n) \<in> {rw_attempt w n, Inl Aborted}"
        using Inl by (auto simp: runAttempts.simps[of prices opts w n] Let_def marks_reports one)
      then show ?thesis using "1.prems" by (intro exI[of _ n]) auto
    qed
  qed
qed

text \<open>
  C28: An agent's run starts no session when the policy denies it. When it allows it, the run starts between one and four, one
  after another, each but the last one having failed transiently; and each session's start is followed, before any other's,
  by exactly one record that closes it, its usage or the reason it was not metered.
\<close>

theorem every_session_closed:
  "\<exists>k \<le> MAX_ATTEMPTS. (decision = Allowed \<longleftrightarrow> 0 < k) \<and> marks (snd (runAgent prices decision opts w)) = sessions w 1 k \<and>
     (\<forall>i. 0 < i \<and> i < k \<longrightarrow> transient_at w i) \<and>
     (case decision of Denied reason \<Rightarrow> fst (runAgent prices decision opts w) = Inl (NotPermitted (ro_agent opts) reason)
      | Allowed \<Rightarrow> fst (runAgent prices decision opts w) \<in> {rw_attempt w k, Inl Aborted})"
proof (cases decision)
  case Allowed
  obtain k where "1 \<le> k" "k \<le> MAX_ATTEMPTS" "marks (snd (runAttempts prices opts w 1)) = sessions w 1 k"
    "\<forall>i. 1 \<le> i \<and> i < k \<longrightarrow> transient_at w i" "fst (runAttempts prices opts w 1) \<in> {rw_attempt w k, Inl Aborted}"
    using attempts_closed[of 1 prices opts w] by (auto simp: MAX_ATTEMPTS_def)
  then show ?thesis using Allowed by (intro exI[of _ k]) (simp add: runAgent_def Let_def Suc_le_eq)
next
  case (Denied reason)
  then show ?thesis by (intro exI[of _ 0]) (simp add: runAgent_def Let_def sessions_def)
qed

text \<open>A run that met one transient failure: two sessions, the first metered for what it burnt.\<close>

definition demo_opts :: run_opts where
  "demo_opts = \<lparr>ro_kshetra = ''k'', ro_beadId = ''b'', ro_agent = ''silpi'', ro_provider = ''anthropic'',
     ro_model = ''claude-haiku-4-5'', ro_runId = ''r''\<rparr>"

definition demo_world :: run_world where
  "demo_world = \<lparr>rw_session = (\<lambda>n. if n = 1 then ''s1'' else ''s2''),
     rw_attempt = (\<lambda>n. if n = 1 then Inl (RunFailed ''API Error: 529 Overloaded'' (Some (NO_TOKENS\<lparr>tu_input := 1000000\<rparr>, 3)))
       else Inr \<lparr>ar_usage = Some (NO_TOKENS\<lparr>tu_output := 200000\<rparr>), ar_toolCalls = 5, ar_output = JNull\<rparr>),
     rw_aborted = (\<lambda>_. False), rw_abortedAsleep = (\<lambda>_. False), rw_meterFails = (\<lambda>_. False)\<rparr>"

lemma demo_run: "marks (snd (runAgent [] Allowed demo_opts demo_world)) = sessions demo_world 1 2"
proof -
  have t: "looksTransient ''API Error: 529 Overloaded''" by code_simp
  have w: "rw_attempt demo_world 1 = Inl (RunFailed ''API Error: 529 Overloaded'' (Some (NO_TOKENS\<lparr>tu_input := 1000000\<rparr>, 3)))"
    "\<exists>r. rw_attempt demo_world 2 = Inr r" "\<not> rw_aborted demo_world n" "\<not> rw_abortedAsleep demo_world n" for n
    by (simp_all add: demo_world_def)
  from w(2) obtain r where r: "rw_attempt demo_world 2 = Inr r" ..
  have "marks (snd (runAttempts [] demo_opts demo_world 2)) = sessions demo_world 2 2"
    by (simp add: runAttempts.simps[of "[]" demo_opts demo_world 2] Let_def r marks_reports sessions_def)
  moreover have "marks (snd (runAttempts [] demo_opts demo_world 1)) =
      (True, rw_session demo_world 1) # (False, rw_session demo_world 1) # marks (snd (runAttempts [] demo_opts demo_world 2))"
    by (subst runAttempts.simps) (simp add: Let_def w(1) w(3,4) t MAX_ATTEMPTS_def marks_reports numeral_2_eq_2 del: One_nat_def)
  ultimately show ?thesis by (simp add: runAgent_def Let_def sessions_Cons numeral_2_eq_2)
qed

theorem every_session_closed_witness:
  "\<exists>k \<le> 4. 0 < k \<and> marks (snd (runAgent [] Allowed demo_opts demo_world)) = sessions demo_world 1 k \<and>
     sessions demo_world 1 k = [(True, ''s1''), (False, ''s1''), (True, ''s2''), (False, ''s2'')]"
proof -
  have "sessions demo_world 1 2 = [(True, ''s1''), (False, ''s1''), (True, ''s2''), (False, ''s2'')]" by code_simp
  then show ?thesis using every_session_closed[of Allowed "[]" demo_opts demo_world] demo_run by (auto simp: MAX_ATTEMPTS_def)
qed

subsection \<open>Budgets\<close>

definition micro :: "rat \<Rightarrow> bool" where
  "micro x \<longleftrightarrow> (\<exists>n :: int. x = of_int n / 1000000)"

lemma micro_round [simp]: "micro (roundCost x)"
  by (auto simp: micro_def roundCost_def)

lemma round_micro: "micro x \<Longrightarrow> roundCost x = x"
proof -
  assume "micro x"
  then obtain n :: int where n: "x = of_int n / 1000000" by (auto simp: micro_def)
  have "\<lfloor>(of_int n :: rat) + 1 / 2\<rfloor> = n" by linarith
  then show ?thesis by (simp add: roundCost_def n)
qed

lemma micro_add: "micro x \<Longrightarrow> micro y \<Longrightarrow> micro (x + y)"
proof -
  assume "micro x" "micro y"
  then obtain a b :: int where "x = of_int a / 1000000" "y = of_int b / 1000000" by (auto simp: micro_def)
  then show ?thesis unfolding micro_def by (intro exI[of _ "a + b"]) (simp add: add_divide_distrib)
qed

lemma micro_zero [simp]: "micro 0"
  unfolding micro_def by (intro exI[of _ 0]) simp

definition all_micro :: "usage_entry list \<Rightarrow> bool" where
  "all_micro es \<longleftrightarrow> (\<forall>e \<in> set es. micro (ue_costUsd e))"

definition costs :: "(usage_entry \<Rightarrow> bool) \<Rightarrow> usage_entry list \<Rightarrow> rat" where
  "costs P es = sum_list (map ue_costUsd (filter P es))"

lemma costs_append [simp]: "costs P (xs @ ys) = costs P xs + costs P ys"
  by (simp add: costs_def)

lemma micro_costs: "all_micro es \<Longrightarrow> micro (costs P es)"
  by (induction es) (auto simp: costs_def all_micro_def intro: micro_add)

abbreviation of_bead :: "string \<Rightarrow> usage_entry \<Rightarrow> bool" where
  "of_bead i \<equiv> \<lambda>e. us_beadId (ue_usage e) = i"

lemma fold_spend:
  "beadUsd (fold (spend_add i) es s) = beadUsd s + costs (of_bead i) es"
  "kshetraUsd (fold (spend_add i) es s) = kshetraUsd s + costs (\<lambda>_. True) es"
  by (induction es arbitrary: s) (auto simp: spend_add_def Let_def costs_def)

lemma spend_exact:
  assumes "all_micro es"
  shows "beadUsd (computeSpend es i) = costs (of_bead i) es" "kshetraUsd (computeSpend es i) = costs (\<lambda>_. True) es"
  using assms by (simp_all add: computeSpend_def Let_def fold_spend round_micro micro_costs)

lemma all_micro_append [simp]: "all_micro [] " "all_micro (xs @ ys) \<longleftrightarrow> all_micro xs \<and> all_micro ys"
  by (auto simp: all_micro_def)

lemma recorded_simps [simp]:
  "recorded [] = []" "recorded (xs @ ys) = recorded xs @ recorded ys" "recorded (RunStarted s n # xs) = recorded xs"
  "recorded (RetryNotice s n # xs) = recorded xs" "recorded (Slept k # xs) = recorded xs" "recorded (PolicyChecked d # xs) = recorded xs"
  "recorded (ModelSelected p m # xs) = recorded xs"
  by (simp_all add: recorded_def map_filter_append List.map_filter_simps)

text \<open>What holds of every entry a meter of the run writes holds of all it recorded.\<close>

lemma recorded_all:
  assumes P: "\<And>s isok u c. P (toUsageEntry prices (usage_of opts s isok u c))"
  shows "\<forall>e \<in> set (recorded (snd (runAttempts prices opts w n))). P e"
proof -
  have u: "\<forall>e \<in> set (recorded (reportUsage prices opts s f isok u calls)). P e" for s f isok u calls
    using P by (auto simp: reportUsage_def Let_def recorded_def List.map_filter_simps)
  have f: "\<forall>e \<in> set (recorded (reportFailure prices opts w n e)). P e" for w n e
  proof (cases "error_usage e")
    case None
    then show ?thesis by (simp add: reportFailure_def reportUnmetered_def recorded_def List.map_filter_simps)
  next
    case (Some uc)
    then show ?thesis using u by (cases uc) (simp add: reportFailure_def)
  qed
  have "P' = P \<Longrightarrow> opts' = opts \<Longrightarrow> prices' = prices \<Longrightarrow> \<forall>e \<in> set (recorded (snd (runAttempts prices' opts' w n))). P e" for P' opts' prices'
  proof (induction prices' opts' w n rule: runAttempts.induct)
    case (1 prices' opts' w n)
    note same = "1.prems"(2,3)
    show ?case
    proof (cases "rw_attempt w n")
      case (Inr r)
      then show ?thesis using u unfolding same by (simp add: runAttempts.simps[of prices opts w n] Let_def)
    next
      case (Inl e)
      then show ?thesis using "1.IH"[OF refl refl Inl refl] 1(2-) f unfolding same
        by (auto simp: runAttempts.simps[of prices opts w n] Let_def)
    qed
  qed
  then show ?thesis by simp
qed

lemma recorded_run:
  assumes "\<And>s isok u c. P (toUsageEntry prices (usage_of opts s isok u c))"
  shows "\<forall>e \<in> set (recorded (snd (runAgent prices decision opts w))). P e"
  using recorded_all[where P = P and prices = prices and opts = opts and w = w and n = 1, OF assms] by (simp add: runAgent_def Let_def split: policy_decision.split)

lemma recorded_micro: "all_micro (recorded (snd (runAgent prices decision opts w)))"
  unfolding all_micro_def by (rule recorded_run) (simp add: toUsageEntry_def costFor_def Let_def split: option.split)

lemma recorded_bead: "\<forall>e \<in> set (recorded (snd (runAgent prices decision opts w))). us_beadId (ue_usage e) = ro_beadId opts"
  by (rule recorded_run) (simp add: toUsageEntry_def usage_of_def)

lemma denied_spends_nothing: "recorded (snd (runAgent prices (Denied reason) opts w)) = []"
  by (simp add: runAgent_def Let_def)

text \<open>What a run that the policy allows costs, when its entries are written.\<close>

definition run_cost :: "price_table \<Rightarrow> run_opts \<times> run_world \<Rightarrow> rat" where
  "run_cost prices rw = costs (\<lambda>_. True) (recorded (snd (runAgent prices Allowed (fst rw) (snd rw))))"

text \<open>
  A cap holds up to one run: what is spent stays below the cap and one run's cost, if each run costs at most that and the
  policy denies every run once the cap is reached.
\<close>

lemma capped_fold:
  assumes "\<And>es rw. all_micro es \<Longrightarrow> all_micro (g rw es)"
    and "\<And>es rw. rw \<in> set rws \<Longrightarrow> all_micro es \<Longrightarrow> cap \<le> f es \<Longrightarrow> f (g rw es) \<le> f es"
    and "\<And>es rw. rw \<in> set rws \<Longrightarrow> all_micro es \<Longrightarrow> f (g rw es) \<le> f es + m"
    and "all_micro es" "f es < cap + m"
  shows "f (fold g rws es) < cap + (m :: rat) \<and> all_micro (fold g rws es)"
  using assms(2-5)
proof (induction rws arbitrary: es)
  case (Cons rw rws)
  have "f (g rw es) < cap + m"
    using Cons.prems(1)[of rw es] Cons.prems(2)[of rw es] Cons.prems(3,4) by (cases "cap \<le> f es") auto
  then show ?case using Cons.IH[of "g rw es"] Cons.prems assms(1)[of es rw] by simp
qed simp

lemma costs_all: "(\<forall>e \<in> set es. P e) \<Longrightarrow> costs P es = costs (\<lambda>_. True) es" "(\<forall>e \<in> set es. \<not> P e) \<Longrightarrow> costs P es = 0"
  by (auto simp: costs_def filter_id_conv[THEN iffD2] filter_empty_conv[THEN iffD2])

text \<open>What a run under the budget adds.\<close>

lemma budgeted_run_adds:
  fixes rw :: "run_opts \<times> run_world" and budget :: "budget_config option"
  defines "d es \<equiv> budget_mayProceed Allowed budget es (ro_kshetra (fst rw)) (ro_beadId (fst rw))"
  shows "all_micro es \<Longrightarrow> all_micro (budgeted_run prices budget rw es)"
    and "costs (\<lambda>_. True) (budgeted_run prices budget rw es) = costs (\<lambda>_. True) es + (if d es = Allowed then run_cost prices rw else 0)"
    and "costs (of_bead i) (budgeted_run prices budget rw es) =
      costs (of_bead i) es + (if d es = Allowed \<and> ro_beadId (fst rw) = i then run_cost prices rw else 0)"
proof -
  let ?r = "recorded (snd (runAgent prices (d es) (fst rw) (snd rw)))"
  have b: "budgeted_run prices budget rw es = es @ ?r" by (simp add: budgeted_run_def d_def)
  have c: "costs (\<lambda>_. True) ?r = (if d es = Allowed then run_cost prices rw else 0)"
    by (cases "d es") (simp_all add: run_cost_def denied_spends_nothing costs_def)
  show "all_micro es \<Longrightarrow> all_micro (budgeted_run prices budget rw es)" unfolding b by (simp add: recorded_micro)
  show "costs (\<lambda>_. True) (budgeted_run prices budget rw es) = costs (\<lambda>_. True) es + (if d es = Allowed then run_cost prices rw else 0)"
    unfolding b by (simp add: c)
  have "costs (of_bead i) ?r = (if ro_beadId (fst rw) = i then costs (\<lambda>_. True) ?r else 0)"
    using recorded_bead[of prices "d es" "fst rw" "snd rw"] costs_all[of ?r "of_bead i"] by auto
  then show "costs (of_bead i) (budgeted_run prices budget rw es) =
      costs (of_bead i) es + (if d es = Allowed \<and> ro_beadId (fst rw) = i then run_cost prices rw else 0)"
    unfolding b costs_append c by simp
qed

lemma denied_at_cap:
  assumes "all_micro es"
  shows "perBeadUsd caps = Some c \<Longrightarrow> c \<le> costs (of_bead i) es \<Longrightarrow> budget_mayProceed Allowed (Some caps) es k i \<noteq> Allowed"
    and "perKshetraUsd caps = Some c \<Longrightarrow> c \<le> costs (\<lambda>_. True) es \<Longrightarrow> budget_mayProceed Allowed (Some caps) es k i \<noteq> Allowed"
  by (auto simp: budget_mayProceed_def isUncapped_def at_cap_def Let_def spend_exact[OF assms])

text \<open>
  C29: Budgets hold up to one run. However many runs follow one another under caps, on tasks and models in any order, with
  whatever retries and failures: if each run by itself costs at most \<open>m\<close>, the spend of a task stays below its cap plus
  \<open>m\<close>, and so does the Kshetra's, from any ledger that is below. The spend a policy reads is the exact sum of the
  entries' costs.
\<close>

theorem budgets_hold:
  assumes "all_micro entries" and "0 \<le> m" and "\<forall>rw \<in> set rws. run_cost prices rw \<le> m"
    and "after = budgeted_runs prices (Some caps) rws entries"
  shows "beadUsd (computeSpend after i) = costs (of_bead i) after \<and> kshetraUsd (computeSpend after i) = costs (\<lambda>_. True) after \<and>
    (case perBeadUsd caps of None \<Rightarrow> True
     | Some c \<Rightarrow> beadUsd (computeSpend entries i) < c + m \<longrightarrow> beadUsd (computeSpend after i) < c + m) \<and>
    (case perKshetraUsd caps of None \<Rightarrow> True
     | Some c \<Rightarrow> kshetraUsd (computeSpend entries i) < c + m \<longrightarrow> kshetraUsd (computeSpend after i) < c + m)"
proof -
  let ?g = "budgeted_run prices (Some caps)"
  have after: "after = fold ?g rws entries" using assms(4) by (simp add: budgeted_runs_def)
  have mic: "all_micro (fold ?g rws entries)" using assms(1)
    by (induction rws arbitrary: entries) (auto intro: budgeted_run_adds(1))
  have bead: "costs (of_bead i) (fold ?g rws entries) < c + m" if "perBeadUsd caps = Some c" "costs (of_bead i) entries < c + m" for c
  proof (rule capped_fold[THEN conjunct1])
    show "costs (of_bead i) (?g rw es) \<le> costs (of_bead i) es" if "all_micro es" "c \<le> costs (of_bead i) es" for es rw
      using denied_at_cap(1)[OF that(1) \<open>perBeadUsd caps = Some c\<close> that(2)] by (auto simp: budgeted_run_adds(3))
    show "costs (of_bead i) (?g rw es) \<le> costs (of_bead i) es + m" if "rw \<in> set rws" for es rw
      using that assms(2,3) by (auto simp: budgeted_run_adds(3))
  qed (use assms(1) that in \<open>auto intro: budgeted_run_adds(1)\<close>)
  have all: "costs (\<lambda>_. True) (fold ?g rws entries) < c + m" if "perKshetraUsd caps = Some c" "costs (\<lambda>_. True) entries < c + m" for c
  proof (rule capped_fold[THEN conjunct1])
    show "costs (\<lambda>_. True) (?g rw es) \<le> costs (\<lambda>_. True) es" if "all_micro es" "c \<le> costs (\<lambda>_. True) es" for es rw
      using denied_at_cap(2)[OF that(1) \<open>perKshetraUsd caps = Some c\<close> that(2)] by (auto simp: budgeted_run_adds(2))
    show "costs (\<lambda>_. True) (?g rw es) \<le> costs (\<lambda>_. True) es + m" if "rw \<in> set rws" for es rw
      using that assms(2,3) by (auto simp: budgeted_run_adds(2))
  qed (use assms(1) that in \<open>auto intro: budgeted_run_adds(1)\<close>)
  show ?thesis using bead all unfolding after by (auto simp: spend_exact[OF mic] spend_exact[OF assms(1)] split: option.split)
qed

lemma demo_cost: "run_cost [] (demo_opts, demo_world) = 2"
proof -
  have t: "looksTransient ''API Error: 529 Overloaded''" by code_simp
  have p: "priceFor [] ''anthropic'' ''claude-haiku-4-5'' = Some (price4 1 5 (1 / 10) (125 / 100))"
    by (simp add: priceFor_def BUILT_IN_PRICES_def orElse_def)
  have c1: "fst (costFor [] (usage_of demo_opts s isok (Some (NO_TOKENS\<lparr>tu_input := 1000000\<rparr>)) n)) = 1" for s isok n
    by (simp add: costFor_def usage_of_def demo_opts_def p orElse_def NO_TOKENS_def price4_def round_micro[of 1] micro_def
      exI[of _ "1000000 :: int"])
  have c2: "fst (costFor [] (usage_of demo_opts s isok (Some (NO_TOKENS\<lparr>tu_output := 200000\<rparr>)) n)) = 1" for s isok n
    by (simp add: costFor_def usage_of_def demo_opts_def p orElse_def NO_TOKENS_def price4_def round_micro[of 1] micro_def
      exI[of _ "1000000 :: int"])
  have w: "rw_attempt demo_world 1 = Inl (RunFailed ''API Error: 529 Overloaded'' (Some (NO_TOKENS\<lparr>tu_input := 1000000\<rparr>, 3)))"
    "rw_attempt demo_world 2 = Inr \<lparr>ar_usage = Some (NO_TOKENS\<lparr>tu_output := 200000\<rparr>), ar_toolCalls = 5, ar_output = JNull\<rparr>"
    "\<not> rw_aborted demo_world n" "\<not> rw_abortedAsleep demo_world n" "\<not> rw_meterFails demo_world n" for n
    by (simp_all add: demo_world_def)
  have "map ue_costUsd (recorded (snd (runAttempts [] demo_opts demo_world 2))) = [1]"
    by (simp add: runAttempts.simps[of "[]" demo_opts demo_world 2] Let_def w(2,5) reportUsage_def recorded_def List.map_filter_simps
      toUsageEntry_def c2)
  moreover have "map ue_costUsd (recorded (snd (runAttempts [] demo_opts demo_world 1))) =
      1 # map ue_costUsd (recorded (snd (runAttempts [] demo_opts demo_world 2)))"
    by (subst runAttempts.simps) (simp add: Let_def w(1) w(3,4,5) t MAX_ATTEMPTS_def reportFailure_def reportUsage_def
      recorded_def List.map_filter_simps map_filter_append toUsageEntry_def c1 numeral_2_eq_2 del: One_nat_def)
  ultimately show ?thesis by (simp add: run_cost_def costs_def runAgent_def Let_def)
qed

text \<open>Three such runs under a cap of a dollar: the first goes over it, and no other spends anything more than one run would.\<close>

theorem budgets_hold_witness:
  "beadUsd (computeSpend (budgeted_runs [] (Some \<lparr>perBeadUsd = Some 1, perKshetraUsd = None\<rparr>)
     [(demo_opts, demo_world), (demo_opts, demo_world), (demo_opts, demo_world)] []) ''b'') < 1 + 2"
proof -
  have "beadUsd (computeSpend [] ''b'') = 0"
    using spend_exact(1)[of "[]" "''b''"] by (simp add: costs_def)
  then show ?thesis
    using budgets_hold[of "[]" 2 "[(demo_opts, demo_world), (demo_opts, demo_world), (demo_opts, demo_world)]" "[]" _
      "\<lparr>perBeadUsd = Some 1, perKshetraUsd = None\<rparr>" "''b''", OF _ _ _ refl] demo_cost by simp
qed

subsection \<open>The ledger\<close>

text \<open>A sink that leaves the ledger alone, or throws.\<close>

definition other_sink :: "event_sink \<Rightarrow> bool" where
  "other_sink s \<longleftrightarrow> (\<forall>evt fs fs'. sk_handle s evt fs = Inr fs' \<longrightarrow> fs_ledger fs' = fs_ledger fs)"

lemma local_is_other [simp]: "other_sink (localFileSink disk)"
  by (auto simp: other_sink_def localFileSink_def split: option.splits)

lemma others_leave: "\<forall>s \<in> set ss. other_sink s \<Longrightarrow> fs_ledger (registry_handle ss evt fs) = fs_ledger fs"
  by (induction ss arbitrary: fs) (auto simp: other_sink_def split: sum.split)

lemma handle_append: "registry_handle (xs @ ys) evt fs = registry_handle ys evt (registry_handle xs evt fs)"
  by (induction xs arbitrary: fs) simp_all

text \<open>
  What writes a Kshetra's ledger: an event emitted to a worker's sinks, the ledger's among them, and a command's own entry.
  Each write has its disk, and each event the sinks that stand beside the ledger's when it is emitted.
\<close>

datatype ledger_act =
    Emitted "event_sink list" "event_sink list" "string option" string int logged_event
  | Appended "string option" int logged_event

fun ledger_write :: "string \<Rightarrow> ledger_act \<Rightarrow> correlation \<times> files \<Rightarrow> correlation \<times> files" where
  "ledger_write k (Emitted before later disk uuid now evt) w = emit_event (before @ makeLedgerSink k disk # later) uuid now evt w"
| "ledger_write k (Appended disk now evt) w = (fst w, case appendLedgerEvent disk now evt (snd w) of Inr fs \<Rightarrow> fs | Inl err \<Rightarrow> snd w)"

fun others_of :: "ledger_act \<Rightarrow> event_sink set" where
  "others_of (Emitted before later disk uuid now evt) = set before \<union> set later"
| "others_of (Appended disk now evt) = {}"

text \<open>The entry a write leaves, without the ids of the run and the lot it is put down to, if it leaves one.\<close>

definition unlinked :: "ledger_entry \<Rightarrow> ledger_entry" where
  "unlinked e = e\<lparr>lg_runId := None, lg_lotId := None\<rparr>"

fun leaves_entry :: "string \<Rightarrow> ledger_act \<Rightarrow> ledger_entry option" where
  "leaves_entry k (Emitted before later disk uuid now evt) =
     (if disk = None \<and> le_kshetra evt = k \<and> le_type evt \<in> set DECISION_KINDS then Some (unlinked (toLedgerEntry (evt\<lparr>le_ts := now\<rparr>))) else None)"
| "leaves_entry k (Appended disk now evt) =
     (if disk = None \<and> le_type evt \<in> set DECISION_KINDS then Some (unlinked (toLedgerEntry (evt\<lparr>le_ts := now\<rparr>))) else None)"

lemma writes_entry:
  "fs_ledger (case writeLedgerEntry disk e fs of Inr fs1 \<Rightarrow> fs1 | Inl err \<Rightarrow> fs\<lparr>fs_reports := r err\<rparr>) =
     fs_ledger fs @ (if disk = None \<and> le_type e \<in> set DECISION_KINDS then [toLedgerEntry e] else [])"
  "fs_ledger (case writeLedgerEntry disk e fs of Inr fs1 \<Rightarrow> fs1 | Inl err \<Rightarrow> fs) =
     fs_ledger fs @ (if disk = None \<and> le_type e \<in> set DECISION_KINDS then [toLedgerEntry e] else [])"
  by (auto simp: writeLedgerEntry_def isDecisionGrade_def split: option.splits)

lemma write_ledger:
  assumes "\<forall>s \<in> others_of x. other_sink s"
  shows "\<exists>es. fs_ledger (snd (ledger_write k x w)) = fs_ledger (snd w) @ es \<and>
    map unlinked es = (case leaves_entry k x of Some e \<Rightarrow> [e] | None \<Rightarrow> [])"
proof (cases x)
  case (Emitted before later disk uuid now evt)
  have o: "\<forall>s \<in> set before. other_sink s" "\<forall>s \<in> set later. other_sink s" using assms by (auto simp: Emitted)
  show ?thesis using others_leave[OF o(1)] others_leave[OF o(2)]
    by (simp add: Emitted emit_event_def Let_def handle_append makeLedgerSink_def writes_entry unlinked_def toLedgerEntry_def)
next
  case (Appended disk now evt)
  show ?thesis by (simp add: Appended appendLedgerEvent_def writes_entry)
qed

lemma fold_write_ledger:
  assumes "\<forall>x \<in> set ws. \<forall>s \<in> others_of x. other_sink s"
  shows "\<exists>es. fs_ledger (snd (fold (ledger_write k) ws w)) = fs_ledger (snd w) @ es \<and> map unlinked es = List.map_filter (leaves_entry k) ws"
  using assms
proof (induction ws arbitrary: w)
  case (Cons x ws)
  obtain es where 1: "fs_ledger (snd (ledger_write k x w)) = fs_ledger (snd w) @ es"
      "map unlinked es = (case leaves_entry k x of Some e \<Rightarrow> [e] | None \<Rightarrow> [])"
    using write_ledger[of x k w] Cons.prems by auto
  obtain fs where "fs_ledger (snd (fold (ledger_write k) ws (ledger_write k x w))) = fs_ledger (snd (ledger_write k x w)) @ fs"
      "map unlinked fs = List.map_filter (leaves_entry k) ws"
    using Cons.IH[of "ledger_write k x w"] Cons.prems by auto
  with 1 show ?case by (intro exI[of _ "es @ fs"]) (auto simp: List.map_filter_simps split: option.split)
qed (simp add: List.map_filter_simps)

text \<open>
  C30: The ledger of a Kshetra holds the decisions. Whatever is emitted at its worker and appended by commands, in any order,
  whatever was in the ledger, whichever appends to it fail, and whatever other sinks stand beside the ledger's and however
  they fail: what was in the ledger stays, and after it stand, once each and in order, exactly the decision-grade
  events (those emitted for the Kshetra, and the commands') whose append did not fail, with their times, tasks, sessions and
  payloads. A reader sees of it, in its order, exactly the asked task's entries of the kinds its clearance covers: an agent the four
  turning points of a task, an operator those and six more, an audit all. A failed append loses its event: nothing writes it later.
\<close>

theorem ledger_holds_the_decisions:
  assumes "\<forall>x \<in> set ws. \<forall>s \<in> others_of x. other_sink s"
  shows "(\<exists>es. fs_ledger (snd (fold (ledger_write k) ws w)) = fs_ledger (snd w) @ es \<and> map unlinked es = List.map_filter (leaves_entry k) ws) \<and>
    readLedger (fs_ledger (snd (fold (ledger_write k) ws w))) i a = filter (\<lambda>e. lg_beadId e = i \<and> (case a of
          AgentAudience \<Rightarrow> lg_kind e \<in> {''task_claimed'', ''silpi_done'', ''viharapala_done'', ''task_done''}
        | OperatorAudience \<Rightarrow> lg_kind e \<in> {''task_claimed'', ''silpi_done'', ''viharapala_done'', ''task_done'', ''run_started'', ''policy_decision'',
            ''gate_result'', ''run_usage'', ''run_unmetered'', ''phase_changed''}
        | AuditAudience \<Rightarrow> True)) (fs_ledger (snd (fold (ledger_write k) ws w)))"
proof (intro conjI fold_write_ledger assms)
  have "rankOf kd \<le> AUDIENCE_RANK a \<longleftrightarrow> (case a of
          AgentAudience \<Rightarrow> kd \<in> {''task_claimed'', ''silpi_done'', ''viharapala_done'', ''task_done''}
        | OperatorAudience \<Rightarrow> kd \<in> {''task_claimed'', ''silpi_done'', ''viharapala_done'', ''task_done'', ''run_started'', ''policy_decision'',
            ''gate_result'', ''run_usage'', ''run_unmetered'', ''phase_changed''}
        | AuditAudience \<Rightarrow> True)" for kd
    by (cases a) (simp_all add: rankOf_def audienceFor_def)
  then show "readLedger (fs_ledger (snd (fold (ledger_write k) ws w))) i a = filter (\<lambda>e. lg_beadId e = i \<and> (case a of
          AgentAudience \<Rightarrow> lg_kind e \<in> {''task_claimed'', ''silpi_done'', ''viharapala_done'', ''task_done''}
        | OperatorAudience \<Rightarrow> lg_kind e \<in> {''task_claimed'', ''silpi_done'', ''viharapala_done'', ''task_done'', ''run_started'', ''policy_decision'',
            ''gate_result'', ''run_usage'', ''run_unmetered'', ''phase_changed''}
        | AuditAudience \<Rightarrow> True)) (fs_ledger (snd (fold (ledger_write k) ws w)))"
    unfolding readLedger_def by (intro filter_cong refl) simp
qed

definition demo_event :: "string \<Rightarrow> string \<Rightarrow> logged_event" where
  "demo_event kind k = \<lparr>le_ts = 0, le_kshetra = k, le_beadId = Some ''b'', le_runId = None, le_lotId = None, le_sessionId = None,
     le_type = kind, le_rest = []\<rparr>"

definition demo_writes :: "ledger_act list" where
  "demo_writes = (let ev = \<lambda>disk u now evt. Emitted [localFileSink (Some ''disk full'')] [localFileSink None] disk u now evt
     in [ev None ''u1'' 1 (demo_event ''task_claimed'' ''k''), ev None ''u2'' 2 (demo_event ''agent_text'' ''k''),
         ev None ''u3'' 3 (demo_event ''merge_done'' ''other''), ev (Some ''disk full'') ''u4'' 4 (demo_event ''gate_result'' ''k''),
         ev None ''u5'' 5 (demo_event ''run_started'' ''k''), Appended None 6 (demo_event ''state_frozen'' ''k'')])"

text \<open>Of six writes three leave an entry: one event is not a decision, one another Kshetra's, one met a full disk.\<close>

theorem ledger_holds_the_decisions_witness:
  "map (\<lambda>e. (lg_ts e, lg_kind e)) (fs_ledger (snd (fold (ledger_write ''k'') demo_writes
     (\<lparr>co_runId = None, co_lotId = None\<rparr>, \<lparr>fs_activity = [], fs_ledger = [], fs_reports = []\<rparr>)))) =
   [(1, ''task_claimed''), (5, ''run_started''), (6, ''state_frozen'')]"
proof -
  have o: "\<forall>x \<in> set demo_writes. \<forall>s \<in> others_of x. other_sink s" by (simp add: demo_writes_def Let_def)
  have l: "map (\<lambda>e. (lg_ts e, lg_kind e)) (List.map_filter (leaves_entry ''k'') demo_writes) = [(1, ''task_claimed''), (5, ''run_started''), (6, ''state_frozen'')]"
    by code_simp
  have u: "map (\<lambda>e. (lg_ts e, lg_kind e)) (map unlinked es) = map (\<lambda>e. (lg_ts e, lg_kind e)) es" for es
    by (simp add: unlinked_def)
  obtain es where "fs_ledger (snd (fold (ledger_write ''k'') demo_writes
       (\<lparr>co_runId = None, co_lotId = None\<rparr>, \<lparr>fs_activity = [], fs_ledger = [], fs_reports = []\<rparr>))) = es"
      "map unlinked es = List.map_filter (leaves_entry ''k'') demo_writes"
    using ledger_holds_the_decisions[OF o, THEN conjunct1] by (metis append_Nil files.select_convs(2) snd_conv)
  then show ?thesis using u[of es] l by simp
qed

end
