(* ===== verification/Worker.thy ===== *)
theory Worker
  imports ByHand Scheduler
begin

text \<open>
  One worker on one Kshetra: who owns it on its machine (src/src/cli/pid.ts), how it holds a claim while agents run
  (src/src/policy/sthapathi/leases.ts) and the scheduler's hooks on the engine (src/src/policy/sthapathi/hooks.ts). A call of the
  database is tried again while it is unavailable; whether it stays away past the window is an input of each call. What
  an agent's run does to the rows, and which claims it ends, is an argument.
\<close>

subsection \<open>Ownership of a Kshetra (pid.ts)\<close>

datatype claim_result = Owned | OwnedBy nat

text \<open>A claim and a release each run under the lock file, so each is one step on the pid file.\<close>

definition claimWorkerPid :: "(nat \<Rightarrow> bool) \<Rightarrow> nat \<Rightarrow> nat option \<Rightarrow> claim_result \<times> nat option" where
  "claimWorkerPid isOwnerLive pid file = (case file of
       Some existing \<Rightarrow> if existing = pid then (Owned, file)
         else if isOwnerLive existing then (OwnedBy existing, file) else (Owned, Some pid)
     | None \<Rightarrow> (Owned, Some pid))"

definition releaseWorkerPid :: "nat \<Rightarrow> nat option \<Rightarrow> nat option" where
  "releaseWorkerPid pid file = (if file = Some pid then None else file)"

text \<open>\<open>exists\<close>: whether a process answers; \<open>cmdline\<close>: whether its command line is a worker's, where it can be read.\<close>

definition isLiveWorker :: "(nat \<Rightarrow> bool) \<Rightarrow> (nat \<Rightarrow> bool option) \<Rightarrow> nat \<Rightarrow> bool" where
  "isLiveWorker exists cmdline pid \<longleftrightarrow> exists pid \<and> orElse (cmdline pid) True"

text \<open>The machine: the pid file, the worker processes that run, and those that hold a claim they have not released.\<close>

record machine =
  mc_file :: "nat option"
  mc_alive :: "nat set"
  mc_owners :: "nat set"

text \<open>
  A process of another program may have a dead worker's pid; \<open>live\<close> may call it a worker, never a live worker a dead one.
  A claim and a release are each one step, as the lock on the pid file makes them. Not steps are the breaking of a lock
  held for too long, when its holder is slow and not dead, and the removal of the file by \<open>shreni stop\<close>, which found
  its owner dead and does not hold the lock, so that it may remove a claim made since.
\<close>

inductive machine_step :: "machine \<Rightarrow> machine \<Rightarrow> bool" where
  starts: "p \<notin> mc_alive s \<Longrightarrow> machine_step s (s\<lparr>mc_alive := insert p (mc_alive s)\<rparr>)"
| claims: "p \<in> mc_alive s \<Longrightarrow> (\<forall>q. q \<in> mc_alive s \<longrightarrow> live q) \<Longrightarrow> claimWorkerPid live p (mc_file s) = (r, file) \<Longrightarrow>
    machine_step s (s\<lparr>mc_file := file, mc_owners := (if r = Owned then insert p (mc_owners s) else mc_owners s)\<rparr>)"
| releases: "p \<in> mc_alive s \<Longrightarrow> machine_step s (s\<lparr>mc_file := releaseWorkerPid p (mc_file s), mc_owners := mc_owners s - {p}\<rparr>)"
| dies: "p \<in> mc_alive s \<Longrightarrow> machine_step s (s\<lparr>mc_alive := mc_alive s - {p}, mc_owners := mc_owners s - {p}\<rparr>)"

subsection \<open>Trying again while the database is away (leases.ts)\<close>

definition HEARTBEAT_MS :: int where
  "HEARTBEAT_MS = 2 * 60000"

definition UNAVAILABLE_RETRY_MS :: int where
  "UNAVAILABLE_RETRY_MS = 60000"

fun is_unavailable :: "tg_error \<Rightarrow> bool" where
  "is_unavailable (Unavailable _) \<longleftrightarrow> True"
| "is_unavailable _ \<longleftrightarrow> False"

text \<open>The waits between tries: a second, doubled each time up to ten.\<close>

definition retry_wait :: "nat \<Rightarrow> int" where
  "retry_wait n = min (1000 * 2 ^ n) 10000"

text \<open>
  \<open>outcome n\<close> and \<open>took n\<close> are the \<open>n\<close>th try's result and time; \<open>t\<close> is the clock. The result is paired with the time it came.
\<close>

function retry_until :: "int \<Rightarrow> (nat \<Rightarrow> tg_error + 'a) \<Rightarrow> (nat \<Rightarrow> nat) \<Rightarrow> nat \<Rightarrow> int \<Rightarrow> (tg_error + 'a) \<times> int" where
  "retry_until until outcome took n t = (let now = t + int (took n) in
     case outcome n of
       Inr x \<Rightarrow> (Inr x, now)
     | Inl e \<Rightarrow> if \<not> is_unavailable e \<or> until \<le> now then (Inl e, now)
         else retry_until until outcome took (n + 1) (now + min (retry_wait n) (max 0 (until - now))))"
  by pat_completeness auto
termination
  by (relation "measure (\<lambda>(until, outcome, took, n, t). nat (until - t))") (auto simp: retry_wait_def intro: order.strict_trans1[of _ 0])

declare retry_until.simps [simp del]

definition retryUnavailable :: "int \<Rightarrow> (nat \<Rightarrow> tg_error + 'a) \<Rightarrow> (nat \<Rightarrow> nat) \<Rightarrow> int \<Rightarrow> (tg_error + 'a) \<times> int" where
  "retryUnavailable forMs outcome took t = retry_until (t + forMs) outcome took 0 t"

subsection \<open>The queue and the held claim (leases.ts)\<close>

definition within_filter :: "string option \<Rightarrow> task_filter" where
  "within_filter within = noFilter\<lparr>fl_within := filled within\<rparr>"

definition queue_peek :: "string option \<Rightarrow> rows \<Rightarrow> tg_error + task option" where
  "queue_peek within db = bindE (ready taskLifecycle db ((within_filter within)\<lparr>fl_limit := Some 1\<rparr>)) (\<lambda>ts.
     Inr (case ts of [] \<Rightarrow> None | t # _ \<Rightarrow> Some t))"

definition queue_claim :: "actor \<Rightarrow> string \<Rightarrow> string option \<Rightarrow> string list \<Rightarrow> string list \<Rightarrow> string \<Rightarrow> string \<Rightarrow> claim option run" where
  "queue_claim as worker within swept taken uuid req = answers (\<lambda>db. call_claim taskLifecycle as
     \<lparr>co_worker = worker, co_leaseMs = LEASE_MS, co_filter = within_filter within, co_requestId = Some req\<rparr> swept taken uuid db db)"

definition queue_sweep :: "string list \<Rightarrow> unit run" where
  "queue_sweep locked = engine (\<lambda>db. rows_after (transaction (expireLeases taskLifecycle locked) db))"

text \<open>A claim already ended is left alone.\<close>

definition queue_release :: "actor \<Rightarrow> claim \<Rightarrow> string \<Rightarrow> string \<Rightarrow> unit run" where
  "queue_release as c why req = orCatch (moveTask as (Some (cl_attemptId c)) (t_id (cl_task c)) ''release'' why req)
     (\<lambda>e. case e of LeaseLost i att \<Rightarrow> returns () | _ \<Rightarrow> fails_with e)"

text \<open>The beats while work runs: whether the work has ended its claim by then, and the engine's answer.\<close>

fun beats :: "claim \<Rightarrow> (bool \<times> (tg_error + claim)) list \<Rightarrow> claim \<times> tg_error option" where
  "beats current [] = (current, None)"
| "beats current ((ended, answer) # bs) = (if ended then beats current bs
     else case answer of Inr c \<Rightarrow> beats c bs
       | Inl (LeaseLost i att) \<Rightarrow> (case beats current bs of (c, lost) \<Rightarrow> (c, Some (orElse lost (LeaseLost i att))))
       | Inl e \<Rightarrow> beats current bs)"

definition whileHeld :: "claim \<Rightarrow> (bool \<times> (tg_error + claim)) list \<Rightarrow> tg_error + 'a \<Rightarrow> tg_error + 'a" where
  "whileHeld c bs work = (case snd (beats c bs) of Some lost \<Rightarrow> Inl lost | None \<Rightarrow> work)"

subsection \<open>The scheduler's hooks (hooks.ts)\<close>

datatype hook_effect = OnUnavailable | OnLeaseLost string | OnPreflightRefused string string

record hook_world =
  hw_rows :: rows
  hw_claims :: "(string \<times> claim) list"
  hw_ended :: "string list"
  hw_effects :: "hook_effect list"

definition hook_effect_add :: "hook_effect \<Rightarrow> hook_world \<Rightarrow> hook_world" where
  "hook_effect_add e w = w\<lparr>hw_effects := hw_effects w @ [e]\<rparr>"

definition forget :: "string \<Rightarrow> (string \<times> 'a) list \<Rightarrow> (string \<times> 'a) list" where
  "forget i xs = filter (\<lambda>x. fst x \<noteq> i) xs"

text \<open>
  A database step: its value, or nothing when the database stayed away (then the Kshetra is paused). Any other failure is
  thrown. \<open>away\<close> is when no try reached it.
\<close>

definition db_step :: "bool \<Rightarrow> 'a run \<Rightarrow> hook_world \<Rightarrow> (tg_error + 'a option) \<times> hook_world" where
  "db_step away f w = (if away then (Inr None, hook_effect_add OnUnavailable w)
     else case f (hw_rows w) of
       (Inr x, db) \<Rightarrow> (Inr (Some x), w\<lparr>hw_rows := db\<rparr>)
     | (Inl e, db) \<Rightarrow> if is_unavailable e then (Inr None, hook_effect_add OnUnavailable (w\<lparr>hw_rows := db\<rparr>))
         else (Inl e, w\<lparr>hw_rows := db\<rparr>))"

definition hook_selectNext :: "bool \<Rightarrow> string option \<Rightarrow> string list \<Rightarrow> hook_world \<Rightarrow> (tg_error + task option) \<times> hook_world" where
  "hook_selectNext away within locked w =
     (case db_step away (andThen (queue_sweep locked) (\<lambda>_. reads (queue_peek within))) w of
        (Inl e, w1) \<Rightarrow> (Inl e, w1) | (Inr None, w1) \<Rightarrow> (Inr None, w1) | (Inr (Some t), w1) \<Rightarrow> (Inr t, w1))"

text \<open>
  What a preparation is given: the ids and the locks of its claim, whether its claimed task is a follow-up (a failed
  question is a refusal), the answer of git's preflight, and the calls for a refused follow-up.
\<close>

record prepare_deps =
  pd_claim :: "claim option run"
  pd_isFollowup :: "task \<Rightarrow> string + bool"
  pd_preflight :: "task \<Rightarrow> string + unit"
  pd_refuseFollowup :: "string \<Rightarrow> unit run"
  pd_release :: "claim \<Rightarrow> unit run"
  pd_awayClaim :: bool
  pd_awayRelease :: bool

definition check_task :: "prepare_deps \<Rightarrow> task \<Rightarrow> bool \<times> (string + unit)" where
  "check_task d t = (case pd_isFollowup d t of Inl e \<Rightarrow> (False, Inl e) | Inr f \<Rightarrow> (f, pd_preflight d t))"

definition hook_prepareTask :: "prepare_deps \<Rightarrow> hook_world \<Rightarrow> (tg_error + (task \<times> bool) option) \<times> hook_world" where
  "hook_prepareTask d w = (case db_step (pd_awayClaim d) (pd_claim d) w of
       (Inl e, w1) \<Rightarrow> (Inl e, w1)
     | (Inr None, w1) \<Rightarrow> (Inr None, w1)
     | (Inr (Some None), w1) \<Rightarrow> (Inr None, w1)
     | (Inr (Some (Some c)), w1) \<Rightarrow>
         let i = t_id (cl_task c);
             w2 = w1\<lparr>hw_claims := (i, c) # forget i (hw_claims w1), hw_ended := removeAll i (hw_ended w1)\<rparr> in
         (case check_task d (cl_task c) of
            (followup, Inr u) \<Rightarrow> (Inr (Some (cl_task c, followup)), w2)
          | (followup, Inl why) \<Rightarrow>
              (case db_step (pd_awayRelease d) (if followup then pd_refuseFollowup d i else pd_release d c) w2 of
                 (Inl e, w3) \<Rightarrow> (Inl e, w3)
               | (Inr x, w3) \<Rightarrow> (Inr None, hook_effect_add (OnPreflightRefused i why)
                   (w3\<lparr>hw_claims := forget i (hw_claims w3), hw_ended := removeAll i (hw_ended w3)\<rparr>)))))"

fun is_lease_lost :: "tg_error + 'a \<Rightarrow> bool" where
  "is_lease_lost (Inl (LeaseLost i att)) \<longleftrightarrow> True"
| "is_lease_lost _ \<longleftrightarrow> False"

text \<open>The run of a prepared task: \<open>work\<close> is what it did, under its heartbeats, to the rows and to the ended claims.\<close>

record run_deps =
  rn_work :: "hook_world \<Rightarrow> (tg_error + unit) \<times> hook_world"
  rn_beats :: "(bool \<times> (tg_error + claim)) list"
  rn_release :: "claim \<Rightarrow> unit run"
  rn_awayRelease :: bool

definition hook_runTask :: "run_deps \<Rightarrow> string \<Rightarrow> hook_world \<Rightarrow> (tg_error + unit) \<times> hook_world" where
  "hook_runTask d i w = (case map_of (hw_claims w) i of
       None \<Rightarrow> (Inl (Fatal (''taskgraph: no claim held for '' @ i)), w)
     | Some c \<Rightarrow>
         let (out, w1) = rn_work d w;
             r = whileHeld c (rn_beats d) out;
             w2 = w1\<lparr>hw_claims := forget i (hw_claims w1)\<rparr>;
             isEnded = i \<in> set (hw_ended w1);
             lost = is_lease_lost r in
         if lost \<and> \<not> isEnded then (Inr (), hook_effect_add (OnLeaseLost i) w2)
         else if \<not> lost \<and> r \<noteq> Inr () then (r, w2)
         else if isEnded then (Inr (), w2\<lparr>hw_ended := removeAll i (hw_ended w2)\<rparr>)
         else (case db_step (rn_awayRelease d) (rn_release d c) w2 of (Inl e, w3) \<Rightarrow> (Inl e, w3) | (Inr x, w3) \<Rightarrow> (Inr (), w3)))"

end
