(* ===== verification/HoldProperties.thy ===== *)
theory HoldProperties
  imports Worker Scenarios
begin

text \<open>
  What holding work guarantees: a Kshetra has one worker on its machine, a database that is away is tried for its window and
  no longer, and a run gives its claim back.
\<close>

subsection \<open>One worker\<close>

definition machine_init :: "machine \<Rightarrow> bool" where
  "machine_init s \<longleftrightarrow> mc_owners s = {}"

definition owned :: "machine \<Rightarrow> bool" where
  "owned s \<longleftrightarrow> (\<forall>p \<in> mc_owners s. mc_file s = Some p \<and> p \<in> mc_alive s)"

lemma machine_keeps: "machine_step s s' \<Longrightarrow> owned s \<Longrightarrow> owned s'"
  by (induction rule: machine_step.induct) (auto simp: owned_def claimWorkerPid_def releaseWorkerPid_def split: option.splits if_splits)

interpretation kshetra: inductive_invariant machine_init machine_step owned
  by unfold_locales (simp add: machine_init_def owned_def, blast intro: machine_keeps)

text \<open>
  C27: Whatever processes start, claim, release and die, in whatever order, a dead worker's pid going to others included: at most
  one live process owns the Kshetra, and the pid file names it, as long as no live worker's process is taken for a dead one.
  (Each claim and release is one step: the lock on the file is taken to work.)
\<close>

theorem one_worker:
  assumes "kshetra.reachable s" and "p \<in> mc_owners s" and "q \<in> mc_owners s"
  shows "p = q \<and> mc_file s = Some p \<and> p \<in> mc_alive s"
proof -
  have "mc_file s = Some p \<and> p \<in> mc_alive s" "mc_file s = Some q"
    using kshetra.holds[OF assms(1)] assms(2,3) unfolding owned_def by blast+
  then show ?thesis by simp
qed

text \<open>A worker dies holding the file; the next one takes it.\<close>

theorem one_worker_witness:
  "\<exists>s. kshetra.reachable s \<and> mc_owners s = {8} \<and> mc_file s = Some 8"
proof -
  let ?s0 = "\<lparr>mc_file = None, mc_alive = {7, 8}, mc_owners = {}\<rparr> :: machine"
  let ?s1 = "\<lparr>mc_file = Some 7, mc_alive = {7, 8}, mc_owners = {7}\<rparr> :: machine"
  let ?s2 = "\<lparr>mc_file = Some 7, mc_alive = {8}, mc_owners = {}\<rparr> :: machine"
  let ?s3 = "\<lparr>mc_file = Some 8, mc_alive = {8}, mc_owners = {8}\<rparr> :: machine"
  have "machine_step ?s0 ?s1"
    using claims[of 7 ?s0 "\<lambda>q. q \<in> {7, 8}" Owned "Some 7"] by (simp add: claimWorkerPid_def)
  moreover have "machine_step ?s1 ?s2" using dies[of 7 ?s1] by (simp add: insert_Diff_if)
  moreover have "machine_step ?s2 ?s3"
    using claims[of 8 ?s2 "\<lambda>q. q = 8" Owned "Some 8"] by (simp add: claimWorkerPid_def)
  ultimately have "kshetra.reachable ?s3"
    unfolding kshetra.reachable_def by (intro exI[of _ ?s0]) (auto simp: machine_init_def intro: rtranclp.rtrancl_into_rtrancl)
  then show ?thesis using one_worker[of ?s3 8 8] by (intro exI[of _ ?s3]) simp
qed

subsection \<open>A database that is away\<close>

text \<open>
  A call on an unavailable database is tried again and always ends: its result is the first that is not an outage, or else
  an outage met at the window's end or later; no try starts after the window has ended.
\<close>

lemma retry_ends:
  assumes "retryUnavailable forMs outcome took t = (r, at)"
  shows "\<exists>k. r = outcome k \<and> (\<forall>j < k. \<exists>e. outcome j = Inl e \<and> is_unavailable e) \<and>
    (\<forall>e. r = Inl e \<longrightarrow> is_unavailable e \<longrightarrow> t + forMs \<le> at) \<and> at \<le> max t (t + forMs) + int (took k)"
proof -
  have "\<exists>k \<ge> n. fst (retry_until u outcome took n s) = outcome k \<and> (\<forall>j. n \<le> j \<and> j < k \<longrightarrow> (\<exists>e. outcome j = Inl e \<and> is_unavailable e)) \<and>
      (\<forall>e. fst (retry_until u outcome took n s) = Inl e \<longrightarrow> is_unavailable e \<longrightarrow> u \<le> snd (retry_until u outcome took n s)) \<and>
      snd (retry_until u outcome took n s) \<le> max s u + int (took k)" for u n s
  proof (induction u outcome took n s rule: retry_until.induct)
    case (1 u outcome took n s)
    let ?now = "s + int (took n)"
    show ?case
    proof (cases "\<exists>e. outcome n = Inl e \<and> is_unavailable e \<and> ?now < u")
      case False
      then have "retry_until u outcome took n s = (outcome n, ?now)"
        by (auto simp: retry_until.simps[of u outcome took n s] Let_def split: sum.split)
      then show ?thesis using False by (intro exI[of _ n]) auto
    next
      case True
      then obtain e where e: "outcome n = Inl e" "is_unavailable e" "?now < u" by blast
      let ?s' = "?now + min (retry_wait n) (max 0 (u - ?now))"
      have step: "retry_until u outcome took n s = retry_until u outcome took (n + 1) ?s'"
        using e by (simp add: retry_until.simps[of u outcome took n s] Let_def)
      have le: "?s' \<le> u" using e(3) by simp
      from "1.IH"[OF refl e(1)] e obtain k where k: "n + 1 \<le> k" "fst (retry_until u outcome took (n + 1) ?s') = outcome k"
        "\<forall>j. n + 1 \<le> j \<and> j < k \<longrightarrow> (\<exists>e. outcome j = Inl e \<and> is_unavailable e)"
        "\<forall>e. fst (retry_until u outcome took (n + 1) ?s') = Inl e \<longrightarrow> is_unavailable e \<longrightarrow> u \<le> snd (retry_until u outcome took (n + 1) ?s')"
        "snd (retry_until u outcome took (n + 1) ?s') \<le> max ?s' u + int (took k)" by auto
      have "\<exists>e. outcome j = Inl e \<and> is_unavailable e" if "n \<le> j" "j < k" for j
        using k(3) e(1,2) that by (cases "j = n") auto
      then show ?thesis unfolding step using k le by (intro exI[of _ k]) auto
    qed
  qed
  from this[of 0 "t + forMs" t] show ?thesis using assms by (auto simp: retryUnavailable_def)
qed

lemma retry_ends_witness:
  "\<exists>k. retryUnavailable 5000 (\<lambda>n. if n < 2 then Inl (Unavailable ''down'') else Inr n) (\<lambda>_. 10) 0 = (Inr k, 3030) \<and> k = 2"
proof -
  let ?o = "\<lambda>n. if n < 2 then Inl (Unavailable ''down'') else Inr n :: tg_error + nat"
  have r: "retryUnavailable 5000 ?o (\<lambda>_. 10) 0 = (Inr 2, 3030)" by code_simp
  obtain k where "Inr 2 = ?o k" using retry_ends[OF r] by blast
  then show ?thesis using r by simp
qed

subsection \<open>Claims\<close>

definition held :: "rows \<Rightarrow> string \<Rightarrow> bool" where
  "held db att \<longleftrightarrow> (\<exists>t \<in> set (d_tasks db). t_leaseAttemptId t = Some att)"

lemma holder_is:
  assumes w: "wf lc db" and x: "x \<in> set (d_attempts db)" "a_id x = att" and t: "t \<in> set (d_tasks db)" "t_leaseAttemptId t = Some att"
  shows "t_id t = a_taskId x"
proof -
  have "open_attempts (d_attempts db) (t_id t) = [att]"
    using wfD(6)[OF w] t by (simp add: attempts_ok_def lease_list_def)
  then have "att \<in> set (open_attempts (d_attempts db) (t_id t))" by simp
  then obtain y where y: "y \<in> set (d_attempts db)" "a_taskId y = t_id t" "a_id y = att" by (auto simp: open_attempts_def)
  have "distinct (map a_id (d_attempts db))" using wfD(6)[OF w] by (simp add: attempts_ok_def)
  then have "y = x" using distinct_key_eq[of a_id "d_attempts db" y x] x y by simp
  then show ?thesis using y by simp
qed

lemma assertVersion_error: "assertVersion lc db \<noteq> Inl (LeaseLost i att)"
  by (auto simp: assertVersion_def split: if_splits)

lemma bindE_Inl_iff: "bindE m f = Inl e \<longleftrightarrow> m = Inl e \<or> (\<exists>x. m = Inr x \<and> f x = Inl e)"
  by (cases m) auto

lemma move_not_lost:
  assumes t: "find_task i db = Some t" and h: "t_leaseAttemptId t = Some att"
  shows "move lc a i nm opts (Some att) db \<noteq> Inl (LeaseLost j x)"
proof
  assume m: "move lc a i nm opts (Some att) db = Inl (LeaseLost j x)"
  have "movable lc nm \<noteq> Inl (LeaseLost j x)" "assertVersion lc db \<noteq> Inl (LeaseLost j x)"
    by (auto simp: movable_def assertVersion_error split: option.splits)
  moreover have "(if b then lockWithParent db i else loadTask db i) \<noteq> Inl (LeaseLost j x)" for b
    using t by (auto simp: lockWithParent_def loadTask_def bindE_Inl_iff split: option.splits)
  moreover have "u = t" if "(if b then lockWithParent db i else loadTask db i) = Inr u" for b u
    using that t lockWithParent_Inr by (auto simp: loadTask_def split: if_splits) fastforce
  moreover have "moveRefusals lc a m opts (Some att) t db \<noteq> Inl (LeaseLost j x)" for m
    using h by (auto simp: moveRefusals_def bindE_Inl_iff guardE_def Let_def split: option.splits if_splits)
  ultimately show False using m unfolding move_def bindE_Inl_iff by (auto simp: Let_def)
qed

text \<open>A release that ends without an error leaves the attempt with no lease, whether it took it or found it gone.\<close>

lemma release_frees:
  assumes w: "wf taskLifecycle db" and x: "x \<in> set (d_attempts db)" "a_id x = cl_attemptId c" "a_taskId x = t_id (cl_task c)"
    and fresh: "fresh db req" and r: "queue_release as c why req db = (Inr (), db')"
  shows "\<not> held db' (cl_attemptId c)"
proof -
  let ?i = "t_id (cl_task c)" and ?att = "cl_attemptId c"
  have d: "distinct (map t_id (d_tasks db))" using wfD(1)[OF w] by (simp add: forest_ok_def)
  have holder: "find_task ?i db = Some t" if "t \<in> set (d_tasks db)" "t_leaseAttemptId t = Some ?att" for t
    using holder_is[OF w x(1,2) that] x(3) find_row_unique[OF d that(1)] by simp
  from fresh show ?thesis
  proof (cases rule: moveTask_cases[of db req as ?i "''release''" why "Some ?att"])
    case (refused e)
    then obtain j a where e: "e = LeaseLost j a" and same: "db' = db"
      using r by (auto simp: queue_release_def orCatch_def returns_def fails_with_def split: tg_error.splits)
    show ?thesis
    proof
      assume "held db' ?att"
      then obtain t where t: "t \<in> set (d_tasks db)" "t_leaseAttemptId t = Some ?att" by (auto simp: held_def same)
      show False using move_not_lost[OF holder[OF t] t(2)] refused(1) e by blast
    qed
  next
    case (made m row db1 evs db2)
    from move_Inr[OF made(1)] obtain m' t dropped where mv: "row = moved_row taskLifecycle m' (d_now db) t" "find_task ?i db = Some t"
      "db1 = upd_task ?i (moved_row taskLifecycle m' (d_now db)) (endHeld (heldAttempt taskLifecycle t) ''release'' (dropEdges ?i dropped db))"
      by metis
    have db2: "db' = db2" using r made(2) by (simp add: queue_release_def orCatch_def)
    have tasks: "d_tasks db2 = upd_row t_id ?i (moved_row taskLifecycle m' (d_now db)) (d_tasks db)"
      using same_rowsD(1)[OF made(3)] mv(3) by (simp add: upd_task_def endHeld_def dropEdges_def endAttempt_def upd_attempt_def split: option.split)
    show ?thesis
    proof
      assume "held db' ?att"
      then obtain u where u: "u \<in> set (d_tasks db2)" "t_leaseAttemptId u = Some ?att" by (auto simp: held_def db2)
      then obtain v where v: "v \<in> set (d_tasks db)" "u = (if t_id v = ?i then moved_row taskLifecycle m' (d_now db) v else v)"
        unfolding tasks set_upd_row by auto
      then have "u = v" "t_id v \<noteq> ?i" using u(2) by (auto simp: moved_row_def split: if_splits)
      then show False using holder_is[OF w x(1,2), of v] v(1) u(2) x(3) by simp
    qed
  qed
qed

text \<open>
  C26: A run gives its claim back: when it returns, whatever the agents did to the task and however its heartbeats went, no task is
  leased under its attempt and the worker remembers neither the claim nor its end, unless the database stayed away, which
  pauses the Kshetra. What it relies on: the store ends a claim when it says so, and a lease reported lost is lost.
\<close>

theorem claims_given_back:
  assumes c: "map_of (hw_claims w) i = Some c" "t_id (cl_task c) = i"
    and rel: "rn_release d = (\<lambda>c. queue_release as c why req)"
    and work: "rn_work d w = (out, w1)" "wf taskLifecycle (hw_rows w1)" "fresh (hw_rows w1) req"
    and x: "x \<in> set (d_attempts (hw_rows w1))" "a_id x = cl_attemptId c" "a_taskId x = i"
    and ended: "i \<in> set (hw_ended w1) \<Longrightarrow> \<not> held (hw_rows w1) (cl_attemptId c)"
    and lost: "is_lease_lost (whileHeld c (rn_beats d) out) \<Longrightarrow> \<not> held (hw_rows w1) (cl_attemptId c)"
    and r: "hook_runTask d i w = (Inr (), w')"
  shows "map_of (hw_claims w') i = None \<and> i \<notin> set (hw_ended w') \<and>
    (\<not> held (hw_rows w') (cl_attemptId c) \<or> OnUnavailable \<in> set (hw_effects w'))"
proof -
  let ?r = "whileHeld c (rn_beats d) out" and ?w2 = "w1\<lparr>hw_claims := forget i (hw_claims w1)\<rparr>"
  have forget: "map_of (forget i xs) i = None" for xs :: "(string \<times> claim) list"
    by (auto simp: forget_def map_of_eq_None_iff)
  consider (lost) "is_lease_lost ?r" "i \<notin> set (hw_ended w1)" "w' = hook_effect_add (OnLeaseLost i) ?w2"
    | (ended) "i \<in> set (hw_ended w1)" "w' = ?w2\<lparr>hw_ended := removeAll i (hw_ended w1)\<rparr>"
    | (given) y where "i \<notin> set (hw_ended w1)" "db_step (rn_awayRelease d) (queue_release as c why req) ?w2 = (Inr y, w')"
    using r c(1) work(1) rel by (auto simp: hook_runTask_def Let_def split: if_splits prod.splits sum.splits)
  then show ?thesis
  proof cases
    case lost
    then show ?thesis using assms(11)[OF lost(1)] by (simp add: hook_effect_add_def forget)
  next
    case ended
    then show ?thesis using assms(10)[OF ended(1)] by (simp add: forget)
  next
    case given
    show ?thesis
    proof (cases "OnUnavailable \<in> set (hw_effects w')")
      case True
      then show ?thesis using given
        by (auto simp: db_step_def hook_effect_add_def forget split: if_splits prod.splits sum.splits)
    next
      case False
      then obtain db' where q: "queue_release as c why req (hw_rows w1) = (Inr (), db')" "w' = ?w2\<lparr>hw_rows := db'\<rparr>"
        using given(2) by (auto simp: db_step_def hook_effect_add_def split: if_splits prod.splits sum.splits)
      show ?thesis using release_frees[OF work(2) x(1,2) _ work(3) q(1)] x(3) c(2) given(1) q(2) by (simp add: forget)
    qed
  qed
qed

definition demo_claim :: claim where
  "demo_claim = \<lparr>cl_task = orElse (find_task ''k-111.1'' (at_step 7)) (the (find_task ''k-111'' (at_step 7))), cl_attemptId = ''u1'', cl_expiresAt = 0\<rparr>"

definition demo_work :: run_deps where
  "demo_work = \<lparr>rn_work = (\<lambda>w. (Inr (), w)), rn_beats = [(False, Inl (Fatal ''timeout''))],
     rn_release = (\<lambda>c. queue_release orch c ''the run ended without moving the task'' ''rel-1''), rn_awayRelease = False\<rparr>"

definition demo_hooks :: hook_world where
  "demo_hooks = \<lparr>hw_rows = at_step 7, hw_claims = [(''k-111.1'', demo_claim)], hw_ended = [], hw_effects = []\<rparr>"

theorem claims_given_back_witness:
  "held (hw_rows demo_hooks) ''u1'' \<and> (\<exists>w'. hook_runTask demo_work ''k-111.1'' demo_hooks = (Inr (), w') \<and>
     (\<not> held (hw_rows w') ''u1'' \<or> OnUnavailable \<in> set (hw_effects w')))"
proof -
  have r: "isOk (fst (hook_runTask demo_work ''k-111.1'' demo_hooks))" by code_simp
  have w: "whileHeld demo_claim (rn_beats demo_work) (Inr ()) = Inr ()" by code_simp
  have i: "t_id (cl_task demo_claim) = ''k-111.1''" by code_simp
  have f: "fresh (at_step 7) ''rel-1''" by code_simp
  have h: "list_ex (\<lambda>t. t_leaseAttemptId t = Some ''u1'') (d_tasks (at_step 7))" by code_simp
  have "list_ex (\<lambda>a. a_id a = ''u1'' \<and> a_taskId a = ''k-111.1'') (d_attempts (at_step 7))" by code_simp
  then obtain x where x: "x \<in> set (d_attempts (at_step 7))" "a_id x = ''u1''" "a_taskId x = ''k-111.1''" by (auto simp: list_ex_iff)
  obtain w' where w': "hook_runTask demo_work ''k-111.1'' demo_hooks = (Inr (), w')"
    using r by (cases "hook_runTask demo_work ''k-111.1'' demo_hooks") (auto simp: isOk_iff)
  have "\<not> held (hw_rows w') (cl_attemptId demo_claim) \<or> OnUnavailable \<in> set (hw_effects w')"
    by (rule claims_given_back[where out = "Inr ()" and ?w1.0 = demo_hooks and c = demo_claim and x = x, THEN conjunct2, THEN conjunct2, OF _ i _ _ _ _ _ _ _ _ _ w'])
      (use x i f w at_wf[of 7] in \<open>auto simp: demo_hooks_def demo_work_def demo_claim_def\<close>)
  then show ?thesis using w' h by (auto simp: held_def list_ex_iff demo_hooks_def demo_claim_def)
qed

end
