(* ===== verification/Epics.thy ===== *)
theory Epics
  imports Store
begin

text \<open>
  Epics settled on the engine (src/src/policy/sthapathi/epics.ts): pass after pass, each container whose children have all
  settled is completed when one of them is done, and flagged when every one was cancelled. What others write before a
  container's children are read is \<open>meanwhile\<close>, what they write before its move \<open>between\<close>; where no database answers, after
  its retries, a container is \<open>down\<close> (its move may have been made, among what is written meanwhile), a pass's list \<open>unread\<close>
  and the scope \<open>unscoped\<close>. They are given for each pass and container, as the request ids are.
\<close>

datatype reconciled = CompletedEpic | FlaggedEpic

definition finished_state :: "string \<Rightarrow> bool" where
  "finished_state state \<longleftrightarrow> isSatisfying taskLifecycle state"

definition MAX_DEPTH :: nat where
  "MAX_DEPTH = 10"

record reconcile_world =
  rw_uuid :: "nat \<Rightarrow> string \<Rightarrow> string"
  rw_meanwhile :: "nat \<Rightarrow> string \<Rightarrow> rows \<Rightarrow> rows"
  rw_between :: "nat \<Rightarrow> string \<Rightarrow> rows \<Rightarrow> rows"
  rw_down :: "nat \<Rightarrow> string \<Rightarrow> bool"
  rw_unread :: "nat \<Rightarrow> bool"
  rw_unscoped :: bool

definition no_database :: "'a run" where
  "no_database = fails_with (Unavailable ''the database is unreachable'')"

definition reconcile_one :: "actor \<Rightarrow> string \<Rightarrow> (rows \<Rightarrow> rows) \<Rightarrow> string \<Rightarrow> reconciled run" where
  "reconcile_one me req between c = andThen (reads (\<lambda>db. tasks_list db (noFilter\<lparr>fl_parent := Some c\<rparr>)))
     (\<lambda>children db. (if list_ex (\<lambda>t. finished_state (t_state t)) children
        then andThen (moveTask me None c ''completeContainer'' (''all '' @ show_nat (length children) @ '' children settled'') req)
          (\<lambda>_. returns CompletedEpic)
        else andThen (moveTask me None c ''flag'' ''every child was cancelled; cancel the epic or reopen its work'' req)
          (\<lambda>_. returns FlaggedEpic)) (between db))"

record reconcile_state =
  rc_completed :: "string list"
  rc_flagged :: "string list"
  rc_failed :: "string list"
  rc_progressed :: bool

text \<open>A lost database ends the call; any other refusal leaves the container to the next poll.\<close>

fun reconcile_pass :: "reconcile_world \<Rightarrow> actor \<Rightarrow> nat \<Rightarrow> string list \<Rightarrow> reconcile_state \<Rightarrow> reconcile_state run" where
  "reconcile_pass w me n [] st db = (Inr st, db)"
| "reconcile_pass w me n (c # cs) st db =
     (if rw_down w n c then no_database (rw_meanwhile w n c db)
      else case reconcile_one me (rw_uuid w n c) (rw_between w n c) c (rw_meanwhile w n c db) of
        (Inr CompletedEpic, db') \<Rightarrow>
          reconcile_pass w me n cs (st\<lparr>rc_completed := rc_completed st @ [c], rc_progressed := True\<rparr>) db'
      | (Inr FlaggedEpic, db') \<Rightarrow>
          reconcile_pass w me n cs (st\<lparr>rc_flagged := rc_flagged st @ [c], rc_progressed := True\<rparr>) db'
      | (Inl (Unavailable why), db') \<Rightarrow> (Inl (Unavailable why), db')
      | (Inl _, db') \<Rightarrow> reconcile_pass w me n cs (st\<lparr>rc_failed := rc_failed st @ [c]\<rparr>) db')"

text \<open>The containers a pass handles: settled, in scope, and not failed in this call.\<close>

definition to_settle :: "string list option \<Rightarrow> reconcile_state \<Rightarrow> rows \<Rightarrow> string list" where
  "to_settle scope st db = filter (\<lambda>c. (case scope of None \<Rightarrow> True | Some is \<Rightarrow> c \<in> set is) \<and> c \<notin> set (rc_failed st))
     (map t_id (tasks_settled taskLifecycle db))"

text \<open>\<open>k\<close> passes are left; the passes are numbered from 0.\<close>

fun reconcile_passes :: "reconcile_world \<Rightarrow> actor \<Rightarrow> string list option \<Rightarrow> nat \<Rightarrow> reconcile_state \<Rightarrow> reconcile_state run" where
  "reconcile_passes w me scope 0 st = returns st"
| "reconcile_passes w me scope (Suc k) st = (\<lambda>db.
     if rw_unread w (MAX_DEPTH - Suc k) then no_database db
     else andThen (reconcile_pass w me (MAX_DEPTH - Suc k) (to_settle scope st db) (st\<lparr>rc_progressed := False\<rparr>))
       (\<lambda>st'. if rc_progressed st' then reconcile_passes w me scope k st' else returns st') db)"

definition reconcile_scope :: "string option \<Rightarrow> string list option run" where
  "reconcile_scope within = (case filled within of None \<Rightarrow> returns None
     | Some e \<Rightarrow> andThen (reads (\<lambda>db. tasks_list db (noFilter\<lparr>fl_within := Some e\<rparr>))) (\<lambda>ts. returns (Some (e # map t_id ts))))"

definition reconcileContainers :: "reconcile_world \<Rightarrow> actor \<Rightarrow> string option \<Rightarrow> (string list \<times> string list) run" where
  "reconcileContainers w me within = andThen (if filled within \<noteq> None \<and> rw_unscoped w then no_database else reconcile_scope within) (\<lambda>scope.
     andThen (reconcile_passes w me scope MAX_DEPTH \<lparr>rc_completed = [], rc_flagged = [], rc_failed = [], rc_progressed = False\<rparr>)
       (\<lambda>st. returns (rc_completed st, rc_flagged st)))"

end
