(* ===== verification/EpicsProperties.thy ===== *)
theory EpicsProperties
  imports CancelProperties Epics
begin

text \<open>
  Epics settle (src/src/policy/sthapathi/epics.ts): every container whose children have all settled is completed or flagged,
  level by level, in one call.
\<close>

subsection \<open>What a move leaves\<close>

lemma insertEvents_requests: "insertEvents es db = Inr db' \<Longrightarrow> map e_requestId (d_events db') = map e_requestId (d_events db) @ map n_requestId es"
proof (induction es arbitrary: db)
  case (Cons e es)
  then show ?case by (auto simp: insertEvent_def toEvent_def split: if_splits)
qed simp

lemma moveTask_fresh:
  assumes f: "fresh db req" and r: "fresh db r" "r \<noteq> req"
  shows "fresh (snd (moveTask a claim i nm why req db)) r"
  using f
proof (cases rule: moveTask_cases[of db req a i nm why claim])
  case (made m row db1 evs db2)
  have "rows_after (call_move taskLifecycle a i nm (reasoned why req) claim db db) = Inr db2"
    using made(2) by (auto simp: moveTask_def engine_def split: sum.splits)
  then obtain x where "call_move taskLifecycle a i nm (reasoned why req) claim db db = Inr (x, db2)" by (auto simp: rows_after_def)
  then consider "db2 = db" | y where "transaction (move taskLifecycle a i nm (reasoned why req) claim) db = Inr (y, db2)"
    unfolding call_move_def by (blast dest: once_steps)
  then have "fresh db2 r"
  proof cases
    case 2
    then have w: "writeEvents evs db1 = Inr db2" using made(1) by (auto simp: transaction_def)
    have e: "d_events db1 = d_events db" using move_log[OF made(1)] by (simp add: same_log_def)
    obtain e es where evs: "evs = e # es" "n_requestId e = Some req" "\<forall>x \<in> set es. n_requestId x = None"
      using move_events[OF made(1)] by (auto simp: reasoned_def)
    have "map e_requestId (d_events db2) = map e_requestId (d_events db) @ map n_requestId evs"
    proof -
      have "evs \<noteq> []" using evs(1) by simp
      then obtain d where d: "insertEvents evs db1 = Inr d" "db2 = d\<lparr>d_notified := d_notified d @ [d_nextEventId d - 1]\<rparr>"
        using w by (auto simp: writeEvents_def simp del: insertEvents.simps)
      show ?thesis using insertEvents_requests[OF d(1)] by (simp add: d(2) e)
    qed
    then show ?thesis using r evs by (auto simp: fresh_def)
  qed (use r in simp)
  then show ?thesis using made(2) by simp
qed (use r in simp)

text \<open>The stored definition of the project's lifecycle, which the guards read, is Shreni's.\<close>

definition stored_lifecycle :: "rows \<Rightarrow> bool" where
  "stored_lifecycle db \<longleftrightarrow> map_of (sr_lifecycles (d_caller db)) (l_name taskLifecycle, l_version taskLifecycle) = Some (l_states taskLifecycle)"

lemma stored_flags:
  assumes "stored_lifecycle db" and "assertVersion taskLifecycle db = Inr ()"
  shows "activeFlag sf_terminal db s \<longleftrightarrow> isTerminal taskLifecycle s" and "activeFlag sf_satisfiesDeps db s \<longleftrightarrow> isSatisfying taskLifecycle s"
  using assms unfolding activeFlag_def stored_lifecycle_def assertVersion_ok flag_simps
  by (simp_all add: taskLifecycle_def flags_def)

definition at :: "rows \<Rightarrow> string \<Rightarrow> string option" where
  "at db i = map_option t_state (find_task i db)"

definition up :: "rows \<Rightarrow> (string \<times> string) set" where
  "up db = parents (d_tasks db)"

definition ready_rows :: "rows \<Rightarrow> bool" where
  "ready_rows db \<longleftrightarrow> steady db \<and> stored_lifecycle db"

definition is_settled :: "rows \<Rightarrow> string \<Rightarrow> bool" where
  "is_settled db c \<longleftrightarrow> (\<exists>t. find_task c db = Some t \<and> t_kind t = Container \<and> t_state t = ''open'') \<and> (\<exists>u. (u, c) \<in> up db) \<and>
     (\<forall>u. (u, c) \<in> up db \<longrightarrow> at db u \<in> {Some ''done'', Some ''cancelled''})"

definition some_done :: "rows \<Rightarrow> string \<Rightarrow> bool" where
  "some_done db c \<longleftrightarrow> (\<exists>u. (u, c) \<in> up db \<and> at db u = Some ''done'')"

lemma up_row: "wf taskLifecycle db \<Longrightarrow> (u, c) \<in> up db \<longleftrightarrow> (\<exists>t. find_task u db = Some t \<and> t_parentId t = Some c)"
proof -
  assume w: "wf taskLifecycle db"
  have "find_task (t_id t) db = Some t" if "t \<in> set (d_tasks db)" for t
    using wfD(1)[OF w] that find_row_unique by (fastforce simp: forest_ok_def)
  then show ?thesis using find_row_Some[of t_id u "d_tasks db"] by (fastforce simp: up_def parents_def)
qed

lemma childrenOf_row:
  assumes w: "wf taskLifecycle db"
  shows "t \<in> set (childrenOf db c) \<longleftrightarrow> find_task (t_id t) db = Some t \<and> t_parentId t = Some c"
proof -
  have "distinct (map t_id (d_tasks db))" using wfD(1)[OF w] by (simp add: forest_ok_def)
  then have "t \<in> set (d_tasks db) \<longleftrightarrow> find_task (t_id t) db = Some t"
    using find_row_unique[of t_id "d_tasks db" t] find_row_Some[of t_id "t_id t" "d_tasks db" t] by blast
  then show ?thesis by (auto simp: childrenOf_def)
qed

lemma all_children:
  assumes w: "wf taskLifecycle db"
  shows "(\<forall>t \<in> set (childrenOf db c). P (Some (t_state t))) \<longleftrightarrow> (\<forall>u. (u, c) \<in> up db \<longrightarrow> P (at db u))"
proof safe
  fix u
  assume all: "\<forall>t \<in> set (childrenOf db c). P (Some (t_state t))" and "(u, c) \<in> up db"
  then obtain t where t: "find_task u db = Some t" "t_parentId t = Some c" by (auto simp: up_row[OF w])
  then have "t \<in> set (childrenOf db c)" using find_row_Some[OF t(1)] by (simp add: childrenOf_row[OF w])
  then show "P (at db u)" using all t by (simp add: at_def)
next
  fix t
  assume all: "\<forall>u. (u, c) \<in> up db \<longrightarrow> P (at db u)" and "t \<in> set (childrenOf db c)"
  then have t: "find_task (t_id t) db = Some t" "t_parentId t = Some c" by (simp_all add: childrenOf_row[OF w])
  then have "(t_id t, c) \<in> up db" by (simp add: up_row[OF w])
  then show "P (Some (t_state t))" using all t by (metis at_def option.map(2))
qed

lemma some_child: "wf taskLifecycle db \<Longrightarrow> (\<exists>t \<in> set (childrenOf db c). P (Some (t_state t))) \<longleftrightarrow> (\<exists>u. (u, c) \<in> up db \<and> P (at db u))"
  using all_children[of db c "\<lambda>s. \<not> P s"] by blast

lemma settled_exact:
  assumes w: "wf taskLifecycle db"
  shows "c \<in> set (map t_id (tasks_settled taskLifecycle db)) \<longleftrightarrow> is_settled db c"
proof -
  have u: "find_task (t_id t) db = Some t" if "t \<in> set (d_tasks db)" for t
    using wfD(1)[OF w] that find_row_unique by (fastforce simp: forest_ok_def)
  have ch: "childrenOf db c \<noteq> [] \<longleftrightarrow> (\<exists>u. (u, c) \<in> up db)"
    using some_child[OF w, of c "\<lambda>_. True"] by (cases "childrenOf db c") auto
  have lv: "\<not> list_ex (is_live taskLifecycle) (childrenOf db c) \<longleftrightarrow> (\<forall>u. (u, c) \<in> up db \<longrightarrow> at db u \<in> {Some ''done'', Some ''cancelled''})"
    unfolding all_children[OF w, of c "\<lambda>s. s \<in> {Some ''done'', Some ''cancelled''}", symmetric]
    by (auto simp: list_ex_iff is_live_iff[OF taskLifecycle_valid] flag_simps)
  have "claimableState taskLifecycle = Some ''open''" by (simp add: claimableState_iff[OF taskLifecycle_valid] flag_simps)
  then have "c \<in> set (map t_id (tasks_settled taskLifecycle db)) \<longleftrightarrow> (\<exists>t. t \<in> set (d_tasks db) \<and> t_id t = c \<and> t_kind t = Container \<and>
      t_state t = ''open'' \<and> childrenOf db c \<noteq> [] \<and> \<not> list_ex (is_live taskLifecycle) (childrenOf db c))"
    by (auto simp: tasks_settled_def settledContainers_def)
  also have "\<dots> \<longleftrightarrow> is_settled db c"
    unfolding ch lv is_settled_def using u find_row_Some[of t_id c "d_tasks db"] by blast
  finally show ?thesis .
qed

lemma settled_distinct: "wf taskLifecycle db \<Longrightarrow> distinct (map t_id (tasks_settled taskLifecycle db))"
proof -
  assume "wf taskLifecycle db"
  then have "distinct (map t_id (d_tasks db))" using wfD(1) by (auto simp: forest_ok_def)
  then show ?thesis unfolding tasks_settled_def settledContainers_def distinct_map by (auto intro: inj_on_subset)
qed

subsection \<open>One container\<close>

lemma children_listed: "c \<noteq> '''' \<Longrightarrow> \<exists>ts. tasks_list db (noFilter\<lparr>fl_parent := Some c\<rparr>) = Inr ts \<and> set ts = set (childrenOf db c)"
  by (auto simp: tasks_list_def parseTaskFilter_def parsed_def issue_def given_def noFilter_def nonEmpty_def listWhere_def
      limited_def filterWhere_def childrenOf_def orElse_def)

definition outcome_of :: "rows \<Rightarrow> string \<Rightarrow> string" where
  "outcome_of db c = (if some_done db c then ''done'' else ''blocked'')"

lemma epic_one:
  assumes r: "ready_rows db" and me: "ac_role me = ''orchestrator''" and c: "is_settled db c" "c \<noteq> ''''" and f: "fresh db req"
  shows "\<exists>db'. reconcile_one me req (\<lambda>db. db) c db = (Inr (if some_done db c then CompletedEpic else FlaggedEpic), db') \<and> ready_rows db' \<and>
    at db' c = Some (outcome_of db c) \<and> (\<forall>k. k \<noteq> c \<longrightarrow> find_task k db' = find_task k db) \<and> up db' = up db \<and>
    (\<forall>r. fresh db r \<longrightarrow> r \<noteq> req \<longrightarrow> fresh db' r)"
proof -
  have w: "wf taskLifecycle db" and v: "assertVersion taskLifecycle db = Inr ()" and st: "stored_lifecycle db"
    using r by (auto simp: ready_rows_def steady_def)
  obtain t where t: "find_task c db = Some t" "t_kind t = Container" "t_state t = ''open''" using c(1) by (auto simp: is_settled_def)
  obtain ts where ts: "tasks_list db (noFilter\<lparr>fl_parent := Some c\<rparr>) = Inr ts" "set ts = set (childrenOf db c)"
    using children_listed[OF c(2)] by blast
  have dn: "list_ex (\<lambda>t. finished_state (t_state t)) ts \<longleftrightarrow> some_done db c"
    using some_child[OF w, of c "\<lambda>s. s = Some ''done''"] by (simp add: list_ex_iff ts(2) finished_state_def flag_simps some_done_def Bex_def)
  have ended: "\<forall>u \<in> set (childrenOf db c). isTerminal taskLifecycle (t_state u)"
    using all_children[OF w, of c "\<lambda>s. s \<in> {Some ''done'', Some ''cancelled''}"] c(1) by (simp add: is_settled_def flag_simps)
  then have nolive: "liveChildren taskLifecycle db c = []"
    by (auto simp: liveChildren_Nil[OF taskLifecycle_valid] childrenOf_def)
  define nm where "nm = (if some_done db c then ''completeContainer'' else ''flag'')"
  have guard: "some_done db c \<Longrightarrow> childrenSettledFn t me db = None"
  proof -
    assume "some_done db c"
    then have "\<exists>u \<in> set (childrenOf db c). isSatisfying taskLifecycle (t_state u)"
      using some_child[OF w, of c "\<lambda>s. s = Some ''done''"] by (simp add: some_done_def flag_simps)
    then show ?thesis
      using t(2) ended find_row_Some[OF t(1)]
      by (auto simp: childrenSettledFn_def stored_flags[OF st v] filter_empty_conv)
  qed
  have ok: "isOk (move taskLifecycle me c nm (reasoned why req) None db)" for why
    using v t me nolive guard by (auto simp: move_isOk[OF w] moveNamed_simp move_defs nm_def flag_simps)
  define why where "why = (if some_done db c then ''all '' @ show_nat (length ts) @ '' children settled'' else ''every child was cancelled; cancel the epic or reopen its work'')"
  show ?thesis
    using f
  proof (cases rule: moveTask_cases[of db req me c nm why None])
    case (refused e)
    then show ?thesis using ok[of why] by (simp add: isOk_def)
  next
    case (made m row db1 evs db2)
    have mt: "m_to m = outcome_of db c" using made(4) by (auto simp: moveNamed_simp move_defs nm_def outcome_of_def split: if_splits)
    have "d_tasks db1 = upd_row t_id c (moved_row taskLifecycle m (d_now db)) (d_tasks db) \<and> assertVersion taskLifecycle db1 = Inr () \<and> d_caller db1 = d_caller db"
      by (rule move_Inr[OF made(1)]) (use made(4) v in \<open>simp add: assertVersion_ok upd_task_def endHeld_def endAttempt_def upd_attempt_def dropEdges_def split: option.split\<close>)
    then have tasks: "d_tasks db2 = upd_row t_id c (moved_row taskLifecycle m (d_now db)) (d_tasks db)"
      and v2: "assertVersion taskLifecycle db2 = Inr ()" and cl: "d_caller db2 = d_caller db"
      using made(3) by (auto simp: same_rowsD assertVersion_ok)
    have "wf taskLifecycle db2" using moveTask_wf[OF w, of me None c nm why req] made(2) by simp
    then have "ready_rows db2" using v2 st cl by (simp add: ready_rows_def steady_def stored_lifecycle_def)
    moreover have "up db2 = up db" unfolding up_def tasks by (rule parents_upd) (simp_all add: moved_row_def)
    moreover have "find_task k db2 = find_task k db" if "k \<noteq> c" for k
      using that by (simp add: tasks find_row_upd moved_row_def)
    moreover have "at db2 c = Some (outcome_of db c)" using made(5,6) mt by (simp add: at_def)
    moreover have "fresh db2 r" if "fresh db r" "r \<noteq> req" for r
      using moveTask_fresh[OF f that, of me None c nm why] made(2) by simp
    moreover have "reconcile_one me req (\<lambda>db. db) c db = (Inr (if some_done db c then CompletedEpic else FlaggedEpic), db2)"
      using made(2) by (simp add: reconcile_one_def andThen_def reads_def ts(1) dn nm_def why_def returns_def split: if_splits)
    ultimately show ?thesis by blast
  qed
qed


subsection \<open>One pass\<close>

lemma settled_after:
  assumes s: "is_settled db c" and d: "is_settled db d" and o: "\<And>k. k \<noteq> d \<Longrightarrow> find_task k db' = find_task k db" "up db' = up db" and ne: "c \<noteq> d"
  shows "is_settled db' c" and "some_done db' c = some_done db c"
proof -
  have child: "u \<noteq> d" if "(u, c) \<in> up db" for u
    using s d that by (auto simp: is_settled_def at_def)
  then have same: "at db' u = at db u" if "(u, c) \<in> up db" for u using o(1) that by (simp add: at_def)
  show "is_settled db' c" using s same o(1)[OF ne] unfolding is_settled_def o(2) by simp
  show "some_done db' c = some_done db c" using same unfolding some_done_def o(2) by auto
qed

definition undisturbed :: "reconcile_world \<Rightarrow> bool" where
  "undisturbed w \<longleftrightarrow> (\<forall>n c. rw_meanwhile w n c = (\<lambda>db. db) \<and> rw_between w n c = (\<lambda>db. db) \<and> \<not> rw_down w n c) \<and>
     (\<forall>n. \<not> rw_unread w n) \<and> \<not> rw_unscoped w"

lemma undisturbed_reads: "undisturbed w \<Longrightarrow> \<not> rw_unread w n" "undisturbed w \<Longrightarrow> \<not> rw_unscoped w"
  by (simp_all add: undisturbed_def)

lemma pass_exact:
  assumes u: "undisturbed w" and me: "ac_role me = ''orchestrator''"
  shows "ready_rows db \<Longrightarrow> distinct cs \<Longrightarrow> \<forall>c \<in> set cs. is_settled db c \<and> c \<noteq> '''' \<and> fresh db (rw_uuid w n c) \<Longrightarrow> inj_on (rw_uuid w n) (set cs) \<Longrightarrow>
    \<exists>db'. reconcile_pass w me n cs st db = (Inr (st\<lparr>rc_completed := rc_completed st @ filter (some_done db) cs,
        rc_flagged := rc_flagged st @ filter (\<lambda>c. \<not> some_done db c) cs, rc_progressed := rc_progressed st \<or> cs \<noteq> []\<rparr>), db') \<and>
      ready_rows db' \<and> up db' = up db \<and> (\<forall>c \<in> set cs. at db' c = Some (outcome_of db c)) \<and>
      (\<forall>k. k \<notin> set cs \<longrightarrow> find_task k db' = find_task k db) \<and>
      (\<forall>r. fresh db r \<longrightarrow> r \<notin> rw_uuid w n ` set cs \<longrightarrow> fresh db' r)"
proof (induction cs arbitrary: db st)
  case (Cons c cs)
  have c: "is_settled db c" "c \<noteq> ''''" "fresh db (rw_uuid w n c)" using Cons.prems(3) by auto
  obtain d where d: "reconcile_one me (rw_uuid w n c) (\<lambda>db. db) c db = (Inr (if some_done db c then CompletedEpic else FlaggedEpic), d)" "ready_rows d"
      "at d c = Some (outcome_of db c)" "\<And>k. k \<noteq> c \<Longrightarrow> find_task k d = find_task k db" "up d = up db"
      "\<And>r. fresh db r \<Longrightarrow> r \<noteq> rw_uuid w n c \<Longrightarrow> fresh d r"
    using epic_one[OF Cons.prems(1) me c] by blast
  have other: "x \<noteq> c \<and> is_settled d x \<and> some_done d x = some_done db x \<and> x \<noteq> '''' \<and> fresh d (rw_uuid w n x)" if x: "x \<in> set cs" for x
  proof -
    have ne: "x \<noteq> c" using Cons.prems(2) x by auto
    moreover have "rw_uuid w n x \<noteq> rw_uuid w n c" using Cons.prems(4) x ne by (auto simp: inj_on_def)
    moreover have "is_settled db x" "x \<noteq> ''''" "fresh db (rw_uuid w n x)" using Cons.prems(3) x by auto
    ultimately show ?thesis using settled_after[of db x c d] c(1) d(4,5,6) by blast
  qed
  define st1 where "st1 = (if some_done db c then st\<lparr>rc_completed := rc_completed st @ [c], rc_progressed := True\<rparr>
    else st\<lparr>rc_flagged := rc_flagged st @ [c], rc_progressed := True\<rparr>)"
  have f: "filter (some_done d) cs = filter (some_done db) cs" "filter (\<lambda>c. \<not> some_done d c) cs = filter (\<lambda>c. \<not> some_done db c) cs"
    using other by (auto intro!: filter_cong)
  obtain db' where db': "reconcile_pass w me n cs st1 d = (Inr (st1\<lparr>rc_completed := rc_completed st1 @ filter (some_done db) cs,
        rc_flagged := rc_flagged st1 @ filter (\<lambda>c. \<not> some_done db c) cs, rc_progressed := rc_progressed st1 \<or> cs \<noteq> []\<rparr>), db')"
      "ready_rows db'" "up db' = up d" "\<forall>x \<in> set cs. at db' x = Some (outcome_of d x)"
      "\<forall>k. k \<notin> set cs \<longrightarrow> find_task k db' = find_task k d" "\<forall>r. fresh d r \<longrightarrow> r \<notin> rw_uuid w n ` set cs \<longrightarrow> fresh db' r"
    using Cons.IH[OF d(2), of st1] Cons.prems(2,4) other unfolding f by (auto simp: inj_on_def)
  have "reconcile_pass w me n (c # cs) st db = reconcile_pass w me n cs st1 d"
    using u d(1) by (simp add: undisturbed_def st1_def)
  moreover have "st1\<lparr>rc_completed := rc_completed st1 @ filter (some_done db) cs,
        rc_flagged := rc_flagged st1 @ filter (\<lambda>c. \<not> some_done db c) cs, rc_progressed := rc_progressed st1 \<or> cs \<noteq> []\<rparr> =
      st\<lparr>rc_completed := rc_completed st @ filter (some_done db) (c # cs),
        rc_flagged := rc_flagged st @ filter (\<lambda>c. \<not> some_done db c) (c # cs), rc_progressed := rc_progressed st \<or> c # cs \<noteq> []\<rparr>"
    by (simp add: st1_def)
  moreover have "at db' c = Some (outcome_of db c)" using db'(5) d(3) Cons.prems(2) by (simp add: at_def)
  moreover have "at db' x = Some (outcome_of db x)" if "x \<in> set cs" for x using db'(4) other that by (simp add: outcome_of_def)
  moreover have "find_task k db' = find_task k db" if "k \<notin> set (c # cs)" for k using db'(5) d(4) that by simp
  moreover have "fresh db' r" if "fresh db r" "r \<notin> rw_uuid w n ` set (c # cs)" for r using db'(6) d(6) that by simp
  ultimately show ?case using db'(1,2,3) d(5) by (intro exI[of _ db']) simp
qed simp

subsection \<open>Every pass\<close>

text \<open>What the call has done so far to what was there when it began.\<close>

definition epics_done :: "rows \<Rightarrow> rows \<Rightarrow> reconcile_state \<Rightarrow> bool" where
  "epics_done db0 db st \<longleftrightarrow> rc_failed st = [] \<and> up db = up db0 \<and>
     (\<forall>c \<in> set (rc_completed st). at db c = Some ''done'' \<and> some_done db c) \<and>
     (\<forall>c \<in> set (rc_flagged st). at db c = Some ''blocked'' \<and> \<not> some_done db c) \<and>
     (\<forall>c \<in> set (rc_completed st) \<union> set (rc_flagged st). at db0 c = Some ''open'' \<and> (\<exists>u. (u, c) \<in> up db) \<and>
        (\<forall>u. (u, c) \<in> up db \<longrightarrow> at db u \<in> {Some ''done'', Some ''cancelled''})) \<and>
     (\<forall>k. k \<notin> set (rc_completed st) \<union> set (rc_flagged st) \<longrightarrow> find_task k db = find_task k db0)"

definition in_scope :: "string list option \<Rightarrow> string \<Rightarrow> bool" where
  "in_scope scope c \<longleftrightarrow> (case scope of None \<Rightarrow> True | Some is \<Rightarrow> c \<in> set is)"

definition levels :: "rows \<Rightarrow> string list option \<Rightarrow> nat \<Rightarrow> bool" where
  "levels db scope n \<longleftrightarrow> (\<forall>c. is_settled db c \<and> in_scope scope c \<longrightarrow> (\<exists>u. (u, c) \<in> up db ^^ Suc n))"

lemma to_settle_exact:
  assumes "wf taskLifecycle db" and "rc_failed st = []"
  shows "set (to_settle scope st db) = {c. is_settled db c \<and> in_scope scope c}" and "distinct (to_settle scope st db)"
proof -
  have "c \<in> set (to_settle scope st db) \<longleftrightarrow> in_scope scope c \<and> c \<in> set (map t_id (tasks_settled taskLifecycle db))" for c
    using assms(2) by (auto simp: to_settle_def in_scope_def)
  then show "set (to_settle scope st db) = {c. is_settled db c \<and> in_scope scope c}" unfolding settled_exact[OF assms(1)] by blast
  show "distinct (to_settle scope st db)" using settled_distinct[OF assms(1)] by (simp add: to_settle_def)
qed


lemma settled_open: "is_settled db c \<Longrightarrow> at db c = Some ''open''"
  by (auto simp: is_settled_def at_def)

lemma pass_keeps:
  assumes e: "epics_done db0 db st" and cs: "\<forall>c \<in> set cs. is_settled db c" and up: "up db' = up db"
    and at: "\<forall>c \<in> set cs. at db' c = Some (outcome_of db c)" and o: "\<forall>k. k \<notin> set cs \<longrightarrow> find_task k db' = find_task k db"
  shows "epics_done db0 db' (st\<lparr>rc_completed := rc_completed st @ filter (some_done db) cs,
      rc_flagged := rc_flagged st @ filter (\<lambda>c. \<not> some_done db c) cs, rc_progressed := p\<rparr>)"
proof -
  have open_cs: "at db c = Some ''open''" if "c \<in> set cs" for c using cs that settled_open by blast
  have old: "c \<notin> set cs" if "at db c \<in> {Some ''done'', Some ''cancelled'', Some ''blocked''}" for c
    using open_cs[of c] that by auto
  have keep: "at db' c = at db c" if "c \<notin> set cs" for c using o that by (simp add: at_def)
  have ended: "at db' u = at db u" if "at db u \<in> {Some ''done'', Some ''cancelled''}" for u using keep old that by auto
  have kids: "(\<forall>u. (u, c) \<in> up db \<longrightarrow> at db' u \<in> {Some ''done'', Some ''cancelled''}) \<and> some_done db' c = some_done db c"
    if "\<forall>u. (u, c) \<in> up db \<longrightarrow> at db u \<in> {Some ''done'', Some ''cancelled''}" for c
  proof -
    have same: "at db' u = at db u" if "(u, c) \<in> up db" for u
      using \<open>\<forall>u. (u, c) \<in> up db \<longrightarrow> at db u \<in> {Some ''done'', Some ''cancelled''}\<close> that ended by blast
    then show ?thesis using that unfolding some_done_def up by auto
  qed
  have e': "rc_failed st = []" "up db = up db0" "\<And>c. c \<in> set (rc_completed st) \<Longrightarrow> at db c = Some ''done'' \<and> some_done db c"
      "\<And>c. c \<in> set (rc_flagged st) \<Longrightarrow> at db c = Some ''blocked'' \<and> \<not> some_done db c"
      "\<And>c. c \<in> set (rc_completed st) \<union> set (rc_flagged st) \<Longrightarrow> at db0 c = Some ''open'' \<and> (\<exists>u. (u, c) \<in> up db) \<and>
        (\<forall>u. (u, c) \<in> up db \<longrightarrow> at db u \<in> {Some ''done'', Some ''cancelled''})"
      "\<And>k. k \<notin> set (rc_completed st) \<union> set (rc_flagged st) \<Longrightarrow> find_task k db = find_task k db0"
    using e by (auto simp: epics_done_def)
  have mine: "c \<notin> set (rc_completed st) \<union> set (rc_flagged st) \<and> at db0 c = Some ''open'' \<and> (\<exists>u. (u, c) \<in> up db) \<and>
      (\<forall>u. (u, c) \<in> up db \<longrightarrow> at db u \<in> {Some ''done'', Some ''cancelled''})" if c: "c \<in> set cs" for c
  proof -
    have n: "c \<notin> set (rc_completed st) \<union> set (rc_flagged st)" using open_cs[OF c] e'(3,4)[of c] by auto
    moreover have "at db0 c = Some ''open''" using open_cs[OF c] e'(6)[OF n] by (simp add: at_def)
    ultimately show ?thesis using cs c unfolding is_settled_def by blast
  qed
  show ?thesis
    unfolding epics_done_def
  proof (intro conjI ballI allI impI, goal_cases)
    case (3 c)
    then consider "c \<in> set (rc_completed st)" | "c \<in> set cs" "some_done db c" by auto
    then show ?case
    proof cases
      case 1
      then show ?thesis using e'(3)[of c] keep[of c] old[of c] by auto
    qed (use at in \<open>simp add: outcome_of_def\<close>)
  next
    case (4 c)
    then consider "c \<in> set (rc_completed st)" | "c \<in> set cs" "some_done db c" by auto
    then show ?case
    proof cases
      case 1
      then show ?thesis using e'(3)[of c] e'(5)[of c] kids[of c] by auto
    next
      case 2
      then show ?thesis using mine[of c] kids[of c] by blast
    qed
  next
    case (5 c)
    then consider "c \<in> set (rc_flagged st)" | "c \<in> set cs" "\<not> some_done db c" by auto
    then show ?case
    proof cases
      case 1
      then show ?thesis using e'(4)[of c] keep[of c] old[of c] by auto
    qed (use at in \<open>simp add: outcome_of_def\<close>)
  next
    case (6 c)
    then consider "c \<in> set (rc_flagged st)" | "c \<in> set cs" "\<not> some_done db c" by auto
    then show ?case
    proof cases
      case 1
      then show ?thesis using e'(4)[of c] e'(5)[of c] kids[of c] by auto
    next
      case 2
      then show ?thesis using mine[of c] kids[of c] by blast
    qed
  next
    case (7 c)
    then show ?case using e'(5)[of c] mine[of c] by auto
  next
    case (8 c)
    then have "c \<in> set (rc_completed st) \<union> set (rc_flagged st) \<or> c \<in> set cs" by auto
    then show ?case using e'(5)[of c] mine[of c] unfolding up by blast
  next
    case (9 c u)
    then have "c \<in> set (rc_completed st) \<union> set (rc_flagged st) \<or> c \<in> set cs" by auto
    then have "\<forall>u. (u, c) \<in> up db \<longrightarrow> at db u \<in> {Some ''done'', Some ''cancelled''}" using e'(5)[of c] mine[of c] by blast
    then show ?case using kids 9(2) unfolding up by blast
  next
    case (10 k)
    then have "k \<notin> set (rc_completed st) \<union> set (rc_flagged st) \<and> k \<notin> set cs" by auto
    then show ?case using o e'(6)[of k] by simp
  qed (use e'(1,2) up in simp_all)
qed

text \<open>A container that has become settled has a child completed in the pass, so it stands one level higher.\<close>

lemma pass_levels:
  assumes w: "wf taskLifecycle db" and w': "wf taskLifecycle db'" and l: "levels db scope n" and cs: "set cs = {c. is_settled db c \<and> in_scope scope c}" and up: "up db' = up db"
    and at: "\<forall>c \<in> set cs. at db' c = Some (outcome_of db c)" and o: "\<forall>k. k \<notin> set cs \<longrightarrow> find_task k db' = find_task k db"
  shows "levels db' scope (Suc n)"
  unfolding levels_def
proof (intro allI impI)
  fix c
  assume c: "is_settled db' c \<and> in_scope scope c"
  have "at db' c = Some ''open''" using c settled_open by blast
  then have "c \<notin> set cs" using at by (auto simp: outcome_of_def split: if_splits)
  then have row: "find_task c db' = find_task c db" and n: "\<not> is_settled db c" using o cs c by auto
  obtain u where u: "(u, c) \<in> up db" "at db u \<notin> {Some ''done'', Some ''cancelled''}"
    using n c unfolding is_settled_def row up by blast
  have "at db' u \<in> {Some ''done'', Some ''cancelled''}" using c u(1) unfolding is_settled_def up by blast
  then have "u \<in> set cs" using o u(2) by (auto simp: at_def)
  then obtain v where "(v, u) \<in> up db ^^ Suc n" using l cs unfolding levels_def by blast
  then show "\<exists>v. (v, c) \<in> up db' ^^ Suc (Suc n)" using u(1) unfolding up by (meson relpow_Suc_I)
qed


definition own_uuids :: "reconcile_world \<Rightarrow> bool" where
  "own_uuids w \<longleftrightarrow> (\<forall>n c n' c'. rw_uuid w n c = rw_uuid w n' c' \<longrightarrow> n = n' \<and> c = c')"

lemma passes_settle:
  assumes u: "undisturbed w" "own_uuids w" and me: "ac_role me = ''orchestrator''"
  shows "k \<le> MAX_DEPTH \<Longrightarrow> ready_rows db \<Longrightarrow> find_task '''' db = None \<Longrightarrow> epics_done db0 db st \<Longrightarrow> levels db scope (MAX_DEPTH - k) \<Longrightarrow>
    \<forall>n c. MAX_DEPTH - k \<le> n \<longrightarrow> fresh db (rw_uuid w n c) \<Longrightarrow>
    \<exists>st' db'. reconcile_passes w me scope k st db = (Inr st', db') \<and> ready_rows db' \<and> epics_done db0 db' st' \<and>
      (levels db' scope MAX_DEPTH \<or> (\<forall>c. in_scope scope c \<longrightarrow> \<not> is_settled db' c))"
proof (induction k arbitrary: db st)
  case 0
  then show ?case by (simp add: returns_def)
next
  case (Suc k)
  define n where "n = MAX_DEPTH - Suc k"
  have n: "MAX_DEPTH - k = Suc n" using Suc.prems(1) by (simp add: n_def)
  define cs where "cs = to_settle scope st db"
  define st1 where "st1 = st\<lparr>rc_progressed := False\<rparr>"
  have w: "wf taskLifecycle db" using Suc.prems(2) by (simp add: ready_rows_def steady_def)
  have "rc_failed st = []" using Suc.prems(4) by (simp add: epics_done_def)
  note cs = to_settle_exact[OF w this, of scope, folded cs_def]
  have each: "\<forall>c \<in> set cs. is_settled db c \<and> c \<noteq> '''' \<and> fresh db (rw_uuid w n c)"
    using cs(1) Suc.prems(3,6) by (auto simp: is_settled_def n_def)
  have inj: "inj_on (rw_uuid w n) (set cs)" using u(2) by (auto simp: own_uuids_def inj_on_def)
  obtain db' where db': "reconcile_pass w me n cs st1 db = (Inr (st1\<lparr>rc_completed := rc_completed st1 @ filter (some_done db) cs,
        rc_flagged := rc_flagged st1 @ filter (\<lambda>c. \<not> some_done db c) cs, rc_progressed := rc_progressed st1 \<or> cs \<noteq> []\<rparr>), db')"
      "ready_rows db'" "up db' = up db" "\<forall>c \<in> set cs. at db' c = Some (outcome_of db c)" "\<forall>k. k \<notin> set cs \<longrightarrow> find_task k db' = find_task k db"
      "\<forall>r. fresh db r \<longrightarrow> r \<notin> rw_uuid w n ` set cs \<longrightarrow> fresh db' r"
    using pass_exact[OF u(1) me Suc.prems(2) cs(2) each inj, of st1] by blast
  define st2 where "st2 = st1\<lparr>rc_completed := rc_completed st1 @ filter (some_done db) cs,
        rc_flagged := rc_flagged st1 @ filter (\<lambda>c. \<not> some_done db c) cs, rc_progressed := rc_progressed st1 \<or> cs \<noteq> []\<rparr>"
  have sel: "rc_completed st1 = rc_completed st" "rc_flagged st1 = rc_flagged st" "rc_failed st1 = rc_failed st" by (simp_all add: st1_def)
  have e1: "epics_done db0 db st1" using Suc.prems(4) unfolding epics_done_def sel .
  have e2: "epics_done db0 db' st2" unfolding st2_def by (rule pass_keeps[OF e1 _ db'(3,4,5)]) (use each in blast)
  have run: "reconcile_passes w me scope (Suc k) st db = (if rc_progressed st2 then reconcile_passes w me scope k st2 db' else (Inr st2, db'))"
    using db'(1) undisturbed_reads[OF u(1)] by (simp add: andThen_def returns_def flip: cs_def st1_def st2_def n_def)
  show ?case
  proof (cases "cs = []")
    case True
    then have "db' = db" using db'(1) by simp
    moreover have "\<not> rc_progressed st2" using True by (simp add: st2_def st1_def)
    moreover have "\<forall>c. in_scope scope c \<longrightarrow> \<not> is_settled db c" using cs(1) True by auto
    ultimately show ?thesis using run e2 db'(2) by auto
  next
    case False
    then have p: "rc_progressed st2" by (simp add: st2_def)
    have w': "wf taskLifecycle db'" using db'(2) by (simp add: ready_rows_def steady_def)
    have l: "levels db' scope (MAX_DEPTH - k)"
      unfolding n by (rule pass_levels[OF w w' _ cs(1) db'(3,4,5)]) (use Suc.prems(5) in \<open>simp add: n_def\<close>)
    have fr: "\<forall>n' c. MAX_DEPTH - k \<le> n' \<longrightarrow> fresh db' (rw_uuid w n' c)"
    proof (intro allI impI)
      fix n' c
      assume n': "MAX_DEPTH - k \<le> n'"
      have "rw_uuid w n' c \<noteq> rw_uuid w n x" for x
      proof
        assume "rw_uuid w n' c = rw_uuid w n x"
        then have "n' = n" using u(2) unfolding own_uuids_def by blast
        then show False using n n' by simp
      qed
      then have "rw_uuid w n' c \<notin> rw_uuid w n ` set cs" by blast
      moreover have "fresh db (rw_uuid w n' c)" using n' Suc.prems(6) n by (simp add: n_def)
      ultimately show "fresh db' (rw_uuid w n' c)" using db'(6) by blast
    qed
    have ne: "find_task '''' db' = None" using db'(5) each Suc.prems(3) by (metis)
    show ?thesis using Suc.IH[OF _ db'(2) ne e2 l fr] Suc.prems(1) run p by simp
  qed
qed

lemma scope_listed: "e \<noteq> '''' \<Longrightarrow> \<exists>ts. reconcile_scope (Some e) db = (Inr (Some (e # map t_id ts)), db) \<and>
    set ts = {t \<in> set (d_tasks db). t_id t \<in> set (below db e)}"
  by (auto simp: reconcile_scope_def filled_def andThen_def reads_def returns_def tasks_list_def parseTaskFilter_def parsed_def issue_def
      given_def noFilter_def nonEmpty_def listWhere_def limited_def filterWhere_def orElse_def)

text \<open>The epic a scoped run is given and all below it; every task when it is given none.\<close>

definition within_scope :: "rows \<Rightarrow> string option \<Rightarrow> string \<Rightarrow> bool" where
  "within_scope db within c \<longleftrightarrow> (case filled within of None \<Rightarrow> True | Some e \<Rightarrow> c = e \<or> (c \<in> t_id ` set (d_tasks db) \<and> c \<in> set (below db e)))"

lemma scope_exact: "\<exists>scope. reconcile_scope within db = (Inr scope, db) \<and> (\<forall>c. in_scope scope c \<longleftrightarrow> within_scope db within c)"
proof (cases "filled within")
  case None
  then show ?thesis by (simp add: reconcile_scope_def returns_def in_scope_def within_scope_def)
next
  case (Some e)
  then have e: "within = Some e" "e \<noteq> ''''" by (auto simp: filled_def split: if_splits)
  obtain ts where "reconcile_scope (Some e) db = (Inr (Some (e # map t_id ts)), db)" "set ts = {t \<in> set (d_tasks db). t_id t \<in> set (below db e)}"
    using scope_listed[OF e(2)] by blast
  then show ?thesis using e Some by (auto simp: in_scope_def within_scope_def)
qed

text \<open>
  C38: A reconcile by the orchestrator that no one disturbs, with request ids not used before, over rows that satisfy the engine's
  invariant, on Shreni's lifecycle as it is stored, with containers nested ten levels deep at most, fails on no container and leaves none settled in its scope: each container it completed is done over children
  that are all closed, one of them done; each it flagged is blocked over children that were all cancelled; and every other
  task is as it was.
\<close>

theorem epics_settle:
  assumes "wf taskLifecycle db" and "assertVersion taskLifecycle db = Inr ()" and "stored_lifecycle db" and "find_task '''' db = None"
    and "ac_role me = ''orchestrator''" and "undisturbed w" and "own_uuids w" and "\<forall>n c. fresh db (rw_uuid w n c)"
    and "up db ^^ Suc MAX_DEPTH = {}"
  shows "\<exists>completed flagged db'. reconcileContainers w me within db = (Inr (completed, flagged), db') \<and> wf taskLifecycle db' \<and>
    (\<forall>c. within_scope db within c \<longrightarrow> \<not> is_settled db' c) \<and>
    (\<forall>c \<in> set completed. at db c = Some ''open'' \<and> at db' c = Some ''done'' \<and> some_done db' c) \<and>
    (\<forall>c \<in> set flagged. at db c = Some ''open'' \<and> at db' c = Some ''blocked'' \<and> \<not> some_done db' c) \<and>
    (\<forall>c \<in> set completed \<union> set flagged. \<forall>u. (u, c) \<in> up db' \<longrightarrow> at db' u \<in> {Some ''done'', Some ''cancelled''}) \<and>
    (\<forall>k. k \<notin> set completed \<union> set flagged \<longrightarrow> find_task k db' = find_task k db)"
proof -
  obtain scope where sc: "reconcile_scope within db = (Inr scope, db)" "\<And>c. in_scope scope c \<longleftrightarrow> within_scope db within c"
    using scope_exact by blast
  define st where "st = \<lparr>rc_completed = [], rc_flagged = [], rc_failed = [], rc_progressed = False\<rparr>"
  have "ready_rows db" using assms(1,2,3) by (simp add: ready_rows_def steady_def)
  moreover have "epics_done db db st" by (simp add: epics_done_def st_def)
  moreover have "levels db scope (MAX_DEPTH - MAX_DEPTH)" by (auto simp: levels_def is_settled_def)
  ultimately obtain st' db' where db': "reconcile_passes w me scope MAX_DEPTH st db = (Inr st', db')" "ready_rows db'" "epics_done db db' st'"
      "levels db' scope MAX_DEPTH \<or> (\<forall>c. in_scope scope c \<longrightarrow> \<not> is_settled db' c)"
    using passes_settle[OF assms(6,7,5) order_refl, of db db st scope] assms(4,8) by blast
  have none: "\<not> is_settled db' c" if "within_scope db within c" for c
  proof
    assume c: "is_settled db' c"
    have "in_scope scope c" using that sc(2) by simp
    then have "levels db' scope MAX_DEPTH" using db'(4) c by blast
    then obtain u where "(u, c) \<in> up db' ^^ Suc MAX_DEPTH" using c \<open>in_scope scope c\<close> unfolding levels_def by blast
    moreover have "up db' = up db" using db'(3) unfolding epics_done_def by (elim conjE)
    ultimately show False using assms(9) by simp
  qed
  have run: "reconcileContainers w me within db = (Inr (rc_completed st', rc_flagged st'), db')"
    using sc(1) db'(1) undisturbed_reads[OF assms(6)] by (simp add: reconcileContainers_def andThen_def returns_def flip: st_def)
  have w': "wf taskLifecycle db'" using db'(2) by (simp add: ready_rows_def steady_def)
  note e = db'(3)[unfolded epics_done_def]
  show ?thesis
  proof (intro exI conjI)
    show "\<forall>c. within_scope db within c \<longrightarrow> \<not> is_settled db' c" using none by blast
    show "\<forall>c \<in> set (rc_completed st'). at db c = Some ''open'' \<and> at db' c = Some ''done'' \<and> some_done db' c" using e by (meson UnI1)
    show "\<forall>c \<in> set (rc_flagged st'). at db c = Some ''open'' \<and> at db' c = Some ''blocked'' \<and> \<not> some_done db' c" using e by (meson UnI2)
    show "\<forall>c \<in> set (rc_completed st') \<union> set (rc_flagged st'). \<forall>u. (u, c) \<in> up db' \<longrightarrow> at db' u \<in> {Some ''done'', Some ''cancelled''}" using e by meson
    show "\<forall>k. k \<notin> set (rc_completed st') \<union> set (rc_flagged st') \<longrightarrow> find_task k db' = find_task k db" using e by meson
  qed (use run w' in simp_all)
qed


subsection \<open>A concrete reconcile\<close>

definition epic_world :: reconcile_world where
  "epic_world = \<lparr>rw_uuid = (\<lambda>n c. replicate n CHR ''-'' @ CHR ''u'' # c), rw_meanwhile = (\<lambda>_ _ db. db),
     rw_between = (\<lambda>_ _ db. db), rw_down = (\<lambda>_ _. False), rw_unread = (\<lambda>_. False), rw_unscoped = False\<rparr>"

lemma replicate_split: "x \<noteq> y \<Longrightarrow> replicate n x @ y # c = replicate m x @ y # d \<Longrightarrow> n = m \<and> c = d"
proof (induction n arbitrary: m)
  case 0
  then show ?case by (cases m) auto
next
  case (Suc n)
  then show ?case by (cases m) auto
qed

lemma epic_world_ok: "undisturbed epic_world" "own_uuids epic_world"
proof -
  have ne: "CHR ''-'' \<noteq> CHR ''u''" by simp
  show "own_uuids epic_world"
    unfolding own_uuids_def epic_world_def reconcile_world.simps using replicate_split[OF ne] by blast
qed (simp add: undisturbed_def epic_world_def)

text \<open>The demo's epic with one task finished_state and the other cancelled.\<close>

definition epic_ops :: "(actor \<times> shreni_rows op) list" where
  "epic_ops = take 8 demo_ops @ [(orch, Move ''k-111.1'' ''finish'' plainly None)]"

definition epic_db :: rows where
  "epic_db = (case runs taskLifecycle [] (\<lambda>_. JNull) epic_ops demo_db of Inr db \<Rightarrow> db | Inl _ \<Rightarrow> demo_db)"

lemma epic_db_facts:
  "isOk (runs taskLifecycle [] (\<lambda>_. JNull) epic_ops demo_db)"
  "map (\<lambda>t. (t_id t, t_parentId t, t_state t)) (d_tasks epic_db) =
     [(''k-111'', None, ''open''), (''k-111.1'', Some ''k-111'', ''done''), (''k-111.2'', Some ''k-111'', ''cancelled'')]"
  "list_all (\<lambda>r. r = None \<or> r = Some ''r1'') (map e_requestId (d_events epic_db))"
  "(d_lifecycleName epic_db, d_lifecycleVersion epic_db) = (''shreni.task'', 2)"
  "sr_lifecycles (d_caller epic_db) = [((''shreni.task'', 2), l_states taskLifecycle)]"
  by code_simp+


lemma epic_db_wf: "wf taskLifecycle epic_db"
proof -
  obtain d where d: "runs taskLifecycle [] (\<lambda>_. JNull) epic_ops demo_db = Inr d" using epic_db_facts(1) by (auto simp: isOk_iff)
  then have "epic_db = d" by (simp add: epic_db_def)
  moreover have "reachable taskLifecycle [] (\<lambda>_. JNull) d" by (rule runs_reachable[OF new_demo d])
  ultimately show ?thesis using reachable_good[OF taskLifecycle_sound, of "[]" "\<lambda>_. JNull" d] by (simp add: good_def)
qed

lemma epic_db_up: "up epic_db = {(''k-111.1'', ''k-111''), (''k-111.2'', ''k-111'')}"
proof -
  have "up epic_db = {(i, p). (i, Some p) \<in> set (map (\<lambda>t. (t_id t, t_parentId t)) (d_tasks epic_db))}"
    by (force simp: up_def parents_def)
  also have "map (\<lambda>t. (t_id t, t_parentId t)) (d_tasks epic_db) = map (\<lambda>(i, p, s). (i, p)) (map (\<lambda>t. (t_id t, t_parentId t, t_state t)) (d_tasks epic_db))"
    by simp
  finally show ?thesis unfolding epic_db_facts(2) by auto
qed

theorem epics_settle_witness:
  "\<exists>completed flagged db'. reconcileContainers epic_world orch None epic_db = (Inr (completed, flagged), db') \<and> \<not> is_settled db' ''k-111''"
proof -
  have "find_task '''' epic_db = None"
    unfolding find_row_None using arg_cong[OF epic_db_facts(2), of "map fst"] by (auto dest: arg_cong[where f = set])
  moreover have "fresh epic_db (rw_uuid epic_world n c)" for n c
    using epic_db_facts(3) by (cases n) (auto simp: fresh_def epic_world_def list_all_iff)
  moreover have "up epic_db ^^ Suc MAX_DEPTH = {}"
  proof -
    have "up epic_db O up epic_db = {}" unfolding epic_db_up by auto
    then show ?thesis by (simp add: MAX_DEPTH_def numeral_eq_Suc O_assoc)
  qed
  moreover have "assertVersion taskLifecycle epic_db = Inr ()" "stored_lifecycle epic_db" "ac_role orch = ''orchestrator''"
    using epic_db_facts(4,5) by (simp_all add: assertVersion_ok stored_lifecycle_def orch_def)
  moreover have "within_scope epic_db None ''k-111''" by (simp add: within_scope_def filled_def)
  ultimately show ?thesis using epics_settle[OF epic_db_wf _ _ _ _ epic_world_ok, of orch None] by blast
qed

end
