(* ===== verification/Filing.thy ===== *)
theory Filing
  imports ByHand
begin

text \<open>
  Planning on the engine (src/src/policy/suthradhara/filing.ts): what a planning session's commands write, each naming the
  session's plan, and what the developer's menu reads and decides. The text columns of an acceptance check are not rows of the
  model, so a check is filed as its row; \<open>lost\<close> is what Shreni's own transaction on the checks throws, when it does.
\<close>

subsection \<open>The session's commands\<close>

definition PLANNER :: actor where
  "PLANNER = \<lparr>ac_id = ''suthradhara'', ac_role = ''planner''\<rparr>"

type_synonym given_when_then = "string \<times> string \<times> string"

record plan_task_input =
  pi_title :: string
  pi_description :: "string option"
  pi_parent :: "string option"
  pi_priority :: "int option"
  pi_epic :: bool
  pi_category :: "string option"
  pi_checks :: "given_when_then list option"

record plan_task_patch =
  pp_title :: "string option"
  pp_description :: "string option"
  pp_priority :: "int option"
  pp_checks :: "given_when_then list option"

text \<open>The task, if it belongs to the plan and is still proposed.\<close>

definition inPlan :: "string \<Rightarrow> string \<Rightarrow> task run" where
  "inPlan plan i = andThen (reads (\<lambda>db. tasks_get db i)) (\<lambda>(t, _, _).
     if t_planId t \<noteq> Some plan then fails_with (InvalidRequest (i @ '' isn't in plan '' @ plan @ ''; a planning session changes only its own plan''))
     else if t_state t \<noteq> ''proposed'' then fails_with (InvalidRequest (i @ '' is '' @ t_state t @ '': once approved, a change is a new plan''))
     else returns t)"

definition check_row :: "rows \<Rightarrow> string \<Rightarrow> acceptance_check" where
  "check_row db i = \<lparr>ck_projectId = d_projectId db, ck_taskId = Some i, ck_mode = ''auto''\<rparr>"

definition is_check_of :: "rows \<Rightarrow> string \<Rightarrow> acceptance_check \<Rightarrow> bool" where
  "is_check_of db i c \<longleftrightarrow> ck_projectId c = d_projectId db \<and> ck_taskId c = Some i"

definition writeChecks :: "tg_error option \<Rightarrow> string \<Rightarrow> given_when_then list \<Rightarrow> bool \<Rightarrow> unit run" where
  "writeChecks lost i checks replace db = (case lost of Some e \<Rightarrow> (Inl e, db)
     | None \<Rightarrow> (let old = sr_checks (d_caller db); kept = (if replace then filter (\<lambda>c. \<not> is_check_of db i c) old else old) in
         (Inr (), db\<lparr>d_caller := (d_caller db)\<lparr>sr_checks := kept @ map (\<lambda>_. check_row db i) checks\<rparr>\<rparr>)))"

definition plan_new_task :: "string \<Rightarrow> plan_task_input \<Rightarrow> new_task" where
  "plan_new_task plan x = \<lparr>nt_title = pi_title x, nt_description = filled (pi_description x), nt_kind = (if pi_epic x then Some Container else None),
     nt_category = filled (pi_category x), nt_priority = pi_priority x, nt_parent = filled (pi_parent x), nt_plan = Some plan,
     nt_key = None, nt_spec = None, nt_tags = None, nt_holdUntil = None\<rparr>"

definition delete_planned :: "string \<Rightarrow> unit run" where
  "delete_planned i = engine (\<lambda>db. rows_after (call_delete taskLifecycle PLANNER i None db db))"

text \<open>The engine's create can't join Shreni's transaction: a task whose checks didn't land is removed.\<close>

definition file_checks :: "tg_error option \<Rightarrow> string \<Rightarrow> given_when_then list \<Rightarrow> unit run" where
  "file_checks lost i checks = orCatch (writeChecks lost i checks False) (\<lambda>err.
     andThen (orCatch (delete_planned i) (\<lambda>gone. fails_with (Fatal (''filed '' @ i @ '', but its checks failed ('' @ error_text err @
         '') and it could not be removed ('' @ error_text gone @ '')''))))
       (\<lambda>_. fails_with err))"

definition addPlanTask :: "tg_error option \<Rightarrow> (nat \<Rightarrow> nat) \<Rightarrow> string \<Rightarrow> plan_task_input \<Rightarrow> task run" where
  "addPlanTask lost rand plan x = (let checks = orElse (pi_checks x) [] in
     andThen (case filled (pi_parent x) of None \<Rightarrow> returns () | Some p \<Rightarrow> andThen (inPlan plan p) (\<lambda>_. returns ()))
       (\<lambda>_. if pi_epic x \<and> checks \<noteq> [] then fails_with (InvalidRequest ''an epic takes no checks; give its tasks the checks'')
         else andThen (answers (\<lambda>db. call_create taskLifecycle PLANNER (plan_new_task plan x) rand None db db))
           (\<lambda>t. if checks = [] then returns t else andThen (file_checks lost (t_id t) checks) (\<lambda>_. returns t))))"

definition plan_patch :: "plan_task_patch \<Rightarrow> task_patch" where
  "plan_patch p = \<lparr>tp_title = pp_title p, tp_description = map_option Some (pp_description p), tp_category = None, tp_priority = pp_priority p,
     tp_tags = None, tp_spec = None, tp_holdUntil = None, tp_parent = None, tp_kind = None\<rparr>"

definition updatePlanTask :: "tg_error option \<Rightarrow> string \<Rightarrow> string \<Rightarrow> plan_task_patch \<Rightarrow> task run" where
  "updatePlanTask lost plan i p = andThen (inPlan plan i) (\<lambda>_.
     andThen (if pp_title p \<noteq> None \<or> pp_description p \<noteq> None \<or> pp_priority p \<noteq> None
         then answers (\<lambda>db. call_update taskLifecycle PLANNER i (plan_patch p) None db db)
         else andThen (reads (\<lambda>db. tasks_get db i)) (\<lambda>(t, _, _). returns t))
       (\<lambda>t. andThen (case pp_checks p of None \<Rightarrow> returns () | Some checks \<Rightarrow> writeChecks lost i checks True) (\<lambda>_. returns t)))"

definition deletePlanTask :: "string \<Rightarrow> string \<Rightarrow> unit run" where
  "deletePlanTask plan i = andThen (inPlan plan i) (\<lambda>_. delete_planned i)"

text \<open>The task it waits on is the plan's, or approved work, never another plan's proposal.\<close>

definition addPlanDep :: "string \<Rightarrow> string \<Rightarrow> string \<Rightarrow> unit run" where
  "addPlanDep plan blocked blocker = andThen (inPlan plan blocked) (\<lambda>_. andThen (reads (\<lambda>db. tasks_get db blocker)) (\<lambda>(on, _, _).
     if t_planId on \<noteq> Some plan \<and> t_state on = ''proposed'' then fails_with (InvalidRequest (blocker @ '' is proposed in '' @
         (case filled (t_planId on) of Some p \<Rightarrow> ''plan '' @ p | None \<Rightarrow> ''no plan'') @ ''; wait only on this plan's tasks or approved work''))
     else engine (\<lambda>db. rows_after (call_dep_add taskLifecycle PLANNER blocked blocker None db db))))"

definition removePlanDep :: "string \<Rightarrow> string \<Rightarrow> string \<Rightarrow> unit run" where
  "removePlanDep plan blocked blocker = andThen (inPlan plan blocked) (\<lambda>_.
     engine (\<lambda>db. rows_after (call_dep_remove taskLifecycle PLANNER blocked blocker None db db)))"

text \<open>A command of a session, and a session: one command after another, whatever each answers.\<close>

datatype plan_command =
    PlanAdd "tg_error option" "nat \<Rightarrow> nat" plan_task_input
  | PlanUpdate "tg_error option" string plan_task_patch
  | PlanDelete string
  | PlanDepAdd string string
  | PlanDepRemove string string

fun plan_write :: "string \<Rightarrow> plan_command \<Rightarrow> rows \<Rightarrow> rows" where
  "plan_write plan (PlanAdd lost rand x) db = snd (addPlanTask lost rand plan x db)"
| "plan_write plan (PlanUpdate lost i p) db = snd (updatePlanTask lost plan i p db)"
| "plan_write plan (PlanDelete i) db = snd (deletePlanTask plan i db)"
| "plan_write plan (PlanDepAdd x y) db = snd (addPlanDep plan x y db)"
| "plan_write plan (PlanDepRemove x y) db = snd (removePlanDep plan x y db)"

definition plan_session :: "string \<Rightarrow> plan_command list \<Rightarrow> rows \<Rightarrow> rows" where
  "plan_session plan cmds db = fold (plan_write plan) cmds db"

subsection \<open>The developer's menu\<close>

record plan_summary =
  ps_plan :: plan
  ps_open :: bool
  ps_tasks :: "(task \<times> acceptance_check list) list"
  ps_findings :: "finding list"
  ps_ok :: bool

definition of_plan :: "string \<Rightarrow> task_filter" where
  "of_plan pid = noFilter\<lparr>fl_plan := Some pid\<rparr>"

definition plan_is_open :: "plan \<Rightarrow> bool" where
  "plan_is_open p \<longleftrightarrow> p_approvedAt p = None \<and> p_discardedAt p = None"

definition summarisePlan ::
  "shreni_rows validator list \<Rightarrow> (string \<Rightarrow> json) \<Rightarrow> actor \<Rightarrow> string \<Rightarrow> rows \<Rightarrow> tg_error + plan_summary" where
  "summarisePlan vs cfg me pid db = bindE (plans_get db pid) (\<lambda>p.
     bindE (tasks_list db ((of_plan pid)\<lparr>fl_orderBy := Some ByCreated\<rparr>)) (\<lambda>ts.
     bindE (if plan_is_open p \<and> ts \<noteq> [] then plans_validate taskLifecycle vs cfg me pid db
         else Inr \<lparr>rp_planId = pid, rp_ok = True, rp_findings = []\<rparr>) (\<lambda>r.
       Inr \<lparr>ps_plan = p, ps_open = plan_is_open p, ps_tasks = map (\<lambda>t. (t, checks_of db (t_id t))) ts,
         ps_findings = rp_findings r, ps_ok = rp_ok r\<rparr>)))"

definition store_create :: "actor \<Rightarrow> string \<Rightarrow> json option \<Rightarrow> (nat \<Rightarrow> nat) \<Rightarrow> string run" where
  "store_create me title meta rand = andThen (answers (\<lambda>db. call_plan_create taskLifecycle me title meta rand None db db)) (\<lambda>p. returns (p_id p))"

text \<open>
  Only what was shown is approved: the ids, sorted and joined by commas, are those of the plan's tasks as they are read;
  \<open>meanwhile\<close> is what is written between that read and the approval.
\<close>

definition joined_ids :: "string list \<Rightarrow> string" where
  "joined_ids is = joined '','' (sort is)"

definition store_approve ::
  "shreni_rows validator list \<Rightarrow> (string \<Rightarrow> json) \<Rightarrow> actor \<Rightarrow> (rows \<Rightarrow> rows) \<Rightarrow> string \<Rightarrow> string list \<Rightarrow> json run" where
  "store_approve vs cfg me meanwhile pid seen = andThen (reads (\<lambda>db. tasks_list db (of_plan pid))) (\<lambda>ts db.
     if joined_ids (map t_id ts) \<noteq> joined_ids seen
     then (Inl (InvalidRequest (''plan '' @ pid @ '' changed while you looked; look again'')), db)
     else andThen (answers (\<lambda>db. call_plan_approve taskLifecycle vs cfg me pid \<lparr>ao_via = ''cli'', ao_requestId = None\<rparr> db db))
       (\<lambda>(_, findings). returns findings) (meanwhile db))"

definition store_isOpen :: "string \<Rightarrow> rows \<Rightarrow> tg_error + bool" where
  "store_isOpen pid db = (case plans_get db pid of Inr p \<Rightarrow> Inr (plan_is_open p) | Inl (NotFound _ _) \<Rightarrow> Inr False | Inl e \<Rightarrow> Inl e)"

definition store_discard :: "actor \<Rightarrow> string \<Rightarrow> unit run" where
  "store_discard me pid = engine (\<lambda>db. rows_after (call_plan_discard taskLifecycle me pid \<lparr>ao_via = ''cli'', ao_requestId = None\<rparr> db db))"

definition store_dropIfEmpty :: "actor \<Rightarrow> string \<Rightarrow> unit run" where
  "store_dropIfEmpty me pid = andThen (reads (\<lambda>db. plans_get db pid)) (\<lambda>p.
     if \<not> plan_is_open p then returns ()
     else andThen (reads (\<lambda>db. tasks_count db (of_plan pid))) (\<lambda>n. if n > 0 then returns () else store_discard me pid))"

end
