(* ===== verification/FilingProperties.thy ===== *)
theory FilingProperties
  imports CancelProperties Filing
begin

text \<open>
  A planning session (src/src/policy/suthradhara/filing.ts) writes its own plan's proposals and nothing else.
\<close>

subsection \<open>What is the plan's to change\<close>

text \<open>A proposed task of the plan, or an id no task has.\<close>

definition mine :: "string \<Rightarrow> rows \<Rightarrow> string \<Rightarrow> bool" where
  "mine plan db i \<longleftrightarrow> (case find_task i db of None \<Rightarrow> True | Some t \<Rightarrow> t_planId t = Some plan \<and> t_state t = ''proposed'')"

definition others_checks :: "string \<Rightarrow> rows \<Rightarrow> rows \<Rightarrow> acceptance_check list" where
  "others_checks plan db0 db = filter (\<lambda>c. \<not> (ck_projectId c = d_projectId db0 \<and> (\<exists>i. ck_taskId c = Some i \<and> mine plan db0 i))) (sr_checks (d_caller db))"

definition plan_only :: "string \<Rightarrow> rows \<Rightarrow> rows \<Rightarrow> bool" where
  "plan_only plan a b \<longleftrightarrow> (\<forall>i. mine plan b i = mine plan a i) \<and> (\<forall>i. \<not> mine plan a i \<longrightarrow> find_task i b = find_task i a) \<and>
     (\<forall>x y. \<not> mine plan a x \<longrightarrow> \<not> mine plan a y \<longrightarrow> (x, y) \<in> set (d_deps b) \<longleftrightarrow> (x, y) \<in> set (d_deps a)) \<and>
     d_plans b = d_plans a \<and> d_attempts b = d_attempts a \<and> d_projectId b = d_projectId a \<and>
     sr_evidence (d_caller b) = sr_evidence (d_caller a) \<and> others_checks plan a b = others_checks plan a a"

lemma plan_only_refl [simp]: "plan_only plan a a"
  by (simp add: plan_only_def)

lemma plan_only_trans:
  assumes ab: "plan_only plan a b" and bc: "plan_only plan b c"
  shows "plan_only plan a c"
proof -
  have m: "mine plan b i = mine plan a i" for i using ab by (simp add: plan_only_def)
  have "others_checks plan b d = others_checks plan a d" for d using ab by (simp add: others_checks_def m plan_only_def)
  then show ?thesis using ab bc unfolding plan_only_def m by simp
qed

text \<open>A write of the engine: what its body leaves.\<close>

lemma plan_only_events: "plan_only plan a b \<Longrightarrow> same_rows b c \<Longrightarrow> plan_only plan a c"
  by (simp add: plan_only_def mine_def others_checks_def same_rowsD)

lemma once_plan_only:
  assumes "rows_after (once req kind ex (transaction body) replay db db) = Inr db'"
    and "\<And>r db1 evs. body db = Inr (r, db1, evs) \<Longrightarrow> plan_only plan db db1"
  shows "plan_only plan db db'"
  using once_body[OF assms(1)] assms(2) transaction_Inr unfolding body_step_def by (metis plan_only_events plan_only_refl)

lemma plan_only_tasks:
  assumes t: "mine plan db i" and new: "\<And>t. find_task i db' = Some t \<Longrightarrow> t_planId t = Some plan \<and> t_state t = ''proposed''"
    and o: "\<And>k. k \<noteq> i \<Longrightarrow> find_task k db' = find_task k db"
    and d: "\<And>x y. x \<noteq> i \<Longrightarrow> y \<noteq> i \<Longrightarrow> (x, y) \<in> set (d_deps db') \<longleftrightarrow> (x, y) \<in> set (d_deps db)"
    and s: "d_plans db' = d_plans db" "d_attempts db' = d_attempts db" "d_projectId db' = d_projectId db" "d_caller db' = d_caller db"
  shows "plan_only plan db db'"
proof -
  have m: "mine plan db' k = mine plan db k" for k
  proof (cases "k = i")
    case True
    have "mine plan db' i" using new by (cases "find_task i db'") (simp_all add: mine_def)
    then show ?thesis using t True by simp
  qed (simp add: mine_def o)
  have f: "find_task k db' = find_task k db" if "\<not> mine plan db k" for k
  proof -
    have "k \<noteq> i" using t that by blast
    then show ?thesis by (rule o)
  qed
  have e: "(x, y) \<in> set (d_deps db') \<longleftrightarrow> (x, y) \<in> set (d_deps db)" if "\<not> mine plan db x" "\<not> mine plan db y" for x y
  proof -
    have "x \<noteq> i" "y \<noteq> i" using t that by blast+
    then show ?thesis by (rule d)
  qed
  show ?thesis unfolding plan_only_def others_checks_def s m using f e by blast
qed

subsection \<open>Each write\<close>

lemma inPlan_cases:
  obtains (refused) e where "inPlan plan i db = (Inl e, db)"
  | (ok) t where "inPlan plan i db = (Inr t, db)" "find_task i db = Some t" "t_planId t = Some plan" "t_state t = ''proposed''"
proof (cases "tasks_get db i")
  case (Inl e)
  then show thesis using refused by (simp add: inPlan_def andThen_def reads_def)
next
  case (Inr x)
  obtain t y z where x: "x = (t, y, z)" by (cases x)
  have "find_task i db = Some t" using Inr x by (auto simp: tasks_get_def)
  moreover have "inPlan plan i db = (if t_planId t \<noteq> Some plan
       then (Inl (InvalidRequest (i @ '' isn't in plan '' @ plan @ ''; a planning session changes only its own plan'')), db)
       else if t_state t \<noteq> ''proposed'' then (Inl (InvalidRequest (i @ '' is '' @ t_state t @ '': once approved, a change is a new plan'')), db)
       else (Inr t, db))"
    using Inr x by (simp add: inPlan_def andThen_def reads_def fails_with_def returns_def)
  ultimately show thesis
  proof (cases "t_planId t = Some plan \<and> t_state t = ''proposed''")
    case False
    then have "\<exists>e. inPlan plan i db = (Inl e, db)"
      using \<open>inPlan plan i db = _\<close> by (cases "t_planId t = Some plan") simp_all
    then show thesis using refused by blast
  qed (use ok in simp)
qed

lemma inPlan_mine: "inPlan plan i db = (Inr t, db') \<Longrightarrow> mine plan db i \<and> db' = db"
  by (cases rule: inPlan_cases[of plan i db]) (auto simp: mine_def)

lemma engine_snd: "snd (engine f db) = (case f db of Inl _ \<Rightarrow> db | Inr d \<Rightarrow> d)"
  by (simp add: engine_def split: sum.split)

lemma delete_only: "mine plan db i \<Longrightarrow> plan_only plan db (snd (delete_planned i db))"
proof -
  assume m: "mine plan db i"
  have "plan_only plan db db'" if "rows_after (call_delete taskLifecycle PLANNER i None db db) = Inr db'" for db'
    using that unfolding call_delete_def
  proof (rule once_plan_only)
    fix r db1 evs
    assume "tasks_delete taskLifecycle PLANNER i None db = Inr (r, db1, evs)"
    then have "db1 = deleteRow i db" by (auto simp: tasks_delete_def Let_def split: if_splits)
    moreover have "find_row t_id i (del_row t_id i ts) = None" for ts :: "task list" by (auto simp: find_row_None del_row_def)
    moreover have "find_row t_id k (del_row t_id i ts) = find_row t_id k ts" if "k \<noteq> i" for k and ts :: "task list"
      using that by (induction ts) (auto simp: del_row_def)
    ultimately show "plan_only plan db db1" by (intro plan_only_tasks[OF m]) (simp_all add: deleteRow_def)
  qed
  then show ?thesis by (simp add: delete_planned_def engine_snd split: sum.split)
qed

lemma checks_only: "mine plan db i \<Longrightarrow> plan_only plan db (snd (writeChecks lost i checks replace db))"
  by (auto simp: writeChecks_def plan_only_def mine_def others_checks_def check_row_def is_check_of_def Let_def intro!: filter_cong split: option.splits)


lemma update_only: "mine plan db i \<Longrightarrow> plan_only plan db (snd (answers (\<lambda>db. call_update taskLifecycle PLANNER i (plan_patch p) None db db) db))"
proof -
  assume m: "mine plan db i"
  have "plan_only plan db db'" if "rows_after (call_update taskLifecycle PLANNER i (plan_patch p) None db db) = Inr db'" for db'
    using that unfolding call_update_def
  proof (rule once_plan_only)
    fix r db1 evs
    assume c: "tasks_update taskLifecycle PLANNER i (plan_patch p) None db = Inr (r, db1, evs)"
    then obtain t where t: "find_task i db = Some t" and parse: "parseTaskPatch (plan_patch p) = Inr ()"
      and db1: "db1 = db \<or> db1 = upd_task i (\<lambda>r. (applySets (fieldChanges (plan_patch p) t) r)\<lparr>t_updatedAt := d_now db\<rparr>) db"
      by (auto simp: tasks_update_def Let_def kindChanges_def parentChanges_def plan_patch_def split: if_splits)
    define f where "f = (\<lambda>r. (applySets (fieldChanges (plan_patch p) t) r)\<lparr>t_updatedAt := d_now db\<rparr>)"
    have "keeps_row (applySets (fieldChanges (plan_patch p) t))" by (rule applySets_keeps) (use change_sets[OF _ parse] in blast)
    then have f: "t_id (f r) = t_id r" "t_state (f r) = t_state r" "t_planId (f r) = t_planId r" for r
      by (simp_all add: f_def keeps_defs)
    have "plan_only plan db (upd_task i f db)"
    proof (rule plan_only_tasks[OF m])
      show "t_planId u = Some plan \<and> t_state u = ''proposed''" if "find_task i (upd_task i f db) = Some u" for u
      proof -
        have "u = f t" using that t by (simp add: find_row_upd[of t_id f, OF f(1)])
        then show ?thesis using m t f by (simp add: mine_def)
      qed
    qed (simp_all add: find_row_upd[of t_id f, OF f(1)])
    then show "plan_only plan db db1" using db1 by (auto simp flip: f_def)
  qed
  then show ?thesis by (auto simp: answers_def rows_after_def split: sum.split)
qed

lemma create_only:
  assumes "\<And>p. nt_parent t = Some p \<Longrightarrow> mine plan db p" and "nt_plan t = Some plan" and "nt_key t = None"
    and "answers (\<lambda>db. call_create taskLifecycle PLANNER t rand None db db) db = (r, db')"
  shows "plan_only plan db db' \<and> (\<forall>row. r = Inr row \<longrightarrow> mine plan db' (t_id row))"
proof (cases r)
  case (Inl e)
  then show ?thesis using assms(4) by (auto simp: answers_def split: sum.splits)
next
  case (Inr row)
  then have tx: "transaction (tasks_create taskLifecycle PLANNER t rand None) db = Inr (row, db')"
    using assms(4) by (auto simp: answers_def call_create_def once_def split: sum.splits)
  obtain db1 evs where c: "tasks_create taskLifecycle PLANNER t rand None db = Inr (row, db1, evs)" and s: "same_rows db1 db'"
    using transaction_Inr[OF tx] by blast
  then obtain orig where "createRow db t ''proposed'' orig rand = Inr (row, db1)"
    using assms(2,3) by (auto simp: tasks_create_def createState_def)
  then obtain i where i: "row = newRow db t ''proposed'' orig i" "i \<notin> ids (d_tasks db)"
      "db1 = (bumped t db)\<lparr>d_tasks := d_tasks (bumped t db) @ [row]\<rparr>" by (rule createRow_Inr)
  have b: "plan_only plan db (bumped t db)"
  proof (cases "nt_parent t")
    case (Some p)
    then show ?thesis using assms(1)[OF Some]
      by (intro plan_only_tasks[of plan db p]) (auto simp: bumped_def find_row_upd mine_def split: option.splits)
  qed (simp add: bumped_def)
  have new: "find_task i (bumped t db) = None"
    using i(2) find_row_None[of t_id i "d_tasks (bumped t db)"] bumped_simps[of t db] by (simp add: ids_def)
  have row: "t_id row = i" "t_planId row = Some plan" "t_state row = ''proposed''" using i(1) assms(2) by (simp_all add: newRow_def)
  have "plan_only plan (bumped t db) db1"
  proof (rule plan_only_tasks[of plan _ i])
    show "mine plan (bumped t db) i" using new by (simp add: mine_def)
    show "t_planId u = Some plan \<and> t_state u = ''proposed''" if "find_task i db1 = Some u" for u
      using that new row by (simp add: i(3) find_row_append)
  qed (use row in \<open>simp_all add: i(3) find_row_append split: option.split\<close>)
  then have "plan_only plan db db'" using b plan_only_trans plan_only_events s by blast
  moreover have "mine plan db' i" using new row s by (simp add: mine_def same_rowsD i(3) find_row_append)
  ultimately show ?thesis using Inr row by simp
qed

lemma dep_add_only: "mine plan db x \<Longrightarrow> plan_only plan db (snd (engine (\<lambda>db. rows_after (call_dep_add taskLifecycle PLANNER x y None db db)) db))"
proof -
  assume m: "mine plan db x"
  have "plan_only plan db db'" if "rows_after (call_dep_add taskLifecycle PLANNER x y None db db) = Inr db'" for db'
    using that unfolding call_dep_add_def
  proof (rule once_plan_only)
    fix r db1 evs
    assume "deps_add taskLifecycle PLANNER x y None db = Inr (r, db1, evs)"
    then have "db1 = db \<or> db1 = db\<lparr>d_deps := d_deps db @ [(x, y)]\<rparr>" by (auto simp: deps_add_def split: if_splits)
    then show "plan_only plan db db1" using m by (auto simp: plan_only_def mine_def others_checks_def)
  qed
  then show ?thesis by (simp add: engine_snd split: sum.split)
qed

lemma dep_remove_only: "mine plan db x \<Longrightarrow> plan_only plan db (snd (engine (\<lambda>db. rows_after (call_dep_remove taskLifecycle PLANNER x y None db db)) db))"
proof -
  assume m: "mine plan db x"
  have "plan_only plan db db'" if "rows_after (call_dep_remove taskLifecycle PLANNER x y None db db) = Inr db'" for db'
    using that unfolding call_dep_remove_def
  proof (rule once_plan_only)
    fix r db1 evs
    assume "deps_remove taskLifecycle PLANNER x y None db = Inr (r, db1, evs)"
    then have "db1 = db\<lparr>d_deps := filter (\<lambda>e. e \<noteq> (x, y)) (d_deps db)\<rparr>" by (auto simp: deps_remove_def split: if_splits)
    then show "plan_only plan db db1" using m by (auto simp: plan_only_def mine_def others_checks_def)
  qed
  then show ?thesis by (simp add: engine_snd split: sum.split)
qed

subsection \<open>Each command\<close>

lemma andThen_only:
  assumes "plan_only plan db (snd (f db))" and "\<And>x d. f db = (Inr x, d) \<Longrightarrow> plan_only plan db d \<Longrightarrow> plan_only plan d (snd (g x d))"
  shows "plan_only plan db (snd (andThen f g db))"
proof (cases "f db")
  case (Pair r d)
  then show ?thesis using assms plan_only_trans by (cases r) (fastforce simp: andThen_def)+
qed

lemma orCatch_only:
  assumes "plan_only plan db (snd (f db))" and "\<And>e d. f db = (Inl e, d) \<Longrightarrow> plan_only plan db d \<Longrightarrow> plan_only plan d (snd (h e d))"
  shows "plan_only plan db (snd (orCatch f h db))"
proof (cases "f db")
  case (Pair r d)
  then show ?thesis using assms plan_only_trans by (cases r) (fastforce simp: orCatch_def)+
qed

lemma still_mine: "plan_only plan a b \<Longrightarrow> mine plan a i \<Longrightarrow> mine plan b i"
  by (simp add: plan_only_def)

lemma returns_only [simp]: "plan_only plan db (snd (returns x db))" "plan_only plan db (snd (fails_with e db))" "plan_only plan db (snd (reads f db))"
  by (simp_all add: returns_def fails_with_def reads_def)

lemma inPlan_only [simp]: "plan_only plan db (snd (inPlan p i db))"
  by (cases rule: inPlan_cases[of p i db]) auto

lemma file_checks_only: "mine plan db i \<Longrightarrow> plan_only plan db (snd (file_checks lost i checks db))"
  unfolding file_checks_def
  by (intro orCatch_only andThen_only checks_only delete_only) (auto intro: still_mine)

lemma addPlanTask_only: "plan_only plan db (snd (addPlanTask lost rand plan x db))"
proof -
  define own where "own = (case filled (pi_parent x) of None \<Rightarrow> returns () | Some p \<Rightarrow> andThen (inPlan plan p) (\<lambda>_. returns ()))"
  have o: "plan_only plan db (snd (own db))" by (auto simp: own_def intro: andThen_only split: option.split)
  have par: "d = db \<and> (\<forall>p. filled (pi_parent x) = Some p \<longrightarrow> mine plan d p)" if "own db = (Inr u, d)" for u d
    using that inPlan_mine by (fastforce simp: own_def andThen_def returns_def split: option.splits prod.splits sum.splits)
  have create: "plan_only plan d d' \<and> (\<forall>row. r = Inr row \<longrightarrow> mine plan d' (t_id row))"
    if "own db = (Inr u, d)" "answers (\<lambda>db. call_create taskLifecycle PLANNER (plan_new_task plan x) rand None db db) d = (r, d')" for u d r d'
    by (rule create_only[OF _ _ _ that(2)]) (use par[OF that(1)] in \<open>auto simp: plan_new_task_def\<close>)
  show ?thesis
    unfolding addPlanTask_def Let_def own_def[symmetric]
  proof (rule andThen_only[where f = own, OF o], goal_cases)
    case (1 u d)
    then show ?case
    proof (cases "pi_epic x \<and> orElse (pi_checks x) [] \<noteq> []")
      case False
      show ?thesis
        unfolding if_not_P[OF False]
      proof (rule andThen_only, goal_cases)
        case 1
        then show ?case using create[OF \<open>own db = (Inr u, d)\<close>] by (metis prod.collapse)
      next
        case (2 t d')
        then show ?case using create[OF \<open>own db = (Inr u, d)\<close> 2(1)] by (auto intro!: andThen_only file_checks_only)
      qed
    qed simp
  qed
qed

lemma updatePlanTask_only: "plan_only plan db (snd (updatePlanTask lost plan i p db))"
proof -
  define upd where "upd = (if pp_title p \<noteq> None \<or> pp_description p \<noteq> None \<or> pp_priority p \<noteq> None
         then answers (\<lambda>db. call_update taskLifecycle PLANNER i (plan_patch p) None db db)
         else andThen (reads (\<lambda>db. tasks_get db i)) (\<lambda>(t, _, _). returns t))"
  have u: "plan_only plan d (snd (upd d))" if "mine plan d i" for d
  proof -
    have "plan_only plan d (snd (andThen (reads (\<lambda>db. tasks_get db i)) (\<lambda>(t, _, _). returns t) d))" by (intro andThen_only) (auto split: prod.split)
    then show ?thesis using update_only[OF that] by (simp add: upd_def)
  qed
  show ?thesis
    unfolding updatePlanTask_def upd_def[symmetric]
    by (intro andThen_only) (auto intro!: andThen_only u checks_only split: option.split dest: inPlan_mine still_mine)
qed

lemma plan_write_only: "plan_only plan db (plan_write plan cmd db)"
proof (cases cmd)
  case (PlanDelete i)
  then show ?thesis by (auto simp: deletePlanTask_def intro!: andThen_only delete_only dest: inPlan_mine)
next
  case (PlanDepAdd x y)
  have "plan_only plan db (snd (addPlanDep plan x y db))"
    unfolding addPlanDep_def
    by (intro andThen_only) (auto intro!: dep_add_only dest: inPlan_mine still_mine split: prod.split)
  then show ?thesis using PlanDepAdd by simp
next
  case (PlanDepRemove x y)
  then show ?thesis by (auto simp: removePlanDep_def intro!: andThen_only dep_remove_only dest: inPlan_mine)
qed (simp_all add: addPlanTask_only updatePlanTask_only)


subsection \<open>Every command keeps the invariant\<close>

definition safe :: "'a run \<Rightarrow> bool" where
  "safe f \<longleftrightarrow> (\<forall>db. wf taskLifecycle db \<longrightarrow> wf taskLifecycle (snd (f db)))"

lemma safe_andThen: "safe f \<Longrightarrow> (\<And>x. safe (g x)) \<Longrightarrow> safe (andThen f g)"
  by (fastforce simp: safe_def andThen_def split: prod.split sum.split)

lemma safe_orCatch: "safe f \<Longrightarrow> (\<And>e. safe (h e)) \<Longrightarrow> safe (orCatch f h)"
  by (fastforce simp: safe_def orCatch_def split: prod.split sum.split)

lemma safe_simps [simp]: "safe (returns x)" "safe (fails_with e)" "safe (reads r)"
  by (simp_all add: safe_def returns_def fails_with_def reads_def)

lemma wf_caller_only: "wf taskLifecycle (db\<lparr>d_caller := c\<rparr>) = wf taskLifecycle db"
  by (simp add: wf_def)

lemma safe_exec:
  assumes "\<And>db. rows_after (f db) = exec taskLifecycle [] (\<lambda>_. JNull) a op db"
  shows "safe (answers f)" and "safe (engine (\<lambda>db. rows_after (f db)))"
proof -
  have e: "wf taskLifecycle db'" if "wf taskLifecycle db" "rows_after (f db) = Inr db'" for db db'
    using exec_wf[OF taskLifecycle_sound that(1)] that(2) assms by metis
  show "safe (engine (\<lambda>db. rows_after (f db)))" using e by (auto simp: safe_def engine_def split: sum.split)
  show "safe (answers f)" using e by (auto simp: safe_def answers_def rows_after_def split: sum.split)
qed

lemma safe_writes:
  "safe (answers (\<lambda>db. call_create taskLifecycle PLANNER t rand None db db))" "safe (answers (\<lambda>db. call_update taskLifecycle PLANNER i p None db db))"
  "safe (delete_planned i)" "safe (engine (\<lambda>db. rows_after (call_dep_add taskLifecycle PLANNER i j None db db)))"
  "safe (engine (\<lambda>db. rows_after (call_dep_remove taskLifecycle PLANNER i j None db db)))" "safe (writeChecks lost i checks replace)"
  using safe_exec[of "\<lambda>db. call_create taskLifecycle PLANNER t rand None db db" PLANNER "TaskCreate t rand None"]
    safe_exec[of "\<lambda>db. call_update taskLifecycle PLANNER i p None db db" PLANNER "TaskUpdate i p None"]
    safe_exec[of "\<lambda>db. call_delete taskLifecycle PLANNER i None db db" PLANNER "TaskDelete i None"]
    safe_exec[of "\<lambda>db. call_dep_add taskLifecycle PLANNER i j None db db" PLANNER "DepAdd i j None"]
    safe_exec[of "\<lambda>db. call_dep_remove taskLifecycle PLANNER i j None db db" PLANNER "DepRemove i j None"]
  by (simp_all add: delete_planned_def) (auto simp: safe_def writeChecks_def Let_def wf_caller_only split: option.split)

lemma safe_inPlan [simp]: "safe (inPlan plan i)"
  unfolding inPlan_def by (rule safe_andThen) (auto split: prod.split)

lemma plan_write_wf: "wf taskLifecycle db \<Longrightarrow> wf taskLifecycle (plan_write plan cmd db)"
proof -
  assume w: "wf taskLifecycle db"
  have "safe (addPlanTask lost rand plan x)" for lost rand x
    by (auto simp: addPlanTask_def file_checks_def Let_def intro!: safe_andThen safe_orCatch safe_writes split: option.split)
  moreover have "safe (updatePlanTask lost plan i p)" for lost i p
    by (auto simp: updatePlanTask_def intro!: safe_andThen safe_writes split: option.split prod.split)
  moreover have "safe (deletePlanTask plan i)" for i by (auto simp: deletePlanTask_def intro!: safe_andThen safe_writes)
  moreover have "safe (addPlanDep plan x y)" for x y by (auto simp: addPlanDep_def intro!: safe_andThen safe_writes split: prod.split)
  moreover have "safe (removePlanDep plan x y)" for x y by (auto simp: removePlanDep_def intro!: safe_andThen safe_writes)
  ultimately show ?thesis using w by (cases cmd) (auto simp: safe_def)
qed

text \<open>
  C39: Whatever commands a planning session runs, in any order and however they answer, its plan's proposals are all it
  changes: a task that is another plan's or approved keeps its row, its acceptance checks and its dependencies on such tasks;
  what it files is proposed in its plan, and what it leaves of its plan is proposed still; no plan is approved or discarded, no
  attempt and no evidence is touched; and the engine's invariant holds. (Nothing is written between a command's read of its
  task and its writes: a plan approved just then is refused by the engine's own checks, but not by the write of the
  acceptance checks.)
\<close>

theorem planning_stays_in_plan:
  assumes "wf taskLifecycle db"
  shows "wf taskLifecycle (plan_session plan cmds db) \<and> plan_only plan db (plan_session plan cmds db)"
  using assms
proof (induction cmds arbitrary: db)
  case (Cons cmd cmds)
  have "plan_session plan (cmd # cmds) db = plan_session plan cmds (plan_write plan cmd db)" by (simp add: plan_session_def)
  then show ?case
    using Cons.IH[OF plan_write_wf[OF Cons.prems, of plan cmd]] plan_only_trans[OF plan_write_only[of plan db cmd]] by simp
qed (simp add: plan_session_def)

text \<open>A session files a task with a check under its plan's epic, makes it wait, and edits another.\<close>

definition demo_session :: "plan_command list" where
  "demo_session = [
     PlanAdd None (\<lambda>_. 1) \<lparr>pi_title = ''docs'', pi_description = None, pi_parent = Some ''k-111'', pi_priority = None, pi_epic = False,
       pi_category = None, pi_checks = Some [(''a build'', ''it runs'', ''the docs are there'')]\<rparr>,
     PlanDepAdd ''k-111.3'' ''k-111.2'',
     PlanUpdate None ''k-111.1'' \<lparr>pp_title = Some ''api v2'', pp_description = None, pp_priority = None, pp_checks = None\<rparr>]"

theorem planning_stays_in_plan_witness:
  "let db' = plan_session ''k-plan-111'' demo_session (at_step 5) in
     wf taskLifecycle db' \<and> plan_only ''k-plan-111'' (at_step 5) db' \<and> map t_title (d_tasks db') = [''epic'', ''api v2'', ''ui'', ''docs''] \<and>
     length (sr_checks (d_caller db')) = 1"
proof -
  have "map t_title (d_tasks (plan_session ''k-plan-111'' demo_session (at_step 5))) = [''epic'', ''api v2'', ''ui'', ''docs''] \<and>
      length (sr_checks (d_caller (plan_session ''k-plan-111'' demo_session (at_step 5)))) = 1" by code_simp
  then show ?thesis unfolding Let_def using planning_stays_in_plan[OF at_wf, of "''k-plan-111''" demo_session 5] by blast
qed

end
