(* ===== verification/Spec2Isabelle.thy ===== *)
theory Spec2Isabelle
  imports EngineProperties GraphProperties PlanProperties CallProperties PolicyProperties WorkerProperties RoundProperties
    StoreProperties CancelProperties BundleProperties UpgradeProperties DrainProperties AccountingProperties
    HoldProperties EpicsProperties FilingProperties
begin

text \<open>
  A verification development for Shreni, an engine that schedules work for coding agents. Its core is
  the task graph engine (src/src/taskgraph): the tasks of a project, their plans, dependencies,
  containers, leases and event log, kept in Postgres and changed only through an actor's handle, along
  the moves a declared lifecycle allows. The policy layer (src/src/policy) supplies the lifecycle and its
  guards; the orchestrator (src/src/sthapathi) drives work through both.

  Theories, from the bottom up, and the code each models:
  \<^item> Prelude: errors as sums, rows updated by key, the reachability that recursive SQL queries compute,
    decimal text and JSON values.
  \<^item> Model: the rows (types.ts, the tables of migrations/0001-core.ts), typed errors (errors.ts), the event
    write (events.ts) and a transaction: a body on the rows whose events are written last (tx.ts). One
    \<open>db\<close> value holds one project's rows.
  \<^item> Lifecycle: the declared lifecycle, its shape and every registration rule (lifecycle.ts), permissions
    (permissions.ts).
  \<^item> Graph: ready work, containers, children and dependents (ready.ts, containers.ts), the invariant
    \<open>wf\<close> of a project's rows, and how each kind of row change keeps it.
  \<^item> Ids, Tasks, Deps, Moves, Reads, Claims, Validators, Plans: one theory per file of the engine with the
    same name; each proves that its operations keep \<open>wf\<close> and what they do.
  \<^item> Retry: the bounded retry loop as a locale, interpreted for the transaction runner (tx.ts) and for
    agent calls (src/src/sthapathi/retry.ts).
  \<^item> Requests: writes that act once per request id (requests.ts, the calls of client.ts).
  \<^item> Engine: the engine under one version of the lifecycle: the writes of a handle but the activation, the lease sweep, the
    clock and the caller's own rows as a step relation; invariants by rule induction over it (locales
    \<open>transition_system\<close> and \<open>inductive_invariant\<close>, interpreted on it).
  \<^item> Upgrade: registering a lifecycle version, what activating one would change, and the activation
    (taskgraph/upgrade.ts, the stored form of lifecycle.ts); Activation: what an activation does to each row.
  \<^item> Versions: the whole engine: a table of registered versions, processes that each run one, and every write of a handle,
    activations included; its invariant, and where a task can be carried.
  \<^item> Board: the abstract specification of a project's tasks, a board on which tasks are filed, moved along one move,
    dropped, and all carried to another version, which the engine refines (locale \<open>refinement\<close>).
  \<^item> Policy: Shreni's lifecycle and its guards (policy/lifecycle).
  \<^item> Transitions: step systems and their inductive invariants, as locales; Retry: the retry loop, as one.
  \<^item> WorkerState: the worker's state slices (kshetra/state.ts), the handling of a failed cycle (errors.ts), the
    watchdog (watchdog.ts) and the trigger of a self-heal (self-heal.ts).
  \<^item> Scheduler: the phase machine (sthapathi/lifecycle.ts), a cycle and the polling loop (sthapathi/index.ts),
    the loop as a step relation over everything that can happen to it.
  \<^item> Followup: feedback on an open pull request, the bounded rounds over it and a run's side effects in order
    (pr-followup.ts, pr-followup-loop.ts, pr-followup-run.ts).
  \<^item> Toolchain: the commands of a Kshetra's gates and the defaults of its language (kshetra/toolchain.ts).
  \<^item> Gates: the quality gates, the health of the suite with its cache, lint and ablations (gates.ts, health.ts,
    lint.ts, coverage-summary.ts, kshetra/ablation.ts).
  \<^item> Dispatch: the rounds of Silpi and Viharapala over a task, the repair of a red suite, and the branch
    guard (dispatch.ts, guard.ts).
  \<^item> Merge: branches, the squash merge, the pull request and the reconciliation of open ones (merge.ts, branch.ts,
    task-json.ts), as calls that may fail one after another.
  \<^item> Store: the task store under the merge and the follow-up (policy/sthapathi/task-store.ts); ByHand: working a task
    by hand (policy/task/by-hand.ts); both as engine calls, one transaction after another.
  \<^item> Paths: walks up a task's parents and how long they can be. Bundle: import, export and purge of a whole project
    (taskgraph/bundle.ts); BundleChecks: each of an import's checks as a condition on the bundle, and the rows it writes.
  \<^item> Tracker: the tasks as the rows the command line and the dashboard read, in beads' words (policy/sthapathi/reads.ts,
    pickup.ts). Drain: the run of the worker that ends by itself, its exit code and why each task was left (cli/drain.ts,
    cli/drain-classify.ts).
  \<^item> Accounting: the price of a run, the spend and its caps, the ledger of decisions and the fan-out of events (src/src/ext,
    activity-log.ts). Runner: an agent's run over its attempts, metered (agents/runner.ts).
  \<^item> Worker: who owns a Kshetra (cli/pid.ts), held claims and outages (policy/sthapathi/leases.ts) and the scheduler's hooks
    on the engine (policy/sthapathi/hooks.ts).
  \<^item> Epics: epics settled pass by pass (policy/sthapathi/epics.ts). Filing: the writes of a planning session and the
    developer's menu (policy/suthradhara/filing.ts).
  \<^item> Scenarios: a small project, run call by call, on which the witnesses stand.
  \<^item> EngineProperties, GraphProperties, PlanProperties, CallProperties, PolicyProperties, WorkerProperties,
    RoundProperties, StoreProperties, CancelProperties, BundleProperties, UpgradeProperties, DrainProperties, AccountingProperties,
    HoldProperties, EpicsProperties, FilingProperties: the properties.

  A condition on lifecycles. Registration does not refuse a lifecycle whose claim move is an expiry hook too, and the lease
  sweep then leaves a task leased with no lease (\<open>claim_as_expiry_strands_a_task\<close>). The properties that need every leased task
  to have a lease assume that no registered version is such (\<open>claims_apart\<close>, \<open>sound_lifecycle\<close>), and say so.

  Bounds and fuel. The search for a cycle (\<open>findCycle\<close>) and the order of a discard
  (\<open>cancelOrder\<close>) recurse with fuel: twice the number of edges, and the number of tasks; the properties of both
  state that the results are complete, so the fuel is enough. Reachability iterates as many rounds as
  there are rows. A draw of an id makes at most twenty tries, a transaction at most four runs, as the code.

  The orchestrator's loops need no fuel of their own: the rounds of a task and of a pull request recurse on the
  rounds left of the configured budget. A drain's loop and its wait for work in flight are partial functions, and so is the
  walk over an epic's children; that they end is proved.

  How the code's effects appear. Each transaction is one atomic body; Postgres's locks and isolation are
  not modelled, except that the queries that skip locked rows take the list of ids other transactions
  hold. The database clock is a field of the rows that only the clock's step advances; times are in
  milliseconds. Random draws and generated uuids are inputs. Text is compared by code unit. The guards and a caller's validators are functions
  that read the rows. A JavaScript error is a value of
  \<open>tg_error\<close>; zod's wording of a malformed input is not modelled, only that it is refused. What the orchestrator does outside the database (notes,
  pushes, replies, notices, phase events) is a list of effects in the order the code makes them; what agents, git,
  GitHub and commands answer is an argument, and so is which of these calls, reads of the database and writes of files throw. Characters outside ASCII in a message appear as look-alikes.

  Not steps of the engine: the import and the purge of a whole project, which make and remove one (\<open>Bundle\<close>), and writes
  that reach its tables without it. Held to be atomic: the lock on a worker's pid file.

  Not modelled, and why: the SQL dialect, sessions and notifications (network input and output), full
  text search (its ranking is Postgres's), git, GitHub and agent processes, terminal and web rendering.
\<close>

end
